(* ===== verification/Prelude.thy ===== *)
theory Prelude
  imports Main "HOL-Library.Word"
begin

section \<open>Rust values, results and slices\<close>

text \<open>
  What the other theories share: the machine integers of Rust as words of their width, the
  checked and saturating operations of the standard library on them, the outcome of a Rust
  function that may return an error or panic, and the slice operations of \<open>Vec\<close> and \<open>[T]\<close>.
  The target is a 64 bit platform: \<open>usize\<close> is a 64 bit word, and a conversion from \<open>u64\<close> to
  \<open>usize\<close> never fails. Lengths of lists are natural numbers; they become words where the source
  stores them in a machine integer.
\<close>

type_synonym u8 = "8 word"
type_synonym u16 = "16 word"
type_synonym u32 = "32 word"
type_synonym u64 = "64 word"
type_synonym u128 = "128 word"
type_synonym usize = "64 word"

text \<open>Facts that unfold the primitive operations below to arithmetic on natural numbers.\<close>

named_theorems rust_arith
named_theorems slice_simps

subsection \<open>Outcomes\<close>

text \<open>
  A Rust function of type \<open>Result<T, E>\<close> returns \<open>Ok\<close> or \<open>Err\<close>, or panics: a failed
  \<open>assert!\<close>, an \<open>unreachable!\<close> that is reached, an index out of bounds.
\<close>

datatype ('e, 'a) res = Ok 'a | Err 'e | Panic

fun is_ok :: "('e, 'a) res \<Rightarrow> bool" where
  "is_ok (Ok _) = True"
| "is_ok (Err _) = False"
| "is_ok Panic = False"

lemma is_ok_iff: "is_ok r \<longleftrightarrow> (\<exists>x. r = Ok x)"
  by (cases r) simp_all

fun ok_or :: "'e \<Rightarrow> 'a option \<Rightarrow> ('e, 'a) res" where
  "ok_or e None = Err e"
| "ok_or e (Some x) = Ok x"

fun map_err :: "('e \<Rightarrow> 'f) \<Rightarrow> ('e, 'a) res \<Rightarrow> ('f, 'a) res" where
  "map_err f (Ok x) = Ok x"
| "map_err f (Err e) = Err (f e)"
| "map_err f Panic = Panic"

lemma ok_or_eq_Ok [simp]: "ok_or e x = Ok y \<longleftrightarrow> x = Some y"
  by (cases x) simp_all

lemma ok_or_eq_Err [simp]: "ok_or e x = Err e' \<longleftrightarrow> x = None \<and> e = e'"
  by (cases x) simp_all

lemma ok_or_neq_Panic [simp]: "ok_or e x \<noteq> Panic"
  by (cases x) simp_all

subsection \<open>Machine integers\<close>

definition checked_add :: "'a::len word \<Rightarrow> 'a word \<Rightarrow> 'a word option" where
  "checked_add a b = (if unat a + unat b < 2 ^ LENGTH('a) then Some (a + b) else None)"

definition checked_sub :: "'a::len word \<Rightarrow> 'a word \<Rightarrow> 'a word option" where
  "checked_sub a b = (if b \<le> a then Some (a - b) else None)"

definition checked_mul :: "'a::len word \<Rightarrow> 'a word \<Rightarrow> 'a word option" where
  "checked_mul a b = (if unat a * unat b < 2 ^ LENGTH('a) then Some (a * b) else None)"

definition saturating_add :: "'a::len word \<Rightarrow> 'a word \<Rightarrow> 'a word" where
  "saturating_add a b = (case checked_add a b of Some c \<Rightarrow> c | None \<Rightarrow> - 1)"

definition saturating_sub :: "'a::len word \<Rightarrow> 'a word \<Rightarrow> 'a word" where
  "saturating_sub a b = (if b \<le> a then a - b else 0)"

definition saturating_mul :: "'a::len word \<Rightarrow> 'a word \<Rightarrow> 'a word" where
  "saturating_mul a b = (case checked_mul a b of Some c \<Rightarrow> c | None \<Rightarrow> - 1)"

text \<open>\<open>try_from\<close> between unsigned types, and the \<open>as\<close> cast that keeps the low bits.\<close>

definition try_from :: "'a::len word \<Rightarrow> 'b::len word option" where
  "try_from x = (if unat x < 2 ^ LENGTH('b) then Some (ucast x) else None)"

lemma checked_add_Some [rust_arith]:
  fixes a b c :: "'a::len word"
  shows "checked_add a b = Some c \<longleftrightarrow> unat c = unat a + unat b"
  by (auto simp: checked_add_def unat_word_ariths word_unat_eq_iff) (metis unsigned_less)

lemma checked_add_None [rust_arith]:
  fixes a b :: "'a::len word"
  shows "checked_add a b = None \<longleftrightarrow> 2 ^ LENGTH('a) \<le> unat a + unat b"
  by (auto simp: checked_add_def)

lemma checked_sub_Some [rust_arith]:
  "checked_sub a b = Some c \<longleftrightarrow> unat a = unat b + unat c"
  by (auto simp: checked_sub_def word_le_nat_alt word_unat_eq_iff unat_sub_if')

lemma checked_sub_None [rust_arith]: "checked_sub a b = None \<longleftrightarrow> unat a < unat b"
  by (auto simp: checked_sub_def word_le_nat_alt)

lemma checked_mul_Some [rust_arith]:
  fixes a b c :: "'a::len word"
  shows "checked_mul a b = Some c \<longleftrightarrow> unat c = unat a * unat b"
  by (auto simp: checked_mul_def unat_word_ariths word_unat_eq_iff) (metis unsigned_less)

lemma checked_mul_None [rust_arith]:
  fixes a b :: "'a::len word"
  shows "checked_mul a b = None \<longleftrightarrow> 2 ^ LENGTH('a) \<le> unat a * unat b"
  by (auto simp: checked_mul_def)

lemma unat_max_word: "unat (- 1 :: 'a::len word) = 2 ^ LENGTH('a) - 1"
  by (simp add: unsigned_minus_1_eq_mask mask_eq_exp_minus_1)

lemma unat_saturating_mul:
  fixes a b :: "'a::len word"
  shows "unat (saturating_mul a b) = min (unat a * unat b) (2 ^ LENGTH('a) - 1)"
proof (cases "checked_mul a b")
  case None
  then have "2 ^ LENGTH('a) \<le> unat a * unat b" by (simp add: rust_arith)
  moreover have "saturating_mul a b = - 1" using None by (simp add: saturating_mul_def)
  ultimately show ?thesis by (simp add: unat_max_word)
next
  case (Some c)
  then have "saturating_mul a b = c" by (simp add: saturating_mul_def)
  moreover from Some have c: "unat c = unat a * unat b" by (simp add: checked_mul_Some)
  moreover have "unat a * unat b < 2 ^ LENGTH('a)" using c by (metis unsigned_less)
  ultimately show ?thesis by simp
qed

lemma try_from_Some [rust_arith]:
  fixes x :: "'a::len word" and y :: "'b::len word"
  shows "try_from x = Some y \<longleftrightarrow> unat y = unat x"
  by (auto simp: try_from_def unsigned_ucast_eq take_bit_nat_eq_self word_unat_eq_iff)
    (metis unsigned_less)

lemma try_from_None [rust_arith]:
  fixes x :: "'a::len word"
  shows "(try_from x :: 'b::len word option) = None \<longleftrightarrow> 2 ^ LENGTH('b) \<le> unat x"
  by (auto simp: try_from_def)

lemma try_from_same [simp]: "try_from x = Some x"
  by (simp add: try_from_Some)

subsection \<open>Shifts\<close>

text \<open>The operators \<open><<\<close> and \<open>>>\<close> on unsigned integers: the shift amount is taken modulo the width.\<close>

definition shl :: "'a::len word \<Rightarrow> nat \<Rightarrow> 'a word" where
  "shl x n = push_bit (n mod LENGTH('a)) x"

definition shr :: "'a::len word \<Rightarrow> nat \<Rightarrow> 'a word" where
  "shr x n = drop_bit (n mod LENGTH('a)) x"

lemma unat_shl:
  fixes x :: "'a::len word"
  shows "n < LENGTH('a) \<Longrightarrow> unat x * 2 ^ n < 2 ^ LENGTH('a) \<Longrightarrow> unat (shl x n) = unat x * 2 ^ n"
  using unsigned_push_bit_eq [where ?'a = nat, of n x]
  by (simp add: shl_def take_bit_nat_eq_self push_bit_eq_mult)

lemma unat_shr: "unat (shr x n) = unat x div 2 ^ (n mod LENGTH('a))" for x :: "'a::len word"
  using unsigned_drop_bit_eq [where ?'a = nat, of "n mod LENGTH('a)" x]
  by (simp add: shr_def drop_bit_eq_div take_bit_nat_eq_self)

subsection \<open>Growing a vector\<close>

text \<open>
  \<open>Vec::try_reserve\<close> for elements of \<open>elem\<close> bytes: the capacity after the call, or \<open>None\<close> if the
  capacity overflows \<open>isize::MAX\<close> bytes or the system allocator, the parameter \<open>alloc\<close>, does not
  grant a block of the required number of bytes. The growth is amortized as in \<open>RawVec\<close>.
\<close>

type_synonym allocator = "nat \<Rightarrow> bool"

definition isize_max :: nat where "isize_max = 2 ^ 63 - 1"

definition min_non_zero_cap :: "nat \<Rightarrow> nat" where
  "min_non_zero_cap elem = (if elem = 1 then 8 else if elem \<le> 1024 then 4 else 1)"

definition try_reserve :: "allocator \<Rightarrow> nat \<Rightarrow> nat \<Rightarrow> nat \<Rightarrow> nat \<Rightarrow> nat option" where
  "try_reserve alloc elem len cap additional =
     (if additional \<le> cap - len then Some cap
      else let cap' = max (min_non_zero_cap elem) (max (2 * cap) (len + additional)) in
        if elem * cap' \<le> isize_max \<and> alloc (elem * cap') then Some cap' else None)"

lemma try_reserve_Some:
  "try_reserve alloc elem len cap additional = Some cap' \<Longrightarrow> len \<le> cap \<Longrightarrow>
   elem * cap \<le> isize_max \<Longrightarrow> len + additional \<le> cap' \<and> elem * cap' \<le> isize_max"
  by (auto simp: try_reserve_def Let_def split: if_splits)

subsection \<open>Slices\<close>

text \<open>\<open>xs.get(i)\<close>, \<open>xs.get(i..)\<close>, \<open>xs.get(..n)\<close> and \<open>xs.get(a..b)\<close>.\<close>

definition get_opt :: "'a list \<Rightarrow> nat \<Rightarrow> 'a option" where
  "get_opt xs i = (if i < length xs then Some (xs ! i) else None)"

definition slice_from :: "'a list \<Rightarrow> nat \<Rightarrow> 'a list option" where
  "slice_from xs i = (if i \<le> length xs then Some (drop i xs) else None)"

definition slice_to :: "'a list \<Rightarrow> nat \<Rightarrow> 'a list option" where
  "slice_to xs n = (if n \<le> length xs then Some (take n xs) else None)"

definition slice_range :: "'a list \<Rightarrow> nat \<Rightarrow> nat \<Rightarrow> 'a list option" where
  "slice_range xs a b = (if a \<le> b \<and> b \<le> length xs then Some (drop a (take b xs)) else None)"

text \<open>Overwriting \<open>xs[at..at + ys.len()]\<close> with \<open>ys\<close>, the range being in bounds.\<close>

definition overwrite :: "'a list \<Rightarrow> nat \<Rightarrow> 'a list \<Rightarrow> 'a list" where
  "overwrite xs at ys = take at xs @ ys @ drop (at + length ys) xs"

lemma get_opt_Some [simp]: "get_opt xs i = Some x \<longleftrightarrow> i < length xs \<and> xs ! i = x"
  by (simp add: get_opt_def)

lemma get_opt_None [simp]: "get_opt xs i = None \<longleftrightarrow> length xs \<le> i"
  by (simp add: get_opt_def)

lemma bind_slice_from_to [slice_simps]:
  "Option.bind (slice_from xs i) (\<lambda>ys. slice_to ys n) =
     (if i + n \<le> length xs then Some (take n (drop i xs)) else None)"
  by (auto simp: slice_from_def slice_to_def)

lemma slice_range_add [slice_simps]:
  "slice_range xs a (a + n) = (if a + n \<le> length xs then Some (take n (drop a xs)) else None)"
  by (auto simp: slice_range_def drop_take)

lemma length_overwrite [simp]: "at + length ys \<le> length xs \<Longrightarrow> length (overwrite xs at ys) = length xs"
  by (simp add: overwrite_def)

lemma overwrite_Nil [simp]: "overwrite xs at [] = xs"
  by (simp add: overwrite_def)

lemma take_drop_overwrite [simp]:
  "at + length ys \<le> length xs \<Longrightarrow> take (length ys) (drop at (overwrite xs at ys)) = ys"
  by (simp add: overwrite_def)

lemma nth_overwrite:
  "at + length ys \<le> length xs \<Longrightarrow> i < length xs \<Longrightarrow>
   overwrite xs at ys ! i = (if at \<le> i \<and> i < at + length ys then ys ! (i - at) else xs ! i)"
  by (auto simp: overwrite_def nth_append min_def)

lemma overwrite_overwrite_same:
  "at + length ys \<le> length xs \<Longrightarrow> length zs = length ys \<Longrightarrow>
   overwrite (overwrite xs at ys) at zs = overwrite xs at zs"
  by (rule nth_equalityI) (auto simp: nth_overwrite)

subsection \<open>Element-wise copies\<close>

text \<open>
  Copying \<open>n\<close> elements within one list, one element at a time: from the first to the last, and from
  the last to the first. Where the regions overlap, only one of the orders keeps the source intact.
\<close>

fun copy_forward :: "'a list \<Rightarrow> nat \<Rightarrow> nat \<Rightarrow> nat \<Rightarrow> 'a list" where
  "copy_forward xs d s 0 = xs"
| "copy_forward xs d s (Suc n) = copy_forward (xs[d := xs ! s]) (Suc d) (Suc s) n"

fun copy_backward :: "'a list \<Rightarrow> nat \<Rightarrow> nat \<Rightarrow> nat \<Rightarrow> 'a list" where
  "copy_backward xs d s 0 = xs"
| "copy_backward xs d s (Suc n) = copy_backward (xs[d + n := xs ! (s + n)]) d s n"

lemma length_copy_forward [simp]: "length (copy_forward xs d s n) = length xs"
  by (induction xs d s n rule: copy_forward.induct) simp_all

lemma length_copy_backward [simp]: "length (copy_backward xs d s n) = length xs"
  by (induction xs d s n rule: copy_backward.induct) simp_all

lemma nth_copy_forward:
  assumes "d \<le> s" "s + n \<le> length xs" "i < length xs"
  shows "copy_forward xs d s n ! i = (if d \<le> i \<and> i < d + n then xs ! (s + (i - d)) else xs ! i)"
  using assms
proof (induction xs d s n rule: copy_forward.induct)
  case (2 xs d s n)
  then have "copy_forward xs d s (Suc n) ! i =
      (if Suc d \<le> i \<and> i < Suc d + n then xs[d := xs ! s] ! (Suc s + (i - Suc d)) else xs[d := xs ! s] ! i)"
    by simp
  with 2(2-) show ?case by (auto simp: nth_list_update Suc_diff_Suc)
qed auto

lemma nth_copy_backward:
  assumes "s \<le> d" "d + n \<le> length xs" "i < length xs"
  shows "copy_backward xs d s n ! i = (if d \<le> i \<and> i < d + n then xs ! (s + (i - d)) else xs ! i)"
  using assms
proof (induction xs d s n rule: copy_backward.induct)
  case (2 xs d s n)
  then have "copy_backward xs d s (Suc n) ! i =
      (if d \<le> i \<and> i < d + n then xs[d + n := xs ! (s + n)] ! (s + (i - d)) else xs[d + n := xs ! (s + n)] ! i)"
    by simp
  with 2(2-) show ?case by (auto simp: nth_list_update)
qed auto

lemma copy_forward_overwrite:
  "d \<le> s \<Longrightarrow> s + n \<le> length xs \<Longrightarrow> copy_forward xs d s n = overwrite xs d (take n (drop s xs))"
  by (rule nth_equalityI) (auto simp: nth_copy_forward nth_overwrite)

lemma copy_backward_overwrite:
  "s \<le> d \<Longrightarrow> d + n \<le> length xs \<Longrightarrow> copy_backward xs d s n = overwrite xs d (take n (drop s xs))"
  by (rule nth_equalityI) (auto simp: nth_copy_backward nth_overwrite)

end
