(* ===== verification/Traps.thy ===== *)
theory Traps
  imports Prelude
begin

section \<open>Traps (crates/core/src/trap.rs)\<close>

text \<open>
  The trap codes with their byte discriminants, the conversions between both, and the reasons of a
  trap. A host error is a value of the type parameter \<open>'h\<close>.
\<close>

datatype trap_code =
  TrapUnreachableCodeReached
| TrapMemoryOutOfBounds
| TrapTableOutOfBounds
| TrapIndirectCallToNull
| TrapIntegerDivisionByZero
| TrapIntegerOverflow
| TrapBadConversionToInteger
| TrapStackOverflow
| TrapBadSignature
| TrapOutOfFuel
| TrapGrowthOperationLimited
| TrapOutOfSystemMemory

datatype invalid_trap_code = InvalidTrapCode

fun u8_of_trap_code :: "trap_code \<Rightarrow> u8" where
  "u8_of_trap_code TrapUnreachableCodeReached = 1"
| "u8_of_trap_code TrapMemoryOutOfBounds = 2"
| "u8_of_trap_code TrapTableOutOfBounds = 3"
| "u8_of_trap_code TrapIndirectCallToNull = 4"
| "u8_of_trap_code TrapIntegerDivisionByZero = 5"
| "u8_of_trap_code TrapIntegerOverflow = 6"
| "u8_of_trap_code TrapBadConversionToInteger = 7"
| "u8_of_trap_code TrapStackOverflow = 8"
| "u8_of_trap_code TrapBadSignature = 9"
| "u8_of_trap_code TrapOutOfFuel = 10"
| "u8_of_trap_code TrapGrowthOperationLimited = 11"
| "u8_of_trap_code TrapOutOfSystemMemory = 12"

definition trap_code_try_from :: "u8 \<Rightarrow> (invalid_trap_code, trap_code) res" where
  "trap_code_try_from v =
     (if v = 1 then Ok TrapUnreachableCodeReached
      else if v = 2 then Ok TrapMemoryOutOfBounds
      else if v = 3 then Ok TrapTableOutOfBounds
      else if v = 4 then Ok TrapIndirectCallToNull
      else if v = 5 then Ok TrapIntegerDivisionByZero
      else if v = 6 then Ok TrapIntegerOverflow
      else if v = 7 then Ok TrapBadConversionToInteger
      else if v = 8 then Ok TrapStackOverflow
      else if v = 9 then Ok TrapBadSignature
      else if v = 10 then Ok TrapOutOfFuel
      else if v = 11 then Ok TrapGrowthOperationLimited
      else if v = 12 then Ok TrapOutOfSystemMemory
      else Err InvalidTrapCode)"

datatype 'h trap_reason =
  InstructionTrap trap_code
| I32Exit "32 word"
| Message string
| Host 'h

record 'h trap =
  reason :: "'h trap_reason"

definition trap_with_reason :: "'h trap_reason \<Rightarrow> 'h trap" where
  "trap_with_reason r = \<lparr>reason = r\<rparr>"

definition trap_new :: "string \<Rightarrow> 'h trap" where
  "trap_new msg = trap_with_reason (Message msg)"

definition trap_i32_exit :: "32 word \<Rightarrow> 'h trap" where
  "trap_i32_exit status = trap_with_reason (I32Exit status)"

definition trap_from_code :: "trap_code \<Rightarrow> 'h trap" where
  "trap_from_code code = trap_with_reason (InstructionTrap code)"

definition trap_from_host :: "'h \<Rightarrow> 'h trap" where
  "trap_from_host h = trap_with_reason (Host h)"

fun reason_i32_exit_status :: "'h trap_reason \<Rightarrow> 32 word option" where
  "reason_i32_exit_status (I32Exit status) = Some status"
| "reason_i32_exit_status _ = None"

fun reason_as_host :: "'h trap_reason \<Rightarrow> 'h option" where
  "reason_as_host (Host h) = Some h"
| "reason_as_host _ = None"

fun reason_trap_code :: "'h trap_reason \<Rightarrow> trap_code option" where
  "reason_trap_code (InstructionTrap code) = Some code"
| "reason_trap_code _ = None"

definition i32_exit_status :: "'h trap \<Rightarrow> 32 word option" where
  "i32_exit_status t = reason_i32_exit_status (reason t)"

definition trap_code_of :: "'h trap \<Rightarrow> trap_code option" where
  "trap_code_of t = reason_trap_code (reason t)"

lemma trap_code_try_from_u8: "trap_code_try_from (u8_of_trap_code c) = Ok c"
  by (cases c) (simp_all add: trap_code_try_from_def)

lemma u8_of_trap_code_try_from: "trap_code_try_from v = Ok c \<Longrightarrow> u8_of_trap_code c = v"
  by (auto simp: trap_code_try_from_def split: if_splits)

lemma trap_code_try_from_zero: "trap_code_try_from 0 = Err InvalidTrapCode"
  by (simp add: trap_code_try_from_def)

text \<open>
  A byte decodes to a trap code exactly if it is the discriminant of that code, so encoding and
  decoding are inverse to each other; zero is not a discriminant, which leaves it free as the success
  state.
\<close>

theorem trap_code_roundtrip:
  "(trap_code_try_from v = Ok c \<longleftrightarrow> u8_of_trap_code c = v) \<and> u8_of_trap_code c \<noteq> 0"
  using trap_code_try_from_u8 [of c] u8_of_trap_code_try_from [of v c] trap_code_try_from_zero
  by auto

end
