(* ===== verification/Memory_Access.thy ===== *)
theory Memory_Access
  imports Traps
begin

unbundle bit_operations_syntax

section \<open>Loads and stores (crates/core/src/memory/access.rs, crates/core/src/wasm.rs)\<close>

text \<open>
  The load and store instructions on the bytes of a linear memory. A value of an \<open>n\<close> bit type is an
  \<open>n\<close> bit word, a float being its bits; \<open>to_le_bytes\<close> and \<open>from_le_bytes\<close> are the little endian
  conversions of the standard library. The narrow type of an extending load or a wrapping store is a
  type argument. The crate feature \<open>memory64\<close> is the boolean argument \<open>feature\<close>.
\<close>

definition to_le_bytes :: "'a::len word \<Rightarrow> u8 list" where
  "to_le_bytes v = map (\<lambda>i. ucast (drop_bit (8 * i) v)) [0..<LENGTH('a) div 8]"

fun from_le_bytes :: "u8 list \<Rightarrow> 'a::len word" where
  "from_le_bytes [] = 0"
| "from_le_bytes (b # bs) = ucast b OR push_bit 8 (from_le_bytes bs)"

definition load_into :: "nat \<Rightarrow> u8 list \<Rightarrow> usize \<Rightarrow> (trap_code, u8 list) res" where
  "load_into n memory address =
     ok_or TrapMemoryOutOfBounds
       (Option.bind (slice_from memory (unat address)) (\<lambda>s. slice_to s n))"

definition store_from :: "u8 list \<Rightarrow> u8 list \<Rightarrow> usize \<Rightarrow> (trap_code, unit) res \<times> u8 list" where
  "store_from bytes memory address =
     (case Option.bind (slice_from memory (unat address)) (\<lambda>s. slice_to s (length bytes)) of
        None \<Rightarrow> (Err TrapMemoryOutOfBounds, memory)
      | Some _ \<Rightarrow> (Ok (), overwrite memory (unat address) bytes))"

definition effective_address :: "bool \<Rightarrow> u64 \<Rightarrow> u64 \<Rightarrow> (trap_code, usize) res" where
  "effective_address feature ptr offset =
     (let ptr = (if feature then ptr else ucast (ucast ptr :: u32));
          offset = (if feature then offset else ucast (ucast offset :: u32))
      in ok_or TrapMemoryOutOfBounds (Option.bind (checked_add ptr offset) try_from))"

definition load_at :: "u8 list \<Rightarrow> usize \<Rightarrow> (trap_code, 'a::len word) res" where
  "load_at memory address =
     (case load_into (LENGTH('a) div 8) memory address of
        Ok bytes \<Rightarrow> Ok (from_le_bytes bytes) | Err e \<Rightarrow> Err e | Panic \<Rightarrow> Panic)"

definition load :: "bool \<Rightarrow> u8 list \<Rightarrow> u64 \<Rightarrow> u64 \<Rightarrow> (trap_code, 'a::len word) res" where
  "load feature memory ptr offset =
     (case effective_address feature ptr offset of
        Ok address \<Rightarrow> load_at memory address | Err e \<Rightarrow> Err e | Panic \<Rightarrow> Panic)"

definition load_extend_at_s :: "'u::len itself \<Rightarrow> u8 list \<Rightarrow> usize \<Rightarrow> (trap_code, 'a::len word) res" where
  "load_extend_at_s U memory address =
     (case load_at memory address :: (trap_code, 'u word) res of
        Ok v \<Rightarrow> Ok (scast v) | Err e \<Rightarrow> Err e | Panic \<Rightarrow> Panic)"

definition load_extend_at_u :: "'u::len itself \<Rightarrow> u8 list \<Rightarrow> usize \<Rightarrow> (trap_code, 'a::len word) res" where
  "load_extend_at_u U memory address =
     (case load_at memory address :: (trap_code, 'u word) res of
        Ok v \<Rightarrow> Ok (ucast v) | Err e \<Rightarrow> Err e | Panic \<Rightarrow> Panic)"

definition load_extend_s ::
  "'u::len itself \<Rightarrow> bool \<Rightarrow> u8 list \<Rightarrow> u64 \<Rightarrow> u64 \<Rightarrow> (trap_code, 'a::len word) res" where
  "load_extend_s U feature memory ptr offset =
     (case effective_address feature ptr offset of
        Ok address \<Rightarrow> load_extend_at_s U memory address | Err e \<Rightarrow> Err e | Panic \<Rightarrow> Panic)"

definition load_extend_u ::
  "'u::len itself \<Rightarrow> bool \<Rightarrow> u8 list \<Rightarrow> u64 \<Rightarrow> u64 \<Rightarrow> (trap_code, 'a::len word) res" where
  "load_extend_u U feature memory ptr offset =
     (case effective_address feature ptr offset of
        Ok address \<Rightarrow> load_extend_at_u U memory address | Err e \<Rightarrow> Err e | Panic \<Rightarrow> Panic)"

definition store_at :: "u8 list \<Rightarrow> usize \<Rightarrow> 'a::len word \<Rightarrow> (trap_code, unit) res \<times> u8 list" where
  "store_at memory address value = store_from (to_le_bytes value) memory address"

definition store :: "bool \<Rightarrow> u8 list \<Rightarrow> u64 \<Rightarrow> u64 \<Rightarrow> 'a::len word \<Rightarrow> (trap_code, unit) res \<times> u8 list" where
  "store feature memory ptr offset value =
     (case effective_address feature ptr offset of
        Ok address \<Rightarrow> store_at memory address value
      | Err e \<Rightarrow> (Err e, memory)
      | Panic \<Rightarrow> (Panic, memory))"

definition store_wrap_at ::
  "'u::len itself \<Rightarrow> u8 list \<Rightarrow> usize \<Rightarrow> 'a::len word \<Rightarrow> (trap_code, unit) res \<times> u8 list" where
  "store_wrap_at U memory address value = store_at memory address (ucast value :: 'u word)"

definition store_wrap ::
  "'u::len itself \<Rightarrow> bool \<Rightarrow> u8 list \<Rightarrow> u64 \<Rightarrow> u64 \<Rightarrow> 'a::len word \<Rightarrow> (trap_code, unit) res \<times> u8 list" where
  "store_wrap U feature memory ptr offset value =
     (case effective_address feature ptr offset of
        Ok address \<Rightarrow> store_wrap_at U memory address value
      | Err e \<Rightarrow> (Err e, memory)
      | Panic \<Rightarrow> (Panic, memory))"

subsection \<open>The instructions of wasm.rs\<close>

definition i32_load8_s :: "bool \<Rightarrow> u8 list \<Rightarrow> u64 \<Rightarrow> u64 \<Rightarrow> (trap_code, u32) res" where
  "i32_load8_s = load_extend_s TYPE(8)"

definition i32_load8_s_at :: "u8 list \<Rightarrow> usize \<Rightarrow> (trap_code, u32) res" where
  "i32_load8_s_at = load_extend_at_s TYPE(8)"

definition i32_load8_u :: "bool \<Rightarrow> u8 list \<Rightarrow> u64 \<Rightarrow> u64 \<Rightarrow> (trap_code, u32) res" where
  "i32_load8_u = load_extend_u TYPE(8)"

definition i32_load8_u_at :: "u8 list \<Rightarrow> usize \<Rightarrow> (trap_code, u32) res" where
  "i32_load8_u_at = load_extend_at_u TYPE(8)"

definition i32_load16_s :: "bool \<Rightarrow> u8 list \<Rightarrow> u64 \<Rightarrow> u64 \<Rightarrow> (trap_code, u32) res" where
  "i32_load16_s = load_extend_s TYPE(16)"

definition i32_load16_s_at :: "u8 list \<Rightarrow> usize \<Rightarrow> (trap_code, u32) res" where
  "i32_load16_s_at = load_extend_at_s TYPE(16)"

definition i32_load16_u :: "bool \<Rightarrow> u8 list \<Rightarrow> u64 \<Rightarrow> u64 \<Rightarrow> (trap_code, u32) res" where
  "i32_load16_u = load_extend_u TYPE(16)"

definition i32_load16_u_at :: "u8 list \<Rightarrow> usize \<Rightarrow> (trap_code, u32) res" where
  "i32_load16_u_at = load_extend_at_u TYPE(16)"

definition i64_load8_s :: "bool \<Rightarrow> u8 list \<Rightarrow> u64 \<Rightarrow> u64 \<Rightarrow> (trap_code, u64) res" where
  "i64_load8_s = load_extend_s TYPE(8)"

definition i64_load8_s_at :: "u8 list \<Rightarrow> usize \<Rightarrow> (trap_code, u64) res" where
  "i64_load8_s_at = load_extend_at_s TYPE(8)"

definition i64_load8_u :: "bool \<Rightarrow> u8 list \<Rightarrow> u64 \<Rightarrow> u64 \<Rightarrow> (trap_code, u64) res" where
  "i64_load8_u = load_extend_u TYPE(8)"

definition i64_load8_u_at :: "u8 list \<Rightarrow> usize \<Rightarrow> (trap_code, u64) res" where
  "i64_load8_u_at = load_extend_at_u TYPE(8)"

definition i64_load16_s :: "bool \<Rightarrow> u8 list \<Rightarrow> u64 \<Rightarrow> u64 \<Rightarrow> (trap_code, u64) res" where
  "i64_load16_s = load_extend_s TYPE(16)"

definition i64_load16_s_at :: "u8 list \<Rightarrow> usize \<Rightarrow> (trap_code, u64) res" where
  "i64_load16_s_at = load_extend_at_s TYPE(16)"

definition i64_load16_u :: "bool \<Rightarrow> u8 list \<Rightarrow> u64 \<Rightarrow> u64 \<Rightarrow> (trap_code, u64) res" where
  "i64_load16_u = load_extend_u TYPE(16)"

definition i64_load16_u_at :: "u8 list \<Rightarrow> usize \<Rightarrow> (trap_code, u64) res" where
  "i64_load16_u_at = load_extend_at_u TYPE(16)"

definition i64_load32_s :: "bool \<Rightarrow> u8 list \<Rightarrow> u64 \<Rightarrow> u64 \<Rightarrow> (trap_code, u64) res" where
  "i64_load32_s = load_extend_s TYPE(32)"

definition i64_load32_s_at :: "u8 list \<Rightarrow> usize \<Rightarrow> (trap_code, u64) res" where
  "i64_load32_s_at = load_extend_at_s TYPE(32)"

definition i64_load32_u :: "bool \<Rightarrow> u8 list \<Rightarrow> u64 \<Rightarrow> u64 \<Rightarrow> (trap_code, u64) res" where
  "i64_load32_u = load_extend_u TYPE(32)"

definition i64_load32_u_at :: "u8 list \<Rightarrow> usize \<Rightarrow> (trap_code, u64) res" where
  "i64_load32_u_at = load_extend_at_u TYPE(32)"

definition load_u32 :: "bool \<Rightarrow> u8 list \<Rightarrow> u64 \<Rightarrow> u64 \<Rightarrow> (trap_code, u32) res" where
  "load_u32 = load"

definition load_u32_at :: "u8 list \<Rightarrow> usize \<Rightarrow> (trap_code, u32) res" where
  "load_u32_at = load_at"

definition load_u64 :: "bool \<Rightarrow> u8 list \<Rightarrow> u64 \<Rightarrow> u64 \<Rightarrow> (trap_code, u64) res" where
  "load_u64 = load"

definition load_u64_at :: "u8 list \<Rightarrow> usize \<Rightarrow> (trap_code, u64) res" where
  "load_u64_at = load_at"

definition load_f32 :: "bool \<Rightarrow> u8 list \<Rightarrow> u64 \<Rightarrow> u64 \<Rightarrow> (trap_code, u32) res" where
  "load_f32 = load"

definition load_f32_at :: "u8 list \<Rightarrow> usize \<Rightarrow> (trap_code, u32) res" where
  "load_f32_at = load_at"

definition load_f64 :: "bool \<Rightarrow> u8 list \<Rightarrow> u64 \<Rightarrow> u64 \<Rightarrow> (trap_code, u64) res" where
  "load_f64 = load"

definition load_f64_at :: "u8 list \<Rightarrow> usize \<Rightarrow> (trap_code, u64) res" where
  "load_f64_at = load_at"

definition i32_store8 :: "bool \<Rightarrow> u8 list \<Rightarrow> u64 \<Rightarrow> u64 \<Rightarrow> u32 \<Rightarrow> (trap_code, unit) res \<times> u8 list" where
  "i32_store8 = store_wrap TYPE(8)"

definition i32_store8_at :: "u8 list \<Rightarrow> usize \<Rightarrow> u32 \<Rightarrow> (trap_code, unit) res \<times> u8 list" where
  "i32_store8_at = store_wrap_at TYPE(8)"

definition i32_store16 :: "bool \<Rightarrow> u8 list \<Rightarrow> u64 \<Rightarrow> u64 \<Rightarrow> u32 \<Rightarrow> (trap_code, unit) res \<times> u8 list" where
  "i32_store16 = store_wrap TYPE(16)"

definition i32_store16_at :: "u8 list \<Rightarrow> usize \<Rightarrow> u32 \<Rightarrow> (trap_code, unit) res \<times> u8 list" where
  "i32_store16_at = store_wrap_at TYPE(16)"

definition i64_store8 :: "bool \<Rightarrow> u8 list \<Rightarrow> u64 \<Rightarrow> u64 \<Rightarrow> u64 \<Rightarrow> (trap_code, unit) res \<times> u8 list" where
  "i64_store8 = store_wrap TYPE(8)"

definition i64_store8_at :: "u8 list \<Rightarrow> usize \<Rightarrow> u64 \<Rightarrow> (trap_code, unit) res \<times> u8 list" where
  "i64_store8_at = store_wrap_at TYPE(8)"

definition i64_store16 :: "bool \<Rightarrow> u8 list \<Rightarrow> u64 \<Rightarrow> u64 \<Rightarrow> u64 \<Rightarrow> (trap_code, unit) res \<times> u8 list" where
  "i64_store16 = store_wrap TYPE(16)"

definition i64_store16_at :: "u8 list \<Rightarrow> usize \<Rightarrow> u64 \<Rightarrow> (trap_code, unit) res \<times> u8 list" where
  "i64_store16_at = store_wrap_at TYPE(16)"

definition i64_store32 :: "bool \<Rightarrow> u8 list \<Rightarrow> u64 \<Rightarrow> u64 \<Rightarrow> u64 \<Rightarrow> (trap_code, unit) res \<times> u8 list" where
  "i64_store32 = store_wrap TYPE(32)"

definition i64_store32_at :: "u8 list \<Rightarrow> usize \<Rightarrow> u64 \<Rightarrow> (trap_code, unit) res \<times> u8 list" where
  "i64_store32_at = store_wrap_at TYPE(32)"

definition store32 :: "bool \<Rightarrow> u8 list \<Rightarrow> u64 \<Rightarrow> u64 \<Rightarrow> u32 \<Rightarrow> (trap_code, unit) res \<times> u8 list" where
  "store32 = store"

definition store32_at :: "u8 list \<Rightarrow> usize \<Rightarrow> u32 \<Rightarrow> (trap_code, unit) res \<times> u8 list" where
  "store32_at = store_at"

definition store64 :: "bool \<Rightarrow> u8 list \<Rightarrow> u64 \<Rightarrow> u64 \<Rightarrow> u64 \<Rightarrow> (trap_code, unit) res \<times> u8 list" where
  "store64 = store"

definition store64_at :: "u8 list \<Rightarrow> usize \<Rightarrow> u64 \<Rightarrow> (trap_code, unit) res \<times> u8 list" where
  "store64_at = store_at"

definition store_f32 :: "bool \<Rightarrow> u8 list \<Rightarrow> u64 \<Rightarrow> u64 \<Rightarrow> u32 \<Rightarrow> (trap_code, unit) res \<times> u8 list" where
  "store_f32 = store32"

definition store_f32_at :: "u8 list \<Rightarrow> usize \<Rightarrow> u32 \<Rightarrow> (trap_code, unit) res \<times> u8 list" where
  "store_f32_at = store32_at"

definition store_f64 :: "bool \<Rightarrow> u8 list \<Rightarrow> u64 \<Rightarrow> u64 \<Rightarrow> u64 \<Rightarrow> (trap_code, unit) res \<times> u8 list" where
  "store_f64 = store64"

definition store_f64_at :: "u8 list \<Rightarrow> usize \<Rightarrow> u64 \<Rightarrow> (trap_code, unit) res \<times> u8 list" where
  "store_f64_at = store64_at"

subsection \<open>Little endian bytes\<close>

lemma length_to_le_bytes [simp]: "length (to_le_bytes v) = LENGTH('a) div 8" for v :: "'a::len word"
  by (simp add: to_le_bytes_def)

lemma bit_from_le_bytes:
  "bit (from_le_bytes bs :: 'a::len word) n \<longleftrightarrow>
     n < LENGTH('a) \<and> n div 8 < length bs \<and> bit (bs ! (n div 8)) (n mod 8)"
proof (induction bs arbitrary: n)
  case (Cons b bs)
  show ?case
  proof (cases "n < 8")
    case True
    then show ?thesis by (auto simp: bit_simps)
  next
    case False
    then have "n div 8 = Suc ((n - 8) div 8)" "n mod 8 = (n - 8) mod 8"
      by (simp_all add: le_div_geq le_mod_geq)
    moreover have "\<not> bit b n" using False bit_imp_le_length [of b n] by auto
    ultimately show ?thesis using False Cons.IH [of "n - 8"] by (auto simp: bit_simps)
  qed
qed simp

lemma bit_to_le_bytes:
  fixes v :: "'a::len word"
  assumes "i < LENGTH('a) div 8" "j < 8"
  shows "bit (to_le_bytes v ! i) j \<longleftrightarrow> bit v (8 * i + j)"
  using assms by (auto simp: to_le_bytes_def bit_simps dest: bit_imp_le_length)

lemma from_to_le_bytes:
  fixes v :: "'a::len word"
  assumes "8 dvd LENGTH('a)"
  shows "from_le_bytes (to_le_bytes v) = v"
proof (rule bit_word_eqI)
  fix n assume "n < LENGTH('a)"
  moreover from this assms have "n div 8 < LENGTH('a) div 8" by (auto elim!: dvdE)
  ultimately show "bit (from_le_bytes (to_le_bytes v) :: 'a word) n = bit v n"
    by (simp add: bit_from_le_bytes bit_to_le_bytes)
qed

lemma to_from_le_bytes:
  assumes "8 * length bs = LENGTH('a::len)"
  shows "to_le_bytes (from_le_bytes bs :: 'a word) = bs"
proof (rule nth_equalityI)
  show "length (to_le_bytes (from_le_bytes bs :: 'a word)) = length bs" using assms by simp
  fix i assume "i < length (to_le_bytes (from_le_bytes bs :: 'a word))"
  then have i: "i < LENGTH('a) div 8" "i < length bs" using assms by simp_all
  show "to_le_bytes (from_le_bytes bs :: 'a word) ! i = bs ! i"
  proof (rule bit_word_eqI)
    fix j assume "j < LENGTH(8)"
    then have j: "j < 8" by simp
    with i assms have "8 * i + j < LENGTH('a)" by linarith
    with i j show "bit (to_le_bytes (from_le_bytes bs :: 'a word) ! i) j = bit (bs ! i) j"
      by (simp add: bit_to_le_bytes bit_from_le_bytes)
  qed
qed

lemma uint_from_le_bytes:
  assumes "8 * length bs \<le> LENGTH('a::len)"
  shows "uint (from_le_bytes bs :: 'a word) = (\<Sum>i<length bs. uint (bs ! i) * 256 ^ i)
    \<and> uint (from_le_bytes bs :: 'a word) < 256 ^ length bs"
  using assms
proof (induction bs)
  case (Cons b bs)
  let ?x = "from_le_bytes bs :: 'a word"
  from Cons have x: "uint ?x = (\<Sum>i<length bs. uint (bs ! i) * 256 ^ i)" "uint ?x < 256 ^ length bs"
    by simp_all
  have L: "8 + 8 * length bs \<le> LENGTH('a)" using Cons.prems by simp
  have "uint b + 256 * uint ?x < 256 * 256 ^ length bs"
    using x(2) uint_lt2p [of b] by simp
  also have "(256::int) * 256 ^ length bs = 2 ^ (8 + 8 * length bs)"
    by (simp add: power_add power_mult)
  also have "\<dots> \<le> 2 ^ LENGTH('a)" using L by (rule power_increasing) simp
  finally have lt: "uint b + 256 * uint ?x < 2 ^ LENGTH('a)" .
  have "ucast b OR push_bit 8 ?x = ucast b + push_bit 8 ?x"
    by (rule disjunctive_add_eq_or [symmetric])
      (auto intro!: bit_word_eqI simp: bit_simps, use bit_imp_le_length [of b] in fastforce)
  then have "from_le_bytes (b # bs) = (word_of_int (uint b + 256 * uint ?x) :: 'a word)"
    by (simp add: push_bit_eq_mult mult.commute)
  then have eq: "uint (from_le_bytes (b # bs) :: 'a word) = uint b + 256 * uint ?x"
    using lt by (simp add: uint_word_of_int_eq take_bit_int_eq_self del: from_le_bytes.simps of_int_add of_int_mult)
  moreover have "uint b + 256 * uint ?x < 256 ^ length (b # bs)"
    using x(2) uint_lt2p [of b] by simp
  moreover have "(\<Sum>i<length (b # bs). uint ((b # bs) ! i) * 256 ^ i) = uint b + 256 * uint ?x"
    by (simp add: x(1) sum.lessThan_Suc_shift sum_distrib_left mult.left_commute del: sum.lessThan_Suc)
  ultimately show ?case by simp
qed simp

subsection \<open>Addresses\<close>

text \<open>The address that an access with a pointer and a constant offset means, without wrap-around.\<close>

definition access_address :: "bool \<Rightarrow> u64 \<Rightarrow> u64 \<Rightarrow> nat" where
  "access_address feature ptr offset =
     (if feature then unat ptr + unat offset else unat ptr mod 2 ^ 32 + unat offset mod 2 ^ 32)"

lemma unat_ucast_ucast32: "unat (ucast (ucast x :: u32) :: u64) = unat x mod 2 ^ 32" for x :: u64
  by (simp add: unsigned_ucast_eq take_bit_eq_mod unat_mod)

lemma effective_address_cases:
  obtains (ok) a where "effective_address feature ptr offset = Ok a"
      "unat a = access_address feature ptr offset"
  | (overflow) "effective_address feature ptr offset = Err TrapMemoryOutOfBounds"
      "2 ^ 64 \<le> access_address feature ptr offset"
proof -
  let ?p = "if feature then ptr else ucast (ucast ptr :: u32)"
  let ?o = "if feature then offset else ucast (ucast offset :: u32)"
  have a: "access_address feature ptr offset = unat ?p + unat ?o"
    by (simp add: access_address_def unat_ucast_ucast32)
  show thesis
  proof (cases "checked_add ?p ?o")
    case None
    moreover from None have "2 ^ 64 \<le> unat ?p + unat ?o" by (simp only: checked_add_None) simp
    ultimately show thesis by (intro overflow) (simp_all only: effective_address_def a, simp_all)
  next
    case (Some b)
    then have "unat b = unat ?p + unat ?o" by (simp add: checked_add_Some)
    with Some a show thesis by (intro ok [of b]) (simp_all add: effective_address_def)
  qed
qed

lemma load_eq:
  assumes "length memory < 2 ^ 64"
  shows "(load feature memory ptr offset :: (trap_code, 'a::len word) res) =
    (if access_address feature ptr offset + LENGTH('a) div 8 \<le> length memory
     then Ok (from_le_bytes (take (LENGTH('a) div 8) (drop (access_address feature ptr offset) memory)))
     else Err TrapMemoryOutOfBounds)"
  by (rule effective_address_cases [of feature ptr offset])
    (use assms in \<open>simp_all add: load_def load_at_def load_into_def slice_simps\<close>)

lemma store_eq:
  assumes "length memory < 2 ^ 64"
  shows "store feature memory ptr offset (v :: 'a::len word) =
    (if access_address feature ptr offset + LENGTH('a) div 8 \<le> length memory
     then (Ok (), overwrite memory (access_address feature ptr offset) (to_le_bytes v))
     else (Err TrapMemoryOutOfBounds, memory))"
  by (rule effective_address_cases [of feature ptr offset])
    (use assms in \<open>simp_all add: store_def store_at_def store_from_def slice_simps\<close>)

lemma load_extend_eq:
  "load_extend_s TYPE('u::len) feature memory ptr offset =
     (case load feature memory ptr offset :: (trap_code, 'u word) res of
        Ok v \<Rightarrow> Ok (scast v) | Err e \<Rightarrow> Err e | Panic \<Rightarrow> Panic)"
  "load_extend_u TYPE('u::len) feature memory ptr offset =
     (case load feature memory ptr offset :: (trap_code, 'u word) res of
        Ok v \<Rightarrow> Ok (ucast v) | Err e \<Rightarrow> Err e | Panic \<Rightarrow> Panic)"
  by (simp_all add: load_extend_s_def load_extend_u_def load_extend_at_s_def load_extend_at_u_def
      load_def split: res.split)

lemma store_wrap_eq:
  "store_wrap TYPE('u::len) feature memory ptr offset v = store feature memory ptr offset (ucast v :: 'u word)"
  by (simp add: store_wrap_def store_wrap_at_def store_def split: res.split)

text \<open>
  C16: A store succeeds exactly if the accessed bytes lie within the memory; the address is computed
  without wrap-around, so a pointer and an offset whose sum overflows trap. A successful store
  changes exactly the accessed bytes and the load at the same address returns the stored value; a
  store that traps changes nothing, and the load traps as well.
\<close>

theorem store_load_roundtrip:
  fixes v :: "'a::len word" and feature :: bool and ptr offset :: u64
  assumes "length memory < 2 ^ 64" "8 dvd LENGTH('a)"
  defines "at \<equiv> access_address feature ptr offset"
  shows "case store feature memory ptr offset v of
      (Ok _, memory') \<Rightarrow> load feature memory' ptr offset = Ok v \<and> length memory' = length memory
        \<and> (\<forall>i<length memory. \<not> (at \<le> i \<and> i < at + LENGTH('a) div 8) \<longrightarrow> memory' ! i = memory ! i)
    | (Err e, memory') \<Rightarrow> e = TrapMemoryOutOfBounds \<and> length memory < at + LENGTH('a) div 8
        \<and> memory' = memory
        \<and> (load feature memory ptr offset :: (trap_code, 'a word) res) = Err TrapMemoryOutOfBounds
    | (Panic, _) \<Rightarrow> False"
proof (cases "at + LENGTH('a) div 8 \<le> length memory")
  case True
  let ?m = "overwrite memory at (to_le_bytes v)"
  have len: "length ?m = length memory" using True by simp
  have "take (LENGTH('a) div 8) (drop at ?m) = to_le_bytes v"
    using True take_drop_overwrite [of at "to_le_bytes v" memory] by simp
  with True len assms(1) have "load feature ?m ptr offset = Ok v"
    by (simp add: load_eq at_def from_to_le_bytes [OF assms(2)])
  with True len assms(1) show ?thesis by (simp add: store_eq at_def nth_overwrite)
next
  case False
  with assms(1) show ?thesis by (simp add: store_eq load_eq at_def)
qed

theorem store_load_roundtrip_witness:
  "case store64 True [0, 1, 2, 3, 4, 5, 6, 7, 8, 9] 1 1 0x0102030405060708 of
     (Ok _, memory') \<Rightarrow> load_u64 True memory' 1 1 = Ok 0x0102030405060708
   | _ \<Rightarrow> False"
proof -
  let ?m = "[0, 1, 2, 3, 4, 5, 6, 7, 8, 9] :: u8 list" and ?v = "0x0102030405060708 :: u64"
  have "is_ok (fst (store True ?m 1 1 ?v))" by (simp add: store_eq access_address_def)
  then obtain m' where "store True ?m 1 1 ?v = (Ok (), m')"
    by (cases "store True ?m 1 1 ?v") (auto simp: is_ok_iff)
  with store_load_roundtrip [of ?m True 1 1 ?v] show ?thesis by (simp add: store64_def load_u64_def)
qed

text \<open>
  A value loaded by a plain load is the little endian reading of the accessed bytes: the byte at
  distance \<open>i\<close> from the address counts \<open>256 ^ i\<close>.
\<close>

theorem load_little_endian:
  assumes "length memory < 2 ^ 64" "load feature memory ptr offset = Ok (v :: 'a::len word)"
    "8 dvd LENGTH('a)"
  shows "uint v = (\<Sum>i<LENGTH('a) div 8. uint (memory ! (access_address feature ptr offset + i)) * 256 ^ i)"
proof -
  let ?at = "access_address feature ptr offset" and ?n = "LENGTH('a) div 8"
  from assms(1,2) have in_bounds: "?at + ?n \<le> length memory"
    and v: "v = from_le_bytes (take ?n (drop ?at memory))"
    by (auto simp: load_eq split: if_splits)
  then have len: "length (take ?n (drop ?at memory)) = ?n" by simp
  with assms(3) have "8 * length (take ?n (drop ?at memory)) \<le> LENGTH('a)" by simp
  from uint_from_le_bytes [OF this] v len
  have "uint v = (\<Sum>i<?n. uint (take ?n (drop ?at memory) ! i) * 256 ^ i)" by simp
  also have "\<dots> = (\<Sum>i<?n. uint (memory ! (?at + i)) * 256 ^ i)"
    by (rule sum.cong) (use in_bounds in simp_all)
  finally show ?thesis .
qed

theorem load_little_endian_witness:
  "uint (from_le_bytes [2, 3] :: u16) = (\<Sum>i<2. uint ([1, 2, 3, 4 :: u8] ! (1 + i)) * 256 ^ i)"
  using load_little_endian [of "[1, 2, 3, 4]" True 1 0 "from_le_bytes [2, 3] :: u16"]
  by (simp add: load_eq access_address_def)

text \<open>
  A wrapping store keeps the low bits of the value: the extending loads of the same width at the
  same address return them zero extended and sign extended.
\<close>

theorem store_wrap_load_extend:
  fixes v :: "'a::len word"
  assumes "length memory < 2 ^ 64" "8 dvd LENGTH('u::len)" "LENGTH('u) \<le> LENGTH('a)"
    "store_wrap TYPE('u) feature memory ptr offset v = (Ok (), memory')"
  shows "load_extend_u TYPE('u) feature memory' ptr offset = Ok (take_bit LENGTH('u) v)
    \<and> load_extend_s TYPE('u) feature memory' ptr offset = Ok (signed_take_bit (LENGTH('u) - 1) v)"
proof -
  let ?at = "access_address feature ptr offset" and ?n = "LENGTH('u) div 8"
  from assms(1,4) have "?at + ?n \<le> length memory" "memory' = overwrite memory ?at (to_le_bytes (ucast v :: 'u word))"
    by (auto simp: store_wrap_eq store_eq split: if_splits)
  then have "load feature memory' ptr offset = Ok (ucast v :: 'u word)"
    using assms(1) take_drop_overwrite [of ?at "to_le_bytes (ucast v :: 'u word)" memory]
    by (simp add: load_eq from_to_le_bytes [OF assms(2)])
  moreover have "ucast (ucast v :: 'u word) = take_bit LENGTH('u) v"
    by (rule bit_word_eqI) (use assms(3) in \<open>auto simp: bit_simps\<close>)
  moreover have "scast (ucast v :: 'u word) = signed_take_bit (LENGTH('u) - 1) v"
    by (rule bit_word_eqI) (use assms(3) in \<open>auto simp: bit_simps min_def\<close>)
  ultimately show ?thesis by (simp add: load_extend_eq)
qed

theorem store_wrap_load_extend_witness:
  "i32_load8_u True [0xFE, 7] 0 0 = Ok (take_bit 8 0x1FE) \<and> i32_load8_s True [0xFE, 7] 0 0 = Ok (- 2)"
proof -
  have "store_wrap TYPE(8) True [0, 7] 0 0 (0x1FE :: u32) = (Ok (), [0xFE, 7])"
    by (simp add: store_wrap_eq store_eq access_address_def to_le_bytes_def overwrite_def)
  from store_wrap_load_extend [OF _ _ _ this] show ?thesis
    by (simp add: i32_load8_u_def i32_load8_s_def)
qed

end
