(* ===== verification/Limits.thy ===== *)
theory Limits
  imports Prelude
begin

section \<open>Resource limiters (crates/core/src/limiter.rs, crates/wasmi/src/limits.rs)\<close>

text \<open>
  The trait \<open>ResourceLimiter\<close> is a record of its methods over the limiter's state \<open>'l\<close>, each
  method that takes \<open>&mut self\<close> returning the new state. A \<open>ResourceLimiterRef\<close>, an optional
  reference to such an object, is an optional pair of the methods and the state. The errors of
  memories and tables are here because the trait's methods mention them. \<open>StoreLimits\<close> is the
  limiter the crate ships; the locale \<open>growth_limiter\<close> is what its clients (memories and tables)
  rely on, and \<open>StoreLimits\<close> satisfies it.
\<close>

datatype limiter_error = ResourceLimiterDeniedAllocation

datatype memory_error =
  MemOutOfSystemMemory
| MemOutOfBoundsGrowth
| MemOutOfBoundsAccess
| MemInvalidMemoryType
| MemInvalidStaticBufferSize
| MemResourceLimiterDeniedAllocation
| MemMinimumSizeOverflow
| MemMaximumSizeOverflow
| MemOutOfFuel u64

datatype table_error =
  TabOutOfSystemMemory
| TabMinimumSizeOverflow
| TabMaximumSizeOverflow
| TabResourceLimiterDeniedAllocation
| TabGrowOutOfBounds
| TabInitOutOfBounds
| TabFillOutOfBounds
| TabSetOutOfBounds
| TabCopyOutOfBounds
| TabElementTypeMismatch
| TabOutOfFuel u64

fun memory_error_of_limiter :: "limiter_error \<Rightarrow> memory_error" where
  "memory_error_of_limiter ResourceLimiterDeniedAllocation = MemResourceLimiterDeniedAllocation"

fun table_error_of_limiter :: "limiter_error \<Rightarrow> table_error" where
  "table_error_of_limiter ResourceLimiterDeniedAllocation = TabResourceLimiterDeniedAllocation"

record 'l resource_limiter =
  rl_memory_growing ::
    "'l \<Rightarrow> usize \<Rightarrow> usize \<Rightarrow> usize option \<Rightarrow> (limiter_error, bool) res \<times> 'l"
  rl_table_growing ::
    "'l \<Rightarrow> usize \<Rightarrow> usize \<Rightarrow> usize option \<Rightarrow> (limiter_error, bool) res \<times> 'l"
  rl_memory_grow_failed :: "'l \<Rightarrow> memory_error \<Rightarrow> (limiter_error, unit) res \<times> 'l"
  rl_table_grow_failed :: "'l \<Rightarrow> table_error \<Rightarrow> (limiter_error, unit) res \<times> 'l"
  rl_instances :: "'l \<Rightarrow> usize"
  rl_tables :: "'l \<Rightarrow> usize"
  rl_memories :: "'l \<Rightarrow> usize"

type_synonym 'l limiter_ref = "('l resource_limiter \<times> 'l) option"

definition as_resource_limiter :: "'l limiter_ref \<Rightarrow> ('l resource_limiter \<times> 'l) option" where
  "as_resource_limiter r = r"

text \<open>
  The two idioms of the clients: ask before growing, where \<open>None\<close> stands for a missing limiter,
  and tell about a failed growth before the error is returned, where an error of the limiter takes
  the place of that error (the \<open>?\<close> after the call).
\<close>

definition ask_memory_growing ::
  "'l limiter_ref \<Rightarrow> usize \<Rightarrow> usize \<Rightarrow> usize option \<Rightarrow>
   (limiter_error, bool) res option \<times> 'l limiter_ref" where
  "ask_memory_growing lim current desired maximum =
     (case as_resource_limiter lim of
        None \<Rightarrow> (None, lim)
      | Some (vt, l) \<Rightarrow>
          (case rl_memory_growing vt l current desired maximum of
             (r, l') \<Rightarrow> (Some r, Some (vt, l'))))"

definition ask_table_growing ::
  "'l limiter_ref \<Rightarrow> usize \<Rightarrow> usize \<Rightarrow> usize option \<Rightarrow>
   (limiter_error, bool) res option \<times> 'l limiter_ref" where
  "ask_table_growing lim current desired maximum =
     (case as_resource_limiter lim of
        None \<Rightarrow> (None, lim)
      | Some (vt, l) \<Rightarrow>
          (case rl_table_growing vt l current desired maximum of
             (r, l') \<Rightarrow> (Some r, Some (vt, l'))))"

definition notify_memory_grow_failed ::
  "'l limiter_ref \<Rightarrow> memory_error \<Rightarrow> (memory_error, 'a) res \<times> 'l limiter_ref" where
  "notify_memory_grow_failed lim err =
     (case as_resource_limiter lim of
        None \<Rightarrow> (Err err, lim)
      | Some (vt, l) \<Rightarrow>
          (case rl_memory_grow_failed vt l err of
             (Ok _, l') \<Rightarrow> (Err err, Some (vt, l'))
           | (Err e, l') \<Rightarrow> (Err (memory_error_of_limiter e), Some (vt, l'))
           | (Panic, l') \<Rightarrow> (Panic, Some (vt, l'))))"

definition notify_table_grow_failed ::
  "'l limiter_ref \<Rightarrow> table_error \<Rightarrow> (table_error, 'a) res \<times> 'l limiter_ref" where
  "notify_table_grow_failed lim err =
     (case as_resource_limiter lim of
        None \<Rightarrow> (Err err, lim)
      | Some (vt, l) \<Rightarrow>
          (case rl_table_grow_failed vt l err of
             (Ok _, l') \<Rightarrow> (Err err, Some (vt, l'))
           | (Err e, l') \<Rightarrow> (Err (table_error_of_limiter e), Some (vt, l'))
           | (Panic, l') \<Rightarrow> (Panic, Some (vt, l'))))"

subsection \<open>Store limits\<close>

record store_limits =
  sl_memory_size :: "usize option"
  sl_table_elements :: "usize option"
  sl_instances :: usize
  sl_tables :: usize
  sl_memories :: usize
  sl_trap_on_grow_failure :: bool

definition DEFAULT_INSTANCE_LIMIT :: usize where "DEFAULT_INSTANCE_LIMIT = 10000"
definition DEFAULT_TABLE_LIMIT :: usize where "DEFAULT_TABLE_LIMIT = 10000"
definition DEFAULT_MEMORY_LIMIT :: usize where "DEFAULT_MEMORY_LIMIT = 10000"

definition store_limits_default :: store_limits where
  "store_limits_default =
     \<lparr>sl_memory_size = None, sl_table_elements = None, sl_instances = DEFAULT_INSTANCE_LIMIT,
      sl_tables = DEFAULT_TABLE_LIMIT, sl_memories = DEFAULT_MEMORY_LIMIT,
      sl_trap_on_grow_failure = False\<rparr>"

text \<open>\<open>StoreLimitsBuilder\<close> wraps the limits that it builds.\<close>

definition builder_new :: store_limits where
  "builder_new = store_limits_default"

definition builder_memory_size :: "store_limits \<Rightarrow> usize \<Rightarrow> store_limits" where
  "builder_memory_size b limit = b\<lparr>sl_memory_size := Some limit\<rparr>"

definition builder_table_elements :: "store_limits \<Rightarrow> usize \<Rightarrow> store_limits" where
  "builder_table_elements b limit = b\<lparr>sl_table_elements := Some limit\<rparr>"

definition builder_instances :: "store_limits \<Rightarrow> usize \<Rightarrow> store_limits" where
  "builder_instances b limit = b\<lparr>sl_instances := limit\<rparr>"

definition builder_tables :: "store_limits \<Rightarrow> usize \<Rightarrow> store_limits" where
  "builder_tables b tables = b\<lparr>sl_tables := tables\<rparr>"

definition builder_memories :: "store_limits \<Rightarrow> usize \<Rightarrow> store_limits" where
  "builder_memories b memories = b\<lparr>sl_memories := memories\<rparr>"

definition builder_trap_on_grow_failure :: "store_limits \<Rightarrow> bool \<Rightarrow> store_limits" where
  "builder_trap_on_grow_failure b trap = b\<lparr>sl_trap_on_grow_failure := trap\<rparr>"

definition growth_allowed :: "usize option \<Rightarrow> usize \<Rightarrow> usize option \<Rightarrow> bool" where
  "growth_allowed limit desired maximum =
     (case limit of
        Some l \<Rightarrow> if desired > l then False
                  else (case maximum of Some m \<Rightarrow> \<not> desired > m | None \<Rightarrow> True)
      | None \<Rightarrow> (case maximum of Some m \<Rightarrow> \<not> desired > m | None \<Rightarrow> True))"

definition limits_memory_growing ::
  "store_limits \<Rightarrow> usize \<Rightarrow> usize \<Rightarrow> usize option \<Rightarrow> (limiter_error, bool) res \<times> store_limits" where
  "limits_memory_growing s current desired maximum =
     (let allow = growth_allowed (sl_memory_size s) desired maximum in
      if \<not> allow \<and> sl_trap_on_grow_failure s then (Err ResourceLimiterDeniedAllocation, s)
      else (Ok allow, s))"

definition limits_memory_grow_failed ::
  "store_limits \<Rightarrow> memory_error \<Rightarrow> (limiter_error, unit) res \<times> store_limits" where
  "limits_memory_grow_failed s err =
     (if sl_trap_on_grow_failure s then (Err ResourceLimiterDeniedAllocation, s) else (Ok (), s))"

definition limits_table_growing ::
  "store_limits \<Rightarrow> usize \<Rightarrow> usize \<Rightarrow> usize option \<Rightarrow> (limiter_error, bool) res \<times> store_limits" where
  "limits_table_growing s current desired maximum =
     (let allow = growth_allowed (sl_table_elements s) desired maximum in
      if \<not> allow \<and> sl_trap_on_grow_failure s then (Err ResourceLimiterDeniedAllocation, s)
      else (Ok allow, s))"

definition limits_table_grow_failed ::
  "store_limits \<Rightarrow> table_error \<Rightarrow> (limiter_error, unit) res \<times> store_limits" where
  "limits_table_grow_failed s err =
     (if sl_trap_on_grow_failure s then (Err ResourceLimiterDeniedAllocation, s) else (Ok (), s))"

definition StoreLimits :: "store_limits resource_limiter" where
  "StoreLimits =
     \<lparr>rl_memory_growing = limits_memory_growing, rl_table_growing = limits_table_growing,
      rl_memory_grow_failed = limits_memory_grow_failed,
      rl_table_grow_failed = limits_table_grow_failed,
      rl_instances = sl_instances, rl_tables = sl_tables, rl_memories = sl_memories\<rparr>"

subsection \<open>The contract of a limiter\<close>

text \<open>
  What a memory or table relies on: the limiter never panics, permits growth only up to its bound,
  and keeps that bound.
\<close>

definition within :: "usize option \<Rightarrow> usize \<Rightarrow> bool" where
  "within bound n = (case bound of None \<Rightarrow> True | Some b \<Rightarrow> n \<le> b)"

locale growth_limiter =
  fixes vt :: "'l resource_limiter"
    and mem_bound :: "'l \<Rightarrow> usize option"
    and tab_bound :: "'l \<Rightarrow> usize option"
  assumes memory_growing_law:
      "rl_memory_growing vt l cur des mx = (r, l') \<Longrightarrow>
       r \<noteq> Panic \<and> (r = Ok True \<longrightarrow> within (mem_bound l) des)
       \<and> mem_bound l' = mem_bound l \<and> tab_bound l' = tab_bound l"
    and table_growing_law:
      "rl_table_growing vt l cur des mx = (q, l') \<Longrightarrow>
       q \<noteq> Panic \<and> (q = Ok True \<longrightarrow> within (tab_bound l) des)
       \<and> mem_bound l' = mem_bound l \<and> tab_bound l' = tab_bound l"
    and memory_failed_law:
      "rl_memory_grow_failed vt l merr = (s, l') \<Longrightarrow>
       s \<noteq> Panic \<and> mem_bound l' = mem_bound l \<and> tab_bound l' = tab_bound l"
    and table_failed_law:
      "rl_table_grow_failed vt l terr = (s, l') \<Longrightarrow>
       s \<noteq> Panic \<and> mem_bound l' = mem_bound l \<and> tab_bound l' = tab_bound l"
begin

lemma ask_memory_law:
  assumes "ask_memory_growing (Some (vt, l)) cur des mx = (r, lim')"
  obtains q l' where "r = Some q" "lim' = Some (vt, l')" "q \<noteq> Panic"
    "q = Ok True \<longrightarrow> within (mem_bound l) des" "mem_bound l' = mem_bound l" "tab_bound l' = tab_bound l"
proof -
  obtain q l' where ql: "rl_memory_growing vt l cur des mx = (q, l')" by fastforce
  with assms have "r = Some q" "lim' = Some (vt, l')"
    by (simp_all add: ask_memory_growing_def as_resource_limiter_def)
  then show thesis using that [of q l'] memory_growing_law [OF ql] by blast
qed

lemma ask_table_law:
  assumes "ask_table_growing (Some (vt, l)) cur des mx = (r, lim')"
  obtains q l' where "r = Some q" "lim' = Some (vt, l')" "q \<noteq> Panic"
    "q = Ok True \<longrightarrow> within (tab_bound l) des" "mem_bound l' = mem_bound l" "tab_bound l' = tab_bound l"
proof -
  obtain q l' where ql: "rl_table_growing vt l cur des mx = (q, l')" by fastforce
  with assms have "r = Some q" "lim' = Some (vt, l')"
    by (simp_all add: ask_table_growing_def as_resource_limiter_def)
  then show thesis using that [of q l'] table_growing_law [OF ql] by blast
qed

lemma notify_memory_law:
  assumes "notify_memory_grow_failed (Some (vt, l)) err = (r, lim')"
  obtains e l' where "r = Err e" "lim' = Some (vt, l')" "mem_bound l' = mem_bound l" "tab_bound l' = tab_bound l"
proof -
  obtain q l' where ql: "rl_memory_grow_failed vt l err = (q, l')" by fastforce
  with assms memory_failed_law [OF ql] show thesis
    by (cases q) (auto intro!: that simp: notify_memory_grow_failed_def as_resource_limiter_def)
qed

lemma notify_table_law:
  assumes "notify_table_grow_failed (Some (vt, l)) err = (r, lim')"
  obtains e l' where "r = Err e" "lim' = Some (vt, l')" "mem_bound l' = mem_bound l" "tab_bound l' = tab_bound l"
proof -
  obtain q l' where ql: "rl_table_grow_failed vt l err = (q, l')" by fastforce
  with assms table_failed_law [OF ql] show thesis
    by (cases q) (auto intro!: that simp: notify_table_grow_failed_def as_resource_limiter_def)
qed

end

lemma growth_allowed_within:
  "growth_allowed limit desired maximum \<longleftrightarrow> within limit desired \<and> within maximum desired"
  by (auto simp: growth_allowed_def within_def split: option.splits)

lemmas store_limits_simps =
  StoreLimits_def limits_memory_growing_def limits_table_growing_def limits_memory_grow_failed_def
  limits_table_grow_failed_def growth_allowed_within Let_def

interpretation limits: growth_limiter StoreLimits sl_memory_size sl_table_elements
  by unfold_locales (auto simp: store_limits_simps split: if_splits)

lemma notify_memory_not_Ok [simp]: "fst (notify_memory_grow_failed lim err) \<noteq> Ok x"
  by (auto simp: notify_memory_grow_failed_def split: option.splits prod.splits res.splits)

lemma notify_table_not_Ok [simp]: "fst (notify_table_grow_failed lim err) \<noteq> Ok x"
  by (auto simp: notify_table_grow_failed_def split: option.splits prod.splits res.splits)

lemma notify_memory_eq_Ok [simp]: "notify_memory_grow_failed lim err \<noteq> (Ok x, l)"
  using notify_memory_not_Ok [of lim err x] by (metis fst_conv)

lemma notify_table_eq_Ok [simp]: "notify_table_grow_failed lim err \<noteq> (Ok x, l)"
  using notify_table_not_Ok [of lim err x] by (metis fst_conv)

end
