(* ===== verification/Memory_Type.thy ===== *)
theory Memory_Type
  imports Limits
begin

section \<open>Memory types (crates/core/src/memory/ty.rs, crates/core/src/index_ty.rs)\<close>

text \<open>
  A memory type, its builder and its validation, its size computations in 128 bit arithmetic and
  import subtyping. The crate feature \<open>memory64\<close> is a boolean argument of the validation. The
  fields of a built type are private, so a type that exists satisfies \<open>mt_wf\<close>, which the
  validation is shown to decide.
\<close>

datatype val_type = I32 | I64 | F32 | F64 | V128 | FuncRef | ExternRef

datatype index_type = Index32 | Index64

fun index_ty_ty :: "index_type \<Rightarrow> val_type" where
  "index_ty_ty Index32 = I32"
| "index_ty_ty Index64 = I64"

fun index_is_64 :: "index_type \<Rightarrow> bool" where
  "index_is_64 Index32 = False"
| "index_is_64 Index64 = True"

fun index_max_size :: "index_type \<Rightarrow> u128" where
  "index_max_size Index32 = 2 ^ 32"
| "index_max_size Index64 = 2 ^ 64"

fun index_min :: "index_type \<Rightarrow> index_type \<Rightarrow> index_type" where
  "index_min Index64 Index64 = Index64"
| "index_min _ _ = Index32"

record memory_type =
  mt_minimum :: u64
  mt_maximum :: "u64 option"
  mt_page_size_log2 :: u8
  mt_index_type :: index_type

datatype size_overflow = SizeOverflow

definition max_size_based_on_index_type :: "memory_type \<Rightarrow> u128" where
  "max_size_based_on_index_type t = index_max_size (mt_index_type t)"

definition absolute_max :: "memory_type \<Rightarrow> u128" where
  "absolute_max t = shr (max_size_based_on_index_type t) (unat (mt_page_size_log2 t))"

definition minimum_byte_size :: "memory_type \<Rightarrow> (size_overflow, u128) res" where
  "minimum_byte_size t =
     (let m = ucast (mt_minimum t) :: u128 in
      if m > absolute_max t then Err SizeOverflow
      else Ok (shl m (unat (mt_page_size_log2 t))))"

definition maximum_byte_size :: "memory_type \<Rightarrow> (size_overflow, u128) res" where
  "maximum_byte_size t =
     (case mt_maximum t of
        Some mx \<Rightarrow>
          (let m = ucast mx :: u128 in
           if m > absolute_max t then Err SizeOverflow
           else Ok (shl m (unat (mt_page_size_log2 t))))
      | None \<Rightarrow> Ok (max_size_based_on_index_type t))"

definition page_size :: "memory_type \<Rightarrow> u32" where
  "page_size t = shl 1 (unat (mt_page_size_log2 t))"

definition mt_is_64 :: "memory_type \<Rightarrow> bool" where
  "mt_is_64 t = index_is_64 (mt_index_type t)"

subsection \<open>The builder\<close>

definition DEFAULT_PAGE_SIZE_LOG2 :: u8 where "DEFAULT_PAGE_SIZE_LOG2 = 16"

definition mt_builder :: memory_type where
  "mt_builder = \<lparr>mt_minimum = 0, mt_maximum = None,
     mt_page_size_log2 = DEFAULT_PAGE_SIZE_LOG2, mt_index_type = Index32\<rparr>"

definition mt_builder_memory64 :: "memory_type \<Rightarrow> bool \<Rightarrow> memory_type" where
  "mt_builder_memory64 b m64 = b\<lparr>mt_index_type := if m64 then Index64 else Index32\<rparr>"

definition mt_builder_min :: "memory_type \<Rightarrow> u64 \<Rightarrow> memory_type" where
  "mt_builder_min b n = b\<lparr>mt_minimum := n\<rparr>"

definition mt_builder_max :: "memory_type \<Rightarrow> u64 option \<Rightarrow> memory_type" where
  "mt_builder_max b n = b\<lparr>mt_maximum := n\<rparr>"

definition mt_builder_page_size_log2 :: "memory_type \<Rightarrow> u8 \<Rightarrow> memory_type" where
  "mt_builder_page_size_log2 b n = b\<lparr>mt_page_size_log2 := n\<rparr>"

text \<open>\<open>feature\<close> is whether the crate feature \<open>memory64\<close> is enabled.\<close>

definition mt_validate :: "bool \<Rightarrow> memory_type \<Rightarrow> (memory_error, unit) res" where
  "mt_validate feature t =
     (if \<not> feature \<and> index_is_64 (mt_index_type t) then Err MemInvalidMemoryType
      else if \<not> (mt_page_size_log2 t = 0 \<or> mt_page_size_log2 t = DEFAULT_PAGE_SIZE_LOG2)
      then Err MemInvalidMemoryType
      else if \<not> is_ok (minimum_byte_size t) then Err MemInvalidMemoryType
      else case mt_maximum t of
        None \<Rightarrow> Ok ()
      | Some mx \<Rightarrow>
          if \<not> is_ok (maximum_byte_size t) then Err MemInvalidMemoryType
          else if mt_minimum t > mx then Err MemInvalidMemoryType
          else Ok ())"

definition mt_build :: "bool \<Rightarrow> memory_type \<Rightarrow> (memory_error, memory_type) res" where
  "mt_build feature b =
     (case mt_validate feature b of Ok _ \<Rightarrow> Ok b | Err e \<Rightarrow> Err e | Panic \<Rightarrow> Panic)"

definition mt_is_subtype_of :: "memory_type \<Rightarrow> memory_type \<Rightarrow> bool" where
  "mt_is_subtype_of t other =
     (if mt_is_64 t \<noteq> mt_is_64 other then False
      else if page_size t \<noteq> page_size other then False
      else if mt_minimum t < mt_minimum other then False
      else case (mt_maximum t, mt_maximum other) of
        (_, None) \<Rightarrow> True
      | (Some mx, Some other_max) \<Rightarrow> mx \<le> other_max
      | _ \<Rightarrow> False)"

subsection \<open>Well-formed types\<close>

text \<open>The sizes, in pages, that a memory of a type may have.\<close>

definition page_limit :: "memory_type \<Rightarrow> nat" where
  "page_limit t = unat (index_max_size (mt_index_type t)) div 2 ^ unat (mt_page_size_log2 t)"

definition mt_wf :: "bool \<Rightarrow> memory_type \<Rightarrow> bool" where
  "mt_wf feature t \<longleftrightarrow>
     (mt_is_64 t \<longrightarrow> feature) \<and> mt_page_size_log2 t \<in> {0, 16}
     \<and> unat (mt_minimum t) \<le> page_limit t
     \<and> (\<forall>mx\<in>set_option (mt_maximum t). mt_minimum t \<le> mx \<and> unat mx \<le> page_limit t)"

definition admits :: "memory_type \<Rightarrow> nat \<Rightarrow> bool" where
  "admits t n \<longleftrightarrow> unat (mt_minimum t) \<le> n
     \<and> (case mt_maximum t of None \<Rightarrow> True | Some mx \<Rightarrow> n \<le> unat mx)"

lemma unat_index_max_size: "unat (index_max_size i) = (if index_is_64 i then 2 ^ 64 else 2 ^ 32)"
  by (cases i) simp_all

lemma unat_absolute_max [simp]:
  "mt_page_size_log2 t \<in> {0, 16} \<Longrightarrow> unat (absolute_max t) = page_limit t"
  by (auto simp: absolute_max_def page_limit_def max_size_based_on_index_type_def unat_shr)

lemma unat_page_size [simp]:
  "mt_page_size_log2 t \<in> {0, 16} \<Longrightarrow> unat (page_size t) = 2 ^ unat (mt_page_size_log2 t)"
  by (auto simp: page_size_def unat_shl)

lemma ucast64_128 [simp]: "unat (ucast (x :: u64) :: u128) = unat x"
  by (simp add: unsigned_ucast_eq take_bit_nat_eq_self order_less_trans [OF unsigned_less])

lemma ucast32_64 [simp]: "unat (ucast (x :: u32) :: u64) = unat x"
  by (simp add: unsigned_ucast_eq take_bit_nat_eq_self order_less_trans [OF unsigned_less])

lemma page_limit_bound: "page_limit t * 2 ^ unat (mt_page_size_log2 t) \<le> unat (index_max_size (mt_index_type t))"
  by (simp add: page_limit_def)

lemma page_bytes_bound:
  assumes "n \<le> page_limit t"
  shows "n * 2 ^ unat (mt_page_size_log2 t) \<le> unat (index_max_size (mt_index_type t))"
  using mult_le_mono1 [OF assms, of "2 ^ unat (mt_page_size_log2 t)"] page_limit_bound [of t]
  by (rule le_trans)

lemma page_bytes_less:
  "n \<le> page_limit t \<Longrightarrow> n * 2 ^ unat (mt_page_size_log2 t) \<le> 2 ^ 64"
  using page_bytes_bound [of n t] by (simp add: unat_index_max_size split: if_splits)

lemma minimum_byte_size_eq:
  assumes "mt_page_size_log2 t \<in> {0, 16}"
  shows "minimum_byte_size t = (if unat (mt_minimum t) \<le> page_limit t
    then Ok (of_nat (unat (mt_minimum t) * 2 ^ unat (mt_page_size_log2 t))) else Err SizeOverflow)"
proof -
  have "unat (mt_page_size_log2 t) < 128" using assms by auto
  with assms show ?thesis
    by (simp add: minimum_byte_size_def Let_def word_less_nat_alt not_less shl_def push_bit_eq_mult)
qed

lemma is_ok_maximum_byte_size:
  "mt_page_size_log2 t \<in> {0, 16} \<Longrightarrow>
   is_ok (maximum_byte_size t) \<longleftrightarrow> (\<forall>mx\<in>set_option (mt_maximum t). unat mx \<le> page_limit t)"
  by (auto simp: maximum_byte_size_def Let_def word_less_nat_alt not_less split: option.split)

lemma mt_build_eq:
  "mt_build feature t = (if mt_wf feature t then Ok t else Err MemInvalidMemoryType)"
proof (cases "mt_page_size_log2 t \<in> {0, 16}")
  case True
  then show ?thesis
    by (cases "mt_maximum t")
      (auto simp: mt_build_def mt_validate_def mt_wf_def DEFAULT_PAGE_SIZE_LOG2_def mt_is_64_def
        minimum_byte_size_eq is_ok_maximum_byte_size not_le not_less)
next
  case False
  then show ?thesis
    by (auto simp: mt_build_def mt_validate_def mt_wf_def DEFAULT_PAGE_SIZE_LOG2_def)
qed

lemma mt_build_wf: "mt_wf feature t \<Longrightarrow> mt_build feature t = Ok t"
  by (simp add: mt_build_eq)

text \<open>
  Building a memory type succeeds exactly for the well-formed types (page size \<open>1\<close> or
  \<open>64 KiB\<close>, limits that fit the address space of the index type and are ordered, 64 bit index type
  only with the feature), returns the configured type unchanged, and fails otherwise with
  \<open>InvalidMemoryType\<close>; it never panics.
\<close>

theorem mt_build_decides_wf:
  "mt_build feature t = (if mt_wf feature t then Ok t else Err MemInvalidMemoryType)"
  by (rule mt_build_eq)

lemma page_size_inj:
  "mt_page_size_log2 t \<in> {0, 16} \<Longrightarrow> mt_page_size_log2 u \<in> {0, 16} \<Longrightarrow>
   page_size t = page_size u \<longleftrightarrow> mt_page_size_log2 t = mt_page_size_log2 u"
  by (auto simp: page_size_def shl_def)

lemma mt_is_subtype_of_iff:
  "mt_is_subtype_of t u \<longleftrightarrow>
     mt_is_64 t = mt_is_64 u \<and> page_size t = page_size u \<and> mt_minimum u \<le> mt_minimum t
     \<and> (case mt_maximum u of None \<Rightarrow> True
          | Some b \<Rightarrow> (case mt_maximum t of None \<Rightarrow> False | Some a \<Rightarrow> a \<le> b))"
  by (auto simp: mt_is_subtype_of_def split: option.splits)

lemma admits_minimum: "mt_wf feature t \<Longrightarrow> admits t (unat (mt_minimum t))"
  by (auto simp: mt_wf_def admits_def word_le_nat_alt split: option.splits)

lemma limits_subset:
  assumes t: "mt_wf feature t"
  shows "(\<forall>n. admits t n \<longrightarrow> admits u n) \<longleftrightarrow> mt_minimum u \<le> mt_minimum t
     \<and> (case mt_maximum u of None \<Rightarrow> True
          | Some b \<Rightarrow> (case mt_maximum t of None \<Rightarrow> False | Some a \<Rightarrow> a \<le> b))"
    (is "?L \<longleftrightarrow> ?R")
proof
  assume L: ?L
  from L admits_minimum [OF t] have m: "mt_minimum u \<le> mt_minimum t"
    by (auto simp: admits_def word_le_nat_alt)
  show ?R
  proof (cases "mt_maximum u")
    case (Some b)
    show ?thesis
    proof (cases "mt_maximum t")
      case None
      have "admits t (unat (mt_minimum t) + Suc (unat b))" using None by (simp add: admits_def)
      with L have "admits u (unat (mt_minimum t) + Suc (unat b))" by blast
      with Some show ?thesis by (simp add: admits_def)
    next
      case (Some a)
      with t have "admits t (unat a)" by (auto simp: mt_wf_def admits_def word_le_nat_alt)
      with L m Some \<open>mt_maximum u = Some b\<close> show ?thesis by (auto simp: admits_def word_le_nat_alt)
    qed
  qed (simp add: m)
qed (auto simp: admits_def word_le_nat_alt split: option.splits)

text \<open>
  Import subtyping of memory types is what the specification means by it: on built types, a type
  is a subtype of another exactly if index type and page size agree and every size, in pages, that
  the first admits is one that the second admits.
\<close>

theorem mt_is_subtype_of_admits:
  assumes "mt_wf feature t" "mt_wf feature u"
  shows "mt_is_subtype_of t u \<longleftrightarrow>
    mt_index_type t = mt_index_type u \<and> mt_page_size_log2 t = mt_page_size_log2 u
    \<and> (\<forall>n. admits t n \<longrightarrow> admits u n)"
proof -
  have "mt_is_64 t = mt_is_64 u \<longleftrightarrow> mt_index_type t = mt_index_type u"
    by (cases "mt_index_type t"; cases "mt_index_type u") (simp_all add: mt_is_64_def)
  moreover have "page_size t = page_size u \<longleftrightarrow> mt_page_size_log2 t = mt_page_size_log2 u"
    using assms by (intro page_size_inj) (simp_all add: mt_wf_def)
  ultimately show ?thesis using limits_subset [OF assms(1)] by (simp add: mt_is_subtype_of_iff)
qed

theorem mt_is_subtype_of_admits_witness:
  "mt_is_subtype_of (mt_builder_min mt_builder 2) (mt_builder_min mt_builder 1)
   \<longleftrightarrow> (\<forall>n. admits (mt_builder_min mt_builder 2) n \<longrightarrow> admits (mt_builder_min mt_builder 1) n)"
  using mt_is_subtype_of_admits [of False "mt_builder_min mt_builder 2" "mt_builder_min mt_builder 1"]
  by (simp add: mt_wf_def mt_builder_min_def mt_builder_def DEFAULT_PAGE_SIZE_LOG2_def mt_is_64_def
      page_limit_def)

end
