(* ===== verification/Byte_Buffer.thy ===== *)
theory Byte_Buffer
  imports Limits
begin

section \<open>Byte buffers (crates/core/src/memory/buffer.rs)\<close>

text \<open>
  The buffer behind a linear memory, backed by a vector or by a static slice. The pointer field is
  the list of the initialized bytes behind it: exactly the bytes of the vector, or the whole static
  slice, of which the first \<open>len\<close> bytes are accessible. \<open>buffer_wf\<close> is the invariant that the
  \<open>unsafe\<close> blocks of the source rely on (\<open>from_raw_parts\<close> needs \<open>ptr[0..len]\<close> to be valid); every
  operation keeps it. The system allocator is the parameter \<open>alloc\<close>.
\<close>

record byte_buffer =
  bb_ptr :: "u8 list"
  bb_len :: usize
  bb_capacity :: usize
  bb_is_static :: bool

definition buffer_new :: "allocator \<Rightarrow> usize \<Rightarrow> (memory_error, byte_buffer) res" where
  "buffer_new alloc sz =
     (case try_reserve alloc 1 0 0 (unat sz) of
        None \<Rightarrow> Err MemOutOfSystemMemory
      | Some cap \<Rightarrow>
          Ok \<lparr>bb_ptr = replicate (unat sz) 0, bb_len = sz, bb_capacity = of_nat cap,
              bb_is_static = False\<rparr>)"

definition buffer_new_static :: "u8 list \<Rightarrow> usize \<Rightarrow> (memory_error, byte_buffer) res" where
  "buffer_new_static buffer sz =
     (case slice_to buffer (unat sz) of
        None \<Rightarrow> Err MemInvalidStaticBufferSize
      | Some bytes \<Rightarrow>
          Ok \<lparr>bb_ptr = overwrite buffer 0 (replicate (length bytes) 0), bb_len = sz,
              bb_capacity = of_nat (length buffer), bb_is_static = True\<rparr>)"

definition buffer_data :: "byte_buffer \<Rightarrow> u8 list" where
  "buffer_data b = take (unat (bb_len b)) (bb_ptr b)"

text \<open>Writing through the slice that \<open>data_mut\<close> returns.\<close>

definition buffer_set_data :: "byte_buffer \<Rightarrow> u8 list \<Rightarrow> byte_buffer" where
  "buffer_set_data b bytes = b\<lparr>bb_ptr := bytes @ drop (unat (bb_len b)) (bb_ptr b)\<rparr>"

definition get_vec :: "byte_buffer \<Rightarrow> (u8 list \<times> usize) option" where
  "get_vec b = (if bb_is_static b then None else Some (buffer_data b, bb_capacity b))"

definition grow_vec ::
  "allocator \<Rightarrow> byte_buffer \<Rightarrow> u8 list \<times> usize \<Rightarrow> usize \<Rightarrow> (memory_error, unit) res \<times> byte_buffer" where
  "grow_vec alloc b vec new_size =
     (case vec of (bytes, cap) \<Rightarrow>
        case try_reserve alloc 1 (length bytes) (unat cap) (unat new_size - length bytes) of
          None \<Rightarrow> (Err MemOutOfSystemMemory, b)
        | Some cap' \<Rightarrow>
            (Ok (), b\<lparr>bb_ptr := bytes @ replicate (unat new_size - length bytes) 0,
                      bb_len := new_size, bb_capacity := of_nat cap'\<rparr>))"

definition grow_static :: "byte_buffer \<Rightarrow> usize \<Rightarrow> (memory_error, unit) res \<times> byte_buffer" where
  "grow_static b new_size =
     (if bb_capacity b < new_size then (Err MemInvalidStaticBufferSize, b)
      else let len = bb_len b; b' = b\<lparr>bb_len := new_size\<rparr> in
        (Ok (), buffer_set_data b'
           (overwrite (buffer_data b') (unat len) (replicate (unat new_size - unat len) 0))))"

definition buffer_grow :: "allocator \<Rightarrow> byte_buffer \<Rightarrow> usize \<Rightarrow> (memory_error, unit) res \<times> byte_buffer" where
  "buffer_grow alloc b new_size =
     (if \<not> bb_len b \<le> new_size then (Panic, b)
      else case get_vec b of
        Some vec \<Rightarrow> grow_vec alloc b vec new_size
      | None \<Rightarrow> grow_static b new_size)"

subsection \<open>The invariant\<close>

definition buffer_wf :: "byte_buffer \<Rightarrow> bool" where
  "buffer_wf b \<longleftrightarrow> bb_len b \<le> bb_capacity b \<and> unat (bb_capacity b) \<le> isize_max
     \<and> length (bb_ptr b) = unat (if bb_is_static b then bb_capacity b else bb_len b)"

lemma length_buffer_data [simp]: "buffer_wf b \<Longrightarrow> length (buffer_data b) = unat (bb_len b)"
  by (auto simp: buffer_wf_def buffer_data_def word_le_nat_alt split: if_splits)

lemma buffer_set_data_laws [simp]:
  assumes "buffer_wf b" "length bytes = unat (bb_len b)"
  shows "buffer_wf (buffer_set_data b bytes)" "buffer_data (buffer_set_data b bytes) = bytes"
    "bb_len (buffer_set_data b bytes) = bb_len b"
  using assms by (auto simp: buffer_wf_def buffer_set_data_def buffer_data_def word_le_nat_alt
      split: if_splits)

lemma unat_of_nat_isize: "n \<le> isize_max \<Longrightarrow> unat (of_nat n :: usize) = n"
  by (simp add: isize_max_def unat_of_nat take_bit_nat_eq_self)

lemma buffer_new_cases:
  obtains (ok) b where "buffer_new alloc sz = Ok b" "buffer_wf b" "bb_len b = sz"
      "buffer_data b = replicate (unat sz) 0"
  | (oom) "buffer_new alloc sz = Err MemOutOfSystemMemory"
proof (cases "try_reserve alloc 1 0 0 (unat sz)")
  case None
  then show thesis by (intro oom) (simp add: buffer_new_def)
next
  case (Some cap)
  then have cap: "unat sz \<le> cap" "cap \<le> isize_max" using try_reserve_Some [OF Some] by simp_all
  let ?b = "\<lparr>bb_ptr = replicate (unat sz) 0, bb_len = sz, bb_capacity = of_nat cap, bb_is_static = False\<rparr>"
  from cap have "buffer_wf ?b" by (simp add: buffer_wf_def word_le_nat_alt unat_of_nat_isize)
  with Some show thesis by (intro ok [of ?b]) (simp_all add: buffer_new_def buffer_data_def)
qed

lemma buffer_new_static_cases:
  assumes "length buffer \<le> isize_max"
  obtains (ok) b where "buffer_new_static buffer sz = Ok b" "buffer_wf b" "bb_len b = sz"
      "buffer_data b = replicate (unat sz) 0" "unat sz \<le> length buffer"
  | (small) "buffer_new_static buffer sz = Err MemInvalidStaticBufferSize" "length buffer < unat sz"
proof (cases "unat sz \<le> length buffer")
  case True
  let ?b = "\<lparr>bb_ptr = overwrite buffer 0 (replicate (unat sz) 0), bb_len = sz,
    bb_capacity = of_nat (length buffer), bb_is_static = True\<rparr>"
  from True assms have "buffer_wf ?b" by (simp add: buffer_wf_def word_le_nat_alt unat_of_nat_isize)
  with True show thesis
    by (intro ok [of ?b]) (simp_all add: buffer_new_static_def slice_to_def buffer_data_def overwrite_def)
next
  case False
  then show thesis by (intro small) (simp_all add: buffer_new_static_def slice_to_def)
qed

lemma grow_vec_cases:
  assumes "buffer_wf b" "\<not> bb_is_static b" "bb_len b \<le> n"
  obtains (ok) b' where "buffer_grow alloc b n = (Ok (), b')" "buffer_wf b'" "bb_len b' = n"
      "buffer_data b' = buffer_data b @ replicate (unat n - unat (bb_len b)) 0"
  | (oom) "buffer_grow alloc b n = (Err MemOutOfSystemMemory, b)"
proof (cases "try_reserve alloc 1 (unat (bb_len b)) (unat (bb_capacity b)) (unat n - unat (bb_len b))")
  case None
  with assms show thesis by (intro oom) (simp add: buffer_grow_def get_vec_def grow_vec_def)
next
  case (Some cap)
  let ?b = "b\<lparr>bb_ptr := buffer_data b @ replicate (unat n - unat (bb_len b)) 0, bb_len := n,
    bb_capacity := of_nat cap\<rparr>"
  from Some assms have cap: "unat n \<le> cap" "cap \<le> isize_max"
    using try_reserve_Some [OF Some] by (auto simp: buffer_wf_def word_le_nat_alt)
  with assms have "buffer_wf ?b"
    by (auto simp: buffer_wf_def buffer_data_def word_le_nat_alt unat_of_nat_isize)
  moreover have "buffer_data ?b = buffer_data b @ replicate (unat n - unat (bb_len b)) 0"
    using assms by (simp add: buffer_data_def [of ?b] word_le_nat_alt)
  ultimately show thesis using Some assms
    by (intro ok [of ?b]) (simp_all add: buffer_grow_def get_vec_def grow_vec_def)
qed

lemma grow_static_cases:
  assumes "buffer_wf b" "bb_is_static b" "bb_len b \<le> n"
  obtains (ok) b' where "buffer_grow alloc b n = (Ok (), b')" "buffer_wf b'" "bb_len b' = n"
      "buffer_data b' = buffer_data b @ replicate (unat n - unat (bb_len b)) 0"
  | (small) "buffer_grow alloc b n = (Err MemInvalidStaticBufferSize, b)" "bb_capacity b < n"
proof (cases "bb_capacity b < n")
  case True
  with assms show thesis by (intro small) (simp_all add: buffer_grow_def get_vec_def grow_static_def)
next
  case False
  let ?b = "b\<lparr>bb_len := n\<rparr>"
  let ?d = "overwrite (buffer_data ?b) (unat (bb_len b)) (replicate (unat n - unat (bb_len b)) 0)"
  have n: "unat (bb_len b) \<le> unat n" "unat n \<le> length (bb_ptr b)"
    using assms False by (auto simp: buffer_wf_def word_le_nat_alt word_less_nat_alt)
  have wf: "buffer_wf ?b" using assms False by (auto simp: buffer_wf_def)
  have d: "?d = buffer_data b @ replicate (unat n - unat (bb_len b)) 0"
    using n by (simp add: overwrite_def buffer_data_def min_def)
  have "length ?d = unat n" using n wf assms(1) by (simp add: d)
  with wf False assms d show thesis
    by (intro ok [of "buffer_set_data ?b ?d"])
      (simp_all add: buffer_grow_def get_vec_def grow_static_def Let_def)
qed

lemma buffer_grow_cases:
  assumes "buffer_wf b"
  obtains (ok) b' where "bb_len b \<le> n" "buffer_grow alloc b n = (Ok (), b')" "buffer_wf b'" "bb_len b' = n"
      "buffer_data b' = buffer_data b @ replicate (unat n - unat (bb_len b)) 0"
  | (fail) e where "bb_len b \<le> n" "buffer_grow alloc b n = (Err e, b)"
      "e = (if bb_is_static b then MemInvalidStaticBufferSize else MemOutOfSystemMemory)"
  | (panic) "\<not> bb_len b \<le> n" "buffer_grow alloc b n = (Panic, b)"
proof (cases "bb_len b \<le> n")
  case True
  show thesis
  proof (cases "bb_is_static b")
    case st: True
    show thesis by (rule grow_static_cases [OF assms st True, of alloc]) (use ok fail True st in auto)
  next
    case st: False
    show thesis by (rule grow_vec_cases [OF assms st True, of alloc]) (use ok fail True st in auto)
  qed
qed (auto intro!: panic simp: buffer_grow_def)

end
