(* ===== verification/Fuel.thy ===== *)
theory Fuel
  imports Prelude
begin

section \<open>Fuel metering (crates/core/src/fuel.rs)\<close>

text \<open>
  The fuel costs of instructions, the provider that selects them, and the fuel counter of a store.
  A custom implementation of the trait \<open>FuelCosts\<close> is a record of the values its methods return;
  the trait's provided methods (\<open>load\<close>, \<open>instance\<close>, \<open>store\<close>, \<open>call\<close>, \<open>simd\<close>) are \<open>base\<close>
  unless an implementation overrides them. \<open>NonZeroU64\<close> is a \<open>u64\<close> that \<open>costs_wf\<close> keeps
  different from zero. The lemmas give every branch of the counter's operations and the
  accounting of a run of consumptions.
\<close>

record fuel_costs =
  fc_base :: u64
  fc_load :: u64
  fc_instance :: u64
  fc_store :: u64
  fc_call :: u64
  fc_simd :: u64
  fc_bytes_per_fuel :: u64

text \<open>An implementation that only provides \<open>base\<close> and \<open>bytes_per_fuel\<close>.\<close>

definition fuel_costs_provided :: "u64 \<Rightarrow> u64 \<Rightarrow> fuel_costs" where
  "fuel_costs_provided base bpf =
     \<lparr>fc_base = base, fc_load = base, fc_instance = base, fc_store = base, fc_call = base,
      fc_simd = base, fc_bytes_per_fuel = bpf\<rparr>"

definition DefaultFuelCosts :: fuel_costs where
  "DefaultFuelCosts = fuel_costs_provided 1 64"

record fuel_costs_provider =
  custom :: "fuel_costs option"

definition provider_apply :: "fuel_costs_provider \<Rightarrow> (fuel_costs \<Rightarrow> u64) \<Rightarrow> u64" where
  "provider_apply p f = (case custom p of Some costs \<Rightarrow> f costs | None \<Rightarrow> f DefaultFuelCosts)"

definition provider_base :: "fuel_costs_provider \<Rightarrow> u64" where
  "provider_base p = provider_apply p fc_base"

definition provider_instance :: "fuel_costs_provider \<Rightarrow> u64" where
  "provider_instance p = provider_apply p fc_instance"

definition provider_load :: "fuel_costs_provider \<Rightarrow> u64" where
  "provider_load p = provider_apply p fc_load"

definition provider_store :: "fuel_costs_provider \<Rightarrow> u64" where
  "provider_store p = provider_apply p fc_store"

definition provider_call :: "fuel_costs_provider \<Rightarrow> u64" where
  "provider_call p = provider_apply p fc_call"

definition provider_simd :: "fuel_costs_provider \<Rightarrow> u64" where
  "provider_simd p = provider_apply p fc_simd"

definition bytes_per_fuel :: "fuel_costs_provider \<Rightarrow> u64" where
  "bytes_per_fuel p =
     (case custom p of Some costs \<Rightarrow> fc_bytes_per_fuel costs
      | None \<Rightarrow> fc_bytes_per_fuel DefaultFuelCosts)"

definition fuel_for_copying_bytes :: "fuel_costs_provider \<Rightarrow> u64 \<Rightarrow> u64" where
  "fuel_for_copying_bytes p len_bytes = len_bytes div bytes_per_fuel p"

text \<open>\<open>size_of\<close> is \<open>mem::size_of::<T>()\<close>, a \<open>usize\<close>.\<close>

definition fuel_for_copying_values :: "fuel_costs_provider \<Rightarrow> usize \<Rightarrow> u64 \<Rightarrow> u64" where
  "fuel_for_copying_values p size_of len_values =
     (case try_from size_of :: u64 option of
        None \<Rightarrow> - 1
      | Some bytes_per_value \<Rightarrow>
          fuel_for_copying_bytes p (saturating_mul len_values bytes_per_value))"

datatype fuel_error = FuelMeteringDisabled | OutOfFuel u64

record fuel =
  remaining :: u64
  enabled :: bool
  costs :: fuel_costs_provider

definition fuel_new :: "bool \<Rightarrow> fuel_costs_provider \<Rightarrow> fuel" where
  "fuel_new en cs = \<lparr>remaining = 0, enabled = en, costs = cs\<rparr>"

definition is_fuel_metering_enabled :: "fuel \<Rightarrow> bool" where
  "is_fuel_metering_enabled f = enabled f"

definition check_fuel_metering_enabled :: "fuel \<Rightarrow> (fuel_error, unit) res" where
  "check_fuel_metering_enabled f =
     (if \<not> is_fuel_metering_enabled f then Err FuelMeteringDisabled else Ok ())"

definition set_fuel :: "fuel \<Rightarrow> u64 \<Rightarrow> (fuel_error, unit) res \<times> fuel" where
  "set_fuel f n =
     (case check_fuel_metering_enabled f of
        Ok _ \<Rightarrow> (Ok (), f\<lparr>remaining := n\<rparr>)
      | Err e \<Rightarrow> (Err e, f)
      | Panic \<Rightarrow> (Panic, f))"

definition get_fuel :: "fuel \<Rightarrow> (fuel_error, u64) res" where
  "get_fuel f =
     (case check_fuel_metering_enabled f of
        Ok _ \<Rightarrow> Ok (remaining f) | Err e \<Rightarrow> Err e | Panic \<Rightarrow> Panic)"

definition consume_fuel_unchecked :: "fuel \<Rightarrow> u64 \<Rightarrow> (fuel_error, u64) res \<times> fuel" where
  "consume_fuel_unchecked f delta =
     (case checked_sub (remaining f) delta of
        None \<Rightarrow> (Err (OutOfFuel delta), f)
      | Some r \<Rightarrow> (Ok r, f\<lparr>remaining := r\<rparr>))"

definition consume_fuel ::
  "fuel \<Rightarrow> (fuel_costs_provider \<Rightarrow> u64) \<Rightarrow> (fuel_error, u64) res \<times> fuel" where
  "consume_fuel f sel =
     (case check_fuel_metering_enabled f of
        Ok _ \<Rightarrow> consume_fuel_unchecked f (sel (costs f))
      | Err e \<Rightarrow> (Err e, f)
      | Panic \<Rightarrow> (Panic, f))"

definition consume_fuel_if ::
  "fuel \<Rightarrow> (fuel_costs_provider \<Rightarrow> u64) \<Rightarrow> (fuel_error, unit) res \<times> fuel" where
  "consume_fuel_if f sel =
     (if \<not> is_fuel_metering_enabled f then (Ok (), f)
      else case consume_fuel_unchecked f (sel (costs f)) of
             (Ok _, f') \<Rightarrow> (Ok (), f')
           | (Err e, f') \<Rightarrow> (Err e, f')
           | (Panic, f') \<Rightarrow> (Panic, f'))"

text \<open>A run of charges, stopping at the first that fails.\<close>

fun consume_run :: "fuel \<Rightarrow> u64 list \<Rightarrow> (fuel_error, unit) res \<times> fuel" where
  "consume_run f [] = (Ok (), f)"
| "consume_run f (d # ds) =
     (case consume_fuel_unchecked f d of
        (Ok _, f') \<Rightarrow> consume_run f' ds
      | (Err e, f') \<Rightarrow> (Err e, f')
      | (Panic, f') \<Rightarrow> (Panic, f'))"

definition costs_wf :: "fuel_costs_provider \<Rightarrow> bool" where
  "costs_wf p \<longleftrightarrow> bytes_per_fuel p \<noteq> 0"

subsection \<open>Behaviour of the counter\<close>

lemma consume_fuel_unchecked_cases:
  obtains (ok) r where "consume_fuel_unchecked f d = (Ok r, f\<lparr>remaining := r\<rparr>)"
      "unat (remaining f) = unat d + unat r"
  | (out) "consume_fuel_unchecked f d = (Err (OutOfFuel d), f)" "unat (remaining f) < unat d"
proof (cases "checked_sub (remaining f) d")
  case None
  then show thesis
    by (intro out) (simp_all add: consume_fuel_unchecked_def flip: checked_sub_None)
next
  case (Some r)
  then show thesis
    by (intro ok) (simp_all add: consume_fuel_unchecked_def flip: checked_sub_Some)
qed

lemma consume_fuel_unchecked_frame:
  "consume_fuel_unchecked f d = (r, f') \<Longrightarrow> enabled f' = enabled f \<and> costs f' = costs f"
  by (rule consume_fuel_unchecked_cases [of f d]) auto

lemma consume_fuel_if_cases:
  obtains (off) "\<not> enabled f" "consume_fuel_if f sel = (Ok (), f)"
  | (ok) r where "enabled f" "consume_fuel_if f sel = (Ok (), f\<lparr>remaining := r\<rparr>)"
      "unat (remaining f) = unat (sel (costs f)) + unat r"
  | (out) "enabled f" "consume_fuel_if f sel = (Err (OutOfFuel (sel (costs f))), f)"
      "unat (remaining f) < unat (sel (costs f))"
proof (cases "enabled f")
  case False
  then show thesis
    by (intro off) (simp_all add: consume_fuel_if_def is_fuel_metering_enabled_def)
next
  case en: True
  show thesis
  proof (rule consume_fuel_unchecked_cases [of f "sel (costs f)"])
    fix r assume "consume_fuel_unchecked f (sel (costs f)) = (Ok r, f\<lparr>remaining := r\<rparr>)"
      "unat (remaining f) = unat (sel (costs f)) + unat r"
    with en show thesis
      by (intro ok) (simp_all add: consume_fuel_if_def is_fuel_metering_enabled_def)
  next
    assume "consume_fuel_unchecked f (sel (costs f)) = (Err (OutOfFuel (sel (costs f))), f)"
      "unat (remaining f) < unat (sel (costs f))"
    with en show thesis
      by (intro out) (simp_all add: consume_fuel_if_def is_fuel_metering_enabled_def)
  qed
qed

lemma consume_fuel_if_never_panics [simp]: "fst (consume_fuel_if f sel) \<noteq> Panic"
  by (rule consume_fuel_if_cases [of f sel]) simp_all

lemma consume_fuel_if_not_disabled [simp]: "fst (consume_fuel_if f sel) \<noteq> Err FuelMeteringDisabled"
  by (rule consume_fuel_if_cases [of f sel]) simp_all

lemma consume_fuel_eq_if:
  "enabled f \<Longrightarrow> consume_fuel f sel = consume_fuel_unchecked f (sel (costs f))"
  by (simp add: consume_fuel_def check_fuel_metering_enabled_def is_fuel_metering_enabled_def)

lemma consume_fuel_disabled: "\<not> enabled f \<Longrightarrow> consume_fuel f sel = (Err FuelMeteringDisabled, f)"
  by (simp add: consume_fuel_def check_fuel_metering_enabled_def is_fuel_metering_enabled_def)

subsection \<open>Charging for bytes\<close>

text \<open>An optional fuel counter, as the operations take it, charged for copying a number of bytes.\<close>

definition charged_for :: "nat \<Rightarrow> fuel option \<Rightarrow> fuel option \<Rightarrow> bool" where
  "charged_for bytes fuel fuel' \<longleftrightarrow>
     (case fuel of
        None \<Rightarrow> fuel' = None
      | Some f \<Rightarrow> if enabled f
          then \<exists>r. fuel' = Some (f\<lparr>remaining := r\<rparr>)
            \<and> unat (remaining f) = bytes div unat (bytes_per_fuel (costs f)) + unat r
          else fuel' = fuel)"

lemma charged_for_0: "charged_for 0 fuel fuel"
proof (cases fuel)
  case (Some f)
  have "f = f\<lparr>remaining := remaining f\<rparr>" by simp
  then have "\<exists>r. f = f\<lparr>remaining := r\<rparr> \<and> unat (remaining f) = unat r" by blast
  with Some show ?thesis by (simp add: charged_for_def)
qed (simp add: charged_for_def)

lemma unat_fuel_for_values:
  "unat n * unat sz < 2 ^ 64 \<Longrightarrow>
   unat (fuel_for_copying_values p sz n) = unat n * unat sz div unat (bytes_per_fuel p)"
  by (simp add: fuel_for_copying_values_def fuel_for_copying_bytes_def unat_saturating_mul unat_div min_def)

lemma unat_fuel_for_bytes:
  "unat (fuel_for_copying_values p 1 n) = unat n div unat (bytes_per_fuel p)"
  using unat_fuel_for_values [of n 1 p] unsigned_less [of n, where ?'a = nat] by simp

text \<open>
  A run of charges is accounted exactly. If every charge succeeds, the fuel that is left is the
  initial fuel less the sum of the charges, with no wrap-around. If the run stops, it stops at the
  first charge that exceeds what the charges before it left, reports that charge, and the counter
  keeps what was left. Whether metering is enabled and the costs never change.
\<close>

theorem consume_run_accounting:
  "case consume_run f ds of
     (Ok _, f') \<Rightarrow> unat (remaining f) = sum_list (map unat ds) + unat (remaining f')
       \<and> enabled f' = enabled f \<and> costs f' = costs f
   | (Err e, f') \<Rightarrow> \<exists>pre d post. ds = pre @ d # post \<and> e = OutOfFuel d
       \<and> unat (remaining f) = sum_list (map unat pre) + unat (remaining f')
       \<and> unat (remaining f') < unat d \<and> enabled f' = enabled f \<and> costs f' = costs f
   | (Panic, f') \<Rightarrow> False"
proof (induction ds arbitrary: f)
  case Nil
  then show ?case by simp
next
  case (Cons d ds)
  show ?case
  proof (rule consume_fuel_unchecked_cases [of f d])
    fix r assume r: "consume_fuel_unchecked f d = (Ok r, f\<lparr>remaining := r\<rparr>)"
      "unat (remaining f) = unat d + unat r"
    show ?thesis
    proof (cases "consume_run (f\<lparr>remaining := r\<rparr>) ds")
      case (Pair res f')
      show ?thesis
      proof (cases res)
        case (Err e)
        with Pair Cons.IH [of "f\<lparr>remaining := r\<rparr>"] obtain pre x post where
          "ds = pre @ x # post" "e = OutOfFuel x"
          "unat r = sum_list (map unat pre) + unat (remaining f')"
          "unat (remaining f') < unat x" "enabled f' = enabled f" "costs f' = costs f"
          by auto
        with r Pair Err show ?thesis
          by (simp, intro exI [of _ "d # pre"] exI [of _ post]) simp
      qed (use Pair Cons.IH [of "f\<lparr>remaining := r\<rparr>"] r in auto)
    qed
  next
    assume "consume_fuel_unchecked f d = (Err (OutOfFuel d), f)" "unat (remaining f) < unat d"
    then show ?thesis by (simp, intro exI [of _ "[]"] exI [of _ ds]) simp
  qed
qed

text \<open>
  The documented value of \<open>fuel_for_copying_values\<close> on overflow is \<open>u64::MAX\<close>. What the code
  computes is the quotient of the saturated byte count by the bytes per fuel, so at the default
  costs no number of values costs more than \<open>u64::MAX / 64\<close>.
\<close>

theorem fuel_for_copying_values_value:
  "unat (fuel_for_copying_values p size_of n) =
     min (unat n * unat size_of) (2 ^ 64 - 1) div unat (bytes_per_fuel p)"
  by (simp add: fuel_for_copying_values_def fuel_for_copying_bytes_def unat_saturating_mul unat_div)

end
