(* ===== verification/Linear_Memory.thy ===== *)
theory Linear_Memory
  imports Memory_Type Byte_Buffer Fuel
begin

section \<open>Linear memories (crates/core/src/memory/mod.rs)\<close>

text \<open>
  A linear memory is a byte buffer and its type. \<open>Memory::grow\<close> threads the memory, the optional
  fuel counter and the optional limiter through its checks in the order of the source: bounds, then
  the limiter, then fuel, then the buffer. Errors are those of \<open>MemoryError\<close>; a failed
  \<open>checked_mul\<close> in \<open>size_in_bytes\<close> or \<open>max_size_in_bytes\<close> and a failed \<open>expect\<close> are \<open>Panic\<close>.
  \<open>memory_wf\<close> is the invariant: a built type, a well-formed buffer, a whole number of pages within
  the limits of the type.
\<close>

record memory =
  mem_bytes :: byte_buffer
  mem_type :: memory_type

type_synonym ('a, 'l) mem_result =
  "(memory_error, 'a) res \<times> memory \<times> fuel option \<times> 'l limiter_ref"

definition memory_new_impl ::
  "(usize \<Rightarrow> (memory_error, byte_buffer) res) \<Rightarrow> memory_type \<Rightarrow> 'l limiter_ref \<Rightarrow>
   (memory_error, memory) res \<times> 'l limiter_ref" where
  "memory_new_impl make_buffer ty limiter =
     (case minimum_byte_size ty of
        Panic \<Rightarrow> (Panic, limiter)
      | Err _ \<Rightarrow> (Err MemMinimumSizeOverflow, limiter)
      | Ok min_size128 \<Rightarrow>
        case try_from min_size128 :: usize option of
          None \<Rightarrow> (Err MemMinimumSizeOverflow, limiter)
        | Some min_size \<Rightarrow>
          if (case mt_maximum ty of None \<Rightarrow> False
              | Some mx \<Rightarrow> (ucast mx :: u128) > absolute_max ty)
          then (Err MemMaximumSizeOverflow, limiter)
          else
            let max_size = map_option (\<lambda>mx.
                  case try_from (shl (ucast mx :: u128) (unat (mt_page_size_log2 ty))) :: usize option of
                    Some n \<Rightarrow> n | None \<Rightarrow> - 1) (mt_maximum ty) in
            case ask_memory_growing limiter 0 min_size max_size of
              (Some (Err e), limiter) \<Rightarrow> (Err (memory_error_of_limiter e), limiter)
            | (Some Panic, limiter) \<Rightarrow> (Panic, limiter)
            | (Some (Ok False), limiter) \<Rightarrow> (Err MemResourceLimiterDeniedAllocation, limiter)
            | (_, limiter) \<Rightarrow>
                (case make_buffer min_size of
                   Ok bytes \<Rightarrow> (Ok \<lparr>mem_bytes = bytes, mem_type = ty\<rparr>, limiter)
                 | Err e \<Rightarrow> notify_memory_grow_failed limiter e
                 | Panic \<Rightarrow> (Panic, limiter)))"

definition memory_new ::
  "allocator \<Rightarrow> memory_type \<Rightarrow> 'l limiter_ref \<Rightarrow> (memory_error, memory) res \<times> 'l limiter_ref" where
  "memory_new alloc = memory_new_impl (buffer_new alloc)"

definition memory_new_static ::
  "u8 list \<Rightarrow> memory_type \<Rightarrow> 'l limiter_ref \<Rightarrow> (memory_error, memory) res \<times> 'l limiter_ref" where
  "memory_new_static buffer = memory_new_impl (buffer_new_static buffer)"

definition memory_size :: "memory \<Rightarrow> u64" where
  "memory_size m = shr (bb_len (mem_bytes m)) (unat (mt_page_size_log2 (mem_type m)))"

definition size_in_bytes :: "memory \<Rightarrow> (memory_error, u64) res" where
  "size_in_bytes m =
     (case checked_mul (memory_size m) (ucast (page_size (mem_type m))) of
        None \<Rightarrow> Panic | Some bytes \<Rightarrow> Ok bytes)"

definition max_size_in_bytes :: "memory \<Rightarrow> (memory_error, u64 option) res" where
  "max_size_in_bytes m =
     (case mt_maximum (mem_type m) of
        None \<Rightarrow> Ok None
      | Some max_pages \<Rightarrow>
          (case checked_mul max_pages (ucast (page_size (mem_type m))) of
             None \<Rightarrow> Panic | Some max_bytes \<Rightarrow> Ok (Some max_bytes)))"

definition dynamic_ty :: "bool \<Rightarrow> memory \<Rightarrow> (memory_error, memory_type) res" where
  "dynamic_ty feature m =
     (let b = mt_builder_min mt_builder (memory_size m);
          b = mt_builder_max b (mt_maximum (mem_type m));
          b = mt_builder_page_size_log2 b (mt_page_size_log2 (mem_type m));
          b = mt_builder_memory64 b (mt_is_64 (mem_type m))
      in case mt_build feature b of Ok t \<Rightarrow> Ok t | _ \<Rightarrow> Panic)"

text \<open>The part of \<open>grow\<close> from the fuel check on, when bounds and limiter allow the growth.\<close>

definition memory_grow_charged ::
  "allocator \<Rightarrow> memory \<Rightarrow> u64 \<Rightarrow> usize \<Rightarrow> fuel option \<Rightarrow> 'l limiter_ref \<Rightarrow> (u64, 'l) mem_result" where
  "memory_grow_charged alloc m current_size desired_byte_size fuel limiter =
     (case buffer_grow alloc (mem_bytes m) desired_byte_size of
        (Ok _, b) \<Rightarrow> (Ok current_size, m\<lparr>mem_bytes := b\<rparr>, fuel, limiter)
      | (Err e, b) \<Rightarrow>
          (case notify_memory_grow_failed limiter e of
             (r, limiter) \<Rightarrow> (r, m\<lparr>mem_bytes := b\<rparr>, fuel, limiter))
      | (Panic, b) \<Rightarrow> (Panic, m\<lparr>mem_bytes := b\<rparr>, fuel, limiter))"

definition memory_grow_allowed ::
  "allocator \<Rightarrow> memory \<Rightarrow> u64 \<Rightarrow> u64 \<Rightarrow> u64 \<Rightarrow> usize \<Rightarrow> fuel option \<Rightarrow> 'l limiter_ref \<Rightarrow>
   (u64, 'l) mem_result" where
  "memory_grow_allowed alloc m additional bytes_per_page current_size desired_byte_size fuel limiter =
     (case fuel of
        None \<Rightarrow> memory_grow_charged alloc m current_size desired_byte_size fuel limiter
      | Some f \<Rightarrow>
          (case checked_mul additional bytes_per_page of
             None \<Rightarrow> (Panic, m, fuel, limiter)
           | Some additional_bytes \<Rightarrow>
               (case consume_fuel_if f (\<lambda>costs. fuel_for_copying_values costs 1 additional_bytes) of
                  (Err (OutOfFuel required_fuel), f') \<Rightarrow>
                    (case notify_memory_grow_failed limiter (MemOutOfFuel required_fuel) of
                       (r, limiter) \<Rightarrow> (r, m, Some f', limiter))
                | (Panic, f') \<Rightarrow> (Panic, m, Some f', limiter)
                | (_, f') \<Rightarrow>
                    memory_grow_charged alloc m current_size desired_byte_size (Some f') limiter)))"

definition memory_grow ::
  "allocator \<Rightarrow> memory \<Rightarrow> u64 \<Rightarrow> fuel option \<Rightarrow> 'l limiter_ref \<Rightarrow> (u64, 'l) mem_result" where
  "memory_grow alloc m additional fuel limiter =
     (if additional = 0 then (Ok (memory_size m), m, fuel, limiter)
      else case size_in_bytes m of
        Ok current_byte_size \<Rightarrow>
        (case max_size_in_bytes m of
          Ok maximum_bytes \<Rightarrow>
          (let current_size = memory_size m in
           case checked_add current_size additional of
             None \<Rightarrow> (Err MemOutOfBoundsGrowth, m, fuel, limiter)
           | Some desired_size \<Rightarrow>
             if (ucast desired_size :: u128) > absolute_max (mem_type m)
             then (Err MemOutOfBoundsGrowth, m, fuel, limiter)
             else if (case mt_maximum (mem_type m) of None \<Rightarrow> False
                      | Some maximum_size \<Rightarrow> desired_size > maximum_size)
             then (Err MemOutOfBoundsGrowth, m, fuel, limiter)
             else let bytes_per_page = ucast (page_size (mem_type m)) in
             case checked_mul desired_size bytes_per_page of
               None \<Rightarrow> (Err MemOutOfBoundsGrowth, m, fuel, limiter)
             | Some desired_bytes \<Rightarrow>
               case try_from desired_bytes :: usize option of
                 None \<Rightarrow> (Err MemOutOfBoundsGrowth, m, fuel, limiter)
               | Some desired_byte_size \<Rightarrow>
                 case ask_memory_growing limiter current_byte_size desired_byte_size
                        maximum_bytes of
                   (Some (Ok False), limiter) \<Rightarrow> (Err MemOutOfBoundsGrowth, m, fuel, limiter)
                 | (Some (Err e), limiter) \<Rightarrow> (Err (memory_error_of_limiter e), m, fuel, limiter)
                 | (Some Panic, limiter) \<Rightarrow> (Panic, m, fuel, limiter)
                 | (_, limiter) \<Rightarrow>
                     memory_grow_allowed alloc m additional bytes_per_page current_size
                       desired_byte_size fuel limiter)
        | _ \<Rightarrow> (Panic, m, fuel, limiter))
      | _ \<Rightarrow> (Panic, m, fuel, limiter))"

definition memory_data :: "memory \<Rightarrow> u8 list" where
  "memory_data m = buffer_data (mem_bytes m)"

definition data_size :: "memory \<Rightarrow> usize" where
  "data_size m = bb_len (mem_bytes m)"

definition access_span :: "usize \<Rightarrow> usize \<Rightarrow> (memory_error, nat \<times> nat) res" where
  "access_span start len =
     (case checked_add start len of
        None \<Rightarrow> Err MemOutOfBoundsAccess
      | Some e \<Rightarrow> Ok (unat start, unat e))"

text \<open>\<open>read\<close> returns the new contents of the caller's buffer, \<open>write\<close> the new memory.\<close>

definition memory_read :: "memory \<Rightarrow> usize \<Rightarrow> u8 list \<Rightarrow> (memory_error, unit) res \<times> u8 list" where
  "memory_read m offset buffer =
     (case access_span offset (of_nat (length buffer)) of
        Ok (a, b) \<Rightarrow>
          (case slice_range (memory_data m) a b of
             None \<Rightarrow> (Err MemOutOfBoundsAccess, buffer)
           | Some bytes \<Rightarrow> (Ok (), bytes))
      | Err e \<Rightarrow> (Err e, buffer)
      | Panic \<Rightarrow> (Panic, buffer))"

definition memory_write :: "memory \<Rightarrow> usize \<Rightarrow> u8 list \<Rightarrow> (memory_error, unit) res \<times> memory" where
  "memory_write m offset buffer =
     (case access_span offset (of_nat (length buffer)) of
        Ok (a, b) \<Rightarrow>
          (case slice_range (memory_data m) a b of
             None \<Rightarrow> (Err MemOutOfBoundsAccess, m)
           | Some bytes \<Rightarrow>
               (Ok (), m\<lparr>mem_bytes :=
                  buffer_set_data (mem_bytes m) (overwrite (memory_data m) a buffer)\<rparr>))
      | Err e \<Rightarrow> (Err e, m)
      | Panic \<Rightarrow> (Panic, m))"

subsection \<open>The invariant\<close>

definition memory_wf :: "bool \<Rightarrow> memory \<Rightarrow> bool" where
  "memory_wf feature m \<longleftrightarrow> mt_wf feature (mem_type m) \<and> buffer_wf (mem_bytes m)
     \<and> 2 ^ unat (mt_page_size_log2 (mem_type m)) dvd unat (bb_len (mem_bytes m))
     \<and> admits (mem_type m) (unat (memory_size m))
     \<and> unat (memory_size m) \<le> page_limit (mem_type m)"

definition page_bytes :: "memory \<Rightarrow> nat" where
  "page_bytes m = 2 ^ unat (mt_page_size_log2 (mem_type m))"

lemma page_bytes_pos [simp]: "0 < page_bytes m"
  by (simp add: page_bytes_def)

lemma memory_wfD:
  assumes "memory_wf feature m"
  shows "mt_wf feature (mem_type m)" "buffer_wf (mem_bytes m)" "mt_page_size_log2 (mem_type m) \<in> {0, 16}"
    "unat (memory_size m) * page_bytes m = unat (data_size m)"
    "unat (data_size m) \<le> isize_max" "length (memory_data m) = unat (data_size m)"
proof -
  note wf = assms [unfolded memory_wf_def]
  from wf show "mt_wf feature (mem_type m)" and b: "buffer_wf (mem_bytes m)" by simp_all
  from wf show log2: "mt_page_size_log2 (mem_type m) \<in> {0, 16}" by (simp add: mt_wf_def)
  then have "unat (mt_page_size_log2 (mem_type m)) mod 64 = unat (mt_page_size_log2 (mem_type m))" by auto
  with wf show "unat (memory_size m) * page_bytes m = unat (data_size m)"
    by (simp add: memory_size_def page_bytes_def data_size_def unat_shr)
  from b show "unat (data_size m) \<le> isize_max"
    by (auto simp: buffer_wf_def data_size_def word_le_nat_alt)
  from b show "length (memory_data m) = unat (data_size m)" by (simp add: memory_data_def data_size_def)
qed

lemma memory_wf_page_size: "memory_wf feature m \<Longrightarrow> unat (page_size (mem_type m)) = page_bytes m"
  using memory_wfD(3) [of feature m] by (simp add: page_bytes_def)

lemma memory_wf_size:
  assumes "memory_wf feature m"
  shows "size_in_bytes m = Ok (data_size m)"
proof -
  have "checked_mul (memory_size m) (ucast (page_size (mem_type m))) = Some (data_size m)"
    using memory_wfD(3,4) [OF assms] by (simp add: checked_mul_Some page_bytes_def del: insert_iff)
  then show ?thesis by (simp add: size_in_bytes_def)
qed

lemma max_size_in_bytes_cases:
  assumes "memory_wf feature m"
  obtains (ok) mb where "max_size_in_bytes m = Ok mb"
      "\<not> (\<exists>mx. mt_maximum (mem_type m) = Some mx \<and> unat mx * page_bytes m = 2 ^ 64)"
  | (panic) mx where "max_size_in_bytes m = Panic" "mt_maximum (mem_type m) = Some mx"
      "unat mx * page_bytes m = 2 ^ 64"
proof (cases "mt_maximum (mem_type m)")
  case None
  then show thesis by (intro ok) (simp_all add: max_size_in_bytes_def)
next
  case (Some mx)
  let ?p = "ucast (page_size (mem_type m)) :: u64"
  note p = memory_wf_page_size [OF assms]
  from Some memory_wfD(1) [OF assms] have "unat mx \<le> page_limit (mem_type m)" by (simp add: mt_wf_def)
  then have "unat mx * page_bytes m \<le> 2 ^ 64" unfolding page_bytes_def by (rule page_bytes_less)
  show thesis
  proof (cases "checked_mul mx ?p")
    case None
    with p \<open>unat mx * page_bytes m \<le> 2 ^ 64\<close> have "unat mx * page_bytes m = 2 ^ 64"
      by (simp add: checked_mul_None)
    with Some None show thesis by (intro panic) (simp_all add: max_size_in_bytes_def)
  next
    case (Some b)
    then have "unat mx * page_bytes m < 2 ^ 64" by (simp add: checked_mul_def p split: if_splits)
    with Some \<open>mt_maximum (mem_type m) = Some mx\<close> show thesis
      by (intro ok) (auto simp: max_size_in_bytes_def)
  qed
qed

subsection \<open>Growing\<close>

text \<open>A memory grown by \<open>n\<close> pages.\<close>

definition grown_by :: "nat \<Rightarrow> memory \<Rightarrow> memory \<Rightarrow> bool" where
  "grown_by n m m' \<longleftrightarrow> mem_type m' = mem_type m \<and> buffer_wf (mem_bytes m')
     \<and> unat (data_size m') = unat (data_size m) + n * page_bytes m
     \<and> memory_data m' = memory_data m @ replicate (n * page_bytes m) 0"

lemma memory_grow_charged_cases:
  assumes "memory_wf feature m" "unat d = unat (data_size m) + n * page_bytes m"
  obtains (ok) m' where "memory_grow_charged alloc m cur d fuel lim = (Ok cur, m', fuel, lim)"
      "grown_by n m m'"
  | (fail) e where "memory_grow_charged alloc m cur d fuel lim =
      (case notify_memory_grow_failed lim e of (r, lim') \<Rightarrow> (r, m, fuel, lim'))"
proof -
  have le: "bb_len (mem_bytes m) \<le> d" using assms by (simp add: word_le_nat_alt data_size_def)
  from memory_wfD(2) [OF assms(1)] show thesis
  proof (rule buffer_grow_cases [of "mem_bytes m" d alloc])
    fix b assume "buffer_grow alloc (mem_bytes m) d = (Ok (), b)" "buffer_wf b" "bb_len b = d"
      "buffer_data b = buffer_data (mem_bytes m) @ replicate (unat d - unat (bb_len (mem_bytes m))) 0"
    with assms show thesis
      by (intro ok [of "m\<lparr>mem_bytes := b\<rparr>"])
        (simp_all add: memory_grow_charged_def grown_by_def memory_data_def data_size_def)
  next
    fix e assume "buffer_grow alloc (mem_bytes m) d = (Err e, mem_bytes m)"
    then show thesis by (intro fail [of e]) (simp add: memory_grow_charged_def split_beta)
  qed (use le in simp)
qed

lemma memory_grow_allowed_cases:
  assumes wf: "memory_wf feature m" and d: "unat d = unat (data_size m) + unat additional * page_bytes m"
    and res_def: "res = memory_grow_allowed alloc m additional (ucast (page_size (mem_type m))) cur d fuel lim"
  obtains (ok) m' fuel' where "res = (Ok cur, m', fuel', lim)" "grown_by (unat additional) m m'"
      "charged_for (unat additional * page_bytes m) fuel fuel'"
  | (fail) e fuel' where
      "res = (case notify_memory_grow_failed lim e of (r, lim') \<Rightarrow> (r, m, fuel', lim'))"
      "fuel' = fuel \<or> charged_for (unat additional * page_bytes m) fuel fuel'"
proof (cases fuel)
  case None
  then have res: "res = memory_grow_charged alloc m cur d None lim"
    by (simp add: res_def memory_grow_allowed_def)
  show thesis
    by (rule memory_grow_charged_cases [OF wf d, of alloc cur None lim])
      (use res None ok fail in \<open>auto simp: charged_for_def\<close>)
next
  case (Some f)
  let ?bpp = "ucast (page_size (mem_type m)) :: u64"
  note bpp = memory_wf_page_size [OF wf]
  have "unat additional * page_bytes m < 2 ^ 64"
    using d unsigned_less [of d, where ?'a = nat] by simp
  then obtain ab where ab: "checked_mul additional ?bpp = Some ab" "unat ab = unat additional * page_bytes m"
    by (cases "checked_mul additional ?bpp") (auto simp: rust_arith bpp)
  let ?sel = "\<lambda>costs. fuel_for_copying_values costs 1 ab"
  have go: thesis if "consume_fuel_if f ?sel = (Ok (), f')" "charged_for (unat ab) fuel (Some f')" for f'
  proof -
    from that Some ab have res: "res = memory_grow_charged alloc m cur d (Some f') lim"
      by (simp add: res_def memory_grow_allowed_def)
    show thesis
      by (rule memory_grow_charged_cases [OF wf d, of alloc cur "Some f'" lim])
        (use res that(2) ab ok fail in auto)
  qed
  show thesis
  proof (rule consume_fuel_if_cases [of f ?sel])
    assume "consume_fuel_if f ?sel = (Err (OutOfFuel (?sel (costs f))), f)"
    with Some ab show thesis
      by (intro fail [of fuel "MemOutOfFuel (?sel (costs f))"])
        (simp_all add: res_def memory_grow_allowed_def split_beta)
  qed (auto intro!: go simp: Some charged_for_def unat_fuel_for_bytes)
qed

text \<open>
  Growth is in bounds if the new size respects the address space and the maximum; it is refused by
  the limiter if there is one and it does not answer \<open>Ok(true)\<close>.
\<close>

definition growth_in_bounds :: "memory \<Rightarrow> u64 \<Rightarrow> bool" where
  "growth_in_bounds m additional \<longleftrightarrow>
     unat (memory_size m) + unat additional \<le> page_limit (mem_type m)
     \<and> admits (mem_type m) (unat (memory_size m) + unat additional)
     \<and> (unat (memory_size m) + unat additional) * page_bytes m < 2 ^ 64"

fun denial :: "(limiter_error, bool) res option \<Rightarrow> (memory_error, u64) res option" where
  "denial None = None"
| "denial (Some (Ok True)) = None"
| "denial (Some (Ok False)) = Some (Err MemOutOfBoundsGrowth)"
| "denial (Some (Err e)) = Some (Err (memory_error_of_limiter e))"
| "denial (Some Panic) = Some Panic"

lemma le_mult_pos: "0 < (k::nat) \<Longrightarrow> n \<le> n * k"
  by simp

lemma memory_grow_bounds:
  assumes wf: "memory_wf feature m" and "additional \<noteq> 0" and mb: "max_size_in_bytes m = Ok mb"
  shows "memory_grow alloc m additional fuel lim =
    (if growth_in_bounds m additional
     then let d = of_nat ((unat (memory_size m) + unat additional) * page_bytes m) in
       (case ask_memory_growing lim (data_size m) d mb of (r, lim') \<Rightarrow>
          (case denial r of
             Some e \<Rightarrow> (e, m, fuel, lim')
           | None \<Rightarrow> memory_grow_allowed alloc m additional (ucast (page_size (mem_type m)))
                       (memory_size m) d fuel lim'))
     else (Err MemOutOfBoundsGrowth, m, fuel, lim))"
proof (cases "checked_add (memory_size m) additional")
  case None
  then have "2 ^ 64 \<le> unat (memory_size m) + unat additional" by (simp add: checked_add_None)
  also have "\<dots> \<le> (unat (memory_size m) + unat additional) * page_bytes m"
    by (rule le_mult_pos) simp
  finally have "\<not> growth_in_bounds m additional" by (simp add: growth_in_bounds_def)
  with None assms show ?thesis by (simp add: memory_grow_def memory_wf_size [OF wf])
next
  case (Some ds)
  let ?bpp = "ucast (page_size (mem_type m)) :: u64"
  from Some have ds: "unat ds = unat (memory_size m) + unat additional" by (simp add: checked_add_Some)
  note bpp = memory_wf_page_size [OF wf]
  have abs: "unat (absolute_max (mem_type m)) = page_limit (mem_type m)"
    using memory_wfD(3) [OF wf] by simp
  have mn: "unat (mt_minimum (mem_type m)) \<le> unat ds"
    using wf ds by (simp add: memory_wf_def admits_def)
  show ?thesis
  proof (cases "growth_in_bounds m additional")
    case True
    then have "unat ds * page_bytes m < 2 ^ 64" by (simp add: growth_in_bounds_def ds)
    then have d: "checked_mul ds ?bpp = Some (of_nat ((unat (memory_size m) + unat additional) * page_bytes m))"
      by (simp add: checked_mul_Some bpp ds unat_of_nat take_bit_nat_eq_self del: of_nat_mult of_nat_add)
    from True ds have "\<not> (ucast ds :: u128) > absolute_max (mem_type m)"
      "\<not> (case mt_maximum (mem_type m) of None \<Rightarrow> False | Some mx \<Rightarrow> ds > mx)"
      by (simp_all add: growth_in_bounds_def word_less_nat_alt abs admits_def split: option.splits)
    with Some True d assms show ?thesis
      by (simp add: memory_grow_def memory_wf_size [OF wf] Let_def split: prod.split option.split res.split bool.split)
  next
    case False
    then have "(ucast ds :: u128) > absolute_max (mem_type m)
      \<or> (case mt_maximum (mem_type m) of None \<Rightarrow> False | Some mx \<Rightarrow> ds > mx)
      \<or> checked_mul ds ?bpp = None"
      using mn by (auto simp: growth_in_bounds_def ds [symmetric] word_less_nat_alt abs admits_def
          checked_mul_None bpp not_less split: option.splits)
    with Some False assms show ?thesis
      by (auto simp: memory_grow_def memory_wf_size [OF wf] Let_def)
  qed
qed

lemma grown_by_0: "memory_wf feature m \<Longrightarrow> grown_by 0 m m"
  by (simp add: grown_by_def memory_wfD)

lemma memory_size_grown_by:
  assumes "memory_wf feature m" "grown_by n m m'"
  shows "unat (memory_size m') = unat (memory_size m) + n"
proof -
  have log2: "unat (mt_page_size_log2 (mem_type m)) mod 64 = unat (mt_page_size_log2 (mem_type m))"
    using memory_wfD(3) [OF assms(1)] by auto
  have "unat (memory_size m') = unat (data_size m') div page_bytes m"
    using assms(2) by (simp add: memory_size_def unat_shr log2 page_bytes_def data_size_def grown_by_def)
  also have "\<dots> = (unat (memory_size m) + n) * page_bytes m div page_bytes m"
    using assms(2) memory_wfD(4) [OF assms(1)] by (simp add: grown_by_def add_mult_distrib)
  finally show ?thesis by simp
qed

lemma memory_wf_grown_by:
  assumes "memory_wf feature m" "grown_by (unat n) m m'" "growth_in_bounds m n"
  shows "memory_wf feature m'"
proof -
  have "page_bytes m dvd unat (data_size m')"
    using assms(2) memory_wfD(4) [OF assms(1), symmetric] by (simp add: grown_by_def)
  with assms memory_size_grown_by [OF assms(1,2)] show ?thesis
    by (simp add: memory_wf_def grown_by_def growth_in_bounds_def page_bytes_def data_size_def)
qed

lemma denial_not_Ok: "denial r = Some q \<Longrightarrow> q \<noteq> Ok x"
  by (cases r rule: denial.cases) auto

lemma memory_grow_cases:
  assumes wf: "memory_wf feature m"
  obtains (ok) m' fuel' lim' where
      "memory_grow alloc m additional fuel lim = (Ok (memory_size m), m', fuel', lim')"
      "grown_by (unat additional) m m'" "charged_for (unat additional * page_bytes m) fuel fuel'"
      "memory_wf feature m'"
  | (err) r fuel' lim' where "memory_grow alloc m additional fuel lim = (r, m, fuel', lim')"
      "\<forall>x. r \<noteq> Ok x" "fuel' = fuel \<or> charged_for (unat additional * page_bytes m) fuel fuel'"
proof (cases "additional = 0 \<or> \<not> growth_in_bounds m additional")
  case True
  show thesis
  proof (cases "additional = 0")
    case True
    with wf show thesis
      by (intro ok [of m fuel lim]) (simp_all add: memory_grow_def grown_by_0 charged_for_0)
  next
    case nz: False
    with True have nb: "\<not> growth_in_bounds m additional" by simp
    from wf show thesis
    proof (rule max_size_in_bytes_cases)
      fix mb assume "max_size_in_bytes m = Ok mb"
      from memory_grow_bounds [OF wf nz this, of alloc fuel lim] nb
      show thesis by (intro err [of "Err MemOutOfBoundsGrowth" fuel lim]) simp_all
    next
      assume "max_size_in_bytes m = Panic"
      with nz show thesis by (intro err [of Panic fuel lim]) (simp_all add: memory_grow_def memory_wf_size [OF wf])
    qed
  qed
next
  case False
  then have nz: "additional \<noteq> 0" and gb: "growth_in_bounds m additional" by simp_all
  from wf show thesis
  proof (rule max_size_in_bytes_cases)
    fix mb assume mb: "max_size_in_bytes m = Ok mb"
    let ?d = "of_nat ((unat (memory_size m) + unat additional) * page_bytes m) :: usize"
    obtain r lim' where ask: "ask_memory_growing lim (data_size m) ?d mb = (r, lim')" by fastforce
    have "(unat (memory_size m) + unat additional) * page_bytes m < 2 ^ 64"
      using gb by (simp add: growth_in_bounds_def)
    then have d: "unat ?d = unat (data_size m) + unat additional * page_bytes m"
      by (simp add: unat_of_nat take_bit_nat_eq_self memory_wfD(4) [OF wf] add_mult_distrib
          del: of_nat_mult of_nat_add)
    note eq = memory_grow_bounds [OF wf nz mb, of alloc fuel lim, unfolded Let_def ask, simplified gb]
    show thesis
    proof (cases "denial r")
      case (Some q)
      with eq denial_not_Ok [OF Some] show thesis by (intro err [of q fuel lim']) simp_all
    next
      case None
      show thesis
      proof (rule memory_grow_allowed_cases [OF wf d refl, of alloc "memory_size m" fuel lim'])
        fix m' fuel' assume "memory_grow_allowed alloc m additional (ucast (page_size (mem_type m)))
          (memory_size m) ?d fuel lim' = (Ok (memory_size m), m', fuel', lim')"
          and m': "grown_by (unat additional) m m'"
            "charged_for (unat additional * page_bytes m) fuel fuel'"
        with eq None ok [of m' fuel' lim'] memory_wf_grown_by [OF wf m'(1) gb] show thesis by simp
      next
        fix e fuel' assume "memory_grow_allowed alloc m additional (ucast (page_size (mem_type m)))
          (memory_size m) ?d fuel lim' =
          (case notify_memory_grow_failed lim' e of (r, l) \<Rightarrow> (r, m, fuel', l))"
          "fuel' = fuel \<or> charged_for (unat additional * page_bytes m) fuel fuel'"
        with eq None show thesis
          by (cases "notify_memory_grow_failed lim' e :: (memory_error, u64) res \<times> 'a limiter_ref")
            (auto intro!: err)
      qed
    qed
  next
    assume "max_size_in_bytes m = Panic"
    with nz show thesis by (intro err [of Panic fuel lim]) (simp_all add: memory_grow_def memory_wf_size [OF wf])
  qed
qed

text \<open>
  C1: Growing a well-formed memory. On success the old size in pages is returned, the memory has
  exactly the requested pages more, its old bytes are unchanged and the new ones are zero, its type
  is unchanged, it is again well-formed, and the fuel counter, if there is one and it is enabled, is
  charged exactly the bytes added divided by the bytes per fuel. On any error or panic the memory is
  unchanged.
\<close>

theorem memory_grow_correct:
  assumes "memory_wf feature m"
  shows "case memory_grow alloc m additional fuel lim of (r, m', fuel', lim') \<Rightarrow>
    memory_wf feature m' \<and> mem_type m' = mem_type m \<and>
    (case r of
       Ok old \<Rightarrow> old = memory_size m \<and> unat (memory_size m') = unat old + unat additional
         \<and> memory_data m' = memory_data m @ replicate (unat additional * page_bytes m) 0
         \<and> charged_for (unat additional * page_bytes m) fuel fuel'
     | _ \<Rightarrow> m' = m)"
proof (rule memory_grow_cases [OF assms, of alloc additional fuel lim])
  fix m' fuel' lim'
  assume "memory_grow alloc m additional fuel lim = (Ok (memory_size m), m', fuel', lim')"
    and g: "grown_by (unat additional) m m'" and
    "charged_for (unat additional * page_bytes m) fuel fuel'" "memory_wf feature m'"
  then show ?thesis using memory_size_grown_by [OF assms g] by (simp add: grown_by_def)
next
  fix r fuel' lim'
  assume "memory_grow alloc m additional fuel lim = (r, m, fuel', lim')" "\<forall>x. r \<noteq> Ok x"
  with assms show ?thesis by (cases r) simp_all
qed

definition example_memory :: memory where
  "example_memory = \<lparr>mem_bytes = \<lparr>bb_ptr = replicate 4 7, bb_len = 4, bb_capacity = 8, bb_is_static = False\<rparr>,
     mem_type = \<lparr>mt_minimum = 2, mt_maximum = Some 6, mt_page_size_log2 = 0, mt_index_type = Index32\<rparr>\<rparr>"

lemma example_memory_wf: "memory_wf False example_memory"
  by (simp add: example_memory_def memory_wf_def mt_wf_def mt_is_64_def page_limit_def buffer_wf_def
      isize_max_def memory_size_def shr_def admits_def)

theorem memory_grow_correct_witness:
  "case memory_grow (\<lambda>n. n < 100) example_memory 2 None (None :: store_limits limiter_ref) of
     (r, m', fuel', lim') \<Rightarrow> memory_wf False m' \<and> mem_type m' = mem_type example_memory \<and>
    (case r of
       Ok old \<Rightarrow> old = memory_size example_memory \<and> unat (memory_size m') = unat old + unat (2 :: u64)
         \<and> memory_data m' = memory_data example_memory @ replicate (unat (2 :: u64) * page_bytes example_memory) 0
         \<and> charged_for (unat (2 :: u64) * page_bytes example_memory) None fuel'
     | _ \<Rightarrow> m' = example_memory)"
  by (rule memory_grow_correct [OF example_memory_wf])

subsection \<open>Growing under a limiter\<close>

text \<open>
  The type's maximum is one that \<open>max_size_in_bytes\<close> cannot represent in 64 bits: \<open>2 ^ 48\<close> pages of
  64 KiB. The other maxima that \<open>build\<close> accepts are smaller.
\<close>

definition max_overflows :: "memory \<Rightarrow> bool" where
  "max_overflows m \<longleftrightarrow> (\<exists>mx. mt_maximum (mem_type m) = Some mx \<and> unat mx * page_bytes m = 2 ^ 64)"

lemma memory_grow_max_overflows:
  assumes wf: "memory_wf feature m" and "max_overflows m" "additional \<noteq> 0"
  shows "memory_grow alloc m additional fuel lim = (Panic, m, fuel, lim)"
  using wf
proof (rule max_size_in_bytes_cases)
  assume "max_size_in_bytes m = Panic"
  with assms show ?thesis by (simp add: memory_grow_def memory_wf_size [OF wf])
qed (use assms(2) in \<open>auto simp: max_overflows_def\<close>)

context growth_limiter
begin

lemma memory_grow_limited:
  assumes wf: "memory_wf feature m" and b: "within (mem_bound l) (data_size m)"
    and eq: "memory_grow alloc m additional fuel (Some (vt, l)) = (r, m', fuel', lim')"
    and no: "\<not> (additional \<noteq> 0 \<and> max_overflows m)"
  obtains l' where "lim' = Some (vt, l')" "mem_bound l' = mem_bound l" "r \<noteq> Panic"
    "within (mem_bound l) (data_size m')"
proof (cases "additional = 0 \<or> \<not> growth_in_bounds m additional")
  case True
  then show thesis
  proof (rule disjE)
    assume "additional = 0"
    with eq b show thesis by (intro that [of l]) (auto simp: memory_grow_def)
  next
    assume nb: "\<not> growth_in_bounds m additional"
    from wf show thesis
    proof (rule max_size_in_bytes_cases)
      fix mb assume mb: "max_size_in_bytes m = Ok mb"
      show thesis
      proof (cases "additional = 0")
        case False
        with memory_grow_bounds [OF wf False mb, of alloc fuel "Some (vt, l)"] nb eq b show thesis
          by (intro that [of l]) auto
      qed (use eq b that in \<open>auto simp: memory_grow_def\<close>)
    qed (use no eq b that in \<open>auto simp: memory_grow_def max_overflows_def\<close>)
  qed
next
  case False
  then have nz: "additional \<noteq> 0" and gb: "growth_in_bounds m additional" by simp_all
  with no wf obtain mb where mb: "max_size_in_bytes m = Ok mb"
    by (auto simp: max_overflows_def elim: max_size_in_bytes_cases)
  let ?d = "of_nat ((unat (memory_size m) + unat additional) * page_bytes m) :: usize"
  obtain q lim1 where ask: "ask_memory_growing (Some (vt, l)) (data_size m) ?d mb = (q, lim1)" by fastforce
  then obtain q' l1 where q: "q = Some q'" "lim1 = Some (vt, l1)" "q' \<noteq> Panic"
    "q' = Ok True \<longrightarrow> within (mem_bound l) ?d" "mem_bound l1 = mem_bound l"
    by (rule ask_memory_law) blast
  have "(unat (memory_size m) + unat additional) * page_bytes m < 2 ^ 64"
    using gb by (simp add: growth_in_bounds_def)
  then have d: "unat ?d = unat (data_size m) + unat additional * page_bytes m"
    by (simp add: unat_of_nat take_bit_nat_eq_self memory_wfD(4) [OF wf] add_mult_distrib
        del: of_nat_mult of_nat_add)
  note eq' = eq [unfolded memory_grow_bounds [OF wf nz mb] Let_def ask, simplified gb]
  show thesis
  proof (cases "denial q")
    case (Some x)
    then have "x \<noteq> Panic" using q by (cases q rule: denial.cases) auto
    with eq' Some q b show thesis by (intro that [of l1]) auto
  next
    case None
    then have ok: "within (mem_bound l) ?d" using q by (cases q rule: denial.cases) auto
    show thesis
    proof (rule memory_grow_allowed_cases [OF wf d refl, of alloc "memory_size m" fuel lim1])
      fix m2 fuel2 assume "memory_grow_allowed alloc m additional (ucast (page_size (mem_type m)))
        (memory_size m) ?d fuel lim1 = (Ok (memory_size m), m2, fuel2, lim1)"
        and g: "grown_by (unat additional) m m2"
      moreover from g d have "data_size m2 = ?d" by (simp add: grown_by_def word_unat_eq_iff)
      ultimately show thesis using eq' None q ok by (intro that [of l1]) (auto simp del: of_nat_mult of_nat_add)
    next
      fix e fuel2 assume a: "memory_grow_allowed alloc m additional (ucast (page_size (mem_type m)))
        (memory_size m) ?d fuel lim1 =
        (case notify_memory_grow_failed lim1 e of (r, l) \<Rightarrow> (r, m, fuel2, l))"
      obtain x :: "(memory_error, u64) res" and l2
        where n: "notify_memory_grow_failed (Some (vt, l1)) e = (x, l2)" by fastforce
      from n obtain e' l3 where "x = Err e'" "l2 = Some (vt, l3)" "mem_bound l3 = mem_bound l1"
        by (rule notify_memory_law)
      with eq' a n q b None show thesis by (intro that [of l3]) auto
    qed
  qed
qed

end

text \<open>
  C25: Under the limiter that the crate ships, \<open>Memory::grow\<close> on a well-formed memory panics exactly
  if the maximum of its type is \<open>2 ^ 64\<close> bytes (\<open>2 ^ 48\<close> pages of 64 KiB, which \<open>build\<close> accepts) and
  the request is not for zero pages: \<open>max_size_in_bytes\<close> then overflows.
\<close>

theorem memory_grow_panics_iff:
  assumes wf: "memory_wf feature m" and b: "within (sl_memory_size l) (data_size m)"
  shows "fst (memory_grow alloc m additional fuel (Some (StoreLimits, l))) = Panic
    \<longleftrightarrow> additional \<noteq> 0 \<and> max_overflows m"
proof (cases "additional \<noteq> 0 \<and> max_overflows m")
  case True
  then have "additional \<noteq> 0" "max_overflows m" by simp_all
  with memory_grow_max_overflows [OF wf this(2,1), of alloc fuel "Some (StoreLimits, l)"]
  show ?thesis by simp
next
  case False
  obtain r m' fuel' lim' where
    eq: "memory_grow alloc m additional fuel (Some (StoreLimits, l)) = (r, m', fuel', lim')"
    by (metis surj_pair)
  from limits.memory_grow_limited [OF wf b eq False] have "r \<noteq> Panic" by blast
  with eq False show ?thesis by simp
qed

theorem memory_grow_panics_iff_witness:
  "fst (memory_grow (\<lambda>n. n < 100) \<lparr>mem_bytes = \<lparr>bb_ptr = [], bb_len = 0, bb_capacity = 0, bb_is_static = False\<rparr>,
     mem_type = \<lparr>mt_minimum = 0, mt_maximum = Some (2 ^ 48), mt_page_size_log2 = 16, mt_index_type = Index64\<rparr>\<rparr>
     1 None (Some (StoreLimits, store_limits_default))) = Panic" (is "fst (memory_grow _ ?m _ _ _) = _")
proof -
  have "memory_wf True ?m"
    by (simp add: memory_wf_def mt_wf_def page_limit_def buffer_wf_def isize_max_def memory_size_def
        shr_def admits_def)
  moreover have "within (sl_memory_size store_limits_default) (data_size ?m)"
    by (simp add: within_def store_limits_default_def)
  moreover have "max_overflows ?m" by (simp add: max_overflows_def page_bytes_def)
  ultimately show ?thesis using memory_grow_panics_iff [of True ?m store_limits_default] by simp
qed

subsection \<open>Creating\<close>

lemma memory_new_impl_eq:
  assumes wf: "mt_wf feature ty"
  shows "memory_new_impl mkbuf ty lim =
    (if unat (mt_minimum ty) * 2 ^ unat (mt_page_size_log2 ty) < 2 ^ 64 then
       let n = of_nat (unat (mt_minimum ty) * 2 ^ unat (mt_page_size_log2 ty)) :: usize;
           max_size = map_option (\<lambda>mx.
             case try_from (shl (ucast mx :: u128) (unat (mt_page_size_log2 ty))) :: usize option of
               Some n \<Rightarrow> n | None \<Rightarrow> - 1) (mt_maximum ty) in
       (case ask_memory_growing lim 0 n max_size of (r, lim') \<Rightarrow>
          (case r of
             Some (Err e) \<Rightarrow> (Err (memory_error_of_limiter e), lim')
           | Some Panic \<Rightarrow> (Panic, lim')
           | Some (Ok False) \<Rightarrow> (Err MemResourceLimiterDeniedAllocation, lim')
           | _ \<Rightarrow> (case mkbuf n of
                Ok bytes \<Rightarrow> (Ok \<lparr>mem_bytes = bytes, mem_type = ty\<rparr>, lim')
              | Err e \<Rightarrow> notify_memory_grow_failed lim' e
              | Panic \<Rightarrow> (Panic, lim'))))
     else (Err MemMinimumSizeOverflow, lim))"
proof -
  let ?n = "unat (mt_minimum ty) * 2 ^ unat (mt_page_size_log2 ty)"
  from wf have log2: "mt_page_size_log2 ty \<in> {0, 16}" and mn: "unat (mt_minimum ty) \<le> page_limit ty"
    by (simp_all add: mt_wf_def)
  have min: "minimum_byte_size ty = Ok (of_nat ?n)" using mn by (simp add: minimum_byte_size_eq [OF log2])
  have "?n \<le> 2 ^ 64" using page_bytes_less [OF mn] .
  then have n128: "unat (of_nat ?n :: u128) = ?n"
    by (simp add: unat_of_nat take_bit_nat_eq_self del: of_nat_mult)
  have max: "\<not> (case mt_maximum ty of None \<Rightarrow> False | Some mx \<Rightarrow> (ucast mx :: u128) > absolute_max ty)"
    using wf log2 by (auto simp: mt_wf_def word_less_nat_alt split: option.split)
  show ?thesis
  proof (cases "?n < 2 ^ 64")
    case True
    then have "try_from (of_nat ?n :: u128) = Some (of_nat ?n :: usize)"
      using n128 by (simp add: try_from_Some unat_of_nat take_bit_nat_eq_self del: of_nat_mult)
    with True max show ?thesis
      unfolding memory_new_impl_def min
      by (simp add: Let_def del: of_nat_mult split: prod.split option.split res.split bool.split)
  next
    case False
    then have "(try_from (of_nat ?n :: u128) :: usize option) = None"
      using n128 by (simp add: try_from_None del: of_nat_mult)
    with False show ?thesis unfolding memory_new_impl_def min by (simp del: of_nat_mult)
  qed
qed

text \<open>A freshly created memory of a type.\<close>

definition fresh_memory :: "memory_type \<Rightarrow> memory \<Rightarrow> bool" where
  "fresh_memory ty m \<longleftrightarrow> mem_type m = ty \<and> memory_size m = mt_minimum ty
     \<and> memory_data m = replicate (unat (mt_minimum ty) * 2 ^ unat (mt_page_size_log2 ty)) 0"

definition makes_zeroed :: "(usize \<Rightarrow> (memory_error, byte_buffer) res) \<Rightarrow> bool" where
  "makes_zeroed mkbuf \<longleftrightarrow> (\<forall>n. case mkbuf n of
     Ok b \<Rightarrow> buffer_wf b \<and> bb_len b = n \<and> buffer_data b = replicate (unat n) 0
   | Err _ \<Rightarrow> True | Panic \<Rightarrow> False)"

lemma makes_zeroedD:
  "makes_zeroed mkbuf \<Longrightarrow> mkbuf n = Ok b \<Longrightarrow>
   buffer_wf b \<and> buffer_data b = replicate (unat n) 0 \<and> bb_len b = n"
  unfolding makes_zeroed_def by (drule spec [of _ n]) simp

lemma makes_zeroed_not_Panic: "makes_zeroed mkbuf \<Longrightarrow> mkbuf n \<noteq> Panic"
  unfolding makes_zeroed_def by (drule spec [of _ n]) auto

lemma makes_zeroed_new: "makes_zeroed (buffer_new alloc)"
  unfolding makes_zeroed_def
proof
  fix n show "case buffer_new alloc n of
    Ok b \<Rightarrow> buffer_wf b \<and> bb_len b = n \<and> buffer_data b = replicate (unat n) 0
    | Err _ \<Rightarrow> True | Panic \<Rightarrow> False"
    by (rule buffer_new_cases [of alloc n]) simp_all
qed

lemma makes_zeroed_new_static: "length buffer \<le> isize_max \<Longrightarrow> makes_zeroed (buffer_new_static buffer)"
  unfolding makes_zeroed_def
proof
  fix n assume "length buffer \<le> isize_max"
  then show "case buffer_new_static buffer n of
    Ok b \<Rightarrow> buffer_wf b \<and> bb_len b = n \<and> buffer_data b = replicate (unat n) 0
    | Err _ \<Rightarrow> True | Panic \<Rightarrow> False"
    by (rule buffer_new_static_cases [of buffer n]) simp_all
qed

lemma fresh_memory_wf:
  assumes ty: "mt_wf feature ty" and b: "buffer_wf b" "buffer_data b = replicate (unat n) 0" "bb_len b = n"
    and n: "unat n = unat (mt_minimum ty) * 2 ^ unat (mt_page_size_log2 ty)"
  defines "m \<equiv> \<lparr>mem_bytes = b, mem_type = ty\<rparr>"
  shows "memory_wf feature m" "fresh_memory ty m"
proof -
  from ty have "unat (mt_page_size_log2 ty) mod 64 = unat (mt_page_size_log2 ty)" by (auto simp: mt_wf_def)
  with b n have size: "memory_size m = mt_minimum ty"
    by (simp add: m_def memory_size_def word_unat_eq_iff unat_shr)
  with ty b n show "memory_wf feature m" "fresh_memory ty m"
    using admits_minimum [OF ty]
    by (simp_all add: memory_wf_def fresh_memory_def memory_data_def mt_wf_def m_def)
qed

lemma memory_new_impl_ok:
  assumes ty: "mt_wf feature ty" and mk: "makes_zeroed mkbuf"
    and ok: "memory_new_impl mkbuf ty lim = (Ok m, lim')"
  shows "memory_wf feature m \<and> fresh_memory ty m \<and> (\<exists>r mx. ask_memory_growing lim 0 (data_size m) mx = (r, lim')
    \<and> (r = None \<or> r = Some (Ok True)))"
proof -
  let ?n = "of_nat (unat (mt_minimum ty) * 2 ^ unat (mt_page_size_log2 ty)) :: usize"
  have lt: "unat (mt_minimum ty) * 2 ^ unat (mt_page_size_log2 ty) < 2 ^ 64"
    using ok by (auto simp: memory_new_impl_eq [OF ty] split: if_splits)
  then have n: "unat ?n = unat (mt_minimum ty) * 2 ^ unat (mt_page_size_log2 ty)"
    by (simp add: unat_of_nat take_bit_nat_eq_self del: of_nat_mult)
  define q where "q = map_option (\<lambda>mx.
    case try_from (shl (ucast mx :: u128) (unat (mt_page_size_log2 ty))) :: usize option of
      Some n \<Rightarrow> n | None \<Rightarrow> - 1) (mt_maximum ty)"
  obtain r lim1 where ask: "ask_memory_growing lim 0 ?n q = (r, lim1)" by fastforce
  note eq = ok [unfolded memory_new_impl_eq [OF ty] Let_def q_def [symmetric] ask, simplified lt, simplified]
  from eq obtain b where "mkbuf ?n = Ok b" "m = \<lparr>mem_bytes = b, mem_type = ty\<rparr>" "lim1 = lim'"
    "r = None \<or> r = Some (Ok True)"
    by (auto split: option.splits res.splits bool.splits)
  moreover from makes_zeroedD [OF mk this(1)]
  have b: "buffer_wf b" "buffer_data b = replicate (unat ?n) 0" "bb_len b = ?n" by blast+
  moreover have "data_size m = ?n" using calculation by (simp add: data_size_def)
  ultimately show ?thesis using ask fresh_memory_wf [OF ty b n] by (metis (no_types, lifting))
qed

text \<open>
  Creating a memory of a built type, on the heap or over a static buffer, never panics without a
  limiter; if it succeeds, the memory is well-formed, has the type's minimum number of pages and all
  its bytes are zero, even where the static buffer held other bytes before.
\<close>

theorem memory_new_fresh:
  assumes "mt_wf feature ty" "length buffer \<le> isize_max"
  shows "\<forall>create\<in>{memory_new alloc, memory_new_static buffer}.
    case fst (create ty lim) of
      Ok m \<Rightarrow> memory_wf feature m \<and> fresh_memory ty m
    | Err _ \<Rightarrow> True
    | Panic \<Rightarrow> lim \<noteq> None"
proof -
  have "case fst (memory_new_impl mkbuf ty lim) of
      Ok m \<Rightarrow> memory_wf feature m \<and> fresh_memory ty m | Err _ \<Rightarrow> True | Panic \<Rightarrow> lim \<noteq> None"
    if mk: "makes_zeroed mkbuf" for mkbuf
  proof (cases "memory_new_impl mkbuf ty lim")
    case (Pair r lim')
    show ?thesis
    proof (cases r)
      case (Ok m)
      with Pair memory_new_impl_ok [OF assms(1) mk, of lim m lim'] show ?thesis by simp
    next
      case Panic
      have "mkbuf n \<noteq> Panic" for n using makes_zeroed_not_Panic [OF mk] .
      with Pair Panic have False if "lim = None"
        using that by (auto simp: memory_new_impl_eq [OF assms(1)] Let_def ask_memory_growing_def
            as_resource_limiter_def notify_memory_grow_failed_def split: if_splits res.splits)
      then have "lim \<noteq> None" by blast
      with Pair Panic show ?thesis by simp
    qed (use Pair in simp)
  qed
  then show ?thesis
    using makes_zeroed_new makes_zeroed_new_static [OF assms(2)]
    by (simp add: memory_new_def memory_new_static_def)
qed

theorem memory_new_fresh_witness:
  "case fst (memory_new_static [1, 2, 3, 4] (mem_type example_memory) (None :: store_limits limiter_ref)) of
      Ok m \<Rightarrow> memory_wf False m \<and> fresh_memory (mem_type example_memory) m
    | Err _ \<Rightarrow> True
    | Panic \<Rightarrow> False"
  using memory_new_fresh [of False "mem_type example_memory" "[1, 2, 3, 4]" "\<lambda>_. True"
      "None :: store_limits limiter_ref"]
    memory_wfD(1) [OF example_memory_wf] by (simp add: isize_max_def split: res.splits)

text \<open>A sequence of growth requests, each on the memory, fuel and limiter that the last one left.\<close>

fun memory_grow_run ::
  "allocator \<Rightarrow> memory \<Rightarrow> u64 list \<Rightarrow> fuel option \<Rightarrow> 'l limiter_ref \<Rightarrow> memory \<times> fuel option \<times> 'l limiter_ref" where
  "memory_grow_run alloc m [] fuel lim = (m, fuel, lim)"
| "memory_grow_run alloc m (n # ns) fuel lim =
     (case memory_grow alloc m n fuel lim of (_, m', fuel', lim') \<Rightarrow>
        memory_grow_run alloc m' ns fuel' lim')"

context growth_limiter
begin

lemma memory_grow_run_limited:
  assumes "memory_wf feature m" "within (mem_bound l) (data_size m)"
  shows "within (mem_bound l) (data_size (fst (memory_grow_run alloc m ns fuel (Some (vt, l)))))"
  using assms
proof (induction ns arbitrary: m fuel l)
  case (Cons n ns)
  obtain r m' fuel' lim' where eq: "memory_grow alloc m n fuel (Some (vt, l)) = (r, m', fuel', lim')"
    by (metis surj_pair)
  have wf': "memory_wf feature m'"
    using eq Cons.prems(1)
    by (cases rule: memory_grow_cases [OF Cons.prems(1), of alloc n fuel "Some (vt, l)"]) auto
  obtain l' where "lim' = Some (vt, l')" "mem_bound l' = mem_bound l" "within (mem_bound l) (data_size m')"
  proof (cases "n \<noteq> 0 \<and> max_overflows m")
    case True
    then show thesis
      using that [of l] eq memory_grow_max_overflows [OF Cons.prems(1), of n alloc fuel "Some (vt, l)"]
        Cons.prems by auto
  next
    case False
    from Cons.prems eq False show thesis by (rule memory_grow_limited) (rule that)
  qed
  with Cons.IH [OF wf', of l' fuel'] eq show ?case by simp
qed simp

lemma memory_new_limited:
  assumes "mt_wf feature ty" "makes_zeroed mkbuf"
    "memory_new_impl mkbuf ty (Some (vt, l)) = (Ok m, lim')"
  obtains l' where "lim' = Some (vt, l')" "mem_bound l' = mem_bound l" "within (mem_bound l) (data_size m)"
proof -
  from memory_new_impl_ok [OF assms] obtain r mx where
    ask: "ask_memory_growing (Some (vt, l)) 0 (data_size m) mx = (r, lim')"
    and r: "r = None \<or> r = Some (Ok True)" by blast
  from ask obtain q l' where "r = Some q" "lim' = Some (vt, l')" "q \<noteq> Panic"
    "q = Ok True \<longrightarrow> within (mem_bound l) (data_size m)" "mem_bound l' = mem_bound l" "tab_bound l' = tab_bound l"
    by (rule ask_memory_law)
  with r show thesis by (intro that [of l']) auto
qed

end

text \<open>
  C21: Under \<open>StoreLimits\<close> with a memory size limit of \<open>n\<close> bytes, a memory that was created
  successfully never exceeds \<open>n\<close> bytes, whatever sequence of growth requests follows, with whatever
  fuel and system allocator.
\<close>

theorem store_limits_bound_memory:
  assumes "mt_wf feature ty" "sl_memory_size limits = Some n"
    "memory_new alloc ty (Some (StoreLimits, limits)) = (Ok m, lim)"
  shows "data_size (fst (memory_grow_run alloc m ns fuel lim)) \<le> n"
proof -
  note new = assms(3) [unfolded memory_new_def]
  from limits.memory_new_limited [OF assms(1) makes_zeroed_new new] obtain l' where
    l': "lim = Some (StoreLimits, l')" "sl_memory_size l' = Some n" "within (Some n) (data_size m)"
    using assms(2) by metis
  have "memory_wf feature m" using memory_new_impl_ok [OF assms(1) makes_zeroed_new new] by blast
  from limits.memory_grow_run_limited [OF this, of l' alloc ns fuel] l' show ?thesis
    by (simp add: within_def)
qed

theorem store_limits_bound_memory_witness:
  "case memory_new (\<lambda>n. n < 100) (mem_type example_memory)
          (Some (StoreLimits, builder_memory_size builder_new 5)) of
     (Ok m, lim) \<Rightarrow> data_size (fst (memory_grow_run (\<lambda>n. n < 100) m [1, 4, 1] None lim)) \<le> 5
   | _ \<Rightarrow> False"
proof -
  let ?l = "builder_memory_size builder_new 5"
  let ?new = "memory_new (\<lambda>n. n < 100) (mem_type example_memory) (Some (StoreLimits, ?l))"
  have "is_ok (fst ?new)"
    unfolding memory_new_def memory_new_impl_eq [OF memory_wfD(1) [OF example_memory_wf]]
    by (simp add: example_memory_def ask_memory_growing_def as_resource_limiter_def store_limits_simps within_def
        builder_memory_size_def builder_new_def store_limits_default_def shl_def try_from_def
        buffer_new_def try_reserve_def min_non_zero_cap_def isize_max_def)
  then obtain m lim where new: "?new = (Ok m, lim)" by (cases ?new) (auto simp: is_ok_iff)
  have "sl_memory_size ?l = Some 5" by (simp add: builder_memory_size_def)
  from store_limits_bound_memory [OF memory_wfD(1) [OF example_memory_wf] this new]
  show ?thesis by (simp add: new del: memory_grow_run.simps)
qed

subsection \<open>Access\<close>

lemma access_span_eq:
  assumes "n < 2 ^ 64"
  shows "access_span off (of_nat n) =
    (if unat off + n < 2 ^ 64 then Ok (unat off, unat off + n) else Err MemOutOfBoundsAccess)"
proof -
  have len: "unat (of_nat n :: usize) = n" using assms by (simp add: unat_of_nat take_bit_nat_eq_self)
  show ?thesis
  proof (cases "checked_add off (of_nat n)")
    case None
    then show ?thesis using len by (simp add: access_span_def checked_add_def split: if_splits)
  next
    case (Some e)
    then have e: "unat e = unat off + n" using len by (simp add: checked_add_Some)
    moreover have "unat e < 2 ^ 64" using unsigned_less [of e, where ?'a = nat] by simp
    ultimately have "unat off + n < 2 ^ 64" by simp
    with e Some show ?thesis by (simp add: access_span_def)
  qed
qed

lemma memory_access_in_bounds:
  assumes "memory_wf feature m" "length buffer < 2 ^ 64"
  shows "memory_read m off buffer =
      (if unat off + length buffer \<le> unat (data_size m)
       then (Ok (), take (length buffer) (drop (unat off) (memory_data m)))
       else (Err MemOutOfBoundsAccess, buffer))"
    "memory_write m off buffer =
      (if unat off + length buffer \<le> unat (data_size m)
       then (Ok (), m\<lparr>mem_bytes := buffer_set_data (mem_bytes m) (overwrite (memory_data m) (unat off) buffer)\<rparr>)
       else (Err MemOutOfBoundsAccess, m))"
proof -
  have data: "length (memory_data m) = unat (data_size m)" and "unat (data_size m) < 2 ^ 64"
    using memory_wfD [OF assms(1)] by (simp_all add: isize_max_def)
  show "memory_read m off buffer =
      (if unat off + length buffer \<le> unat (data_size m)
       then (Ok (), take (length buffer) (drop (unat off) (memory_data m)))
       else (Err MemOutOfBoundsAccess, buffer))"
    using assms(2) data \<open>unat (data_size m) < 2 ^ 64\<close>
    by (simp add: memory_read_def access_span_eq slice_range_add)
  show "memory_write m off buffer =
      (if unat off + length buffer \<le> unat (data_size m)
       then (Ok (), m\<lparr>mem_bytes := buffer_set_data (mem_bytes m) (overwrite (memory_data m) (unat off) buffer)\<rparr>)
       else (Err MemOutOfBoundsAccess, m))"
    using assms(2) data \<open>unat (data_size m) < 2 ^ 64\<close>
    by (simp add: memory_write_def access_span_eq slice_range_add)
qed

lemma memory_write_data:
  assumes "memory_wf feature m" "unat off + length buffer \<le> unat (data_size m)"
  defines "m' \<equiv> m\<lparr>mem_bytes := buffer_set_data (mem_bytes m) (overwrite (memory_data m) (unat off) buffer)\<rparr>"
  shows "memory_wf feature m'" "memory_data m' = overwrite (memory_data m) (unat off) buffer"
    "data_size m' = data_size m"
proof -
  have l: "length (overwrite (memory_data m) (unat off) buffer) = unat (bb_len (mem_bytes m))"
    using assms(2) memory_wfD(6) [OF assms(1)] by (simp add: data_size_def)
  note b = buffer_set_data_laws [OF memory_wfD(2) [OF assms(1)] l]
  from b assms(1) show "memory_wf feature m'" by (simp add: memory_wf_def m'_def memory_size_def)
  from b show "memory_data m' = overwrite (memory_data m) (unat off) buffer"
    by (simp add: m'_def memory_data_def)
  from b show "data_size m' = data_size m" by (simp add: m'_def data_size_def)
qed

text \<open>
  \<open>Memory::write\<close> fails exactly if the written range does not lie within the memory, with
  \<open>OutOfBoundsAccess\<close> and without a change; an end that overflows \<open>usize\<close> is such a range. If it
  succeeds, the memory stays well-formed, exactly the written range changes, and \<open>Memory::read\<close> of
  the range returns what was written.
\<close>

theorem memory_write_read:
  assumes "memory_wf feature m" "length buffer < 2 ^ 64" "length out = length buffer"
  shows "case memory_write m off buffer of
      (Ok _, m') \<Rightarrow> unat off + length buffer \<le> length (memory_data m) \<and> memory_wf feature m'
        \<and> memory_data m' = overwrite (memory_data m) (unat off) buffer
        \<and> memory_read m' off out = (Ok (), buffer)
    | (Err e, m') \<Rightarrow> length (memory_data m) < unat off + length buffer \<and> e = MemOutOfBoundsAccess \<and> m' = m
        \<and> memory_read m off out = (Err MemOutOfBoundsAccess, out)
    | (Panic, _) \<Rightarrow> False"
proof (cases "unat off + length buffer \<le> unat (data_size m)")
  case True
  note w = memory_write_data [OF assms(1) True]
  show ?thesis
    using True assms memory_wfD(6) [OF assms(1)] w memory_access_in_bounds(1) [OF w(1), of out off]
    by (simp add: memory_access_in_bounds)
next
  case False
  with assms memory_wfD(6) [OF assms(1)] show ?thesis by (simp add: memory_access_in_bounds)
qed

theorem memory_write_read_witness:
  "case memory_write example_memory 1 [8, 9] of
      (Ok _, m') \<Rightarrow> memory_data m' = overwrite (memory_data example_memory) (unat (1 :: usize)) [8, 9]
        \<and> memory_read m' 1 [0, 0] = (Ok (), [8, 9])
    | _ \<Rightarrow> False"
proof -
  have "is_ok (fst (memory_write example_memory 1 [8, 9]))"
    by (simp add: memory_access_in_bounds(2) [OF example_memory_wf])
      (simp add: example_memory_def data_size_def)
  with memory_write_read [OF example_memory_wf, of "[8, 9]" "[0, 0]" 1] show ?thesis
    by (auto simp: is_ok_iff split: prod.splits res.splits)
qed

text \<open>
  The dynamic type of a well-formed memory exists (the \<open>expect\<close> in \<open>dynamic_ty\<close> never fails), has
  the current size as its minimum, and is a subtype of the memory's declared type: a grown memory
  can still be imported where its type was declared.
\<close>

theorem dynamic_ty_subtype:
  assumes wf: "memory_wf feature m"
  shows "case dynamic_ty feature m of
      Ok t \<Rightarrow> mt_minimum t = memory_size m \<and> mt_is_subtype_of t (mem_type m) \<and> mt_wf feature t
    | _ \<Rightarrow> False"
proof -
  let ?t = "(mem_type m)\<lparr>mt_minimum := memory_size m\<rparr>"
  have b: "mt_builder_memory64 (mt_builder_page_size_log2 (mt_builder_max
      (mt_builder_min mt_builder (memory_size m)) (mt_maximum (mem_type m)))
      (mt_page_size_log2 (mem_type m))) (mt_is_64 (mem_type m)) = ?t"
    by (cases "mt_index_type (mem_type m)")
      (simp_all add: mt_builder_memory64_def mt_builder_page_size_log2_def mt_builder_max_def
        mt_builder_min_def mt_builder_def mt_is_64_def)
  from wf have t: "mt_wf feature ?t"
    by (auto simp: memory_wf_def mt_wf_def mt_is_64_def page_limit_def admits_def word_le_nat_alt
        split: option.splits)
  then have "mt_build feature ?t = Ok ?t" by (simp only: mt_build_wf)
  moreover from wf have "mt_is_subtype_of ?t (mem_type m)"
    by (simp add: mt_is_subtype_of_iff memory_wf_def admits_def mt_is_64_def page_size_def
        word_le_nat_alt split: option.splits)
  ultimately show ?thesis using t b by (simp add: dynamic_ty_def Let_def)
qed

theorem dynamic_ty_subtype_witness:
  "case dynamic_ty False example_memory of
      Ok t \<Rightarrow> mt_minimum t = memory_size example_memory \<and> mt_is_subtype_of t (mem_type example_memory)
        \<and> mt_wf False t
    | _ \<Rightarrow> False"
  by (rule dynamic_ty_subtype [OF example_memory_wf])

end
