(* ===== verification/Arena.thy ===== *)
theory Arena
  imports Prelude
begin

section \<open>Arenas (crates/collections/src/arena, crates/collections/src/head_vec.rs)\<close>

text \<open>
  The arenas that store the entities of stores and engines. The trait \<open>ArenaKey\<close> is a record of its
  two conversions and of which bit patterns are keys at all (a \<open>NonZero\<close> key is a word that is not
  zero); the locale \<open>arena_key\<close> is its contract, interpreted for all four implementations of the
  source. An arena is its items and the capacity of their vector; \<open>elem\<close> is the size of an item in
  bytes. A reference returned by \<open>get_mut\<close> or \<open>get_pair_mut\<close> is the position it refers to.
\<close>

datatype arena_error = NotEnoughKeys | OutOfSystemMemory | KeyOutOfBounds | AliasingPairAccess

record 'k arena_key =
  ak_valid :: "'k \<Rightarrow> bool"
  into_usize :: "'k \<Rightarrow> usize"
  from_usize :: "usize \<Rightarrow> 'k option"

definition usize_key :: "usize arena_key" where
  "usize_key = \<lparr>ak_valid = (\<lambda>_. True), into_usize = (\<lambda>k. k), from_usize = Some\<rparr>"

definition u32_key :: "u32 arena_key" where
  "u32_key = \<lparr>ak_valid = (\<lambda>_. True), into_usize = ucast, from_usize = try_from\<rparr>"

text \<open>\<open>NonZero::new\<close> of a word.\<close>

definition nonzero_new :: "'a::len word \<Rightarrow> 'a word option" where
  "nonzero_new w = (if w = 0 then None else Some w)"

definition nonzero_usize_key :: "usize arena_key" where
  "nonzero_usize_key =
     \<lparr>ak_valid = (\<lambda>k. k \<noteq> 0), into_usize = (\<lambda>k. k - 1), from_usize = (\<lambda>v. nonzero_new (v + 1))\<rparr>"

definition nonzero_u32_key :: "u32 arena_key" where
  "nonzero_u32_key =
     \<lparr>ak_valid = (\<lambda>k. k \<noteq> 0), into_usize = (\<lambda>k. ucast (k - 1)),
      from_usize = (\<lambda>v. case try_from v of None \<Rightarrow> None | Some w \<Rightarrow> nonzero_new (w + 1))\<rparr>"

subsection \<open>Arena\<close>

record 'a arena =
  ar_items :: "'a list"
  ar_capacity :: nat

definition arena_new :: "'a arena" where
  "arena_new = \<lparr>ar_items = [], ar_capacity = 0\<rparr>"

definition arena_len :: "'a arena \<Rightarrow> usize" where
  "arena_len a = of_nat (length (ar_items a))"

definition arena_clear :: "'a arena \<Rightarrow> 'a arena" where
  "arena_clear a = a\<lparr>ar_items := []\<rparr>"

definition next_key :: "'k arena_key \<Rightarrow> 'a arena \<Rightarrow> (arena_error, 'k) res" where
  "next_key K a = ok_or NotEnoughKeys (from_usize K (arena_len a))"

definition arena_alloc ::
  "'k arena_key \<Rightarrow> allocator \<Rightarrow> nat \<Rightarrow> 'a arena \<Rightarrow> 'a \<Rightarrow> (arena_error, 'k) res \<times> 'a arena" where
  "arena_alloc K alloc elem a entity =
     (case next_key K a of
        Ok key \<Rightarrow>
          (case try_reserve alloc elem (length (ar_items a)) (ar_capacity a) 1 of
             None \<Rightarrow> (Err OutOfSystemMemory, a)
           | Some cap \<Rightarrow> (Ok key, a\<lparr>ar_items := ar_items a @ [entity], ar_capacity := cap\<rparr>))
      | Err e \<Rightarrow> (Err e, a)
      | Panic \<Rightarrow> (Panic, a))"

text \<open>\<open>dflt\<close> is \<open>T::default()\<close>.\<close>

definition alloc_many ::
  "'k arena_key \<Rightarrow> allocator \<Rightarrow> nat \<Rightarrow> 'a \<Rightarrow> 'a arena \<Rightarrow> usize \<Rightarrow> (arena_error, 'k \<times> 'k) res \<times> 'a arena" where
  "alloc_many K alloc elem dflt a amount =
     (case next_key K a of
        Ok start \<Rightarrow>
          (case try_reserve alloc elem (length (ar_items a)) (ar_capacity a) (unat amount) of
             None \<Rightarrow> (Err OutOfSystemMemory, a)
           | Some cap \<Rightarrow>
               let a' = a\<lparr>ar_items := ar_items a @ replicate (unat amount) dflt, ar_capacity := cap\<rparr> in
               case next_key K a' of
                 Ok stop \<Rightarrow> (Ok (start, stop), a')
               | Err e \<Rightarrow> (Err e, a')
               | Panic \<Rightarrow> (Panic, a'))
      | Err e \<Rightarrow> (Err e, a)
      | Panic \<Rightarrow> (Panic, a))"

definition arena_get :: "'k arena_key \<Rightarrow> 'a arena \<Rightarrow> 'k \<Rightarrow> (arena_error, 'a) res" where
  "arena_get K a key = ok_or KeyOutOfBounds (get_opt (ar_items a) (unat (into_usize K key)))"

text \<open>Writing \<open>x\<close> through the reference that \<open>get_mut\<close> returns.\<close>

definition arena_get_mut_set ::
  "'k arena_key \<Rightarrow> 'a arena \<Rightarrow> 'k \<Rightarrow> 'a \<Rightarrow> (arena_error, unit) res \<times> 'a arena" where
  "arena_get_mut_set K a key x =
     (case get_opt (ar_items a) (unat (into_usize K key)) of
        None \<Rightarrow> (Err KeyOutOfBounds, a)
      | Some _ \<Rightarrow> (Ok (), a\<lparr>ar_items := (ar_items a)[unat (into_usize K key) := x]\<rparr>))"

definition get_pair_mut_ordered :: "'a arena \<Rightarrow> nat \<Rightarrow> nat \<Rightarrow> (arena_error, nat \<times> nat) res" where
  "get_pair_mut_ordered a fst_key snd_key =
     (if \<not> snd_key \<le> length (ar_items a) then Err KeyOutOfBounds
      else if \<not> fst_key < length (take snd_key (ar_items a)) then Panic
      else if \<not> 0 < length (drop snd_key (ar_items a)) then Panic
      else Ok (fst_key, snd_key))"

definition get_pair_mut :: "'k arena_key \<Rightarrow> 'a arena \<Rightarrow> 'k \<Rightarrow> 'k \<Rightarrow> (arena_error, nat \<times> nat) res" where
  "get_pair_mut K a k1 k2 =
     (let fst_key = unat (into_usize K k1); snd_key = unat (into_usize K k2) in
      if fst_key = snd_key then Err AliasingPairAccess
      else if fst_key > snd_key then
        (case get_pair_mut_ordered a snd_key fst_key of
           Ok (f, s) \<Rightarrow> Ok (s, f) | Err e \<Rightarrow> Err e | Panic \<Rightarrow> Panic)
      else get_pair_mut_ordered a fst_key snd_key)"

definition arena_index :: "'k arena_key \<Rightarrow> 'a arena \<Rightarrow> 'k \<Rightarrow> (arena_error, 'a) res" where
  "arena_index K a key = (case arena_get K a key of Ok x \<Rightarrow> Ok x | _ \<Rightarrow> Panic)"

text \<open>An iterator: the count of \<open>Enumerate\<close> and the items that are left.\<close>

record 'a arena_iter =
  it_count :: usize
  it_items :: "'a list"

definition arena_iter_new :: "'a arena \<Rightarrow> 'a arena_iter" where
  "arena_iter_new a = \<lparr>it_count = 0, it_items = ar_items a\<rparr>"

definition arena_iter_next ::
  "'k arena_key \<Rightarrow> 'a arena_iter \<Rightarrow> (arena_error, ('k \<times> 'a) option) res \<times> 'a arena_iter" where
  "arena_iter_next K it =
     (case it_items it of
        [] \<Rightarrow> (Ok None, it)
      | x # xs \<Rightarrow>
          let it' = \<lparr>it_count = it_count it + 1, it_items = xs\<rparr> in
          (case from_usize K (it_count it) of
             None \<Rightarrow> (Panic, it')
           | Some key \<Rightarrow> (Ok (Some (key, x)), it')))"

definition arena_iter_next_back ::
  "'k arena_key \<Rightarrow> 'a arena_iter \<Rightarrow> (arena_error, ('k \<times> 'a) option) res \<times> 'a arena_iter" where
  "arena_iter_next_back K it =
     (case it_items it of
        [] \<Rightarrow> (Ok None, it)
      | x # xs \<Rightarrow>
          let it' = \<lparr>it_count = it_count it + 1, it_items = xs\<rparr> in
          (case from_usize K (it_count it) of
             None \<Rightarrow> (Panic, it')
           | Some key \<Rightarrow> (Ok (Some (key, x)), it')))"

subsection \<open>Deduplicating arena\<close>

record ('k, 'a) dedup_arena =
  item2key :: "'a \<rightharpoonup> 'k"
  da_items :: "'a arena"

definition dedup_new :: "('k, 'a) dedup_arena" where
  "dedup_new = \<lparr>item2key = Map.empty, da_items = arena_new\<rparr>"

definition dedup_clear :: "('k, 'a) dedup_arena \<Rightarrow> ('k, 'a) dedup_arena" where
  "dedup_clear d = \<lparr>item2key = Map.empty, da_items = arena_clear (da_items d)\<rparr>"

definition dedup_alloc ::
  "'k arena_key \<Rightarrow> allocator \<Rightarrow> nat \<Rightarrow> ('k, 'a) dedup_arena \<Rightarrow> 'a \<Rightarrow>
   (arena_error, 'k) res \<times> ('k, 'a) dedup_arena" where
  "dedup_alloc K alloc elem d item =
     (case item2key d item of
        Some key \<Rightarrow> (Ok key, d)
      | None \<Rightarrow>
          (case next_key K (da_items d) of
             Ok key \<Rightarrow>
               (case arena_alloc K alloc elem (da_items d) item of
                  (Ok _, a) \<Rightarrow> (Ok key, d\<lparr>item2key := (item2key d)(item \<mapsto> key), da_items := a\<rparr>)
                | (Err e, a) \<Rightarrow> (Err e, d\<lparr>da_items := a\<rparr>)
                | (Panic, a) \<Rightarrow> (Panic, d\<lparr>da_items := a\<rparr>))
           | Err e \<Rightarrow> (Err e, d)
           | Panic \<Rightarrow> (Panic, d)))"

definition dedup_get :: "'k arena_key \<Rightarrow> ('k, 'a) dedup_arena \<Rightarrow> 'k \<Rightarrow> (arena_error, 'a) res" where
  "dedup_get K d key = arena_get K (da_items d) key"

subsection \<open>Component vector\<close>

type_synonym 'a component_vec = "'a option list"

definition component_new :: "'a component_vec" where "component_new = []"

definition component_clear :: "'a component_vec \<Rightarrow> 'a component_vec" where "component_clear c = []"

definition component_set ::
  "'k arena_key \<Rightarrow> 'a component_vec \<Rightarrow> 'k \<Rightarrow> 'a \<Rightarrow> 'a option \<times> 'a component_vec" where
  "component_set K c index component =
     (let i = unat (into_usize K index);
          c' = (if i \<ge> length c then c @ replicate (i + 1 - length c) None else c)
      in (c' ! i, c'[i := Some component]))"

definition component_unset :: "'k arena_key \<Rightarrow> 'a component_vec \<Rightarrow> 'k \<Rightarrow> 'a option \<times> 'a component_vec" where
  "component_unset K c index =
     (let i = unat (into_usize K index) in
      if i < length c then (c ! i, c[i := None]) else (None, c))"

definition component_get :: "'k arena_key \<Rightarrow> 'a component_vec \<Rightarrow> 'k \<Rightarrow> 'a option" where
  "component_get K c index = Option.bind (get_opt c (unat (into_usize K index))) (\<lambda>x. x)"

subsection \<open>Head vector\<close>

record 'a head_vec =
  hv_head :: "'a option"
  hv_rest :: "'a list"

definition head_vec_default :: "'a head_vec" where
  "head_vec_default = \<lparr>hv_head = None, hv_rest = []\<rparr>"

definition head_vec_clear :: "'a head_vec \<Rightarrow> 'a head_vec" where
  "head_vec_clear h = \<lparr>hv_head = None, hv_rest = []\<rparr>"

definition head_vec_len :: "'a head_vec \<Rightarrow> nat" where
  "head_vec_len h = (case hv_head h of Some _ \<Rightarrow> 1 + length (hv_rest h) | None \<Rightarrow> 0)"

definition head_vec_last :: "'a head_vec \<Rightarrow> 'a option" where
  "head_vec_last h = hv_head h"

definition head_vec_push :: "'a head_vec \<Rightarrow> 'a \<Rightarrow> 'a head_vec" where
  "head_vec_push h value =
     (case hv_head h of
        Some prev_head \<Rightarrow> \<lparr>hv_head = Some value, hv_rest = hv_rest h @ [prev_head]\<rparr>
      | None \<Rightarrow> h\<lparr>hv_head := Some value\<rparr>)"

definition head_vec_pop :: "'a head_vec \<Rightarrow> 'a option \<times> 'a head_vec" where
  "head_vec_pop h =
     (if hv_rest h = [] then (hv_head h, h\<lparr>hv_head := None\<rparr>)
      else (hv_head h, \<lparr>hv_head = Some (last (hv_rest h)), hv_rest = butlast (hv_rest h)\<rparr>))"

section \<open>Laws\<close>

text \<open>
  The contract of \<open>ArenaKey\<close>: \<open>from_usize\<close> yields a key that converts back, every key comes from its
  position, and the positions with a key are an initial segment.
\<close>

locale lawful_key =
  fixes K :: "'k arena_key"
  assumes from_usize_into: "from_usize K v = Some k \<Longrightarrow> ak_valid K k \<and> into_usize K k = v"
    and into_from_usize: "ak_valid K k \<Longrightarrow> from_usize K (into_usize K k) = Some k"
    and from_usize_mono: "from_usize K v = Some k \<Longrightarrow> w \<le> v \<Longrightarrow> from_usize K w \<noteq> None"
begin

lemma into_usize_inj: "ak_valid K k \<Longrightarrow> ak_valid K k' \<Longrightarrow> into_usize K k = into_usize K k' \<longleftrightarrow> k = k'"
  by (metis into_from_usize option.inject)

end

lemma nonzero_new_Some: "nonzero_new w = Some k \<longleftrightarrow> w = k \<and> k \<noteq> 0"
  by (auto simp: nonzero_new_def)

interpretation usize_key: lawful_key usize_key
  by unfold_locales (simp_all add: usize_key_def)

lemma unat_ucast_u32_usize [simp]: "unat (ucast (x :: u32) :: usize) = unat x"
  by (simp add: unsigned_ucast_eq take_bit_nat_eq_self order_less_trans [OF unsigned_less])

lemma try_from_mono: "try_from (v :: usize) = Some (k :: u32) \<Longrightarrow> w \<le> v \<Longrightarrow> (try_from w :: u32 option) \<noteq> None"
  using unsigned_less [of k, where ?'a = nat] by (auto simp: try_from_Some try_from_None word_le_nat_alt)

interpretation u32_key: lawful_key u32_key
proof unfold_locales
  show "ak_valid u32_key k \<and> into_usize u32_key k = v" if "from_usize u32_key v = Some k" for v k
    using that by (simp add: u32_key_def try_from_Some word_unat_eq_iff)
  show "from_usize u32_key (into_usize u32_key k) = Some k" for k
    by (simp add: u32_key_def try_from_Some)
  show "from_usize u32_key w \<noteq> None" if "from_usize u32_key v = Some k" "w \<le> v" for v w k
    using that by (simp add: u32_key_def try_from_mono del: not_None_eq)
qed

lemma succ_neq_0_mono:
  fixes v w :: "'a::len word"
  assumes "v + 1 \<noteq> 0" "w \<le> v"
  shows "w + 1 \<noteq> 0"
proof
  assume "w + 1 = 0"
  then have "w = - 1" by (simp add: eq_neg_iff_add_eq_0)
  with assms(2) have "v = - 1" by (metis word_order.extremum order_antisym)
  with assms(1) show False by simp
qed

interpretation nonzero_usize_key: lawful_key nonzero_usize_key
proof unfold_locales
  show "from_usize nonzero_usize_key w \<noteq> None" if "from_usize nonzero_usize_key v = Some k" "w \<le> v" for v w k
    using that succ_neq_0_mono [of v w] by (auto simp: nonzero_usize_key_def nonzero_new_def split: if_splits)
qed (auto simp: nonzero_usize_key_def nonzero_new_def split: if_splits)

lemma nonzero_u32_from:
  "from_usize nonzero_u32_key v = Some k \<longleftrightarrow> k \<noteq> 0 \<and> unat v = unat (k - 1)"
proof (cases "try_from v :: u32 option")
  case None
  then have "2 ^ 32 \<le> unat v" by (simp add: try_from_None)
  moreover have "unat (k - 1) < 2 ^ 32" using unsigned_less [of "k - 1", where ?'a = nat] by simp
  ultimately show ?thesis using None by (auto simp: nonzero_u32_key_def)
next
  case (Some w)
  then have "unat w = unat v" by (simp add: try_from_Some)
  then have "unat v = unat (k - 1) \<longleftrightarrow> w + 1 = k" by (metis add_diff_cancel_right' diff_add_cancel word_unat_eq_iff)
  with Some show ?thesis by (auto simp: nonzero_u32_key_def nonzero_new_def)
qed

interpretation nonzero_u32_key: lawful_key nonzero_u32_key
proof unfold_locales
  show "ak_valid nonzero_u32_key k \<and> into_usize nonzero_u32_key k = v"
    if "from_usize nonzero_u32_key v = Some k" for v k
    using that unfolding nonzero_u32_from by (simp add: nonzero_u32_key_def word_unat_eq_iff)
  show "from_usize nonzero_u32_key (into_usize nonzero_u32_key k) = Some k"
    if "ak_valid nonzero_u32_key k" for k
    using that unfolding nonzero_u32_from by (simp add: nonzero_u32_key_def)
  show "from_usize nonzero_u32_key w \<noteq> None"
    if "from_usize nonzero_u32_key v = Some k" "w \<le> v" for v w k
  proof -
    from that(1) have k: "k \<noteq> 0" "unat v = unat (k - 1)" by (simp_all add: nonzero_u32_from)
    let ?w = "of_nat (unat w) :: u32"
    have "unat w < 2 ^ 32"
      using that(2) k(2) unsigned_less [of "k - 1", where ?'a = nat] by (simp add: word_le_nat_alt)
    then have w: "unat ?w = unat w" by (simp add: unat_of_nat take_bit_nat_eq_self del: of_nat_unat)
    then have "?w \<le> k - 1" using that(2) k(2) by (simp add: word_le_nat_alt)
    from succ_neq_0_mono [OF _ this] k(1) have "?w + 1 \<noteq> 0" by simp
    with w have "from_usize nonzero_u32_key w = Some (?w + 1)" by (simp add: nonzero_u32_from del: of_nat_unat)
    then show ?thesis by simp
  qed
qed

subsection \<open>Arena\<close>

definition arena_wf :: "'k arena_key \<Rightarrow> nat \<Rightarrow> 'a arena \<Rightarrow> bool" where
  "arena_wf K elem a \<longleftrightarrow> 0 < elem \<and> length (ar_items a) \<le> ar_capacity a \<and> elem * ar_capacity a \<le> isize_max
     \<and> (\<forall>i<length (ar_items a). from_usize K (of_nat i) \<noteq> None)"

lemma arena_wf_length: "arena_wf K elem a \<Longrightarrow> length (ar_items a) < 2 ^ 63"
proof -
  assume wf: "arena_wf K elem a"
  then have "ar_capacity a \<le> elem * ar_capacity a" by (simp add: arena_wf_def)
  moreover have "length (ar_items a) \<le> ar_capacity a" "elem * ar_capacity a < 2 ^ 63"
    using wf by (simp_all add: arena_wf_def isize_max_def)
  ultimately show ?thesis by linarith
qed

lemma unat_arena_len: "arena_wf K elem a \<Longrightarrow> unat (arena_len a) = length (ar_items a)"
  using arena_wf_length [of K elem a] by (simp add: arena_len_def unat_of_nat take_bit_nat_eq_self)

context lawful_key
begin

lemma arena_alloc_cases:
  assumes wf: "arena_wf K elem a"
  obtains (ok) k cap where "arena_alloc K alloc elem a x =
      (Ok k, a\<lparr>ar_items := ar_items a @ [x], ar_capacity := cap\<rparr>)" "next_key K a = Ok k"
      "ak_valid K k" "unat (into_usize K k) = length (ar_items a)"
      "arena_wf K elem (a\<lparr>ar_items := ar_items a @ [x], ar_capacity := cap\<rparr>)"
  | (err) e where "arena_alloc K alloc elem a x = (Err e, a)" "e \<in> {NotEnoughKeys, OutOfSystemMemory}"
proof (cases "from_usize K (arena_len a)")
  case None
  then show thesis by (intro err [of NotEnoughKeys]) (simp_all add: arena_alloc_def next_key_def)
next
  case (Some k)
  with from_usize_into have k: "ak_valid K k" "into_usize K k = arena_len a" by blast+
  show thesis
  proof (cases "try_reserve alloc elem (length (ar_items a)) (ar_capacity a) 1")
    case None
    with Some show thesis
      by (intro err [of OutOfSystemMemory]) (simp_all add: arena_alloc_def next_key_def)
  next
    case (Some cap)
    then have "length (ar_items a) + 1 \<le> cap" "elem * cap \<le> isize_max"
      using try_reserve_Some [OF Some] wf by (simp_all add: arena_wf_def)
    moreover have "from_usize K (of_nat i) \<noteq> None" if "i < length (ar_items a) + 1" for i
      using that wf \<open>from_usize K (arena_len a) = Some k\<close>
      by (cases "i = length (ar_items a)") (auto simp: arena_wf_def arena_len_def)
    ultimately have "arena_wf K elem (a\<lparr>ar_items := ar_items a @ [x], ar_capacity := cap\<rparr>)"
      using wf by (simp add: arena_wf_def)
    with Some k \<open>from_usize K (arena_len a) = Some k\<close> show thesis
      by (intro ok [of k cap]) (simp_all add: arena_alloc_def next_key_def unat_arena_len [OF wf])
  qed
qed

lemma arena_get_append:
  assumes "ak_valid K k" "unat (into_usize K k) = length (ar_items a)" "ak_valid K k'"
  shows "arena_get K (a\<lparr>ar_items := ar_items a @ [x], ar_capacity := cap\<rparr>) k' =
    (if k' = k then Ok x else arena_get K a k')"
proof (cases "k' = k")
  case False
  then have "unat (into_usize K k') \<noteq> length (ar_items a)"
    using assms into_usize_inj [of k k'] by (metis word_unat_eq_iff)
  with False show ?thesis by (simp add: arena_get_def get_opt_def nth_append)
qed (use assms in \<open>simp add: arena_get_def get_opt_def\<close>)

lemma arena_alloc_law:
  assumes wf: "arena_wf K elem a"
  shows "case arena_alloc K alloc elem a x of
      (Ok k, a') \<Rightarrow> arena_wf K elem a' \<and> ak_valid K k \<and> arena_get K a k = Err KeyOutOfBounds
        \<and> (\<forall>k'. ak_valid K k' \<longrightarrow> arena_get K a' k' = (if k' = k then Ok x else arena_get K a k'))
    | (Err e, a') \<Rightarrow> a' = a \<and> e \<in> {NotEnoughKeys, OutOfSystemMemory}
    | (Panic, _) \<Rightarrow> False"
proof (rule arena_alloc_cases [OF wf, of alloc x])
  fix k cap assume k: "arena_alloc K alloc elem a x = (Ok k, a\<lparr>ar_items := ar_items a @ [x], ar_capacity := cap\<rparr>)"
    "ak_valid K k" "unat (into_usize K k) = length (ar_items a)"
    "arena_wf K elem (a\<lparr>ar_items := ar_items a @ [x], ar_capacity := cap\<rparr>)"
  then show ?thesis using arena_get_append [OF k(2,3)] by (simp add: arena_get_def)
qed auto

end

text \<open>
  Allocating in an arena with 32 bit keys, plain or nonzero. Success returns a key that no entity
  had, that key now yields the new entity and every other key what it yielded before; the arena stays
  well-formed. Failure, for want of keys or memory, changes nothing.
\<close>

theorem arena_alloc_get:
  assumes "K = u32_key \<or> K = nonzero_u32_key" "arena_wf K elem a"
  shows "case arena_alloc K alloc elem a x of
      (Ok k, a') \<Rightarrow> arena_wf K elem a' \<and> ak_valid K k \<and> arena_get K a k = Err KeyOutOfBounds
        \<and> (\<forall>k'. ak_valid K k' \<longrightarrow> arena_get K a' k' = (if k' = k then Ok x else arena_get K a k'))
    | (Err e, a') \<Rightarrow> a' = a \<and> e \<in> {NotEnoughKeys, OutOfSystemMemory}
    | (Panic, _) \<Rightarrow> False"
  using assms(1)
proof
  assume K: "K = u32_key"
  show ?thesis unfolding K by (rule u32_key.arena_alloc_law) (use assms(2) K in simp)
next
  assume K: "K = nonzero_u32_key"
  show ?thesis unfolding K by (rule nonzero_u32_key.arena_alloc_law) (use assms(2) K in simp)
qed

lemma arena_new_wf: "0 < elem \<Longrightarrow> arena_wf K elem arena_new"
  by (simp add: arena_wf_def arena_new_def)

theorem arena_alloc_get_witness:
  "case arena_alloc u32_key (\<lambda>n. n < 100) 8 arena_new CHR ''x'' of
     (Ok k, a') \<Rightarrow> arena_get u32_key a' k = Ok CHR ''x'' | _ \<Rightarrow> False"
proof -
  have "is_ok (fst (arena_alloc u32_key (\<lambda>n. n < 100) 8 arena_new CHR ''x''))"
    by (simp add: arena_alloc_def next_key_def arena_new_def arena_len_def u32_key_def try_from_def
        try_reserve_def Let_def min_non_zero_cap_def isize_max_def)
  with arena_alloc_get [of u32_key 8 arena_new, where alloc = "\<lambda>n. n < 100" and x = "CHR ''x''"]
  show ?thesis
    by (auto simp: is_ok_iff arena_new_wf u32_key_def split: prod.splits res.splits)
qed

text \<open>
  \<open>get_pair_mut\<close> on an arena with 32 bit keys: equal keys are an aliasing error; two different
  keys in bounds yield the two positions in the order of the arguments; if the larger position is
  beyond the length the error is \<open>KeyOutOfBounds\<close>, but if it is exactly the length the code panics.
\<close>

theorem get_pair_mut_outcome:
  defines "pos \<equiv> \<lambda>k. unat (into_usize u32_key k)"
  shows "get_pair_mut u32_key a k1 k2 =
    (if k1 = k2 then Err AliasingPairAccess
     else if max (pos k1) (pos k2) < length (ar_items a) then Ok (pos k1, pos k2)
     else if max (pos k1) (pos k2) = length (ar_items a) then Panic
     else Err KeyOutOfBounds)"
proof -
  have "pos k1 = pos k2 \<longleftrightarrow> k1 = k2" by (simp add: pos_def u32_key_def word_unat_eq_iff)
  moreover have "unat (into_usize u32_key k) = pos k" for k by (simp add: pos_def)
  ultimately show ?thesis
    unfolding get_pair_mut_def Let_def by (auto simp: get_pair_mut_ordered_def max_def)
qed

text \<open>Running an iterator to its end, with \<open>n\<close> calls at most.\<close>

fun iter_collect :: "'k arena_key \<Rightarrow> nat \<Rightarrow> 'a arena_iter \<Rightarrow> (arena_error, ('k \<times> 'a) list) res" where
  "iter_collect K 0 it = Ok []"
| "iter_collect K (Suc n) it =
     (case arena_iter_next K it of
        (Ok None, _) \<Rightarrow> Ok []
      | (Ok (Some kx), it') \<Rightarrow>
          (case iter_collect K n it' of Ok kxs \<Rightarrow> Ok (kx # kxs) | r \<Rightarrow> r)
      | (Err e, _) \<Rightarrow> Err e
      | (Panic, _) \<Rightarrow> Panic)"

lemma iter_collect_eq:
  assumes "\<forall>i<length xs. from_usize K (c + of_nat i) \<noteq> None" "length xs \<le> n"
  shows "iter_collect K n \<lparr>it_count = c, it_items = xs\<rparr> =
    Ok (map (\<lambda>i. (the (from_usize K (c + of_nat i)), xs ! i)) [0..<length xs])"
  using assms
proof (induction xs arbitrary: c n)
  case Nil
  then show ?case by (cases n) (simp_all add: arena_iter_next_def)
next
  case (Cons x xs)
  then obtain m where m: "n = Suc m" "length xs \<le> m" by (cases n) auto
  from Cons.prems(1) obtain k where k: "from_usize K c = Some k" by force
  have "\<forall>i<length xs. from_usize K (c + 1 + of_nat i) \<noteq> None"
    using Cons.prems(1) by (metis Suc_less_eq add.assoc add.commute length_Cons of_nat_Suc)
  from Cons.IH [OF this m(2)] m k show ?case
    by (simp add: arena_iter_next_def map_upt_Suc ac_simps del: upt_Suc)
qed

text \<open>
  Iterating over a well-formed arena never reaches the \<open>unreachable!\<close> and yields every entity once,
  in order of allocation, with a key that looks it up. \<open>next_back\<close>, however, is \<open>next\<close>: it takes from the
  front.
\<close>

theorem arena_iteration:
  assumes "arena_wf u32_key elem a"
  shows "(case iter_collect u32_key (length (ar_items a)) (arena_iter_new a) of
      Ok kxs \<Rightarrow> map snd kxs = ar_items a \<and> (\<forall>(k, x)\<in>set kxs. arena_get u32_key a k = Ok x)
    | _ \<Rightarrow> False)
    \<and> arena_iter_next_back u32_key it = arena_iter_next u32_key it"
proof -
  have all: "\<forall>i<length (ar_items a). from_usize u32_key (0 + of_nat i) \<noteq> None"
    using assms by (simp add: arena_wf_def)
  have eq: "iter_collect u32_key (length (ar_items a)) (arena_iter_new a) =
    Ok (map (\<lambda>i. (the (from_usize u32_key (of_nat i)), ar_items a ! i)) [0..<length (ar_items a)])"
    using iter_collect_eq [OF all order_refl] by (simp add: arena_iter_new_def)
  have "arena_get u32_key a (the (from_usize u32_key (of_nat i))) = Ok (ar_items a ! i)"
    if i: "i < length (ar_items a)" for i
  proof -
    from all i obtain k where k: "from_usize u32_key (of_nat i) = Some k" by auto
    have "unat (of_nat i :: usize) = i"
      using i arena_wf_length [OF assms] by (simp add: unat_of_nat take_bit_nat_eq_self)
    with u32_key.from_usize_into [OF k] k i show ?thesis by (simp add: arena_get_def get_opt_def)
  qed
  then show ?thesis
    by (auto simp: eq arena_iter_next_def arena_iter_next_back_def comp_def map_nth)
qed

definition example_arena :: "nat arena" where
  "example_arena = \<lparr>ar_items = [5, 6], ar_capacity = 2\<rparr>"

theorem arena_iteration_witness:
  "case iter_collect u32_key (length (ar_items example_arena)) (arena_iter_new example_arena) of
     Ok kxs \<Rightarrow> map snd kxs = ar_items example_arena
       \<and> (\<forall>(k, x)\<in>set kxs. arena_get u32_key example_arena k = Ok x)
   | _ \<Rightarrow> False"
proof -
  have "arena_wf u32_key 4 example_arena"
    by (auto simp: arena_wf_def example_arena_def isize_max_def u32_key_def try_from_def less_Suc_eq unat_of_nat)
  from conjunct1 [OF arena_iteration [OF this]] show ?thesis .
qed

subsection \<open>Deduplicating arena\<close>

definition dedup_wf :: "'k arena_key \<Rightarrow> nat \<Rightarrow> ('k, 'a) dedup_arena \<Rightarrow> bool" where
  "dedup_wf K elem d \<longleftrightarrow> arena_wf K elem (da_items d) \<and> distinct (ar_items (da_items d))
     \<and> (\<forall>x k. item2key d x = Some k \<longleftrightarrow> ak_valid K k \<and> dedup_get K d k = Ok x)"

context lawful_key
begin

lemma item2key_dom:
  assumes "dedup_wf K elem d"
  shows "item2key d x = None \<longleftrightarrow> x \<notin> set (ar_items (da_items d))"
proof -
  have "\<exists>k. ak_valid K k \<and> dedup_get K d k = Ok x" if x: "x \<in> set (ar_items (da_items d))"
  proof -
    from x obtain i where i: "i < length (ar_items (da_items d))" "ar_items (da_items d) ! i = x"
      by (auto simp: in_set_conv_nth)
    with assms obtain k where "from_usize K (of_nat i) = Some k" by (auto simp: dedup_wf_def arena_wf_def)
    moreover have "unat (of_nat i :: usize) = i"
      using i(1) assms arena_wf_length [of K elem "da_items d"]
      by (simp add: dedup_wf_def unat_of_nat take_bit_nat_eq_self)
    ultimately show ?thesis using i from_usize_into [of "of_nat i" k]
      by (auto simp: dedup_get_def arena_get_def get_opt_def)
  qed
  moreover have "x \<in> set (ar_items (da_items d))" if "dedup_get K d k = Ok x" for k
    using that by (auto simp: dedup_get_def arena_get_def)
  ultimately show ?thesis using assms unfolding dedup_wf_def by (metis not_None_eq)
qed

lemma dedup_alloc_law:
  assumes wf: "dedup_wf K elem d"
  shows "case dedup_alloc K alloc elem d x of
      (Ok k, d') \<Rightarrow> dedup_wf K elem d' \<and> ak_valid K k \<and> dedup_get K d' k = Ok x
        \<and> ar_items (da_items d') =
            (if x \<in> set (ar_items (da_items d)) then ar_items (da_items d) else ar_items (da_items d) @ [x])
    | (Err e, d') \<Rightarrow> d' = d
    | (Panic, _) \<Rightarrow> False"
proof (cases "item2key d x")
  case (Some k)
  then have "dedup_alloc K alloc elem d x = (Ok k, d)" by (simp add: dedup_alloc_def)
  moreover from Some wf have "ak_valid K k" "dedup_get K d k = Ok x" by (simp_all add: dedup_wf_def)
  moreover have "x \<in> set (ar_items (da_items d))" using Some item2key_dom [OF wf, of x] by auto
  ultimately show ?thesis using wf by simp
next
  case None
  have awf: "arena_wf K elem (da_items d)" using wf by (simp add: dedup_wf_def)
  from None item2key_dom [OF wf] have new: "x \<notin> set (ar_items (da_items d))" by blast
  show ?thesis
  proof (rule arena_alloc_cases [OF awf, of alloc x])
    fix k cap
    let ?a = "(da_items d)\<lparr>ar_items := ar_items (da_items d) @ [x], ar_capacity := cap\<rparr>"
    let ?d = "d\<lparr>item2key := (item2key d)(x \<mapsto> k), da_items := ?a\<rparr>"
    assume a: "arena_alloc K alloc elem (da_items d) x = (Ok k, ?a)" "next_key K (da_items d) = Ok k"
      "ak_valid K k" "unat (into_usize K k) = length (ar_items (da_items d))" "arena_wf K elem ?a"
    have get: "dedup_get K ?d k' = (if k' = k then Ok x else dedup_get K d k')" if "ak_valid K k'" for k'
      using arena_get_append [OF a(3,4) that] by (simp add: dedup_get_def)
    have old: "dedup_get K d k' = Ok y \<Longrightarrow> y \<noteq> x" for k' y
      using new by (auto simp: dedup_get_def arena_get_def)
    have k_old: "dedup_get K d k = Err KeyOutOfBounds" using a(4) by (simp add: dedup_get_def arena_get_def)
    have "item2key ?d y = Some k' \<longleftrightarrow> ak_valid K k' \<and> dedup_get K ?d k' = Ok y" for y k'
      using wf get [of k'] old [of k'] a(3) k_old unfolding dedup_wf_def by (cases "k' = k") auto
    with wf a(5) new have "dedup_wf K elem ?d" by (simp add: dedup_wf_def)
    with None a new get [OF a(3)] show ?thesis by (simp add: dedup_alloc_def)
  next
    fix e assume "arena_alloc K alloc elem (da_items d) x = (Err e, da_items d)"
    with None show ?thesis by (auto simp: dedup_alloc_def next_key_def split: res.split)
  qed
qed

end

text \<open>
  The deduplicating arena stays duplicate free and its map stays the inverse of the lookup: an
  allocation that succeeds returns the key under which the item is found afterwards, appends the item
  exactly if it was not there, and so equal items always get the same key; an allocation that fails
  changes nothing.
\<close>

theorem dedup_alloc_invariant:
  assumes "dedup_wf u32_key elem d"
  shows "case dedup_alloc u32_key alloc elem d x of
      (Ok k, d') \<Rightarrow> dedup_wf u32_key elem d' \<and> dedup_get u32_key d' k = Ok x
        \<and> ar_items (da_items d') =
            (if x \<in> set (ar_items (da_items d)) then ar_items (da_items d) else ar_items (da_items d) @ [x])
        \<and> dedup_alloc u32_key alloc elem d' x = (Ok k, d')
    | (Err e, d') \<Rightarrow> d' = d
    | (Panic, _) \<Rightarrow> False"
proof (cases "dedup_alloc u32_key alloc elem d x")
  case (Pair r d')
  note law = u32_key.dedup_alloc_law [OF assms, where alloc = alloc and x = x, unfolded Pair]
  have "dedup_alloc u32_key alloc elem d' x = (Ok k, d')" if "r = Ok k" for k
  proof -
    from law that have "dedup_wf u32_key elem d'" "ak_valid u32_key k" "dedup_get u32_key d' k = Ok x" by simp_all
    then have "item2key d' x = Some k" by (simp add: dedup_wf_def)
    then show ?thesis by (simp add: dedup_alloc_def)
  qed
  with law Pair show ?thesis by (cases r) simp_all
qed

theorem dedup_alloc_invariant_witness:
  "case dedup_alloc u32_key (\<lambda>n. n < 100) 8 dedup_new CHR ''x'' of
      (Ok k, d') \<Rightarrow> dedup_alloc u32_key (\<lambda>n. n < 100) 8 d' CHR ''x'' = (Ok k, d')
    | (Err e, d') \<Rightarrow> d' = dedup_new | (Panic, _) \<Rightarrow> False"
proof -
  have "dedup_wf u32_key 8 (dedup_new :: (u32, char) dedup_arena)"
    by (auto simp: dedup_wf_def dedup_new_def arena_new_wf dedup_get_def arena_get_def arena_new_def arena_wf_def)
  from dedup_alloc_invariant [OF this, where alloc = "\<lambda>n. n < 100" and x = "CHR ''x''"] show ?thesis
    by (auto split: prod.splits res.splits)
qed

subsection \<open>Component vector\<close>

context lawful_key
begin

lemma component_set_law:
  assumes "ak_valid K k" "ak_valid K k'"
  shows "fst (component_set K c k v) = component_get K c k"
    "component_get K (snd (component_set K c k v)) k' = (if k' = k then Some v else component_get K c k')"
  using into_usize_inj [OF assms]
  by (auto simp: component_set_def component_get_def Let_def get_opt_def nth_append word_unat_eq_iff
      nth_list_update)

lemma component_unset_law:
  assumes "ak_valid K k" "ak_valid K k'"
  shows "fst (component_unset K c k) = component_get K c k"
    "component_get K (snd (component_unset K c k)) k' = (if k' = k then None else component_get K c k')"
  using into_usize_inj [OF assms]
  by (auto simp: component_unset_def component_get_def Let_def get_opt_def word_unat_eq_iff nth_list_update)

end

lemma component_get_clear: "component_get K (component_clear c) k = None"
  by (simp add: component_clear_def component_get_def get_opt_def)

text \<open>
  A component vector with 32 bit keys is a finite map from keys to components: \<open>set\<close> is map update
  and returns the old component, \<open>unset\<close> is map deletion and returns the removed component, a cleared
  vector is the empty map, however far apart the keys are.
\<close>

theorem component_vec_refines_map:
  "fst (component_set u32_key c k v) = component_get u32_key c k
   \<and> component_get u32_key (snd (component_set u32_key c k v)) = (component_get u32_key c)(k \<mapsto> v)
   \<and> fst (component_unset u32_key c k) = component_get u32_key c k
   \<and> component_get u32_key (snd (component_unset u32_key c k)) = (component_get u32_key c)(k := None)
   \<and> component_get u32_key (component_clear c) = Map.empty"
proof -
  have valid: "ak_valid u32_key k'" for k' by (simp add: u32_key_def)
  show ?thesis
    by (simp add: fun_eq_iff component_get_clear u32_key.component_set_law [OF valid valid]
        u32_key.component_unset_law [OF valid valid])
qed

subsection \<open>Head vector\<close>

definition head_vec_abs :: "'a head_vec \<Rightarrow> 'a list" where
  "head_vec_abs h = hv_rest h @ (case hv_head h of None \<Rightarrow> [] | Some x \<Rightarrow> [x])"

definition head_vec_wf :: "'a head_vec \<Rightarrow> bool" where
  "head_vec_wf h \<longleftrightarrow> (hv_head h = None \<longrightarrow> hv_rest h = [])"

text \<open>
  A head vector is a list whose last element is kept apart: on well-formed vectors \<open>push\<close> appends,
  \<open>pop\<close> removes and returns the last element, \<open>last\<close> and \<open>len\<close> are those of the list, and every
  operation keeps the invariant that there is a rest only below a head.
\<close>

theorem head_vec_refines_list:
  assumes "head_vec_wf h"
  shows "head_vec_wf head_vec_default \<and> head_vec_abs head_vec_default = []
    \<and> head_vec_wf (head_vec_push h x) \<and> head_vec_abs (head_vec_push h x) = head_vec_abs h @ [x]
    \<and> head_vec_wf (snd (head_vec_pop h)) \<and> head_vec_abs (snd (head_vec_pop h)) = butlast (head_vec_abs h)
    \<and> fst (head_vec_pop h) = head_vec_last h
    \<and> head_vec_last h = (if head_vec_abs h = [] then None else Some (last (head_vec_abs h)))
    \<and> head_vec_len h = length (head_vec_abs h)"
  using assms
  by (cases "hv_head h")
    (auto simp: head_vec_wf_def head_vec_default_def head_vec_abs_def head_vec_push_def head_vec_pop_def
      head_vec_last_def head_vec_len_def)

theorem head_vec_refines_list_witness:
  "head_vec_abs (snd (head_vec_pop (head_vec_push (head_vec_push head_vec_default 1) (2 :: nat)))) = [1]"
proof -
  have "head_vec_wf (head_vec_push head_vec_default (1 :: nat))"
    by (simp add: head_vec_wf_def head_vec_push_def head_vec_default_def)
  from head_vec_refines_list [OF this, of 2] show ?thesis
    by (simp add: head_vec_pop_def head_vec_push_def head_vec_default_def head_vec_abs_def)
qed

end
