(* ===== verification/Slots.thy ===== *)
theory Slots
  imports Memory_Access
begin

section \<open>Stack slots and slot spans (crates/ir/src/index.rs, span.rs)\<close>

text \<open>
  A slot indexes the cells of a function's stack frame. Its raw representation depends on the crate
  feature \<open>slot16\<close>: the index itself as \<open>u16\<close>, or the byte offset of the cell as \<open>u32\<close>. Both are given
  as a record of the conversions; the operations on slots and spans take the representation as an
  argument. The locale \<open>slot_laws\<close> is what they rely on, and both representations satisfy it.
\<close>

record 'r slot_repr =
  slot_from_u16 :: "u16 \<Rightarrow> 'r"
  u16_from_slot :: "'r \<Rightarrow> u16"
  raw_byte_offset :: "'r \<Rightarrow> usize"

definition CELL_BYTES :: u32 where "CELL_BYTES = 8"

definition slot16 :: "u16 slot_repr" where
  "slot16 = \<lparr>slot_from_u16 = (\<lambda>v. v), u16_from_slot = (\<lambda>v. v),
     raw_byte_offset = (\<lambda>v. ucast (ucast v * CELL_BYTES))\<rparr>"

definition slot32 :: "u32 slot_repr" where
  "slot32 = \<lparr>slot_from_u16 = (\<lambda>v. ucast v * CELL_BYTES), u16_from_slot = (\<lambda>v. ucast (v div CELL_BYTES)),
     raw_byte_offset = ucast\<rparr>"

definition next_n :: "'w::len word slot_repr \<Rightarrow> 'w word \<Rightarrow> u16 \<Rightarrow> 'w word" where
  "next_n R s n = s + slot_from_u16 R n"

definition prev_n :: "'w::len word slot_repr \<Rightarrow> 'w word \<Rightarrow> u16 \<Rightarrow> 'w word" where
  "prev_n R s n = s - slot_from_u16 R n"

definition slot_next :: "'w::len word slot_repr \<Rightarrow> 'w word \<Rightarrow> 'w word" where
  "slot_next R s = next_n R s 1"

definition slot_prev :: "'w::len word slot_repr \<Rightarrow> 'w word \<Rightarrow> 'w word" where
  "slot_prev R s = prev_n R s 1"

definition slot_byte_offset :: "'w::len word slot_repr \<Rightarrow> 'w word \<Rightarrow> usize" where
  "slot_byte_offset R s = raw_byte_offset R s"

text \<open>Indices of Wasm entities; only memories are limited to 16 bits.\<close>

datatype ir_error =
  StackSlotOutOfBounds | BlockFuelOutOfBounds | MemoryIndexOutOfBounds

definition memory_is_default :: "u16 \<Rightarrow> bool" where
  "memory_is_default m \<longleftrightarrow> m = 0"

definition memory_index_try_from :: "u32 \<Rightarrow> (ir_error, u16) res" where
  "memory_index_try_from index = ok_or MemoryIndexOutOfBounds (try_from index)"

subsection \<open>Spans\<close>

text \<open>A \<open>SlotSpan\<close> is its head; a \<open>FixedSlotSpan\<close> of length \<open>n\<close> is a span too.\<close>

type_synonym 's slot_span = 's

record 's slot_span_iter =
  si_next :: 's
  si_last :: 's

definition iter_new :: "'w::len word slot_repr \<Rightarrow> 'w word \<Rightarrow> u16 \<Rightarrow> 'w word slot_span_iter" where
  "iter_new R start len = \<lparr>si_next = start, si_last = next_n R start len\<rparr>"

definition span_iter :: "'w::len word slot_repr \<Rightarrow> 'w word slot_span \<Rightarrow> u16 \<Rightarrow> 'w word slot_span_iter" where
  "span_iter R span len = iter_new R span len"

definition fixed_span_new ::
  "'w::len word slot_repr \<Rightarrow> u16 \<Rightarrow> 'w word slot_span \<Rightarrow> (ir_error, 'w word slot_span) res" where
  "fixed_span_new R n span =
     (let head = span in
      if head \<ge> next_n R head n then Err StackSlotOutOfBounds else Ok span)"

definition fixed_span_to_array :: "'w::len word slot_repr \<Rightarrow> 'w word slot_span \<Rightarrow> 'w word list" where
  "fixed_span_to_array R span = [span, slot_next R span]"

definition fixed_span_contains :: "'w::len word slot_repr \<Rightarrow> u16 \<Rightarrow> 'w word slot_span \<Rightarrow> 'w word \<Rightarrow> bool" where
  "fixed_span_contains R n span reg =
     (if n = 0 then False
      else let mn = span; mx = next_n R mn n in mn \<le> reg \<and> reg < mx)"

record 's bounded_slot_span =
  bs_span :: "'s slot_span"
  bs_len :: u16

definition bounded_span_new :: "'s slot_span \<Rightarrow> u16 \<Rightarrow> 's bounded_slot_span" where
  "bounded_span_new span len = \<lparr>bs_span = span, bs_len = len\<rparr>"

definition fixed_span_bounded :: "u16 \<Rightarrow> 's slot_span \<Rightarrow> 's bounded_slot_span" where
  "fixed_span_bounded n span = \<lparr>bs_span = span, bs_len = n\<rparr>"

definition bounded_span_iter :: "'w::len word slot_repr \<Rightarrow> 'w word bounded_slot_span \<Rightarrow> 'w word slot_span_iter" where
  "bounded_span_iter R b = span_iter R (bs_span b) (bs_len b)"

definition bounded_span_contains :: "'w::len word slot_repr \<Rightarrow> 'w word bounded_slot_span \<Rightarrow> 'w word \<Rightarrow> bool" where
  "bounded_span_contains R b reg =
     (if bs_len b = 0 then False
      else let mn = bs_span b; mx = next_n R mn (bs_len b) in mn \<le> reg \<and> reg < mx)"

definition abs_diff :: "u16 \<Rightarrow> u16 \<Rightarrow> u16" where
  "abs_diff a b = (if a < b then b - a else a - b)"

definition iter_len :: "'w::len word slot_repr \<Rightarrow> 'w word slot_span_iter \<Rightarrow> u16" where
  "iter_len R it = abs_diff (u16_from_slot R (si_last it)) (u16_from_slot R (si_next it))"

definition iter_is_empty :: "'s slot_span_iter \<Rightarrow> bool" where
  "iter_is_empty it \<longleftrightarrow> si_next it = si_last it"

definition iter_next :: "'w::len word slot_repr \<Rightarrow> 'w word slot_span_iter \<Rightarrow> 'w word option \<times> 'w word slot_span_iter" where
  "iter_next R it =
     (if si_next it = si_last it then (None, it)
      else (Some (si_next it), it\<lparr>si_next := slot_next R (si_next it)\<rparr>))"

definition iter_next_back :: "'w::len word slot_repr \<Rightarrow> 'w word slot_span_iter \<Rightarrow> 'w word option \<times> 'w word slot_span_iter" where
  "iter_next_back R it =
     (if si_next it = si_last it then (None, it)
      else let it' = it\<lparr>si_last := slot_prev R (si_last it)\<rparr> in (Some (si_last it'), it'))"

text \<open>\<open>None\<close> is the failed assertion or \<open>expect\<close>.\<close>

definition has_overlapping_copies ::
  "'w::len word slot_repr \<Rightarrow> 'w word slot_span_iter \<Rightarrow> 'w word slot_span_iter \<Rightarrow> bool option" where
  "has_overlapping_copies R results values =
     (if iter_len R results \<noteq> iter_len R values then None
      else let len = iter_len R results in
        if len \<le> 1 then Some False
        else let first_value = si_next values; first_result = si_next results in
          if first_value \<ge> first_result then Some False
          else case iter_next_back R values of
            (None, _) \<Rightarrow> None
          | (Some last_value, _) \<Rightarrow> Some (last_value \<ge> first_result))"

subsection \<open>Laws of the representation\<close>

locale slot_laws =
  fixes R :: "'w::len word slot_repr"
  assumes from_add: "unat i + unat n < 2 ^ 16 \<Longrightarrow> slot_from_u16 R (i + n) = slot_from_u16 R i + slot_from_u16 R n"
    and from_less: "slot_from_u16 R i < slot_from_u16 R j \<longleftrightarrow> i < j"
    and into_from: "u16_from_slot R (slot_from_u16 R i) = i"
    and byte_offset_from: "raw_byte_offset R (slot_from_u16 R i) = 8 * ucast i"
begin

definition span_at :: "u16 \<Rightarrow> u16 \<Rightarrow> 'w word slot_span_iter" where
  "span_at i n = span_iter R (slot_from_u16 R i) n"

lemma from_eq [simp]: "slot_from_u16 R i = slot_from_u16 R j \<longleftrightarrow> i = j"
  by (metis into_from)

lemma from_less_unat: "slot_from_u16 R i < slot_from_u16 R j \<longleftrightarrow> unat i < unat j"
  using from_less [of i j] word_less_nat_alt [of i j] by blast

lemma from_le_unat: "slot_from_u16 R i \<le> slot_from_u16 R j \<longleftrightarrow> unat i \<le> unat j"
  using from_less_unat [of j i] by (auto simp only: linorder_not_less [symmetric])

lemmas from_order = from_less_unat from_le_unat

lemma next_n_from: "unat i + unat n < 2 ^ 16 \<Longrightarrow> next_n R (slot_from_u16 R i) n = slot_from_u16 R (i + n)"
  by (simp add: next_n_def from_add)

lemma prev_n_next_n [simp]: "prev_n R (next_n R s n) n = s"
  by (simp add: next_n_def prev_n_def)

lemma span_at_eq:
  assumes "unat i + unat n < 2 ^ 16"
  shows "span_at i n = \<lparr>si_next = slot_from_u16 R i, si_last = slot_from_u16 R (i + n)\<rparr>"
  using assms by (simp add: span_at_def span_iter_def iter_new_def next_n_from)

lemma si_next_span_at [simp]: "si_next (span_at i n) = slot_from_u16 R i"
  by (simp add: span_at_def span_iter_def iter_new_def)

lemma contains_from:
  assumes "unat i + unat n < 2 ^ 16"
  shows "bounded_span_contains R (bounded_span_new (slot_from_u16 R i) n) (slot_from_u16 R j)
     \<longleftrightarrow> unat i \<le> unat j \<and> unat j < unat i + unat n"
  using assms
  by (auto simp: bounded_span_contains_def bounded_span_new_def next_n_from from_order
      unat_word_ariths Let_def)

lemma iter_len_span_at:
  assumes "unat i + unat n < 2 ^ 16"
  shows "iter_len R (span_at i n) = n"
  using assms
  by (auto simp: span_at_eq iter_len_def abs_diff_def into_from word_less_nat_alt unat_word_ariths)

lemma iter_next_span_at:
  assumes "unat i + unat n < 2 ^ 16"
  shows "iter_next R (span_at i n) =
    (if n = 0 then (None, span_at i n) else (Some (slot_from_u16 R i), span_at (i + 1) (n - 1)))"
proof (cases "n = 0")
  case False
  then have pos: "0 < unat n" by (simp add: unat_gt_0)
  have "unat (n - 1) = unat n - 1" using unat_minus_one [OF False] by simp
  moreover have "unat (i + 1) = unat i + 1" using assms pos by (simp add: unat_word_ariths)
  ultimately have "unat (i + 1) + unat (n - 1) < 2 ^ 16" using assms pos by simp
  moreover have "next_n R (slot_from_u16 R i) 1 = slot_from_u16 R (i + 1)"
    using assms pos by (intro next_n_from) simp
  ultimately show ?thesis
    using assms False by (simp add: iter_next_def span_at_eq slot_next_def)
qed (use assms in \<open>simp add: iter_next_def span_at_eq\<close>)

lemma iter_next_back_span_at:
  assumes "unat i + unat n < 2 ^ 16"
  shows "iter_next_back R (span_at i n) =
    (if n = 0 then (None, span_at i n) else (Some (slot_from_u16 R (i + n - 1)), span_at i (n - 1)))"
proof (cases "n = 0")
  case False
  then have pos: "0 < unat n" by (simp add: unat_gt_0)
  have pred: "unat (n - 1) = unat n - 1" using unat_minus_one [OF False] by simp
  have in_range: "unat i + unat (n - 1) < 2 ^ 16" using assms pos pred by simp
  have "unat (i + (n - 1)) + 1 < 2 ^ 16"
    using assms pos pred in_range by (simp add: unat_word_ariths)
  then have "next_n R (slot_from_u16 R (i + (n - 1))) 1 = slot_from_u16 R (i + n)"
    using next_n_from [of "i + (n - 1)" 1] by simp
  then have "slot_prev R (slot_from_u16 R (i + n)) = slot_from_u16 R (i + (n - 1))"
    using prev_n_next_n [of "slot_from_u16 R (i + (n - 1))" 1] by (simp add: slot_prev_def)
  moreover have "i + (n - 1) = i + n - 1" by simp
  ultimately show ?thesis
    using assms False in_range by (simp add: iter_next_back_def span_at_eq Let_def)
qed (use assms in \<open>simp add: iter_next_back_def span_at_eq\<close>)

lemma overlapping_copies_from:
  assumes "unat d + unat n < 2 ^ 16" "unat s + unat n < 2 ^ 16"
  shows "has_overlapping_copies R (span_at d n) (span_at s n)
    = Some (2 \<le> unat n \<and> unat s < unat d \<and> unat d < unat s + unat n)"
proof (cases "n \<le> 1")
  case True
  then have "unat n \<le> 1" by (simp add: word_le_nat_alt)
  then show ?thesis
    using True assms by (simp add: has_overlapping_copies_def iter_len_span_at Let_def)
next
  case False
  then have two: "2 \<le> unat n" by (simp add: word_le_nat_alt)
  have "n \<noteq> 0" using False by auto
  have "unat (s + n - 1) = unat s + unat n - 1"
  proof -
    have "unat (s + n) = unat s + unat n" using assms by (simp add: unat_word_ariths)
    then show ?thesis using two unat_minus_one [of "s + n"] by fastforce
  qed
  then show ?thesis
    using False two \<open>n \<noteq> 0\<close> assms
    by (auto simp: has_overlapping_copies_def iter_len_span_at iter_next_back_span_at Let_def
        from_order)
qed

end

interpretation slot16: slot_laws slot16
proof unfold_locales
  show "raw_byte_offset slot16 (slot_from_u16 slot16 i) = 8 * ucast i" for i
  proof -
    have "8 * unat i < 2 ^ 32" using unsigned_less [of i, where ?'a = nat] by simp
    then show ?thesis
      by (simp add: slot16_def CELL_BYTES_def word_unat_eq_iff unat_word_ariths unsigned_ucast_eq
          take_bit_nat_eq_self)
  qed
qed (simp_all add: slot16_def)

lemma unat_slot32: "unat (slot_from_u16 slot32 v) = 8 * unat v"
proof -
  have "8 * unat v < 2 ^ 32" using unsigned_less [of v, where ?'a = nat] by simp
  then show ?thesis
    by (simp add: slot32_def CELL_BYTES_def unat_word_ariths unsigned_ucast_eq take_bit_nat_eq_self)
qed

interpretation slot32: slot_laws slot32
proof unfold_locales
  fix i n :: u16
  assume "unat i + unat n < 2 ^ 16"
  then show "slot_from_u16 slot32 (i + n) = slot_from_u16 slot32 i + slot_from_u16 slot32 n"
    by (simp add: word_unat_eq_iff unat_word_ariths unat_slot32)
next
  show "slot_from_u16 slot32 i < slot_from_u16 slot32 j \<longleftrightarrow> i < j" for i j
    by (simp add: word_less_nat_alt unat_slot32)
  have "unat (slot_from_u16 slot32 i div CELL_BYTES) = unat i" for i
    by (simp add: unat_div unat_slot32 CELL_BYTES_def)
  then show "u16_from_slot slot32 (slot_from_u16 slot32 i) = i" for i
    using unsigned_less [of i, where ?'a = nat]
    by (simp add: slot32_def word_unat_eq_iff unsigned_ucast_eq take_bit_nat_eq_self)
  have bound: "8 * unat i < 2 ^ 64" for i :: u16 using unsigned_less [of i, where ?'a = nat] by simp
  have raw: "raw_byte_offset slot32 s = ucast s" for s by (simp add: slot32_def)
  show "raw_byte_offset slot32 (slot_from_u16 slot32 i) = 8 * ucast i" for i
    using bound [of i] unsigned_less [of i, where ?'a = nat]
    by (simp add: raw word_unat_eq_iff unat_word_ariths unsigned_ucast_eq unat_slot32
        take_bit_nat_eq_self)
qed

subsection \<open>What a span yields\<close>

text \<open>All slots an iterator yields, from the front; \<open>k\<close> bounds the number of steps.\<close>

fun span_collect :: "nat \<Rightarrow> 'w::len word slot_repr \<Rightarrow> 'w word slot_span_iter \<Rightarrow> 'w word list" where
  "span_collect 0 R it = []"
| "span_collect (Suc k) R it =
     (case iter_next R it of (None, _) \<Rightarrow> [] | (Some s, it') \<Rightarrow> s # span_collect k R it')"

context slot_laws
begin

lemma span_collect_span_at:
  assumes "unat i + unat n < 2 ^ 16" "unat n \<le> k"
  shows "span_collect k R (span_at i n) = map (\<lambda>j. slot_from_u16 R (i + of_nat j)) [0..<unat n]"
  using assms
proof (induction k arbitrary: i n)
  case (Suc k)
  show ?case
  proof (cases "n = 0")
    case True
    with Suc.prems show ?thesis by (simp add: iter_next_span_at)
  next
    case False
    then have pos: "0 < unat n" by (simp add: unat_gt_0)
    have pred: "unat (n - 1) = unat n - 1" using unat_minus_one [OF False] by simp
    have "unat (i + 1) = unat i + 1" using Suc.prems pos by (simp add: unat_word_ariths)
    with Suc.prems pos pred have "span_collect k R (span_at (i + 1) (n - 1))
      = map (\<lambda>j. slot_from_u16 R (i + 1 + of_nat j)) [0..<unat (n - 1)]"
      by (intro Suc.IH) simp_all
    moreover have "[0..<unat n] = 0 # map Suc [0..<unat (n - 1)]"
      using pos pred by (simp add: map_Suc_upt upt_conv_Cons)
    ultimately show ?thesis
      using False Suc.prems by (simp add: iter_next_span_at o_def add.assoc)
  qed
qed simp

lemma span_yields:
  assumes "unat i + unat n < 2 ^ 16"
  shows "iter_len R (span_at i n) = n"
    and "span_collect (unat n) R (span_at i n) = map (\<lambda>j. slot_from_u16 R (i + of_nat j)) [0..<unat n]"
    and "bounded_span_contains R (bounded_span_new (slot_from_u16 R i) n) (slot_from_u16 R j)
      \<longleftrightarrow> slot_from_u16 R j \<in> set (span_collect (unat n) R (span_at i n))"
proof -
  have collected: "span_collect (unat n) R (span_at i n)
      = map (\<lambda>j. slot_from_u16 R (i + of_nat j)) [0..<unat n]"
    using assms by (rule span_collect_span_at) simp
  have idx: "unat (i + of_nat m) = unat i + m" if "m < unat n" for m
    using that assms by (simp add: unat_word_ariths unat_of_nat)
  have "(unat i \<le> unat j \<and> unat j < unat i + unat n) \<longleftrightarrow> (\<exists>m < unat n. j = i + of_nat m)"
  proof
    assume between: "unat i \<le> unat j \<and> unat j < unat i + unat n"
    then have inside: "unat j - unat i < unat n" by arith
    then have "j = i + of_nat (unat j - unat i)" using between by (simp add: word_unat_eq_iff idx)
    with inside show "\<exists>m < unat n. j = i + of_nat m" by blast
  qed (auto simp: idx)
  then show "bounded_span_contains R (bounded_span_new (slot_from_u16 R i) n) (slot_from_u16 R j)
      \<longleftrightarrow> slot_from_u16 R j \<in> set (span_collect (unat n) R (span_at i n))"
    unfolding contains_from [OF assms] collected by auto
qed (use assms span_collect_span_at iter_len_span_at in auto)

end

text \<open>
  A span of \<open>n\<close> slots from slot \<open>i\<close> that stays below slot 65536, in the default representation:
  its iterator reports length \<open>n\<close>, yields exactly the slots \<open>i\<close>, \<open>i + 1\<close>, ... in this order, and a slot is
  contained in the span if and only if the iterator yields it.
\<close>
theorem slot_span_iteration:
  assumes "unat i + unat n < 2 ^ 16"
  shows "iter_len slot32 (span_iter slot32 (slot_from_u16 slot32 i) n) = n
    \<and> span_collect (unat n) slot32 (span_iter slot32 (slot_from_u16 slot32 i) n)
      = map (\<lambda>j. slot_from_u16 slot32 (i + of_nat j)) [0..<unat n]
    \<and> (bounded_span_contains slot32 (bounded_span_new (slot_from_u16 slot32 i) n) (slot_from_u16 slot32 j)
      \<longleftrightarrow> slot_from_u16 slot32 j
        \<in> set (span_collect (unat n) slot32 (span_iter slot32 (slot_from_u16 slot32 i) n)))"
  using slot32.span_yields [OF assms] by (simp add: slot32.span_at_def)

theorem slot_span_iteration_witness:
  "span_collect 3 slot32 (span_iter slot32 (slot_from_u16 slot32 5) 3) = [40, 48, 56]"
proof -
  have "span_collect (unat (3 :: u16)) slot32 (span_iter slot32 (slot_from_u16 slot32 5) 3)
      = map (\<lambda>j. slot_from_u16 slot32 (5 + of_nat j)) [0..<unat (3 :: u16)]"
    using slot_span_iteration [of 5 3 0] by simp
  moreover have "[0..<3] = [0, 1, 2 :: nat]" by (simp add: upt_rec)
  ultimately show ?thesis by (simp add: slot32_def CELL_BYTES_def)
qed

subsection \<open>Overflow of fixed spans\<close>

text \<open>
  The overflow check of \<open>FixedSlotSpan::new\<close>. With 16-bit slots it rejects exactly the empty spans
  and the spans whose end is past the last slot index. With the default 32-bit slots the sum of two
  byte offsets cannot wrap, so the check rejects only empty spans and accepts spans that run past
  slot 65535; \<open>SlotSpanIter::len\<close> of such a span is not its number of slots.
\<close>
theorem fixed_span_new_overflow:
  "fixed_span_new slot16 n (slot_from_u16 slot16 i)
     = (if n = 0 \<or> 2 ^ 16 \<le> unat i + unat n then Err StackSlotOutOfBounds else Ok (slot_from_u16 slot16 i))
   \<and> fixed_span_new slot32 n (slot_from_u16 slot32 i)
     = (if n = 0 then Err StackSlotOutOfBounds else Ok (slot_from_u16 slot32 i))
   \<and> iter_len slot32 (span_iter slot32 (slot_from_u16 slot32 0xFFFF) 1) = 0xFFFF"
proof (intro conjI)
  have bi: "unat i < 2 ^ 16" and bn: "unat n < 2 ^ 16" 
    using unsigned_less [of i, where ?'a = nat] unsigned_less [of n, where ?'a = nat] by simp_all
  have zero: "n = 0 \<longleftrightarrow> unat n = 0" by (simp add: unat_eq_0)
  have "(unat i + unat n) mod 2 ^ 16
      = (if unat i + unat n < 2 ^ 16 then unat i + unat n else unat i + unat n - 2 ^ 16)"
    using bi bn by (simp add: le_mod_geq)
  then have wrap: "i + n \<le> i \<longleftrightarrow> unat n = 0 \<or> 2 ^ 16 \<le> unat i + unat n"
    using bi bn by (auto simp: word_le_nat_alt unat_word_ariths split: if_splits)
  show "fixed_span_new slot16 n (slot_from_u16 slot16 i)
     = (if n = 0 \<or> 2 ^ 16 \<le> unat i + unat n then Err StackSlotOutOfBounds else Ok (slot_from_u16 slot16 i))"
    using wrap zero by (simp add: fixed_span_new_def next_n_def slot16_def)
  have "unat (slot_from_u16 slot32 i + slot_from_u16 slot32 n) = 8 * unat i + 8 * unat n"
    using bi bn by (simp add: unat_word_ariths unat_slot32)
  then show "fixed_span_new slot32 n (slot_from_u16 slot32 i)
     = (if n = 0 then Err StackSlotOutOfBounds else Ok (slot_from_u16 slot32 i))"
    by (simp add: fixed_span_new_def next_n_def word_le_nat_alt unat_slot32 zero)
  show "iter_len slot32 (span_iter slot32 (slot_from_u16 slot32 0xFFFF) 1) = 0xFFFF"
    by (simp add: iter_len_def span_iter_def iter_new_def next_n_def slot32_def CELL_BYTES_def abs_diff_def)
qed

end
