(* ===== verification/Exec_Stack.thy ===== *)
theory Exec_Stack
  imports Slots Traps
begin

section \<open>The execution stack (crates/wasmi/src/engine/executor/handler/state.rs)\<close>

text \<open>
  The value stack of 64 bit cells, the call stack of function frames, and the stack that combines
  both with the three registers. Instruction pointers and instances are opaque values of the type
  parameters \<open>'ip\<close> and \<open>'i\<close>; instances are only compared for equality. A stack pointer is the index
  of the cell it points to, or dangling. The vector of cells is its contents and its capacity;
  \<open>Vec::set_len\<close> makes cells accessible that nobody has initialized, whose contents is the
  parameter \<open>stale\<close>. Debug assertions are not part of the model; a panic and an
  \<open>unreachable_unchecked!\<close> that is reached are both \<open>Panic\<close>.
\<close>

type_synonym cell = u64

subsection \<open>Configuration (crates/wasmi/src/engine/limits/stack.rs)\<close>

datatype stack_config_error = MinStackHeightExceedsMax

record stack_config =
  max_recursion_depth :: usize
  min_stack_height :: usize
  max_stack_height :: usize
  max_cached_stacks :: usize

definition stack_config_default :: stack_config where
  "stack_config_default = \<lparr>max_recursion_depth = 1000, min_stack_height = 1000,
     max_stack_height = 1000000, max_cached_stacks = 2\<rparr>"

definition set_max_recursion_depth :: "stack_config \<Rightarrow> usize \<Rightarrow> stack_config" where
  "set_max_recursion_depth c v = c\<lparr>max_recursion_depth := v\<rparr>"

definition set_min_stack_height ::
  "stack_config \<Rightarrow> usize \<Rightarrow> (stack_config_error, unit) res \<times> stack_config" where
  "set_min_stack_height c v =
     (if v > max_stack_height c then (Err MinStackHeightExceedsMax, c)
      else (Ok (), c\<lparr>min_stack_height := v\<rparr>))"

definition set_max_stack_height ::
  "stack_config \<Rightarrow> usize \<Rightarrow> (stack_config_error, unit) res \<times> stack_config" where
  "set_max_stack_height c v =
     (if v < min_stack_height c then (Err MinStackHeightExceedsMax, c)
      else (Ok (), c\<lparr>max_stack_height := v\<rparr>))"

definition set_max_cached_stacks :: "stack_config \<Rightarrow> usize \<Rightarrow> stack_config" where
  "set_max_cached_stacks c v = c\<lparr>max_cached_stacks := v\<rparr>"

subsection \<open>The value stack\<close>

definition sp_offset_add :: "usize \<Rightarrow> usize \<Rightarrow> (trap_code, usize) res" where
  "sp_offset_add start delta = ok_or TrapStackOverflow (checked_add start delta)"

datatype sp = SpDangling | SpAt usize

record value_stack =
  vs_cells :: "cell list"
  vs_capacity :: nat
  vs_max_height :: usize

definition value_stack_new :: "usize \<Rightarrow> usize \<Rightarrow> value_stack" where
  "value_stack_new min_height max_height =
     \<lparr>vs_cells = [], vs_capacity = unat (min_height div 8), vs_max_height = max_height div 8\<rparr>"

definition value_stack_empty :: value_stack where
  "value_stack_empty = \<lparr>vs_cells = [], vs_capacity = 0, vs_max_height = 0\<rparr>"

definition value_stack_reset :: "value_stack \<Rightarrow> value_stack" where
  "value_stack_reset vs = vs\<lparr>vs_cells := []\<rparr>"

definition value_stack_sp :: "value_stack \<Rightarrow> usize \<Rightarrow> sp" where
  "value_stack_sp vs start = SpAt start"

definition sp_or_dangling :: "value_stack \<Rightarrow> usize \<Rightarrow> sp" where
  "sp_or_dangling vs start = (if vs_cells vs = [] then SpDangling else value_stack_sp vs start)"

definition grow_if_needed ::
  "allocator \<Rightarrow> (nat \<Rightarrow> cell) \<Rightarrow> value_stack \<Rightarrow> usize \<Rightarrow> (trap_code, unit) res \<times> value_stack" where
  "grow_if_needed alloc stale vs new_len =
     (if new_len > vs_max_height vs then (Err TrapStackOverflow, vs)
      else let len = length (vs_cells vs) in
        case (if unat new_len > vs_capacity vs
              then try_reserve alloc 8 len (vs_capacity vs) (unat new_len - len)
              else Some (vs_capacity vs)) of
          None \<Rightarrow> (Err TrapOutOfSystemMemory, vs)
        | Some cap \<Rightarrow>
            (Ok (), vs\<lparr>vs_cells := vs_cells vs @ map stale [len..<max (unat new_len) len],
                       vs_capacity := cap\<rparr>))"

text \<open>\<open>cells[a..b].fill_with(Cell::default)\<close> and \<open>slice::copy_within\<close>; \<open>None\<close> is the panic.\<close>

definition fill_default :: "cell list \<Rightarrow> nat \<Rightarrow> nat \<Rightarrow> cell list option" where
  "fill_default cells a b =
     (if a \<le> b \<and> b \<le> length cells then Some (overwrite cells a (replicate (b - a) 0)) else None)"

definition copy_within :: "cell list \<Rightarrow> nat \<Rightarrow> nat \<Rightarrow> nat \<Rightarrow> cell list option" where
  "copy_within cells a b dest =
     (if a \<le> b \<and> b \<le> length cells \<and> dest \<le> length cells - (b - a)
      then Some (overwrite cells dest (drop a (take b cells))) else None)"

definition cells_from :: "value_stack \<Rightarrow> usize \<Rightarrow> cell list option" where
  "cells_from vs start = slice_from (vs_cells vs) (unat start)"

definition cells_from_to :: "value_stack \<Rightarrow> usize \<Rightarrow> usize \<Rightarrow> cell list option" where
  "cells_from_to vs start en = slice_range (vs_cells vs) (unat start) (unat en)"

definition cells_copy_within :: "value_stack \<Rightarrow> usize \<Rightarrow> usize \<Rightarrow> usize \<Rightarrow> value_stack option" where
  "cells_copy_within vs start en dest =
     (case copy_within (vs_cells vs) (unat start) (unat en) (unat dest) of
        None \<Rightarrow> None | Some cells \<Rightarrow> Some (vs\<lparr>vs_cells := cells\<rparr>))"

definition value_stack_push ::
  "allocator \<Rightarrow> (nat \<Rightarrow> cell) \<Rightarrow> value_stack \<Rightarrow> usize \<Rightarrow> u16 \<Rightarrow> u16 \<Rightarrow> u16
     \<Rightarrow> (trap_code, sp) res \<times> value_stack" where
  "value_stack_push alloc stale vs start len_local_slots len_stack_slots len_params =
     (if len_stack_slots = 0 then (Ok SpDangling, vs)
      else case sp_offset_add start (ucast len_stack_slots) of
        Err e \<Rightarrow> (Err e, vs)
      | Panic \<Rightarrow> (Panic, vs)
      | Ok en \<Rightarrow>
          (case grow_if_needed alloc stale vs en of
             (Err e, vs') \<Rightarrow> (Err e, vs')
           | (Panic, vs') \<Rightarrow> (Panic, vs')
           | (Ok _, vs') \<Rightarrow>
               (let start_locals = start + ucast len_params; end_locals = start + ucast len_local_slots in
                case fill_default (vs_cells vs') (unat start_locals) (unat end_locals) of
                  None \<Rightarrow> (Panic, vs')
                | Some cells \<Rightarrow>
                    (let vs'' = vs'\<lparr>vs_cells := cells\<rparr> in (Ok (value_stack_sp vs'' start), vs'')))))"

text \<open>The index of the first parameter cell in the caller's frame.\<close>

definition params_head :: "'w::len word slot_repr \<Rightarrow> 'w word bounded_slot_span \<Rightarrow> usize" where
  "params_head R params = ucast (u16_from_slot R (bs_span params))"

definition value_stack_replace ::
  "'w::len word slot_repr \<Rightarrow> allocator \<Rightarrow> (nat \<Rightarrow> cell) \<Rightarrow> value_stack \<Rightarrow> usize \<Rightarrow> u16 \<Rightarrow> u16
     \<Rightarrow> 'w word bounded_slot_span \<Rightarrow> (trap_code, sp) res \<times> value_stack" where
  "value_stack_replace R alloc stale vs callee_start callee_locals callee_size callee_params =
     (let params_len = ucast (bs_len callee_params) :: usize;
          params_start = params_head R callee_params;
          params_end = params_start + params_len in
      if callee_size = 0 then (Ok SpDangling, vs)
      else case sp_offset_add callee_start (ucast callee_size) of
        Err e \<Rightarrow> (Err e, vs)
      | Panic \<Rightarrow> (Panic, vs)
      | Ok callee_end \<Rightarrow>
          (case grow_if_needed alloc stale vs callee_end of
             (Err e, vs') \<Rightarrow> (Err e, vs')
           | (Panic, vs') \<Rightarrow> (Panic, vs')
           | (Ok _, vs') \<Rightarrow>
               (case cells_from vs' callee_start of
                  None \<Rightarrow> (Panic, vs')
                | Some callee_cells \<Rightarrow>
                    (case copy_within callee_cells (unat params_start) (unat params_end) 0 of
                       None \<Rightarrow> (Panic, vs')
                     | Some moved \<Rightarrow>
                         (case fill_default moved (unat params_len) (unat callee_locals) of
                            None \<Rightarrow>
                              (Panic, vs'\<lparr>vs_cells := take (unat callee_start) (vs_cells vs') @ moved\<rparr>)
                          | Some cells \<Rightarrow>
                              (let vs'' = vs'\<lparr>vs_cells := take (unat callee_start) (vs_cells vs') @ cells\<rparr> in
                               (Ok (value_stack_sp vs'' callee_start), vs'')))))))"

subsection \<open>Parameters and results of host calls (crates/wasmi/src/engine/executor/inout.rs)\<close>

datatype cell_error = NotEnoughCells | NotEnoughValues | StoreOwnerMismatch

text \<open>The borrowed cells are given by their contents and the index of the first one.\<close>

record inout_params =
  io_start :: usize
  io_cells :: "cell list"
  io_len_params :: usize
  io_len_results :: usize

definition inout_new :: "usize \<Rightarrow> cell list \<Rightarrow> usize \<Rightarrow> usize \<Rightarrow> (cell_error, inout_params) res" where
  "inout_new start cells len_params len_results =
     (let required_cells = max len_params len_results in
      if unat required_cells < length cells then Err NotEnoughValues
      else if unat required_cells > length cells then Err NotEnoughCells
      else Ok \<lparr>io_start = start, io_cells = cells, io_len_params = len_params,
               io_len_results = len_results\<rparr>)"

definition inout_params_slice :: "inout_params \<Rightarrow> cell list" where
  "inout_params_slice io = take (unat (io_len_params io)) (io_cells io)"

definition value_stack_prepare_host_frame ::
  "'w::len word slot_repr \<Rightarrow> allocator \<Rightarrow> (nat \<Rightarrow> cell) \<Rightarrow> value_stack \<Rightarrow> usize
     \<Rightarrow> 'w word bounded_slot_span \<Rightarrow> u16 \<Rightarrow> (trap_code, sp \<times> inout_params) res \<times> value_stack" where
  "value_stack_prepare_host_frame R alloc stale vs caller_start callee_params results_len =
     (let params_offset = params_head R callee_params;
          params_len = ucast (bs_len callee_params) :: usize;
          results_len = ucast results_len :: usize;
          callee_size = max params_len results_len in
      case sp_offset_add caller_start params_offset of
        Err e \<Rightarrow> (Err e, vs)
      | Panic \<Rightarrow> (Panic, vs)
      | Ok callee_start \<Rightarrow>
          (case sp_offset_add callee_start callee_size of
             Err e \<Rightarrow> (Err e, vs)
           | Panic \<Rightarrow> (Panic, vs)
           | Ok callee_end \<Rightarrow>
               (case grow_if_needed alloc stale vs callee_end of
                  (Err e, vs') \<Rightarrow> (Err e, vs')
                | (Panic, vs') \<Rightarrow> (Panic, vs')
                | (Ok _, vs') \<Rightarrow>
                    (case cells_from_to vs' callee_start callee_end of
                       None \<Rightarrow> (Panic, vs')
                     | Some cells \<Rightarrow>
                         (case inout_new callee_start cells params_len results_len of
                            Ok io \<Rightarrow> (Ok (value_stack_sp vs' caller_start, io), vs')
                          | _ \<Rightarrow> (Panic, vs'))))))"

text \<open>
  How execution goes on after a tail call of a host function: in the caller's caller, or the
  execution returns to the host.
\<close>

datatype ('ip, 'i) return_call_host = Continue 'ip sp 'i | Break sp

fun return_control :: "('ip \<times> usize \<times> 'i) option \<Rightarrow> sp \<Rightarrow> ('ip, 'i) return_call_host" where
  "return_control (Some (ip, _, inst)) p = Continue ip p inst"
| "return_control None p = Break p"

definition value_stack_return_prepare_host_frame ::
  "'w::len word slot_repr \<Rightarrow> allocator \<Rightarrow> (nat \<Rightarrow> cell) \<Rightarrow> value_stack \<Rightarrow> ('ip \<times> usize \<times> 'i) option
     \<Rightarrow> usize \<Rightarrow> 'w word bounded_slot_span \<Rightarrow> u16
     \<Rightarrow> (trap_code, ('ip, 'i) return_call_host \<times> inout_params) res \<times> value_stack" where
  "value_stack_return_prepare_host_frame R alloc stale vs caller callee_start callee_params results_len =
     (let caller_start = (case caller of Some (_, start, _) \<Rightarrow> start | None \<Rightarrow> 0);
          params_offset = params_head R callee_params;
          params_len = ucast (bs_len callee_params) :: usize;
          results_len = ucast results_len :: usize;
          callee_size = max params_len results_len in
      if callee_size = 0 then
        (let p = (case caller of
                    Some _ \<Rightarrow> if caller_start \<noteq> callee_start then value_stack_sp vs caller_start
                              else SpDangling
                  | None \<Rightarrow> SpDangling) in
         (Ok (return_control caller p, \<lparr>io_start = 0, io_cells = [], io_len_params = 0, io_len_results = 0\<rparr>), vs))
      else case sp_offset_add callee_start params_offset of
        Err e \<Rightarrow> (Err e, vs)
      | Panic \<Rightarrow> (Panic, vs)
      | Ok params_start \<Rightarrow>
          (case sp_offset_add params_start params_len of
             Err e \<Rightarrow> (Err e, vs)
           | Panic \<Rightarrow> (Panic, vs)
           | Ok params_end \<Rightarrow>
               (case cells_copy_within vs params_start params_end callee_start of
                  None \<Rightarrow> (Panic, vs)
                | Some vs1 \<Rightarrow>
                    (case sp_offset_add callee_start callee_size of
                       Err e \<Rightarrow> (Err e, vs1)
                     | Panic \<Rightarrow> (Panic, vs1)
                     | Ok callee_end \<Rightarrow>
                         (case grow_if_needed alloc stale vs1 callee_end of
                            (Err e, vs2) \<Rightarrow> (Err e, vs2)
                          | (Panic, vs2) \<Rightarrow> (Panic, vs2)
                          | (Ok _, vs2) \<Rightarrow>
                              (case cells_from_to vs2 callee_start callee_end of
                                 None \<Rightarrow> (Panic, vs2)
                               | Some cells \<Rightarrow>
                                   (case inout_new callee_start cells params_len results_len of
                                      Ok io \<Rightarrow>
                                        (Ok (return_control caller (value_stack_sp vs2 caller_start), io), vs2)
                                    | _ \<Rightarrow> (Panic, vs2))))))))"

subsection \<open>The call stack\<close>

record ('ip, 'i) frame =
  fr_ip :: 'ip
  fr_start :: usize
  fr_instance :: "'i option"

text \<open>The top-most frame is the last of the list.\<close>

record ('ip, 'i) call_stack =
  cs_frames :: "('ip, 'i) frame list"
  cs_instance :: "'i option"
  cs_max_height :: usize

definition call_stack_new :: "usize \<Rightarrow> ('ip, 'i) call_stack" where
  "call_stack_new max_height = \<lparr>cs_frames = [], cs_instance = None, cs_max_height = max_height\<rparr>"

definition call_stack_empty :: "('ip, 'i) call_stack" where
  "call_stack_empty = call_stack_new 0"

definition call_stack_reset :: "('ip, 'i) call_stack \<Rightarrow> ('ip, 'i) call_stack" where
  "call_stack_reset cs = cs\<lparr>cs_frames := [], cs_instance := None\<rparr>"

definition cs_top :: "('ip, 'i) call_stack \<Rightarrow> ('ip, 'i) frame option" where
  "cs_top cs = (if cs_frames cs = [] then None else Some (last (cs_frames cs)))"

definition top_start :: "('ip, 'i) call_stack \<Rightarrow> usize" where
  "top_start cs = (case cs_top cs of None \<Rightarrow> 0 | Some upper \<Rightarrow> fr_start upper)"

text \<open>Replacing the top-most frame: writing through \<open>frames.last_mut()\<close>.\<close>

definition set_top :: "('ip, 'i) frame \<Rightarrow> ('ip, 'i) call_stack \<Rightarrow> ('ip, 'i) call_stack" where
  "set_top f cs = cs\<lparr>cs_frames := butlast (cs_frames cs) @ [f]\<rparr>"

definition cs_sync_ip :: "'ip \<Rightarrow> ('ip, 'i) call_stack \<Rightarrow> ('ip, 'i) call_stack option" where
  "cs_sync_ip ip cs = (case cs_top cs of None \<Rightarrow> None | Some upper \<Rightarrow> Some (set_top (upper\<lparr>fr_ip := ip\<rparr>) cs))"

definition cs_restore_frame :: "('ip, 'i) call_stack \<Rightarrow> ('ip \<times> usize \<times> 'i) option" where
  "cs_restore_frame cs =
     (case cs_instance cs of
        None \<Rightarrow> None
      | Some inst \<Rightarrow> (case cs_top cs of
          None \<Rightarrow> None
        | Some upper \<Rightarrow> Some (fr_ip upper, fr_start upper, inst)))"

definition cs_prepare_host_frame ::
  "'ip option \<Rightarrow> ('ip, 'i) call_stack \<Rightarrow> (trap_code, usize) res \<times> ('ip, 'i) call_stack" where
  "cs_prepare_host_frame caller_ip cs =
     (case (case caller_ip of None \<Rightarrow> Some cs | Some ip \<Rightarrow> cs_sync_ip ip cs) of
        None \<Rightarrow> (Panic, cs)
      | Some cs' \<Rightarrow> (Ok (top_start cs'), cs'))"

definition cs_push ::
  "'w::len word slot_repr \<Rightarrow> 'ip option \<Rightarrow> 'ip \<Rightarrow> 'w word bounded_slot_span \<Rightarrow> 'i option
     \<Rightarrow> ('ip, 'i) call_stack \<Rightarrow> (trap_code, usize) res \<times> ('ip, 'i) call_stack" where
  "cs_push R caller_ip callee_ip callee_params inst cs =
     (if length (cs_frames cs) = unat (cs_max_height cs) then (Err TrapStackOverflow, cs)
      else case (case caller_ip of None \<Rightarrow> Some cs | Some ip \<Rightarrow> cs_sync_ip ip cs) of
        None \<Rightarrow> (Panic, cs)
      | Some cs1 \<Rightarrow>
          (let (prev_instance, cs2) =
             (case inst of
                Some i \<Rightarrow> if cs_instance cs1 \<noteq> Some i then (cs_instance cs1, cs1\<lparr>cs_instance := Some i\<rparr>)
                          else (None, cs1)
              | None \<Rightarrow> (None, cs1)) in
           case sp_offset_add (top_start cs2) (params_head R callee_params) of
             Err e \<Rightarrow> (Err e, cs2)
           | Panic \<Rightarrow> (Panic, cs2)
           | Ok start \<Rightarrow>
               (Ok start, cs2\<lparr>cs_frames := cs_frames cs2 @
                  [\<lparr>fr_ip = callee_ip, fr_start = start, fr_instance = prev_instance\<rparr>]\<rparr>)))"

definition cs_pop ::
  "('ip, 'i) call_stack \<Rightarrow> (trap_code, ('ip \<times> usize \<times> 'i option) option) res \<times> ('ip, 'i) call_stack" where
  "cs_pop cs =
     (case cs_top cs of
        None \<Rightarrow> (Panic, cs)
      | Some popped \<Rightarrow>
          (let cs1 = cs\<lparr>cs_frames := butlast (cs_frames cs)\<rparr> in
           case cs_top cs1 of
             None \<Rightarrow> (Ok None, cs1)
           | Some upper \<Rightarrow>
               (Ok (Some (fr_ip upper, fr_start upper, fr_instance popped)),
                (case fr_instance popped of None \<Rightarrow> cs1 | Some i \<Rightarrow> cs1\<lparr>cs_instance := Some i\<rparr>))))"

definition cs_return_prepare_host_frame ::
  "'i \<Rightarrow> ('ip, 'i) call_stack
     \<Rightarrow> (trap_code, usize \<times> ('ip \<times> usize \<times> 'i) option) res \<times> ('ip, 'i) call_stack" where
  "cs_return_prepare_host_frame callee_instance cs =
     (let callee_start = top_start cs in
      case cs_pop cs of
        (Ok (Some (ip, start, inst)), cs') \<Rightarrow>
          (Ok (callee_start, Some (ip, start, (case inst of Some i \<Rightarrow> i | None \<Rightarrow> callee_instance))), cs')
      | (Ok None, cs') \<Rightarrow> (Ok (callee_start, None), cs')
      | (Err e, cs') \<Rightarrow> (Err e, cs')
      | (Panic, cs') \<Rightarrow> (Panic, cs'))"

definition cs_replace ::
  "'ip \<Rightarrow> 'i option \<Rightarrow> ('ip, 'i) call_stack \<Rightarrow> (trap_code, usize) res \<times> ('ip, 'i) call_stack" where
  "cs_replace callee_ip inst cs =
     (case cs_top cs of
        None \<Rightarrow> (Panic, cs)
      | Some caller_frame \<Rightarrow>
          (let f = caller_frame\<lparr>fr_ip := callee_ip\<rparr> in
           case inst of
             None \<Rightarrow> (Ok (fr_start caller_frame), set_top f cs)
           | Some callee_instance \<Rightarrow>
               (let f' = (if fr_instance f = None then f\<lparr>fr_instance := cs_instance cs\<rparr> else f) in
                (Ok (fr_start caller_frame), (set_top f' cs)\<lparr>cs_instance := Some callee_instance\<rparr>))))"

subsection \<open>The combined stack\<close>

text \<open>The registers hold raw bits: 64 bits of the integer register, the bits of the two floats.\<close>

record ('ip, 'i) exec_stack =
  st_values :: value_stack
  st_frames :: "('ip, 'i) call_stack"
  st_ireg :: u64
  st_freg32 :: u32
  st_freg64 :: u64

definition stack_new :: "stack_config \<Rightarrow> ('ip, 'i) exec_stack" where
  "stack_new config =
     \<lparr>st_values = value_stack_new (min_stack_height config) (max_stack_height config),
      st_frames = call_stack_new (max_recursion_depth config),
      st_ireg = 0, st_freg32 = 0, st_freg64 = 0\<rparr>"

definition stack_empty :: "('ip, 'i) exec_stack" where
  "stack_empty = \<lparr>st_values = value_stack_empty, st_frames = call_stack_empty,
     st_ireg = 0, st_freg32 = 0, st_freg64 = 0\<rparr>"

definition stack_reset :: "('ip, 'i) exec_stack \<Rightarrow> ('ip, 'i) exec_stack" where
  "stack_reset st = st\<lparr>st_values := value_stack_reset (st_values st),
     st_frames := call_stack_reset (st_frames st), st_ireg := 0, st_freg32 := 0, st_freg64 := 0\<rparr>"

definition stack_regs :: "('ip, 'i) exec_stack \<Rightarrow> u64 \<times> u32 \<times> u64" where
  "stack_regs st = (st_ireg st, st_freg32 st, st_freg64 st)"

definition stack_sync_ip :: "'ip \<Rightarrow> ('ip, 'i) exec_stack \<Rightarrow> ('ip, 'i) exec_stack option" where
  "stack_sync_ip ip st =
     (case cs_sync_ip ip (st_frames st) of None \<Rightarrow> None | Some cs \<Rightarrow> Some (st\<lparr>st_frames := cs\<rparr>))"

definition stack_sync_regs :: "u64 \<Rightarrow> u32 \<Rightarrow> u64 \<Rightarrow> ('ip, 'i) exec_stack \<Rightarrow> ('ip, 'i) exec_stack" where
  "stack_sync_regs ireg freg32 freg64 st = st\<lparr>st_ireg := ireg, st_freg32 := freg32, st_freg64 := freg64\<rparr>"

definition stack_restore_frame ::
  "('ip, 'i) exec_stack \<Rightarrow> ('ip \<times> sp \<times> 'i \<times> u64 \<times> u32 \<times> u64) option" where
  "stack_restore_frame st =
     (case cs_restore_frame (st_frames st) of
        None \<Rightarrow> None
      | Some (ip, start, inst) \<Rightarrow>
          Some (ip, sp_or_dangling (st_values st) start, inst, st_ireg st, st_freg32 st, st_freg64 st))"

definition return_prepare_host_frame ::
  "'w::len word slot_repr \<Rightarrow> allocator \<Rightarrow> (nat \<Rightarrow> cell) \<Rightarrow> 'w word bounded_slot_span \<Rightarrow> u16 \<Rightarrow> 'i
     \<Rightarrow> ('ip, 'i) exec_stack
     \<Rightarrow> (trap_code, ('ip, 'i) return_call_host \<times> inout_params) res \<times> ('ip, 'i) exec_stack" where
  "return_prepare_host_frame R alloc stale callee_params results_len caller_instance st =
     (case cs_return_prepare_host_frame caller_instance (st_frames st) of
        (Ok (callee_start, caller), cs) \<Rightarrow>
          (let (r, vs) = value_stack_return_prepare_host_frame R alloc stale (st_values st) caller
                           callee_start callee_params results_len in
           (r, st\<lparr>st_frames := cs, st_values := vs\<rparr>))
      | (Err e, cs) \<Rightarrow> (Err e, st\<lparr>st_frames := cs\<rparr>)
      | (Panic, cs) \<Rightarrow> (Panic, st\<lparr>st_frames := cs\<rparr>))"

definition prepare_host_frame ::
  "'w::len word slot_repr \<Rightarrow> allocator \<Rightarrow> (nat \<Rightarrow> cell) \<Rightarrow> 'ip option \<Rightarrow> 'w word bounded_slot_span \<Rightarrow> u16
     \<Rightarrow> ('ip, 'i) exec_stack \<Rightarrow> (trap_code, sp \<times> inout_params) res \<times> ('ip, 'i) exec_stack" where
  "prepare_host_frame R alloc stale caller_ip callee_params results_len st =
     (case cs_prepare_host_frame caller_ip (st_frames st) of
        (Ok caller_start, cs) \<Rightarrow>
          (let (r, vs) = value_stack_prepare_host_frame R alloc stale (st_values st) caller_start
                           callee_params results_len in
           (r, st\<lparr>st_frames := cs, st_values := vs\<rparr>))
      | (Err e, cs) \<Rightarrow> (Err e, st\<lparr>st_frames := cs\<rparr>)
      | (Panic, cs) \<Rightarrow> (Panic, st\<lparr>st_frames := cs\<rparr>))"

definition push_frame ::
  "'w::len word slot_repr \<Rightarrow> allocator \<Rightarrow> (nat \<Rightarrow> cell) \<Rightarrow> 'ip option \<Rightarrow> 'ip \<Rightarrow> 'w word bounded_slot_span
     \<Rightarrow> u16 \<Rightarrow> u16 \<Rightarrow> 'i option \<Rightarrow> ('ip, 'i) exec_stack \<Rightarrow> (trap_code, sp) res \<times> ('ip, 'i) exec_stack" where
  "push_frame R alloc stale caller_ip callee_ip callee_params callee_locals callee_slots callee_instance st =
     (case cs_push R caller_ip callee_ip callee_params callee_instance (st_frames st) of
        (Ok start, cs) \<Rightarrow>
          (let (r, vs) = value_stack_push alloc stale (st_values st) start callee_locals callee_slots
                           (bs_len callee_params) in
           (r, st\<lparr>st_frames := cs, st_values := vs\<rparr>))
      | (Err e, cs) \<Rightarrow> (Err e, st\<lparr>st_frames := cs\<rparr>)
      | (Panic, cs) \<Rightarrow> (Panic, st\<lparr>st_frames := cs\<rparr>))"

text \<open>\<open>mem0_of\<close> is \<open>extract_mem0\<close> on the store: the pointer and length of an instance's default memory.\<close>

definition pop_frame ::
  "('i \<Rightarrow> 'm) \<Rightarrow> 'm \<Rightarrow> 'i \<Rightarrow> ('ip, 'i) exec_stack
     \<Rightarrow> (trap_code, ('ip \<times> sp \<times> 'm \<times> 'i) option) res \<times> ('ip, 'i) exec_stack" where
  "pop_frame mem0_of mem0 inst st =
     (case cs_pop (st_frames st) of
        (Ok (Some (ip, start, changed_instance)), cs) \<Rightarrow>
          (let (mem0', inst') = (case changed_instance of
                                   Some i \<Rightarrow> (mem0_of i, i) | None \<Rightarrow> (mem0, inst)) in
           (Ok (Some (ip, sp_or_dangling (st_values st) start, mem0', inst')), st\<lparr>st_frames := cs\<rparr>))
      | (Ok None, cs) \<Rightarrow> (Ok None, st\<lparr>st_frames := cs\<rparr>)
      | (Err e, cs) \<Rightarrow> (Err e, st\<lparr>st_frames := cs\<rparr>)
      | (Panic, cs) \<Rightarrow> (Panic, st\<lparr>st_frames := cs\<rparr>))"

definition replace_frame ::
  "'w::len word slot_repr \<Rightarrow> allocator \<Rightarrow> (nat \<Rightarrow> cell) \<Rightarrow> 'ip \<Rightarrow> 'w word bounded_slot_span \<Rightarrow> u16 \<Rightarrow> u16
     \<Rightarrow> 'i option \<Rightarrow> ('ip, 'i) exec_stack \<Rightarrow> (trap_code, sp) res \<times> ('ip, 'i) exec_stack" where
  "replace_frame R alloc stale callee_ip callee_params callee_locals callee_size callee_instance st =
     (case cs_replace callee_ip callee_instance (st_frames st) of
        (Ok start, cs) \<Rightarrow>
          (let (r, vs) = value_stack_replace R alloc stale (st_values st) start callee_locals callee_size
                           callee_params in
           (r, st\<lparr>st_frames := cs, st_values := vs\<rparr>))
      | (Err e, cs) \<Rightarrow> (Err e, st\<lparr>st_frames := cs\<rparr>)
      | (Panic, cs) \<Rightarrow> (Panic, st\<lparr>st_frames := cs\<rparr>))"

subsection \<open>Invariants\<close>

definition value_stack_wf :: "value_stack \<Rightarrow> bool" where
  "value_stack_wf vs \<longleftrightarrow> length (vs_cells vs) \<le> vs_capacity vs \<and> 8 * vs_capacity vs \<le> isize_max
     \<and> length (vs_cells vs) \<le> unat (vs_max_height vs)"

definition call_stack_wf :: "('ip, 'i) call_stack \<Rightarrow> bool" where
  "call_stack_wf cs \<longleftrightarrow> length (cs_frames cs) \<le> unat (cs_max_height cs)
     \<and> sorted (map fr_start (cs_frames cs)) \<and> (cs_frames cs \<noteq> [] \<longrightarrow> cs_instance cs \<noteq> None)"

definition exec_stack_wf :: "('ip, 'i) exec_stack \<Rightarrow> bool" where
  "exec_stack_wf st \<longleftrightarrow> value_stack_wf (st_values st) \<and> call_stack_wf (st_frames st)"

lemma grow_cases:
  assumes "value_stack_wf vs"
  obtains (overflow) "unat (vs_max_height vs) < unat new_len"
      "grow_if_needed alloc stale vs new_len = (Err TrapStackOverflow, vs)"
  | (no_memory) n where "unat new_len \<le> unat (vs_max_height vs)"
      "vs_capacity vs < unat new_len" "8 * unat new_len \<le> n" "n > isize_max \<or> \<not> alloc n"
      "grow_if_needed alloc stale vs new_len = (Err TrapOutOfSystemMemory, vs)"
  | (grown) cap vs' where "unat new_len \<le> unat (vs_max_height vs)"
      "grow_if_needed alloc stale vs new_len = (Ok (), vs')"
      "vs' = vs\<lparr>vs_cells := vs_cells vs @ map stale [length (vs_cells vs)..<max (unat new_len) (length (vs_cells vs))],
          vs_capacity := cap\<rparr>"
      "value_stack_wf vs'" "unat new_len \<le> length (vs_cells vs')"
proof (cases "unat new_len \<le> unat (vs_max_height vs)")
  case False
  then show thesis
    by (intro overflow) (simp_all add: grow_if_needed_def word_le_nat_alt word_less_nat_alt)
next
  case True
  define len where "len = length (vs_cells vs)"
  define r where "r = (if unat new_len > vs_capacity vs
      then try_reserve alloc 8 len (vs_capacity vs) (unat new_len - len) else Some (vs_capacity vs))"
  have eq: "grow_if_needed alloc stale vs new_len = (case r of None \<Rightarrow> (Err TrapOutOfSystemMemory, vs)
     | Some cap \<Rightarrow> (Ok (), vs\<lparr>vs_cells := vs_cells vs @ map stale [len..<max (unat new_len) len],
                       vs_capacity := cap\<rparr>))"
    unfolding r_def len_def using True by (simp add: grow_if_needed_def word_less_nat_alt Let_def)
  have wf: "len \<le> vs_capacity vs" "8 * vs_capacity vs \<le> isize_max" "len \<le> unat (vs_max_height vs)"
    using assms by (simp_all add: value_stack_wf_def len_def)
  show thesis
  proof (cases r)
    case None
    then have "vs_capacity vs < unat new_len"
      "\<exists>n. 8 * unat new_len \<le> n \<and> (n > isize_max \<or> \<not> alloc n)"
      using wf
      by (auto simp: r_def try_reserve_def Let_def not_le split: if_splits
          intro!: exI [of _ "8 * max (min_non_zero_cap 8) (max (2 * vs_capacity vs) (unat new_len))"])
    with None eq True show thesis using no_memory by auto
  next
    case (Some cap)
    have "len \<le> cap \<and> unat new_len \<le> cap \<and> 8 * cap \<le> isize_max"
      using Some wf try_reserve_Some [of alloc 8 len "vs_capacity vs" "unat new_len - len" cap]
      by (auto simp: r_def split: if_splits)
    note cap = this
    define vs' where "vs' = vs\<lparr>vs_cells := vs_cells vs @ map stale [len..<max (unat new_len) len],
        vs_capacity := cap\<rparr>"
    have "grow_if_needed alloc stale vs new_len = (Ok (), vs')" using Some eq by (simp add: vs'_def)
    moreover have "value_stack_wf vs'" "unat new_len \<le> length (vs_cells vs')"
      using cap True wf by (auto simp: vs'_def len_def value_stack_wf_def)
    ultimately show thesis using grown [OF True, of vs' cap] by (simp add: vs'_def len_def)
  qed
qed

lemma grow_wf: "value_stack_wf vs \<Longrightarrow> value_stack_wf (snd (grow_if_needed alloc stale vs new_len))"
  by (rule grow_cases [of vs new_len alloc stale]) simp_all

lemma length_fill_default: "fill_default cells a b = Some cells' \<Longrightarrow> length cells' = length cells"
  by (auto simp: fill_default_def split: if_splits)

lemma length_copy_within: "copy_within cells a b d = Some cells' \<Longrightarrow> length cells' = length cells"
  by (auto simp: copy_within_def split: if_splits)

lemma value_stack_wf_cells:
  "value_stack_wf vs \<Longrightarrow> length cells = length (vs_cells vs) \<Longrightarrow> value_stack_wf (vs\<lparr>vs_cells := cells\<rparr>)"
  by (simp add: value_stack_wf_def)

subsection \<open>Activations: what the call stack represents\<close>

text \<open>
  An activation is a function that has been called and has not returned: where it continues, where
  its cells start, and the instance it runs in. The call stack only stores the current instance and,
  in a frame, the instance to restore when the frame is popped; \<open>activations\<close> recovers the list of
  activations, the running one first. The locale states what a call, a tail call and a return do to
  the activations; its lemmas hold for every implementation with these laws.
\<close>

type_synonym ('ip, 'i) activation = "'ip \<times> usize \<times> 'i option"

fun activations_from :: "'i option \<Rightarrow> ('ip, 'i) frame list \<Rightarrow> ('ip, 'i) activation list" where
  "activations_from cur [] = []"
| "activations_from cur (f # fs) =
     (fr_ip f, fr_start f, cur) #
     activations_from (case fr_instance f of None \<Rightarrow> cur | Some i \<Rightarrow> Some i) fs"

definition activations :: "('ip, 'i) call_stack \<Rightarrow> ('ip, 'i) activation list" where
  "activations cs = activations_from (cs_instance cs) (rev (cs_frames cs))"

fun resume_at :: "'ip option \<Rightarrow> ('ip, 'i) activation list \<Rightarrow> ('ip, 'i) activation list" where
  "resume_at (Some ip) ((_, start, i) # as) = (ip, start, i) # as"
| "resume_at _ as = as"

fun instance_of :: "('ip, 'i) activation list \<Rightarrow> 'i option" where
  "instance_of ((_, _, i) # _) = i"
| "instance_of [] = None"

definition callee_instance :: "'i option \<Rightarrow> ('ip, 'i) activation list \<Rightarrow> 'i option" where
  "callee_instance inst as = (case inst of None \<Rightarrow> instance_of as | Some i \<Rightarrow> Some i)"

text \<open>What a return reports of the activation it returns to: its instance only if it changes.\<close>

definition returns_to ::
  "('ip, 'i) activation \<Rightarrow> ('ip, 'i) activation list \<Rightarrow> ('ip \<times> usize \<times> 'i option) option \<Rightarrow> bool" where
  "returns_to a as r \<longleftrightarrow> (case as of
       [] \<Rightarrow> r = None
     | (ip, start, i) # _ \<Rightarrow>
         (case r of None \<Rightarrow> False
          | Some (ip', start', changed) \<Rightarrow> ip' = ip \<and> start' = start
              \<and> i = (case changed of None \<Rightarrow> snd (snd a) | Some j \<Rightarrow> Some j)))"

locale activation_stack =
  fixes acts :: "'s \<Rightarrow> ('ip, 'i) activation list"
    and enter :: "'ip option \<Rightarrow> 'ip \<Rightarrow> 'p \<Rightarrow> 'i option \<Rightarrow> 's \<Rightarrow> (trap_code, usize) res \<times> 's"
    and tail :: "'ip \<Rightarrow> 'i option \<Rightarrow> 's \<Rightarrow> (trap_code, usize) res \<times> 's"
    and leave :: "'s \<Rightarrow> (trap_code, ('ip \<times> usize \<times> 'i option) option) res \<times> 's"
  assumes enter_acts: "instance_of (acts s) \<noteq> None \<or> acts s = [] \<and> inst \<noteq> None \<Longrightarrow> enter caller ip p inst s = (Ok start, s') \<Longrightarrow>
      acts s' = (ip, start, callee_instance inst (acts s)) # resume_at caller (acts s)"
    and tail_acts: "acts s = (ip0, start, Some i) # as \<Longrightarrow>
      \<exists>s'. tail ip inst s = (Ok start, s') \<and> acts s' = (ip, start, callee_instance inst (acts s)) # as"
    and leave_acts: "acts s = a # as \<Longrightarrow>
      \<exists>r s'. leave s = (Ok r, s') \<and> acts s' = as \<and> returns_to a as r"
begin

definition tail_calls :: "('ip \<times> 'i option) list \<Rightarrow> 's \<Rightarrow> 's" where
  "tail_calls = fold (\<lambda>(ip, inst) s. snd (tail ip inst s))"

lemma tail_calls_acts:
  "acts s = (ip, start, Some i) # as \<Longrightarrow> \<exists>ip' i'. acts (tail_calls calls s) = (ip', start, Some i') # as"
proof (induction calls arbitrary: s ip i)
  case (Cons c calls)
  obtain ip' inst where c: "c = (ip', inst)" by (cases c)
  obtain s' where s': "tail ip' inst s = (Ok start, s')"
    "acts s' = (ip', start, callee_instance inst (acts s)) # as"
    using tail_acts [OF Cons.prems] by blast
  moreover obtain j where "callee_instance inst (acts s) = Some j"
    using Cons.prems by (cases inst) (simp_all add: callee_instance_def)
  ultimately show ?case using Cons.IH [of s' ip' j] by (simp add: c tail_calls_def)
qed (simp add: tail_calls_def)

lemma call_and_return:
  assumes caller: "acts s = (ip0, start0, Some i0) # as"
    and call: "enter (Some resume_ip) ip p inst s = (Ok start, s1)"
  shows "\<exists>changed s2. leave (tail_calls calls s1) = (Ok (Some (resume_ip, start0, changed)), s2)
    \<and> acts s2 = (resume_ip, start0, Some i0) # as
    \<and> Some i0 = (case changed of None \<Rightarrow> instance_of (acts (tail_calls calls s1)) | Some j \<Rightarrow> Some j)"
proof -
  have "acts s1 = (ip, start, callee_instance inst (acts s)) # (resume_ip, start0, Some i0) # as"
    using enter_acts [OF _ call] caller by simp
  moreover obtain j where "callee_instance inst (acts s) = Some j"
    using caller by (cases inst) (simp_all add: callee_instance_def)
  ultimately obtain ip' i' where top: "acts (tail_calls calls s1) = (ip', start, Some i') # (resume_ip, start0, Some i0) # as"
    using tail_calls_acts [of s1 ip start j _ calls] by auto
  from leave_acts [OF top] obtain r s2 where "leave (tail_calls calls s1) = (Ok r, s2)"
    "acts s2 = (resume_ip, start0, Some i0) # as"
    "returns_to (ip', start, Some i') ((resume_ip, start0, Some i0) # as) r" by blast
  then show ?thesis
    by (cases r) (auto simp: returns_to_def top split: option.splits)
qed

end

lemma cs_top_iff:
  "cs_top cs = Some f \<longleftrightarrow> (\<exists>fs. cs_frames cs = fs @ [f])"
  "cs_top cs = None \<longleftrightarrow> cs_frames cs = []"
  by (auto simp: cs_top_def) (metis append_butlast_last_id)

lemma activations_snoc:
  "cs_frames cs = fs @ [f] \<Longrightarrow> activations cs =
     (fr_ip f, fr_start f, cs_instance cs) #
     activations_from (case fr_instance f of None \<Rightarrow> cs_instance cs | Some i \<Rightarrow> Some i) (rev fs)"
  by (simp add: activations_def)

lemma activations_Nil_iff [simp]: "activations cs = [] \<longleftrightarrow> cs_frames cs = []"
  by (cases "cs_frames cs" rule: rev_cases) (simp_all add: activations_def)

lemma top_start_snoc [simp]: "cs_frames cs = fs @ [f] \<Longrightarrow> top_start cs = fr_start f"
  by (simp add: top_start_def cs_top_def)

lemma top_start_Nil [simp]: "cs_frames cs = [] \<Longrightarrow> top_start cs = 0"
  by (simp add: top_start_def cs_top_def)

text \<open>The state after the caller's instruction pointer is synchronized, if there is one.\<close>

lemma sync_caller:
  assumes "(case caller of None \<Rightarrow> Some cs | Some ip \<Rightarrow> cs_sync_ip ip cs) = Some cs1"
  shows "activations cs1 = resume_at caller (activations cs)" "cs_instance cs1 = cs_instance cs"
    "top_start cs1 = top_start cs" "length (cs_frames cs1) = length (cs_frames cs)"
    "map fr_start (cs_frames cs1) = map fr_start (cs_frames cs)" "cs_max_height cs1 = cs_max_height cs"
proof -
  have "activations cs1 = resume_at caller (activations cs) \<and> cs_instance cs1 = cs_instance cs
    \<and> top_start cs1 = top_start cs \<and> length (cs_frames cs1) = length (cs_frames cs)
    \<and> map fr_start (cs_frames cs1) = map fr_start (cs_frames cs) \<and> cs_max_height cs1 = cs_max_height cs"
  proof (cases caller)
    case (Some ip)
    then obtain fs f where fs: "cs_frames cs = fs @ [f]" and cs1: "cs1 = set_top (f\<lparr>fr_ip := ip\<rparr>) cs"
      using assms by (auto simp: cs_sync_ip_def cs_top_iff split: option.splits)
    have "cs_frames cs1 = fs @ [f\<lparr>fr_ip := ip\<rparr>]" by (simp add: cs1 set_top_def fs)
    then show ?thesis
      using fs Some by (simp add: activations_snoc cs1 set_top_def split: option.split)
  qed (use assms in simp)
  then show "activations cs1 = resume_at caller (activations cs)" "cs_instance cs1 = cs_instance cs"
    "top_start cs1 = top_start cs" "length (cs_frames cs1) = length (cs_frames cs)"
    "map fr_start (cs_frames cs1) = map fr_start (cs_frames cs)" "cs_max_height cs1 = cs_max_height cs"
    by blast+
qed

lemma instance_of_activations [simp]:
  "cs_frames cs \<noteq> [] \<Longrightarrow> instance_of (activations cs) = cs_instance cs"
  by (cases "cs_frames cs" rule: rev_cases) (simp_all add: activations_def)

lemma cs_push_Ok:
  assumes "cs_push R caller ip params inst cs = (Ok start, cs')"
  obtains cs1 where "(case caller of None \<Rightarrow> Some cs | Some ip \<Rightarrow> cs_sync_ip ip cs) = Some cs1"
    "length (cs_frames cs) \<noteq> unat (cs_max_height cs)"
    "unat start = unat (top_start cs) + unat (params_head R params)"
    "cs_instance cs' = (case inst of None \<Rightarrow> cs_instance cs | Some i \<Rightarrow> Some i)"
    "cs_frames cs' = cs_frames cs1 @ [\<lparr>fr_ip = ip, fr_start = start, fr_instance =
        (case inst of None \<Rightarrow> None | Some i \<Rightarrow> if cs_instance cs = Some i then None else cs_instance cs)\<rparr>]"
    "cs_max_height cs' = cs_max_height cs"
proof -
  obtain cs1 where cs1: "(case caller of None \<Rightarrow> Some cs | Some ip \<Rightarrow> cs_sync_ip ip cs) = Some cs1"
    "length (cs_frames cs) \<noteq> unat (cs_max_height cs)"
    using assms by (auto simp: cs_push_def split: if_splits option.splits)
  note sync = sync_caller [OF cs1(1)]
  define prev where "prev = (case inst of None \<Rightarrow> None
      | Some i \<Rightarrow> if cs_instance cs = Some i then None else cs_instance cs)"
  define cs2 where "cs2 = cs1\<lparr>cs_instance := (case inst of None \<Rightarrow> cs_instance cs | Some i \<Rightarrow> Some i)\<rparr>"
  have "(case inst of
        Some i \<Rightarrow> if cs_instance cs1 \<noteq> Some i then (cs_instance cs1, cs1\<lparr>cs_instance := Some i\<rparr>) else (None, cs1)
      | None \<Rightarrow> (None, cs1)) = (prev, cs2)"
    using sync(2) by (auto simp: prev_def cs2_def split: option.split)
  moreover have "top_start cs2 = top_start cs"
  proof -
    have "top_start cs2 = top_start cs1" by (simp add: cs2_def top_start_def cs_top_def)
    then show ?thesis using sync(3) by simp
  qed
  ultimately have "cs_push R caller ip params inst cs =
      (case sp_offset_add (top_start cs) (params_head R params) of
         Err e \<Rightarrow> (Err e, cs2) | Panic \<Rightarrow> (Panic, cs2)
       | Ok start \<Rightarrow> (Ok start, cs2\<lparr>cs_frames := cs_frames cs2 @
            [\<lparr>fr_ip = ip, fr_start = start, fr_instance = prev\<rparr>]\<rparr>))"
    using cs1 by (simp add: cs_push_def)
  then have "sp_offset_add (top_start cs) (params_head R params) = Ok start"
    and cs': "cs' = cs2\<lparr>cs_frames := cs_frames cs2 @ [\<lparr>fr_ip = ip, fr_start = start, fr_instance = prev\<rparr>]\<rparr>"
    using assms by (auto split: res.splits)
  then show thesis
    using sync(6) by (intro that [OF cs1]) (simp_all add: sp_offset_add_def rust_arith cs2_def prev_def)
qed

lemma cs_pop_single: "cs_frames cs = [f] \<Longrightarrow> cs_pop cs = (Ok None, cs\<lparr>cs_frames := []\<rparr>)"
  by (simp add: cs_pop_def cs_top_def)

lemma cs_pop_snoc:
  "cs_frames cs = (fs @ [g]) @ [f] \<Longrightarrow> cs_pop cs =
     (Ok (Some (fr_ip g, fr_start g, fr_instance f)),
      cs\<lparr>cs_frames := fs @ [g],
         cs_instance := (case fr_instance f of None \<Rightarrow> cs_instance cs | Some i \<Rightarrow> Some i)\<rparr>)"
  unfolding cs_pop_def cs_top_def by (simp add: butlast_append split: option.split)

interpretation call_stack: activation_stack activations
  "\<lambda>caller ip params inst. cs_push R caller ip params inst" cs_replace cs_pop
  for R :: "'w::len word slot_repr"
proof unfold_locales
  fix cs cs' :: "('ip, 'i) call_stack" and inst caller ip start and p :: "'w word bounded_slot_span"
  assume nonempty: "instance_of (activations cs) \<noteq> None \<or> activations cs = [] \<and> inst \<noteq> None"
    and push: "cs_push R caller ip p inst cs = (Ok start, cs')"
  from push obtain cs1 where cs1: "(case caller of None \<Rightarrow> Some cs | Some ip \<Rightarrow> cs_sync_ip ip cs) = Some cs1"
    "cs_instance cs' = (case inst of None \<Rightarrow> cs_instance cs | Some i \<Rightarrow> Some i)"
    "cs_frames cs' = cs_frames cs1 @ [\<lparr>fr_ip = ip, fr_start = start, fr_instance =
        (case inst of None \<Rightarrow> None | Some i \<Rightarrow> if cs_instance cs = Some i then None else cs_instance cs)\<rparr>]"
    by (rule cs_push_Ok)
  note sync = sync_caller [OF cs1(1)]
  have nonempty': "cs_frames cs \<noteq> [] \<and> cs_instance cs \<noteq> None \<or> cs_frames cs = [] \<and> inst \<noteq> None"
  proof (cases "cs_frames cs = []")
    case True
    with nonempty show ?thesis by (simp add: activations_def)
  next
    case False
    with nonempty show ?thesis by simp
  qed
  show "activations cs' = (ip, start, callee_instance inst (activations cs)) # resume_at caller (activations cs)"
    using nonempty' cs1(2) sync(1,2,4)
    by (cases "cs_frames cs1 = []")
      (auto simp: activations_snoc [OF cs1(3)] callee_instance_def activations_def [of cs1]
        split: option.splits if_splits)
next
  fix cs :: "('ip, 'i) call_stack" and ip0 start i as ip inst
  assume "activations cs = (ip0, start, Some i) # as"
  then obtain fs f where fs: "cs_frames cs = fs @ [f]"
    by (cases "cs_frames cs" rule: rev_cases) (simp_all add: activations_def)
  with \<open>activations cs = _\<close> show "\<exists>cs'. cs_replace ip inst cs = (Ok start, cs')
      \<and> activations cs' = (ip, start, callee_instance inst (activations cs)) # as"
    by (auto simp: activations_snoc cs_replace_def cs_top_def set_top_def callee_instance_def Let_def
        activations_def split: option.splits)
next
  fix cs :: "('ip, 'i) call_stack" and a as
  assume "activations cs = a # as"
  then obtain fs f where fs: "cs_frames cs = fs @ [f]"
    by (cases "cs_frames cs" rule: rev_cases) (simp_all add: activations_def)
  with \<open>activations cs = _\<close> show "\<exists>r cs'. cs_pop cs = (Ok r, cs') \<and> activations cs' = as \<and> returns_to a as r"
    by (cases fs rule: rev_cases)
      (auto simp: activations_snoc cs_pop_single cs_pop_snoc activations_def returns_to_def
        split: option.splits)
qed

text \<open>
  C18: a running function with instance \<open>i0\<close> calls another one, which makes any sequence of tail calls,
  across instances or not; when the last of them returns, the call stack is back at the caller: it
  resumes at the instruction pointer it synchronized, with its own start of cells and its own
  instance, and the returned instance is reported exactly if it differs from the one the callee ran in.
\<close>
theorem call_returns_to_caller:
  assumes caller: "activations cs = (ip0, start0, Some i0) # as"
    and call: "cs_push R (Some resume_ip) ip params inst cs = (Ok start, cs1)"
  shows "case cs_pop (fold (\<lambda>(ip, inst) cs. snd (cs_replace ip inst cs)) tail_calls cs1) of
      (Ok (Some (ip', start', changed)), cs2) \<Rightarrow> ip' = resume_ip \<and> start' = start0
        \<and> activations cs2 = (resume_ip, start0, Some i0) # as
        \<and> (case changed of
             None \<Rightarrow> instance_of (activations
               (fold (\<lambda>(ip, inst) cs. snd (cs_replace ip inst cs)) tail_calls cs1)) = Some i0
           | Some j \<Rightarrow> j = i0)
    | _ \<Rightarrow> False"
proof -
  define s where "s = fold (\<lambda>(ip, inst) cs. snd (cs_replace ip inst cs)) tail_calls cs1"
  obtain changed cs2 where "cs_pop s = (Ok (Some (resume_ip, start0, changed)), cs2)"
    "activations cs2 = (resume_ip, start0, Some i0) # as"
    "Some i0 = (case changed of None \<Rightarrow> instance_of (activations s) | Some j \<Rightarrow> Some j)"
    using call_stack.call_and_return [OF caller call, of tail_calls]
    unfolding call_stack.tail_calls_def s_def [symmetric] by blast
  then show ?thesis unfolding s_def [symmetric] by (simp split: option.splits)
qed

theorem call_returns_to_caller_witness:
  "let cs0 = call_stack_new 4 :: (nat, nat) call_stack;
       cs1 = snd (cs_push slot32 None 10 (bounded_span_new 0 0) (Some 1) cs0);
       cs2 = snd (cs_push slot32 (Some 11) 20 (bounded_span_new 16 0) None cs1) in
   case cs_pop (fold (\<lambda>(ip, inst) cs. snd (cs_replace ip inst cs)) [(30, Some 2), (40, Some 3)] cs2) of
      (Ok (Some (ip', start', changed)), cs3) \<Rightarrow> ip' = 11 \<and> start' = 0
        \<and> activations cs3 = [(11, 0, Some 1)] \<and> (case changed of None \<Rightarrow> False | Some j \<Rightarrow> j = 1)
    | _ \<Rightarrow> False"
proof -
  define cs1 where "cs1 = snd (cs_push slot32 None 10 (bounded_span_new 0 0) (Some 1)
      (call_stack_new 4 :: (nat, nat) call_stack))"
  define cs2 where "cs2 = snd (cs_push slot32 (Some 11) 20 (bounded_span_new 16 0) None cs1)"
  have cs1: "cs1 = \<lparr>cs_frames = [\<lparr>fr_ip = 10, fr_start = 0, fr_instance = None\<rparr>],
      cs_instance = Some 1, cs_max_height = 4\<rparr>"
    by (simp add: cs1_def cs_push_def call_stack_new_def sp_offset_add_def params_head_def
        bounded_span_new_def slot32_def CELL_BYTES_def top_start_def cs_top_def checked_add_def)
  then have acts1: "activations cs1 = [(10, 0, Some 1)]" by (simp add: activations_def)
  have cs2: "cs_push slot32 (Some 11) 20 (bounded_span_new 16 0) None cs1 =
      (Ok 2, \<lparr>cs_frames = [\<lparr>fr_ip = 11, fr_start = 0, fr_instance = None\<rparr>,
                           \<lparr>fr_ip = 20, fr_start = 2, fr_instance = None\<rparr>],
              cs_instance = Some 1, cs_max_height = 4\<rparr>)"
    by (simp add: cs1 cs_push_def sp_offset_add_def params_head_def bounded_span_new_def
        slot32_def CELL_BYTES_def top_start_def cs_top_def checked_add_def cs_sync_ip_def set_top_def)
  then have call: "cs_push slot32 (Some 11) 20 (bounded_span_new 16 0) None cs1 = (Ok 2, cs2)"
    by (simp add: cs2_def)
  have "instance_of (activations (fold (\<lambda>(ip, inst) cs. snd (cs_replace ip inst cs))
      [(30, Some 2), (40, Some 3)] cs2)) = Some 3"
    unfolding cs2_def cs2 by (simp add: cs_top_def set_top_def cs_replace_def activations_def Let_def)
  then show ?thesis
    unfolding Let_def cs1_def [symmetric] cs2_def [symmetric]
    using call_returns_to_caller [OF acts1 call, of "[(30, Some 2), (40, Some 3)]"]
    by (auto split: prod.splits res.splits option.splits)
qed

subsection \<open>The cells of a new frame\<close>

lemma sp_offset_add_eq:
  "sp_offset_add a b = (if unat a + unat b < 2 ^ 64 then Ok (a + b) else Err TrapStackOverflow)"
  by (simp add: sp_offset_add_def checked_add_def)

lemma unat_ucast_u16 [simp]: "unat (ucast (x :: u16) :: usize) = unat x"
  using unsigned_less [of x, where ?'a = nat] by (simp add: unsigned_ucast_eq take_bit_nat_eq_self)

text \<open>
  The cells \<open>new\<close> after a frame of \<open>slots\<close> cells has been set up at \<open>start\<close>: the locals behind the
  parameters are zero, and of the cells \<open>old\<close> only those of the locals have changed.
\<close>

definition frame_set_up :: "cell list \<Rightarrow> nat \<Rightarrow> nat \<Rightarrow> nat \<Rightarrow> nat \<Rightarrow> cell list \<Rightarrow> bool" where
  "frame_set_up old start params locals slots new \<longleftrightarrow> start + slots \<le> length new
     \<and> (\<forall>k < length old. k < start + params \<or> start + locals \<le> k \<longrightarrow> new ! k = old ! k)
     \<and> (\<forall>k. start + params \<le> k \<and> k < start + locals \<longrightarrow> new ! k = 0)"

lemma frame_set_up_fill:
  assumes "params \<le> locals" "locals \<le> slots" "start + slots \<le> length cells"
    and "take (length old) cells = old"
  shows "\<exists>new. fill_default cells (start + params) (start + locals) = Some new
    \<and> length new = length cells \<and> frame_set_up old start params locals slots new"
proof -
  have old: "cells ! k = old ! k" if "k < length old" for k
    using assms(4) that by (metis nth_take)
  have "length old \<le> length cells" using assms(4) by (metis length_take min.cobounded1)
  then show ?thesis
    using assms(1-3) old by (auto simp: fill_default_def frame_set_up_def nth_overwrite)
qed

lemma value_stack_push_outcome:
  fixes vs start l n p
  assumes wf: "value_stack_wf vs" and le: "p \<le> l" "l \<le> n"
  shows "case value_stack_push alloc stale vs start l n p of
     (Ok q, vs') \<Rightarrow> value_stack_wf vs' \<and> vs_max_height vs' = vs_max_height vs
       \<and> (if n = 0 then q = SpDangling \<and> vs' = vs
          else q = SpAt start \<and> frame_set_up (vs_cells vs) (unat start) (unat p) (unat l) (unat n) (vs_cells vs'))
   | (Err e, vs') \<Rightarrow> vs' = vs \<and> n \<noteq> 0
       \<and> (e = TrapStackOverflow \<and> unat (vs_max_height vs) < unat start + unat n
          \<or> e = TrapOutOfSystemMemory \<and> unat start + unat n \<le> unat (vs_max_height vs))
   | (Panic, _) \<Rightarrow> False"
proof (cases "n = 0 \<or> \<not> unat start + unat n < 2 ^ 64")
  case True
  then show ?thesis
    using wf unsigned_less [of "vs_max_height vs", where ?'a = nat]
    by (auto simp: value_stack_push_def sp_offset_add_eq)
next
  case False
  then have en: "unat (start + ucast n) = unat start + unat n" and add: "sp_offset_add start (ucast n) = Ok (start + ucast n)"
    by (simp_all add: unat_word_ariths sp_offset_add_eq)
  have le': "unat p \<le> unat l" "unat l \<le> unat n" using le by (simp_all add: word_le_nat_alt)
  have locals: "unat (start + ucast p) = unat start + unat p" "unat (start + ucast l) = unat start + unat l"
    using False le' by (simp_all add: unat_word_ariths)
  show ?thesis
  proof (rule grow_cases [OF wf, of "start + ucast n" alloc stale])
    fix cap vs'
    assume grown: "unat (start + ucast n) \<le> unat (vs_max_height vs)"
      "grow_if_needed alloc stale vs (start + ucast n) = (Ok (), vs')"
      "vs' = vs\<lparr>vs_cells := vs_cells vs @ map stale [length (vs_cells vs)..<max (unat (start + ucast n)) (length (vs_cells vs))],
          vs_capacity := cap\<rparr>"
      "value_stack_wf vs'" "unat (start + ucast n) \<le> length (vs_cells vs')"
    from frame_set_up_fill [OF le', of "unat start" "vs_cells vs'" "vs_cells vs"] grown en
    obtain new where new: "fill_default (vs_cells vs') (unat start + unat p) (unat start + unat l) = Some new"
      "length new = length (vs_cells vs')"
      "frame_set_up (vs_cells vs) (unat start) (unat p) (unat l) (unat n) new"
      by auto
    then have "value_stack_push alloc stale vs start l n p = (Ok (SpAt start), vs'\<lparr>vs_cells := new\<rparr>)"
      using False grown(2) by (simp add: value_stack_push_def add locals value_stack_sp_def)
    moreover have "vs_max_height vs' = vs_max_height vs" by (simp add: grown(3))
    ultimately show ?thesis
      using False new value_stack_wf_cells [OF grown(4) new(2)] by simp
  qed (use False en in \<open>simp_all add: value_stack_push_def add\<close>)
qed

lemma sorted_starts_snoc:
  assumes "sorted (map fr_start (cs_frames cs))" "top_start cs \<le> start"
  shows "sorted (map fr_start (cs_frames cs) @ [start])"
proof (cases "cs_frames cs" rule: rev_cases)
  case (snoc fs f)
  with assms show ?thesis by (fastforce simp: sorted_append)
qed simp

lemma cs_push_error:
  assumes "caller = None \<or> cs_frames cs \<noteq> []"
  shows "(\<exists>start cs'. cs_push R caller ip params inst cs = (Ok start, cs')) \<or>
    (\<exists>cs'. cs_push R caller ip params inst cs = (Err TrapStackOverflow, cs')
      \<and> (length (cs_frames cs) = unat (cs_max_height cs)
         \<or> 2 ^ 64 \<le> unat (top_start cs) + unat (params_head R params))
      \<and> map fr_start (cs_frames cs') = map fr_start (cs_frames cs) \<and> cs_max_height cs' = cs_max_height cs
      \<and> length (cs_frames cs') = length (cs_frames cs)
      \<and> (cs_instance cs' = cs_instance cs \<or> inst \<noteq> None \<and> cs_instance cs' = inst))"
proof -
  obtain cs1 where cs1: "(case caller of None \<Rightarrow> Some cs | Some ip \<Rightarrow> cs_sync_ip ip cs) = Some cs1"
    using assms by (cases caller) (auto simp: cs_sync_ip_def cs_top_def)
  note sync = sync_caller [OF cs1]
  have top_start_inst: "top_start (cs1\<lparr>cs_instance := i\<rparr>) = top_start cs" for i
  proof -
    have "top_start (cs1\<lparr>cs_instance := i\<rparr>) = top_start cs1" by (simp add: top_start_def cs_top_def)
    then show ?thesis using sync(3) by simp
  qed
  show ?thesis
    using sync(2-6) cs1 top_start_inst by (cases inst) (auto simp: cs_push_def sp_offset_add_eq)
qed

lemma cs_push_outcome:
  assumes wf: "call_stack_wf cs" and caller: "caller = None \<or> cs_frames cs \<noteq> []"
    and inst: "inst \<noteq> None \<or> cs_frames cs \<noteq> []"
  shows "case cs_push R caller ip params inst cs of
     (Ok start, cs') \<Rightarrow> call_stack_wf cs' \<and> length (cs_frames cs) < unat (cs_max_height cs)
       \<and> unat start = unat (top_start cs) + unat (params_head R params)
       \<and> activations cs' = (ip, start, callee_instance inst (activations cs)) # resume_at caller (activations cs)
   | (Err e, cs') \<Rightarrow> e = TrapStackOverflow \<and> call_stack_wf cs'
       \<and> (length (cs_frames cs) = unat (cs_max_height cs)
          \<or> 2 ^ 64 \<le> unat (top_start cs) + unat (params_head R params))
   | (Panic, _) \<Rightarrow> False"
proof (cases "\<exists>start cs'. cs_push R caller ip params inst cs = (Ok start, cs')")
  case True
  then obtain start cs' where push: "cs_push R caller ip params inst cs = (Ok start, cs')" by blast
  then obtain cs1 where cs1: "(case caller of None \<Rightarrow> Some cs | Some ip \<Rightarrow> cs_sync_ip ip cs) = Some cs1"
    and room: "length (cs_frames cs) \<noteq> unat (cs_max_height cs)"
    and start: "unat start = unat (top_start cs) + unat (params_head R params)"
    and cs': "cs_instance cs' = (case inst of None \<Rightarrow> cs_instance cs | Some i \<Rightarrow> Some i)"
      "\<exists>f. cs_frames cs' = cs_frames cs1 @ [f] \<and> fr_start f = start" "cs_max_height cs' = cs_max_height cs"
    by (rule cs_push_Ok) auto
  note sync = sync_caller [OF cs1]
  have "instance_of (activations cs) \<noteq> None \<or> activations cs = [] \<and> inst \<noteq> None"
    using wf inst by (cases "cs_frames cs = []") (simp_all add: call_stack_wf_def)
  from call_stack.enter_acts [OF this push]
  have "activations cs' = (ip, start, callee_instance inst (activations cs)) # resume_at caller (activations cs)" .
  moreover have "sorted (map fr_start (cs_frames cs) @ [start])"
    using wf start by (intro sorted_starts_snoc) (simp_all add: call_stack_wf_def word_le_nat_alt)
  moreover have "map fr_start (cs_frames cs') = map fr_start (cs_frames cs) @ [start]"
    using cs'(2) sync(5) by auto
  moreover have "length (cs_frames cs') = length (cs_frames cs) + 1" using cs'(2) sync(4) by auto
  moreover have "cs_instance cs' \<noteq> None"
    using cs'(1) inst wf by (auto simp: call_stack_wf_def split: option.splits)
  ultimately show ?thesis
    using wf room cs'(3) start by (simp add: push call_stack_wf_def)
next
  case False
  then show ?thesis
    using cs_push_error [OF caller, of R ip params inst] wf inst
    by (auto simp: call_stack_wf_def)
qed

text \<open>
  C17: a call in the Wasm stack. The frame starts at the caller's start plus the slot of the first
  parameter, so the callee sees its parameters in place. On success there is room for all cells of
  the frame, the locals behind the parameters are zero and no other cell that existed has changed,
  the callee is the new top-most activation and the caller resumes at its instruction pointer. The
  call traps with \<open>StackOverflow\<close> exactly if the recursion depth or the height limit is exceeded,
  otherwise it can only fail for lack of system memory; it never panics, and the stack invariant is
  kept in every case.
\<close>
theorem push_frame_effect:
  assumes wf: "exec_stack_wf st"
    and caller: "caller_ip = None \<or> cs_frames (st_frames st) \<noteq> []"
    and inst: "inst \<noteq> None \<or> cs_frames (st_frames st) \<noteq> []"
    and sizes: "bs_len params \<le> locals" "locals \<le> slots"
  shows "case push_frame R alloc stale caller_ip callee_ip params locals slots inst st of
     (Ok p, st') \<Rightarrow> exec_stack_wf st'
       \<and> (\<exists>start. unat start = unat (top_start (st_frames st)) + unat (params_head R params)
          \<and> p = (if slots = 0 then SpDangling else SpAt start)
          \<and> (slots = 0 \<or> frame_set_up (vs_cells (st_values st)) (unat start) (unat (bs_len params))
               (unat locals) (unat slots) (vs_cells (st_values st')))
          \<and> activations (st_frames st') = (callee_ip, start, callee_instance inst (activations (st_frames st)))
               # resume_at caller_ip (activations (st_frames st)))
   | (Err e, st') \<Rightarrow> exec_stack_wf st' \<and> vs_cells (st_values st') = vs_cells (st_values st)
       \<and> (e = TrapStackOverflow
            \<and> (length (cs_frames (st_frames st)) = unat (cs_max_height (st_frames st))
               \<or> unat (vs_max_height (st_values st))
                  < unat (top_start (st_frames st)) + unat (params_head R params) + unat slots)
          \<or> e = TrapOutOfSystemMemory)
   | (Panic, _) \<Rightarrow> False"
proof -
  have vwf: "value_stack_wf (st_values st)" and cwf: "call_stack_wf (st_frames st)"
    using wf by (simp_all add: exec_stack_wf_def)
  note frames = cs_push_outcome [OF cwf caller inst, where R = R and ip = callee_ip and params = params]
  show ?thesis
  proof (cases "cs_push R caller_ip callee_ip params inst (st_frames st)")
    case (Pair r cs)
    show ?thesis
    proof (cases r)
      case (Ok start)
      with Pair frames have cs: "call_stack_wf cs"
        "unat start = unat (top_start (st_frames st)) + unat (params_head R params)"
        "activations cs = (callee_ip, start, callee_instance inst (activations (st_frames st)))
           # resume_at caller_ip (activations (st_frames st))" by simp_all
      obtain q vs where q: "value_stack_push alloc stale (st_values st) start locals slots (bs_len params) = (q, vs)"
        by fastforce
      have eq: "push_frame R alloc stale caller_ip callee_ip params locals slots inst st
          = (q, st\<lparr>st_frames := cs, st_values := vs\<rparr>)"
        using Pair Ok by (simp add: push_frame_def q)
      show ?thesis
        using value_stack_push_outcome [OF vwf sizes, where alloc = alloc and stale = stale and start = start] cs
        unfolding q eq by (cases q) (auto simp: exec_stack_wf_def vwf split: if_splits)
    qed (use Pair frames vwf unsigned_less [of "vs_max_height (st_values st)", where ?'a = nat]
        in \<open>auto simp: push_frame_def exec_stack_wf_def\<close>)
  qed
qed

theorem push_frame_effect_witness:
  "exec_stack_wf (stack_new stack_config_default :: (nat, nat) exec_stack)
   \<and> (case push_frame slot32 (\<lambda>_. True) (\<lambda>_. 7) None 10 (bounded_span_new 0 0) 2 3 (Some 1)
          (stack_new stack_config_default :: (nat, nat) exec_stack) of
       (Ok p, st') \<Rightarrow> p = SpAt 0 \<and> vs_cells (st_values st') ! 1 = 0 | _ \<Rightarrow> False)"
proof -
  let ?st = "stack_new stack_config_default :: (nat, nat) exec_stack"
  have wf: "exec_stack_wf ?st"
    by (simp add: stack_new_def stack_config_default_def exec_stack_wf_def value_stack_wf_def
        value_stack_new_def call_stack_wf_def call_stack_new_def isize_max_def unat_div)
  have "fst (push_frame slot32 (\<lambda>_. True) (\<lambda>_. 7) None 10 (bounded_span_new 0 0) 2 3 (Some 1) ?st) = Ok (SpAt 0)"
    by (simp add: stack_new_def stack_config_default_def value_stack_new_def call_stack_new_def
        push_frame_def cs_push_def sp_offset_add_eq top_start_def cs_top_def params_head_def
        bounded_span_new_def slot32_def CELL_BYTES_def value_stack_push_def grow_if_needed_def
        unat_div fill_default_def value_stack_sp_def Let_def)
  then show ?thesis
    using wf push_frame_effect [OF wf, where caller_ip = None and inst = "Some 1" and params = "bounded_span_new 0 0"
        and locals = 2 and slots = 3 and R = slot32 and alloc = "\<lambda>_. True" and stale = "\<lambda>_. 7" and callee_ip = 10]
    by (auto simp: frame_set_up_def bounded_span_new_def params_head_def slot32_def CELL_BYTES_def
        stack_new_def call_stack_new_def top_start_def cs_top_def unat_eq_0
        split: prod.splits res.splits)
qed

subsection \<open>Tail calls\<close>

text \<open>
  The cells \<open>new\<close> after a frame at \<open>start\<close> has been replaced: the parameters, found at offset \<open>head\<close>
  of the old frame, are at its start, the other locals are zero, and no cell below the frame and
  no cell behind its locals has changed.
\<close>

definition frame_replaced :: "cell list \<Rightarrow> nat \<Rightarrow> nat \<Rightarrow> nat \<Rightarrow> nat \<Rightarrow> nat \<Rightarrow> cell list \<Rightarrow> bool" where
  "frame_replaced old start head params locals slots new \<longleftrightarrow> start + slots \<le> length new
     \<and> (\<forall>k < params. new ! (start + k) = old ! (start + head + k))
     \<and> (\<forall>k. params \<le> k \<and> k < locals \<longrightarrow> new ! (start + k) = 0)
     \<and> (\<forall>k < length old. k < start \<or> start + locals \<le> k \<longrightarrow> new ! k = old ! k)"

lemma frame_replaced_copy_fill:
  assumes "params \<le> locals" "locals \<le> slots" "start + slots \<le> length cells"
    and "start + head + params \<le> length old" "take (length old) cells = old"
  shows "\<exists>moved new. copy_within (drop start cells) head (head + params) 0 = Some moved
    \<and> fill_default moved params locals = Some new \<and> length new = length cells - start
    \<and> frame_replaced old start head params locals slots (take start cells @ new)"
proof -
  have old: "cells ! k = old ! k" if "k < length old" for k
    using assms(5) that by (metis nth_take)
  have len: "length old \<le> length cells" using assms(5) by (metis length_take min.cobounded1)
  define moved where "moved = overwrite (drop start cells) 0 (take params (drop head (drop start cells)))"
  have moved: "copy_within (drop start cells) head (head + params) 0 = Some moved"
    using assms(4) len by (simp add: copy_within_def moved_def drop_take)
  have params_len: "length (take params (drop head (drop start cells))) = params"
    using assms(4) len by simp
  have len_moved: "length moved = length cells - start"
    using params_len assms(3,4) len unfolding moved_def by (subst length_overwrite) auto
  have nth_moved: "moved ! k = (if k < params then cells ! (start + head + k) else cells ! (start + k))"
    if "start + k < length cells" for k
    using that params_len assms(3,4) len
    unfolding moved_def by (subst nth_overwrite) (auto simp: ac_simps)
  define new where "new = overwrite moved params (replicate (locals - params) 0)"
  have new: "fill_default moved params locals = Some new"
    using assms(1-3) len_moved by (simp add: fill_default_def new_def)
  have len_new: "length new = length cells - start" using length_fill_default [OF new] len_moved by simp
  have nth_new: "new ! k = (if params \<le> k \<and> k < locals then 0 else moved ! k)" if "start + k < length cells" for k
    using that assms(1-3) len_moved unfolding new_def by (subst nth_overwrite) auto
  have "(take start cells @ new) ! k = (if k < start then cells ! k else new ! (k - start))"
    if "k < length cells" for k
    using that assms(3) by (simp add: nth_append)
  then have "frame_replaced old start head params locals slots (take start cells @ new)"
    using assms(1-4) len old nth_new nth_moved
    by (auto simp: frame_replaced_def len_new)
  with moved new len_new show ?thesis by blast
qed

lemma value_stack_replace_outcome:
  fixes vs start l n and params :: "'w::len word bounded_slot_span"
  assumes wf: "value_stack_wf vs" and le: "bs_len params \<le> l" "l \<le> n"
    and fits: "unat start + unat (params_head R params) + unat (bs_len params) \<le> length (vs_cells vs)"
  shows "case value_stack_replace R alloc stale vs start l n params of
     (Ok q, vs') \<Rightarrow> value_stack_wf vs' \<and> vs_max_height vs' = vs_max_height vs
       \<and> (if n = 0 then q = SpDangling \<and> vs' = vs
          else q = SpAt start \<and> frame_replaced (vs_cells vs) (unat start) (unat (params_head R params))
            (unat (bs_len params)) (unat l) (unat n) (vs_cells vs'))
   | (Err e, vs') \<Rightarrow> vs' = vs \<and> n \<noteq> 0
       \<and> (e = TrapStackOverflow \<and> unat (vs_max_height vs) < unat start + unat n
          \<or> e = TrapOutOfSystemMemory \<and> unat start + unat n \<le> unat (vs_max_height vs))
   | (Panic, _) \<Rightarrow> False"
proof (cases "n = 0 \<or> \<not> unat start + unat n < 2 ^ 64")
  case True
  then show ?thesis
    using wf unsigned_less [of "vs_max_height vs", where ?'a = nat]
    by (auto simp: value_stack_replace_def sp_offset_add_eq Let_def)
next
  case False
  let ?h = "unat (params_head R params)" and ?p = "unat (bs_len params)"
  have en: "unat (start + ucast n) = unat start + unat n"
    and add: "sp_offset_add start (ucast n) = Ok (start + ucast n)"
    using False by (simp_all add: unat_word_ariths sp_offset_add_eq)
  have le': "?p \<le> unat l" "unat l \<le> unat n" using le by (simp_all add: word_le_nat_alt)
  have "?h < 2 ^ 16" using unsigned_less [of "u16_from_slot R (bs_span params)", where ?'a = nat]
    by (simp add: params_head_def)
  moreover have "?p < 2 ^ 16" using unsigned_less [of "bs_len params", where ?'a = nat] by simp
  ultimately have p_end: "unat (params_head R params + ucast (bs_len params)) = ?h + ?p"
    by (simp add: unat_word_ariths)
  show ?thesis
  proof (rule grow_cases [OF wf, of "start + ucast n" alloc stale])
    fix cap vs'
    assume grown: "unat (start + ucast n) \<le> unat (vs_max_height vs)"
      "grow_if_needed alloc stale vs (start + ucast n) = (Ok (), vs')"
      "vs' = vs\<lparr>vs_cells := vs_cells vs @ map stale [length (vs_cells vs)..<max (unat (start + ucast n)) (length (vs_cells vs))],
          vs_capacity := cap\<rparr>"
      "value_stack_wf vs'" "unat (start + ucast n) \<le> length (vs_cells vs')"
    from frame_replaced_copy_fill [OF le' _ fits, of "vs_cells vs'"] grown en
    obtain moved new where new: "copy_within (drop (unat start) (vs_cells vs')) ?h (?h + ?p) 0 = Some moved"
      "fill_default moved ?p (unat l) = Some new" "length new = length (vs_cells vs') - unat start"
      "frame_replaced (vs_cells vs) (unat start) ?h ?p (unat l) (unat n) (take (unat start) (vs_cells vs') @ new)"
      by auto
    have "cells_from vs' start = Some (drop (unat start) (vs_cells vs'))"
      using grown(5) en by (simp add: cells_from_def slice_from_def)
    then have "value_stack_replace R alloc stale vs start l n params
        = (Ok (SpAt start), vs'\<lparr>vs_cells := take (unat start) (vs_cells vs') @ new\<rparr>)"
      using False grown(2) new(1,2)
      by (simp add: value_stack_replace_def add p_end value_stack_sp_def Let_def)
    moreover have "value_stack_wf (vs'\<lparr>vs_cells := take (unat start) (vs_cells vs') @ new\<rparr>)"
      using grown(5) en new(3) by (intro value_stack_wf_cells [OF grown(4)]) simp
    moreover have "vs_max_height vs' = vs_max_height vs" by (simp add: grown(3))
    ultimately show ?thesis using False new(4) by simp
  qed (use False en in \<open>simp_all add: value_stack_replace_def add Let_def\<close>)
qed

lemma cs_replace_outcome:
  assumes wf: "call_stack_wf cs" and top_frame: "cs_frames cs \<noteq> []"
  shows "\<exists>cs'. cs_replace ip inst cs = (Ok (top_start cs), cs') \<and> call_stack_wf cs'
    \<and> activations cs' = (ip, top_start cs, callee_instance inst (activations cs)) # tl (activations cs)"
proof -
  obtain fs f where fs: "cs_frames cs = fs @ [f]" using top_frame by (metis rev_exhaust)
  obtain i where i: "cs_instance cs = Some i" using wf top_frame by (auto simp: call_stack_wf_def)
  have acts: "activations cs = (fr_ip f, top_start cs, Some i) # tl (activations cs)"
    by (simp add: activations_snoc [OF fs] i fs)
  obtain cs' where cs': "cs_replace ip inst cs = (Ok (top_start cs), cs')"
    "activations cs' = (ip, top_start cs, callee_instance inst (activations cs)) # tl (activations cs)"
    using call_stack.tail_acts [OF acts] by blast
  have "call_stack_wf cs'"
    using wf fs cs'(1)
    by (auto simp: call_stack_wf_def cs_replace_def cs_top_def set_top_def Let_def split: option.splits if_splits)
  with cs' show ?thesis by blast
qed

text \<open>
  C20: a tail call. The callee replaces the top-most activation and nothing below it; its frame
  starts where the replaced one did, with the parameters moved to its start, the other locals zero,
  and every cell below the frame unchanged. If the callee runs in another instance the caller's
  caller still gets its own instance back. The only traps are exceeding the height limit and lack of
  system memory, and then the cells are as they were.
\<close>
theorem replace_frame_effect:
  assumes wf: "exec_stack_wf st" and top_frame: "cs_frames (st_frames st) \<noteq> []"
    and sizes: "bs_len params \<le> locals" "locals \<le> slots"
    and fits: "unat (top_start (st_frames st)) + unat (params_head R params) + unat (bs_len params)
      \<le> length (vs_cells (st_values st))"
  shows "case replace_frame R alloc stale callee_ip params locals slots inst st of
     (Ok p, st') \<Rightarrow> exec_stack_wf st'
       \<and> p = (if slots = 0 then SpDangling else SpAt (top_start (st_frames st)))
       \<and> (slots = 0 \<or> frame_replaced (vs_cells (st_values st)) (unat (top_start (st_frames st)))
            (unat (params_head R params)) (unat (bs_len params)) (unat locals) (unat slots)
            (vs_cells (st_values st')))
       \<and> activations (st_frames st') = (callee_ip, top_start (st_frames st),
            callee_instance inst (activations (st_frames st))) # tl (activations (st_frames st))
   | (Err e, st') \<Rightarrow> exec_stack_wf st' \<and> vs_cells (st_values st') = vs_cells (st_values st)
       \<and> (e = TrapStackOverflow
            \<and> unat (vs_max_height (st_values st)) < unat (top_start (st_frames st)) + unat slots
          \<or> e = TrapOutOfSystemMemory)
   | (Panic, _) \<Rightarrow> False"
proof -
  have vwf: "value_stack_wf (st_values st)" and cwf: "call_stack_wf (st_frames st)"
    using wf by (simp_all add: exec_stack_wf_def)
  obtain cs where cs: "cs_replace callee_ip inst (st_frames st) = (Ok (top_start (st_frames st)), cs)"
    "call_stack_wf cs" "activations cs = (callee_ip, top_start (st_frames st),
        callee_instance inst (activations (st_frames st))) # tl (activations (st_frames st))"
    using cs_replace_outcome [OF cwf top_frame] by blast
  obtain q vs where q: "value_stack_replace R alloc stale (st_values st) (top_start (st_frames st))
      locals slots params = (q, vs)" by fastforce
  have eq: "replace_frame R alloc stale callee_ip params locals slots inst st
      = (q, st\<lparr>st_frames := cs, st_values := vs\<rparr>)"
    by (simp add: replace_frame_def cs(1) q)
  show ?thesis
    using value_stack_replace_outcome [OF vwf sizes fits, where alloc = alloc and stale = stale] cs(2,3)
    unfolding q eq by (cases q) (auto simp: exec_stack_wf_def vwf split: if_splits)
qed

theorem replace_frame_effect_witness:
  "let st = \<lparr>st_values = \<lparr>vs_cells = [1, 2, 3, 4], vs_capacity = 8, vs_max_height = 100\<rparr>,
        st_frames = \<lparr>cs_frames = [\<lparr>fr_ip = 5, fr_start = 1, fr_instance = None\<rparr>],
          cs_instance = Some 1, cs_max_height = 3\<rparr>,
        st_ireg = 0, st_freg32 = 0, st_freg64 = 0\<rparr> :: (nat, nat) exec_stack in
   case replace_frame slot32 (\<lambda>_. True) (\<lambda>_. 7) 10 (bounded_span_new 16 1) 2 3 (Some 2) st of
     (Ok p, st') \<Rightarrow> p = SpAt 1 \<and> vs_cells (st_values st') ! 1 = 4 \<and> vs_cells (st_values st') ! 2 = 0
   | _ \<Rightarrow> False"
proof -
  define st :: "(nat, nat) exec_stack" where "st = \<lparr>st_values = \<lparr>vs_cells = [1, 2, 3, 4], vs_capacity = 8, vs_max_height = 100\<rparr>,
        st_frames = \<lparr>cs_frames = [\<lparr>fr_ip = 5, fr_start = 1, fr_instance = None\<rparr>],
          cs_instance = Some 1, cs_max_height = 3\<rparr>,
        st_ireg = 0, st_freg32 = 0, st_freg64 = 0\<rparr>"
  have wf: "exec_stack_wf st"
    by (simp add: st_def exec_stack_wf_def value_stack_wf_def call_stack_wf_def isize_max_def)
  have "fst (replace_frame slot32 (\<lambda>_. True) (\<lambda>_. 7) 10 (bounded_span_new 16 1) 2 3 (Some 2) st) = Ok (SpAt 1)"
    by (simp add: st_def replace_frame_def cs_replace_def cs_top_def set_top_def value_stack_replace_def
        params_head_def bounded_span_new_def slot32_def CELL_BYTES_def sp_offset_add_eq grow_if_needed_def
        cells_from_def slice_from_def copy_within_def fill_default_def overwrite_def value_stack_sp_def Let_def)
  then obtain st' where eq: "replace_frame slot32 (\<lambda>_. True) (\<lambda>_. 7) 10 (bounded_span_new 16 1) 2 3 (Some 2) st
      = (Ok (SpAt 1), st')" by (metis prod.collapse)
  have "frame_replaced [1, 2, 3, 4] 1 2 1 2 3 (vs_cells (st_values st'))"
    using replace_frame_effect [OF wf, where params = "bounded_span_new 16 1" and locals = 2 and slots = 3
        and R = slot32 and alloc = "\<lambda>_. True" and stale = "\<lambda>_. 7" and callee_ip = 10 and inst = "Some 2"]
    unfolding eq
    by (simp add: bounded_span_new_def params_head_def slot32_def CELL_BYTES_def st_def top_start_def cs_top_def)
  then have moved: "\<forall>k < 1. vs_cells (st_values st') ! (1 + k) = [1, 2, 3, 4] ! (1 + 2 + k)"
    and zero: "\<forall>k. 1 \<le> k \<and> k < 2 \<longrightarrow> vs_cells (st_values st') ! (1 + k) = 0"
    unfolding frame_replaced_def by blast+
  have "vs_cells (st_values st') ! 1 = 4" using moved [rule_format, of 0] by simp
  moreover have "vs_cells (st_values st') ! 2 = 0" using zero [rule_format, of 1] by (simp add: numeral_2_eq_2)
  ultimately show ?thesis unfolding Let_def st_def [symmetric] eq by simp
qed

subsection \<open>Host calls\<close>

lemma unat_max: "unat (max a b) = max (unat a) (unat b)"
  by (simp add: max_def word_le_nat_alt)

text \<open>The part of the cells that a host function sees, after the stack has grown to hold it.\<close>

lemma inout_of_grown:
  assumes "unat (start + n) = unat start + unat n" "unat start + unat n \<le> length (vs_cells vs)"
    and "n = max p r"
  shows "\<exists>io. cells_from_to vs start (start + n) = Some (io_cells io)
    \<and> inout_new start (io_cells io) p r = Ok io \<and> io_start io = start \<and> io_len_params io = p
    \<and> io_len_results io = r \<and> io_cells io = take (unat n) (drop (unat start) (vs_cells vs))"
proof -
  let ?io = "\<lparr>io_start = start, io_cells = take (unat n) (drop (unat start) (vs_cells vs)),
      io_len_params = p, io_len_results = r\<rparr>"
  have "length (io_cells ?io) = unat n" using assms(2) by simp
  with assms show ?thesis
    by (intro exI [of _ ?io])
      (simp add: cells_from_to_def slice_range_add inout_new_def unat_max Let_def)
qed

lemma prepare_host_frame_outcome:
  fixes vs caller_start R and params :: "'w::len word bounded_slot_span" and r :: u16
  assumes wf: "value_stack_wf vs"
  defines "n \<equiv> max (unat (bs_len params)) (unat r)"
    and "s \<equiv> unat caller_start + unat (params_head R params)"
  shows "case value_stack_prepare_host_frame R alloc stale vs caller_start params r of
     (Ok (q, io), vs') \<Rightarrow> value_stack_wf vs' \<and> q = SpAt caller_start
       \<and> take (length (vs_cells vs)) (vs_cells vs') = vs_cells vs \<and> s + n \<le> length (vs_cells vs')
       \<and> unat (io_start io) = s \<and> io_cells io = take n (drop s (vs_cells vs'))
       \<and> unat (io_len_params io) = unat (bs_len params) \<and> unat (io_len_results io) = unat r
   | (Err e, vs') \<Rightarrow> vs' = vs
       \<and> (e = TrapStackOverflow \<and> unat (vs_max_height vs) < s + n
          \<or> e = TrapOutOfSystemMemory \<and> s + n \<le> unat (vs_max_height vs))
   | (Panic, _) \<Rightarrow> False"
proof -
  define size_w where "size_w = (max (ucast (bs_len params)) (ucast r) :: usize)"
  have n: "unat size_w = n" by (simp add: size_w_def n_def unat_max)
  have bound: "unat (vs_max_height vs) < 2 ^ 64"
    using unsigned_less [of "vs_max_height vs", where ?'a = nat] by simp
  show ?thesis
  proof (cases "s + n < 2 ^ 64")
    case False
    have "s < 2 ^ 64 \<Longrightarrow> unat (caller_start + params_head R params) = s"
      by (simp add: s_def unat_word_ariths)
    with False n bound show ?thesis
      by (auto simp: value_stack_prepare_host_frame_def sp_offset_add_eq s_def Let_def
          simp flip: size_w_def)
  next
    case True
    define start where "start = caller_start + params_head R params"
    have start: "unat start = s" "sp_offset_add caller_start (params_head R params) = Ok start"
      using True by (simp_all add: start_def s_def unat_word_ariths sp_offset_add_eq)
    have en: "unat (start + size_w) = unat start + unat size_w" "sp_offset_add start size_w = Ok (start + size_w)"
      using True start n by (simp_all add: unat_word_ariths sp_offset_add_eq)
    show ?thesis
    proof (rule grow_cases [OF wf, of "start + size_w" alloc stale])
      fix cap vs'
      assume grown: "grow_if_needed alloc stale vs (start + size_w) = (Ok (), vs')"
        "vs' = vs\<lparr>vs_cells := vs_cells vs @ map stale [length (vs_cells vs)..<max (unat (start + size_w)) (length (vs_cells vs))],
            vs_capacity := cap\<rparr>"
        "value_stack_wf vs'" "unat (start + size_w) \<le> length (vs_cells vs')"
      obtain io where io: "cells_from_to vs' start (start + size_w) = Some (io_cells io)"
        "inout_new start (io_cells io) (ucast (bs_len params)) (ucast r) = Ok io" "io_start io = start"
        "io_len_params io = ucast (bs_len params)" "io_len_results io = ucast r"
        "io_cells io = take (unat size_w) (drop (unat start) (vs_cells vs'))"
        using inout_of_grown [OF en(1), of vs'] grown(4) en(1) size_w_def by metis
      have "value_stack_prepare_host_frame R alloc stale vs caller_start params r
          = (Ok (SpAt caller_start, io), vs')"
        by (simp add: value_stack_prepare_host_frame_def start en grown(1) io(1,2) value_stack_sp_def Let_def
            flip: size_w_def)
      then show ?thesis
        using grown(2-4) en(1) start(1) n io by simp
    qed (use en start n in \<open>simp_all add: value_stack_prepare_host_frame_def Let_def flip: size_w_def\<close>)
  qed
qed

lemma return_prepare_host_frame_outcome:
  fixes vs caller start R and params :: "'w::len word bounded_slot_span" and r :: u16
  assumes wf: "value_stack_wf vs"
    and fits: "unat start + unat (params_head R params) + unat (bs_len params) \<le> length (vs_cells vs)"
  defines "n \<equiv> max (unat (bs_len params)) (unat r)"
    and "caller_start \<equiv> (case caller of Some (_, cst, _) \<Rightarrow> cst | None \<Rightarrow> 0)"
  shows "case value_stack_return_prepare_host_frame R alloc stale vs caller start params r of
     (Ok (control, io), vs') \<Rightarrow> value_stack_wf vs'
       \<and> (if n = 0 then vs' = vs \<and> io_cells io = []
            \<and> control = return_control caller
                 (if caller \<noteq> None \<and> caller_start \<noteq> start then SpAt caller_start else SpDangling)
          else control = return_control caller (SpAt caller_start) \<and> io_start io = start
            \<and> unat start + n \<le> length (vs_cells vs') \<and> io_cells io = take n (drop (unat start) (vs_cells vs'))
            \<and> take (unat (bs_len params)) (io_cells io)
                = take (unat (bs_len params)) (drop (unat start + unat (params_head R params)) (vs_cells vs))
            \<and> take (unat start) (vs_cells vs') = take (unat start) (vs_cells vs))
   | (Err e, vs') \<Rightarrow> value_stack_wf vs' \<and> n \<noteq> 0
       \<and> (e = TrapStackOverflow \<and> unat (vs_max_height vs) < unat start + n \<or> e = TrapOutOfSystemMemory)
   | (Panic, _) \<Rightarrow> False"
proof -
  let ?h = "params_head R params" and ?p = "unat (bs_len params)"
  define size_w where "size_w = (max (ucast (bs_len params)) (ucast r) :: usize)"
  have n: "unat size_w = n" by (simp add: size_w_def n_def unat_max)
  then have zero: "size_w = 0 \<longleftrightarrow> n = 0" by (simp add: unat_eq_0 [symmetric])
  have bound: "unat (vs_max_height vs) < 2 ^ 64"
    using unsigned_less [of "vs_max_height vs", where ?'a = nat] by simp
  have in_range: "unat start + unat ?h + ?p < 2 ^ 64" using fits wf bound by (simp add: value_stack_wf_def)
  show ?thesis
  proof (cases "n = 0")
    case True
    with zero wf show ?thesis
      by (cases caller) (auto simp: value_stack_return_prepare_host_frame_def caller_start_def Let_def
          value_stack_sp_def simp flip: size_w_def)
  next
    case False
    define ps where "ps = start + ?h"
    have ps: "unat ps = unat start + unat ?h" "sp_offset_add start ?h = Ok ps"
      using in_range by (simp_all add: ps_def unat_word_ariths sp_offset_add_eq)
    have pe: "unat (ps + ucast (bs_len params)) = unat ps + ?p"
      "sp_offset_add ps (ucast (bs_len params)) = Ok (ps + ucast (bs_len params))"
      using in_range ps(1) by (simp_all add: unat_word_ariths sp_offset_add_eq)
    define moved where "moved = take ?p (drop (unat ps) (vs_cells vs))"
    define vs1 where "vs1 = vs\<lparr>vs_cells := overwrite (vs_cells vs) (unat start) moved\<rparr>"
    have len: "length moved = ?p" "unat start + ?p \<le> length (vs_cells vs)"
      using fits ps(1) by (simp_all add: moved_def)
    have copied: "cells_copy_within vs ps (ps + ucast (bs_len params)) start = Some vs1"
      using fits ps(1) pe(1) by (simp add: cells_copy_within_def copy_within_def vs1_def moved_def drop_take)
    have wf1: "value_stack_wf vs1" using wf len by (auto simp: vs1_def intro!: value_stack_wf_cells)
    have step: "value_stack_return_prepare_host_frame R alloc stale vs caller start params r =
       (case sp_offset_add start size_w of
          Err e \<Rightarrow> (Err e, vs1) | Panic \<Rightarrow> (Panic, vs1)
        | Ok callee_end \<Rightarrow>
            (case grow_if_needed alloc stale vs1 callee_end of
               (Err e, vs2) \<Rightarrow> (Err e, vs2) | (Panic, vs2) \<Rightarrow> (Panic, vs2)
             | (Ok _, vs2) \<Rightarrow>
                 (case cells_from_to vs2 start callee_end of
                    None \<Rightarrow> (Panic, vs2)
                  | Some cells \<Rightarrow>
                      (case inout_new start cells (ucast (bs_len params)) (ucast r) of
                         Ok io \<Rightarrow> (Ok (return_control caller (SpAt caller_start), io), vs2)
                       | _ \<Rightarrow> (Panic, vs2)))))"
      using False zero unfolding value_stack_return_prepare_host_frame_def caller_start_def value_stack_sp_def
      by (simp add: ps pe copied Let_def flip: size_w_def)
    show ?thesis
    proof (cases "unat start + n < 2 ^ 64")
      case False
      then show ?thesis
        using wf1 n bound \<open>n \<noteq> 0\<close> by (simp add: step sp_offset_add_eq)
    next
      case True
      then have en: "unat (start + size_w) = unat start + unat size_w" "sp_offset_add start size_w = Ok (start + size_w)"
        using n by (simp_all add: unat_word_ariths sp_offset_add_eq)
      show ?thesis
      proof (rule grow_cases [OF wf1, of "start + size_w" alloc stale])
        fix cap vs2
        assume grown: "grow_if_needed alloc stale vs1 (start + size_w) = (Ok (), vs2)"
          "vs2 = vs1\<lparr>vs_cells := vs_cells vs1 @ map stale [length (vs_cells vs1)..<max (unat (start + size_w)) (length (vs_cells vs1))],
              vs_capacity := cap\<rparr>"
          "value_stack_wf vs2" "unat (start + size_w) \<le> length (vs_cells vs2)"
        obtain io where io: "cells_from_to vs2 start (start + size_w) = Some (io_cells io)"
          "inout_new start (io_cells io) (ucast (bs_len params)) (ucast r) = Ok io" "io_start io = start"
          "io_cells io = take (unat size_w) (drop (unat start) (vs_cells vs2))"
          using inout_of_grown [OF en(1), of vs2] grown(4) en(1) size_w_def by metis
        have "value_stack_return_prepare_host_frame R alloc stale vs caller start params r
            = (Ok (return_control caller (SpAt caller_start), io), vs2)"
          by (simp add: step en grown(1) io(1,2))
        moreover obtain rest where "vs_cells vs2 = take (unat start) (vs_cells vs) @ moved @ rest"
          by (simp add: grown(2) vs1_def overwrite_def)
        then have "take (unat start) (vs_cells vs2) = take (unat start) (vs_cells vs)"
          "take ?p (drop (unat start) (vs_cells vs2)) = moved"
          using len by simp_all
        moreover have "take ?p (take n xs) = take ?p xs" for xs :: "cell list"
          by (simp add: n_def take_take min_def)
        ultimately show ?thesis
          using grown(3,4) en(1) n io(3,4) \<open>n \<noteq> 0\<close> by (simp add: ps(1) moved_def)
      qed (use en n \<open>n \<noteq> 0\<close> in \<open>simp_all add: step vs1_def wf1 [unfolded vs1_def]\<close>)
    qed
  qed
qed

lemma call_stack_wf_pop:
  assumes wf: "call_stack_wf cs" and pop: "cs_pop cs = (Ok r, cs')"
  shows "call_stack_wf cs'"
proof -
  obtain fs f where fs: "cs_frames cs = fs @ [f]"
    using pop by (cases "cs_frames cs" rule: rev_cases) (auto simp: cs_pop_def cs_top_def)
  show ?thesis
  proof (cases fs rule: rev_cases)
    case Nil
    with fs pop have "cs' = cs\<lparr>cs_frames := []\<rparr>" by (simp add: cs_pop_single)
    then show ?thesis by (simp add: call_stack_wf_def)
  next
    case (snoc gs g)
    with fs have frames: "cs_frames cs = (gs @ [g]) @ [f]" by simp
    show ?thesis
      using wf pop unfolding cs_pop_snoc [OF frames]
      by (auto simp: call_stack_wf_def frames sorted_append split: option.splits)
  qed
qed

lemma cs_return_prepare_outcome:
  assumes wf: "call_stack_wf cs" and acts: "activations cs = (ip0, start, Some i) # as"
  shows "\<exists>cs'. cs_return_prepare_host_frame i cs
      = (Ok (start, (case as of [] \<Rightarrow> None | (ip, cst, j) # _ \<Rightarrow> Some (ip, cst, the j))), cs')
    \<and> call_stack_wf cs' \<and> activations cs' = as"
proof -
  obtain r cs' where pop: "cs_pop cs = (Ok r, cs')" "activations cs' = as" "returns_to (ip0, start, Some i) as r"
    using call_stack.leave_acts [OF acts] by blast
  have "top_start cs = start"
    using acts by (cases "cs_frames cs" rule: rev_cases) (auto simp: activations_def)
  then have "cs_return_prepare_host_frame i cs
      = (Ok (start, (case as of [] \<Rightarrow> None | (ip, cst, j) # _ \<Rightarrow> Some (ip, cst, the j))), cs')"
    using pop(1,3)
    by (auto simp: cs_return_prepare_host_frame_def returns_to_def split: list.splits option.splits)
  with pop(2) call_stack_wf_pop [OF wf pop(1)] show ?thesis by blast
qed

lemma return_prepare_host_frame_law:
  fixes params :: "'w::len word bounded_slot_span" and r :: u16
  assumes wf: "exec_stack_wf st" and acts: "activations (st_frames st) = (ip0, start, Some i) # as"
    and fits: "unat start + unat (params_head R params) + unat (bs_len params) \<le> length (vs_cells (st_values st))"
    and n: "n = max (unat (bs_len params)) (unat r)"
    and caller: "caller = (case as of [] \<Rightarrow> None | (ip, cst, j) # _ \<Rightarrow> Some (ip, cst, the j))"
  shows "case return_prepare_host_frame R alloc stale params r i st of
     (Ok (control, io), st') \<Rightarrow> exec_stack_wf st' \<and> activations (st_frames st') = as
       \<and> control = return_control caller
           (case caller of
              None \<Rightarrow> if n = 0 then SpDangling else SpAt 0
            | Some (_, cst, _) \<Rightarrow> if n = 0 \<and> cst = start then SpDangling else SpAt cst)
       \<and> (n \<noteq> 0 \<longrightarrow> io_start io = start \<and> length (io_cells io) = n
            \<and> take (unat (bs_len params)) (io_cells io) = take (unat (bs_len params))
                (drop (unat start + unat (params_head R params)) (vs_cells (st_values st)))
            \<and> take (unat start) (vs_cells (st_values st')) = take (unat start) (vs_cells (st_values st)))
   | (Err e, st') \<Rightarrow> exec_stack_wf st' \<and> n \<noteq> 0
       \<and> (e = TrapStackOverflow \<and> unat (vs_max_height (st_values st)) < unat start + n
          \<or> e = TrapOutOfSystemMemory)
   | (Panic, _) \<Rightarrow> False"
proof -
  have vwf: "value_stack_wf (st_values st)" and cwf: "call_stack_wf (st_frames st)"
    using wf by (simp_all add: exec_stack_wf_def)
  obtain cs where cs: "cs_return_prepare_host_frame i (st_frames st) = (Ok (start, caller), cs)"
    "call_stack_wf cs" "activations cs = as"
    using cs_return_prepare_outcome [OF cwf acts] caller by blast
  obtain q vs where q: "value_stack_return_prepare_host_frame R alloc stale (st_values st) caller start params r
      = (q, vs)" by fastforce
  have eq: "return_prepare_host_frame R alloc stale params r i st = (q, st\<lparr>st_frames := cs, st_values := vs\<rparr>)"
    by (simp add: return_prepare_host_frame_def cs(1) q)
  show ?thesis
    using return_prepare_host_frame_outcome [OF vwf fits, where alloc = alloc and stale = stale
        and caller = caller and r = r] cs(2,3)
    unfolding q eq n by (cases q) (auto simp: exec_stack_wf_def split: if_splits option.splits)
qed

text \<open>
  C23: a tail call of a host function, \<open>n\<close> being the number of cells that its parameters or its results
  need. The calling activation is gone and execution continues in its caller, with the caller's
  instruction pointer and instance; the host function sees its parameters at the start of the
  vanished frame, and no cell below it has changed. The caller's stack pointer is restored, with
  one exception: if the host function has neither parameters nor results and the vanished frame
  started at the same cell as the caller's frame, execution continues in the caller with a dangling
  stack pointer, although the caller's frame may have cells.
\<close>
theorem host_tail_call_effect:
  fixes params :: "'w::len word bounded_slot_span" and r :: u16
  assumes wf: "exec_stack_wf st" and acts: "activations (st_frames st) = (ip0, start, Some i) # as"
    and fits: "unat start + unat (params_head R params) + unat (bs_len params) \<le> length (vs_cells (st_values st))"
    and n: "n = max (unat (bs_len params)) (unat r)"
    and caller: "caller = (case as of [] \<Rightarrow> None | (ip, cst, j) # _ \<Rightarrow> Some (ip, cst, the j))"
  shows "case return_prepare_host_frame R alloc stale params r i st of
     (Ok (control, io), st') \<Rightarrow> exec_stack_wf st' \<and> activations (st_frames st') = as
       \<and> control = return_control caller
           (case caller of
              None \<Rightarrow> if n = 0 then SpDangling else SpAt 0
            | Some (_, cst, _) \<Rightarrow> if n = 0 \<and> cst = start then SpDangling else SpAt cst)
       \<and> (n \<noteq> 0 \<longrightarrow> io_start io = start
            \<and> take (unat (bs_len params)) (io_cells io) = take (unat (bs_len params))
                (drop (unat start + unat (params_head R params)) (vs_cells (st_values st)))
            \<and> take (unat start) (vs_cells (st_values st')) = take (unat start) (vs_cells (st_values st)))
   | (Err e, st') \<Rightarrow> exec_stack_wf st' \<and> n \<noteq> 0
       \<and> (e = TrapStackOverflow \<and> unat (vs_max_height (st_values st)) < unat start + n
          \<or> e = TrapOutOfSystemMemory)
   | (Panic, _) \<Rightarrow> False"
  using return_prepare_host_frame_law [OF assms, where alloc = alloc and stale = stale] by (auto split: prod.splits res.splits)

theorem host_tail_call_effect_witness:
  "let st = \<lparr>st_values = \<lparr>vs_cells = [1, 2, 3, 4], vs_capacity = 8, vs_max_height = 100\<rparr>,
        st_frames = \<lparr>cs_frames = [\<lparr>fr_ip = 5, fr_start = 0, fr_instance = None\<rparr>,
                                  \<lparr>fr_ip = 6, fr_start = 0, fr_instance = None\<rparr>],
          cs_instance = Some 1, cs_max_height = 3\<rparr>,
        st_ireg = 0, st_freg32 = 0, st_freg64 = 0\<rparr> :: (nat, nat) exec_stack in
   case return_prepare_host_frame slot32 (\<lambda>_. True) (\<lambda>_. 7) (bounded_span_new 0 0) 0 1 st of
     (Ok (control, _), _) \<Rightarrow> control = Continue 5 SpDangling 1 | _ \<Rightarrow> False"
proof -
  define st :: "(nat, nat) exec_stack" where
    "st = \<lparr>st_values = \<lparr>vs_cells = [1, 2, 3, 4], vs_capacity = 8, vs_max_height = 100\<rparr>,
        st_frames = \<lparr>cs_frames = [\<lparr>fr_ip = 5, fr_start = 0, fr_instance = None\<rparr>,
                                  \<lparr>fr_ip = 6, fr_start = 0, fr_instance = None\<rparr>],
          cs_instance = Some 1, cs_max_height = 3\<rparr>,
        st_ireg = 0, st_freg32 = 0, st_freg64 = 0\<rparr>"
  have wf: "exec_stack_wf st"
    by (simp add: st_def exec_stack_wf_def value_stack_wf_def call_stack_wf_def isize_max_def)
  have acts: "activations (st_frames st) = (6, 0, Some 1) # [(5, 0, Some 1)]"
    by (simp add: st_def activations_def)
  obtain io st' where "return_prepare_host_frame slot32 (\<lambda>_. True) (\<lambda>_. 7) (bounded_span_new 0 0) 0 1 st
      = (Ok (Continue 5 SpDangling 1, io), st')"
    using host_tail_call_effect [OF wf acts, where params = "bounded_span_new 0 0" and R = slot32 and r = 0
        and n = 0 and alloc = "\<lambda>_. True" and stale = "\<lambda>_. 7"]
    by (auto simp: bounded_span_new_def params_head_def slot32_def CELL_BYTES_def st_def
        split: prod.splits res.splits)
  then show ?thesis unfolding Let_def st_def [symmetric] by simp
qed

lemma prepare_host_frame_law:
  fixes params :: "'w::len word bounded_slot_span" and r :: u16
  assumes wf: "exec_stack_wf st" and caller: "caller_ip = None \<or> cs_frames (st_frames st) \<noteq> []"
    and n: "n = max (unat (bs_len params)) (unat r)"
    and s: "s = unat (top_start (st_frames st)) + unat (params_head R params)"
  shows "case prepare_host_frame R alloc stale caller_ip params r st of
     (Ok (p, io), st') \<Rightarrow> exec_stack_wf st' \<and> p = SpAt (top_start (st_frames st))
       \<and> take (length (vs_cells (st_values st))) (vs_cells (st_values st')) = vs_cells (st_values st)
       \<and> unat (io_start io) = s \<and> s + n \<le> length (vs_cells (st_values st'))
       \<and> io_cells io = take n (drop s (vs_cells (st_values st')))
       \<and> activations (st_frames st') = resume_at caller_ip (activations (st_frames st))
   | (Err e, st') \<Rightarrow> exec_stack_wf st' \<and> vs_cells (st_values st') = vs_cells (st_values st)
       \<and> (e = TrapStackOverflow \<and> unat (vs_max_height (st_values st)) < s + n
          \<or> e = TrapOutOfSystemMemory \<and> s + n \<le> unat (vs_max_height (st_values st)))
   | (Panic, _) \<Rightarrow> False"
proof -
  have vwf: "value_stack_wf (st_values st)" and cwf: "call_stack_wf (st_frames st)"
    using wf by (simp_all add: exec_stack_wf_def)
  obtain cs where cs: "(case caller_ip of None \<Rightarrow> Some (st_frames st) | Some ip \<Rightarrow> cs_sync_ip ip (st_frames st)) = Some cs"
    using caller by (cases caller_ip) (auto simp: cs_sync_ip_def cs_top_def)
  note sync = sync_caller [OF cs]
  have frames: "cs_prepare_host_frame caller_ip (st_frames st) = (Ok (top_start (st_frames st)), cs)"
    unfolding cs_prepare_host_frame_def cs by (simp add: sync(3))
  have "call_stack_wf cs"
    using cwf sync(2,4,5,6) by (metis call_stack_wf_def length_0_conv)
  obtain q vs where q: "value_stack_prepare_host_frame R alloc stale (st_values st) (top_start (st_frames st)) params r
      = (q, vs)" by fastforce
  have eq: "prepare_host_frame R alloc stale caller_ip params r st = (q, st\<lparr>st_frames := cs, st_values := vs\<rparr>)"
    by (simp add: prepare_host_frame_def frames q)
  show ?thesis
    using prepare_host_frame_outcome [OF vwf, where R = R and alloc = alloc and stale = stale and params = params
        and r = r and caller_start = "top_start (st_frames st)"] \<open>call_stack_wf cs\<close> sync(1)
    unfolding q eq n s by (cases q) (auto simp: exec_stack_wf_def vwf)
qed

text \<open>
  C24: a call of a host function. The host function sees the cells from the first parameter on, as
  many as its parameters or its results need, the parameters in place; all cells that existed keep
  their contents and the caller's stack pointer points to the start of its frame. The call traps with
  \<open>StackOverflow\<close> exactly if these cells exceed the height limit.
\<close>
theorem host_call_effect:
  fixes params :: "'w::len word bounded_slot_span" and r :: u16
  assumes wf: "exec_stack_wf st" and caller: "caller_ip = None \<or> cs_frames (st_frames st) \<noteq> []"
    and n: "n = max (unat (bs_len params)) (unat r)"
    and s: "s = unat (top_start (st_frames st)) + unat (params_head R params)"
  shows "case prepare_host_frame R alloc stale caller_ip params r st of
     (Ok (p, io), st') \<Rightarrow> exec_stack_wf st' \<and> p = SpAt (top_start (st_frames st))
       \<and> take (length (vs_cells (st_values st))) (vs_cells (st_values st')) = vs_cells (st_values st)
       \<and> unat (io_start io) = s \<and> s + n \<le> length (vs_cells (st_values st'))
       \<and> io_cells io = take n (drop s (vs_cells (st_values st')))
       \<and> activations (st_frames st') = resume_at caller_ip (activations (st_frames st))
   | (Err e, st') \<Rightarrow> exec_stack_wf st' \<and> vs_cells (st_values st') = vs_cells (st_values st)
       \<and> (e = TrapStackOverflow \<and> unat (vs_max_height (st_values st)) < s + n
          \<or> e = TrapOutOfSystemMemory \<and> s + n \<le> unat (vs_max_height (st_values st)))
   | (Panic, _) \<Rightarrow> False"
  using assms by (rule prepare_host_frame_law)

theorem host_call_effect_witness:
  "case prepare_host_frame slot32 (\<lambda>_. True) (\<lambda>_. 7) None (bounded_span_new 0 2) 3
      (stack_new stack_config_default :: (nat, nat) exec_stack) of
     (Ok (p, io), _) \<Rightarrow> p = SpAt 0 \<and> length (io_cells io) = 3
   | (Err e, _) \<Rightarrow> e = TrapOutOfSystemMemory | _ \<Rightarrow> False"
proof -
  let ?st = "stack_new stack_config_default :: (nat, nat) exec_stack"
  have wf: "exec_stack_wf ?st"
    by (simp add: stack_new_def stack_config_default_def exec_stack_wf_def value_stack_wf_def
        value_stack_new_def call_stack_wf_def call_stack_new_def isize_max_def unat_div)
  have "unat (vs_max_height (st_values ?st)) = 125000"
    by (simp add: stack_new_def stack_config_default_def value_stack_new_def unat_div)
  then show ?thesis
    using host_call_effect [OF wf, where caller_ip = None and params = "bounded_span_new 0 2" and r = 3 and n = 3
        and s = 0 and R = slot32 and alloc = "\<lambda>_. True" and stale = "\<lambda>_. 7"]
    by (auto simp: bounded_span_new_def params_head_def slot32_def CELL_BYTES_def top_start_def cs_top_def
        stack_new_def call_stack_new_def split: prod.splits res.splits)
qed

end
