(* ===== verification/Ref_Table.thy ===== *)
theory Ref_Table
  imports Memory_Type Fuel
begin

section \<open>Tables (crates/core/src/table)\<close>

text \<open>
  Tables of raw references with their types, element segments and every table operation. A raw
  reference is its 32 bits, of size 4 bytes. The vector of elements is its contents and its
  capacity. Operations return the new table and fuel counter; bounds are checked before fuel is
  consumed and before anything is written, as in the source.
\<close>

datatype ref_type = RFunc | RExtern

type_synonym raw_ref = u32

definition raw_ref_null :: raw_ref where "raw_ref_null = 0"

definition raw_ref_is_null :: "raw_ref \<Rightarrow> bool" where "raw_ref_is_null r \<longleftrightarrow> r = 0"

definition raw_ref_size :: nat where "raw_ref_size = 4"

record typed_raw_ref =
  tr_raw :: raw_ref
  tr_ty :: ref_type

record table_type =
  tt_element :: ref_type
  tt_min :: u64
  tt_max :: "u64 option"
  tt_index_ty :: index_type

text \<open>The asserts of \<open>new_impl\<close>: a type that exists passed them.\<close>

definition tt_new_impl ::
  "ref_type \<Rightarrow> index_type \<Rightarrow> u64 \<Rightarrow> u64 option \<Rightarrow> (table_error, table_type) res" where
  "tt_new_impl element index_ty mn mx =
     (let absolute_max = index_max_size index_ty in
      if \<not> (ucast mn :: u128) \<le> absolute_max then Panic
      else if (case mx of None \<Rightarrow> False
               | Some m \<Rightarrow> \<not> (mn \<le> m \<and> (ucast m :: u128) \<le> absolute_max)) then Panic
      else Ok \<lparr>tt_element = element, tt_min = mn, tt_max = mx, tt_index_ty = index_ty\<rparr>)"

definition tt_new :: "ref_type \<Rightarrow> u32 \<Rightarrow> u32 option \<Rightarrow> (table_error, table_type) res" where
  "tt_new element mn mx = tt_new_impl element Index32 (ucast mn) (map_option ucast mx)"

definition tt_new64 :: "ref_type \<Rightarrow> u64 \<Rightarrow> u64 option \<Rightarrow> (table_error, table_type) res" where
  "tt_new64 element mn mx = tt_new_impl element Index64 mn mx"

definition tt_is_64 :: "table_type \<Rightarrow> bool" where
  "tt_is_64 t = index_is_64 (tt_index_ty t)"

definition ensure_element_type_matches :: "table_type \<Rightarrow> ref_type \<Rightarrow> (table_error, unit) res" where
  "ensure_element_type_matches t ty =
     (if tt_element t \<noteq> ty then Err TabElementTypeMismatch else Ok ())"

definition tt_is_subtype_of :: "table_type \<Rightarrow> table_type \<Rightarrow> bool" where
  "tt_is_subtype_of t other =
     (if tt_is_64 t \<noteq> tt_is_64 other then False
      else if tt_element t \<noteq> tt_element other then False
      else if tt_min t < tt_min other then False
      else case (tt_max t, tt_max other) of
        (_, None) \<Rightarrow> True
      | (Some mx, Some other_max) \<Rightarrow> mx \<le> other_max
      | _ \<Rightarrow> False)"

subsection \<open>Element segments\<close>

record element_segment =
  es_ty :: ref_type
  es_items :: "raw_ref list"

definition element_segment_new :: "ref_type \<Rightarrow> raw_ref list \<Rightarrow> (table_error, element_segment) res" where
  "element_segment_new ty items =
     (if length items < 2 ^ 32 then Ok \<lparr>es_ty = ty, es_items = items\<rparr> else Panic)"

definition element_segment_size :: "element_segment \<Rightarrow> (table_error, u32) res" where
  "element_segment_size e =
     (if length (es_items e) < 2 ^ 32 then Ok (of_nat (length (es_items e))) else Panic)"

definition drop_items :: "element_segment \<Rightarrow> element_segment" where
  "drop_items e = e\<lparr>es_items := []\<rparr>"

subsection \<open>Tables\<close>

record table =
  tb_ty :: table_type
  tb_elements :: "raw_ref list"
  tb_capacity :: nat

type_synonym ('a, 'l) table_grow_result =
  "(table_error, 'a) res \<times> table \<times> fuel option \<times> 'l limiter_ref"
type_synonym table_result = "(table_error, unit) res \<times> table \<times> fuel option"

definition table_new ::
  "allocator \<Rightarrow> table_type \<Rightarrow> typed_raw_ref \<Rightarrow> 'l limiter_ref \<Rightarrow>
   (table_error, table) res \<times> 'l limiter_ref" where
  "table_new alloc ty init limiter =
     (case ensure_element_type_matches ty (tr_ty init) of
        Err e \<Rightarrow> (Err e, limiter)
      | Panic \<Rightarrow> (Panic, limiter)
      | Ok _ \<Rightarrow>
        case try_from (tt_min ty) :: usize option of
          None \<Rightarrow> (Err TabMinimumSizeOverflow, limiter)
        | Some min_size \<Rightarrow>
          if (case tt_max ty of None \<Rightarrow> False | Some mx \<Rightarrow> (try_from mx :: usize option) = None)
          then (Err TabMaximumSizeOverflow, limiter)
          else let max_size = Option.bind (tt_max ty) try_from in
          case ask_table_growing limiter 0 min_size max_size of
            (Some (Err e), limiter) \<Rightarrow> (Err (table_error_of_limiter e), limiter)
          | (Some Panic, limiter) \<Rightarrow> (Panic, limiter)
          | (Some (Ok False), limiter) \<Rightarrow> (Err TabResourceLimiterDeniedAllocation, limiter)
          | (_, limiter) \<Rightarrow>
              (case try_reserve alloc raw_ref_size 0 0 (unat min_size) of
                 None \<Rightarrow> notify_table_grow_failed limiter TabOutOfSystemMemory
               | Some cap \<Rightarrow>
                   (Ok \<lparr>tb_ty = ty, tb_elements = replicate (unat min_size) (tr_raw init),
                        tb_capacity = cap\<rparr>, limiter)))"

text \<open>The length of a vector always fits \<open>u64\<close> on the modelled target.\<close>

definition table_size :: "table \<Rightarrow> u64" where
  "table_size t = of_nat (length (tb_elements t))"

definition table_dynamic_ty :: "table \<Rightarrow> (table_error, table_type) res" where
  "table_dynamic_ty t =
     tt_new_impl (tt_element (tb_ty t)) (tt_index_ty (tb_ty t)) (table_size t) (tt_max (tb_ty t))"

definition unwrap_typed :: "table \<Rightarrow> typed_raw_ref \<Rightarrow> (table_error, raw_ref) res" where
  "unwrap_typed t value =
     (case ensure_element_type_matches (tb_ty t) (tr_ty value) of
        Ok _ \<Rightarrow> Ok (tr_raw value) | Err e \<Rightarrow> Err e | Panic \<Rightarrow> Panic)"

text \<open>\<open>grow_raw\<close> from the fuel check on, when bounds and limiter allow the growth.\<close>

definition table_grow_allowed ::
  "allocator \<Rightarrow> table \<Rightarrow> u64 \<Rightarrow> usize \<Rightarrow> usize \<Rightarrow> raw_ref \<Rightarrow> fuel option \<Rightarrow> 'l limiter_ref \<Rightarrow>
   (u64, 'l) table_grow_result" where
  "table_grow_allowed alloc t delta delta_size desired init fuel limiter =
     (let reserve = (\<lambda>fuel.
        case try_reserve alloc raw_ref_size (length (tb_elements t)) (tb_capacity t) (unat delta_size) of
          None \<Rightarrow> (case notify_table_grow_failed limiter TabOutOfSystemMemory of
                    (r, limiter) \<Rightarrow> (r, t, fuel, limiter))
        | Some cap \<Rightarrow>
            let size_before = table_size t in
            (Ok size_before,
             t\<lparr>tb_elements := take (unat desired) (tb_elements t)
                  @ replicate (unat desired - length (tb_elements t)) init,
               tb_capacity := cap\<rparr>, fuel, limiter)) in
      case fuel of
        None \<Rightarrow> reserve None
      | Some f \<Rightarrow>
          (case consume_fuel f (\<lambda>c. fuel_for_copying_values c (of_nat raw_ref_size) delta) of
             (Err (OutOfFuel required_fuel), f') \<Rightarrow>
               (case notify_table_grow_failed limiter (TabOutOfFuel required_fuel) of
                  (r, limiter) \<Rightarrow> (r, t, Some f', limiter))
           | (Panic, f') \<Rightarrow> (Panic, t, Some f', limiter)
           | (_, f') \<Rightarrow> reserve (Some f')))"

definition grow_raw ::
  "allocator \<Rightarrow> table \<Rightarrow> u64 \<Rightarrow> raw_ref \<Rightarrow> fuel option \<Rightarrow> 'l limiter_ref \<Rightarrow> (u64, 'l) table_grow_result" where
  "grow_raw alloc t delta init fuel limiter =
     (if delta = 0 then (Ok (table_size t), t, fuel, limiter)
      else case try_from delta :: usize option of
        None \<Rightarrow> (Err TabGrowOutOfBounds, t, fuel, limiter)
      | Some delta_size \<Rightarrow>
      case checked_add (table_size t) delta of
        None \<Rightarrow> (Err TabGrowOutOfBounds, t, fuel, limiter)
      | Some desired64 \<Rightarrow>
      if (ucast desired64 :: u128) \<ge> index_max_size (tt_index_ty (tb_ty t))
      then (Err TabGrowOutOfBounds, t, fuel, limiter)
      else let current = of_nat (length (tb_elements t)) in
      case try_from desired64 :: usize option of
        None \<Rightarrow> (Err TabGrowOutOfBounds, t, fuel, limiter)
      | Some desired \<Rightarrow>
      if (case tt_max (tb_ty t) of None \<Rightarrow> False | Some mx \<Rightarrow> (try_from mx :: usize option) = None)
      then (Err TabGrowOutOfBounds, t, fuel, limiter)
      else let maximum = Option.bind (tt_max (tb_ty t)) try_from in
      case ask_table_growing limiter current desired maximum of
        (Some (Err e), limiter) \<Rightarrow> (Err (table_error_of_limiter e), t, fuel, limiter)
      | (Some Panic, limiter) \<Rightarrow> (Panic, t, fuel, limiter)
      | (Some (Ok False), limiter) \<Rightarrow> (Err TabGrowOutOfBounds, t, fuel, limiter)
      | (_, limiter) \<Rightarrow>
          if (case maximum of None \<Rightarrow> False | Some mx \<Rightarrow> desired > mx)
          then (case notify_table_grow_failed limiter TabGrowOutOfBounds of
                  (r, limiter) \<Rightarrow> (r, t, fuel, limiter))
          else table_grow_allowed alloc t delta delta_size desired init fuel limiter)"

definition table_grow ::
  "allocator \<Rightarrow> table \<Rightarrow> u64 \<Rightarrow> typed_raw_ref \<Rightarrow> fuel option \<Rightarrow> 'l limiter_ref \<Rightarrow>
   (u64, 'l) table_grow_result" where
  "table_grow alloc t delta init fuel limiter =
     (case unwrap_typed t init of
        Ok raw \<Rightarrow> grow_raw alloc t delta raw fuel limiter
      | Err e \<Rightarrow> (Err e, t, fuel, limiter)
      | Panic \<Rightarrow> (Panic, t, fuel, limiter))"

definition table_get :: "table \<Rightarrow> u64 \<Rightarrow> typed_raw_ref option" where
  "table_get t index =
     (case try_from index :: usize option of
        None \<Rightarrow> None
      | Some i \<Rightarrow>
          (case get_opt (tb_elements t) (unat i) of
             None \<Rightarrow> None
           | Some raw \<Rightarrow> Some \<lparr>tr_raw = raw, tr_ty = tt_element (tb_ty t)\<rparr>))"

definition set_raw :: "table \<Rightarrow> u64 \<Rightarrow> raw_ref \<Rightarrow> (table_error, unit) res \<times> table" where
  "set_raw t index value =
     (case try_from index :: usize option of
        None \<Rightarrow> (Err TabSetOutOfBounds, t)
      | Some i \<Rightarrow>
          (case get_opt (tb_elements t) (unat i) of
             None \<Rightarrow> (Err TabSetOutOfBounds, t)
           | Some _ \<Rightarrow> (Ok (), t\<lparr>tb_elements := (tb_elements t)[unat i := value]\<rparr>)))"

definition table_set :: "table \<Rightarrow> u64 \<Rightarrow> typed_raw_ref \<Rightarrow> (table_error, unit) res \<times> table" where
  "table_set t index value =
     (case unwrap_typed t value of
        Ok raw \<Rightarrow> set_raw t index raw | Err e \<Rightarrow> (Err e, t) | Panic \<Rightarrow> (Panic, t))"

text \<open>
  The optional charge before a bulk operation: \<open>consume_fuel_if(..)?\<close>, where the conversion of the
  error panics for disabled metering.
\<close>

fun table_error_of_fuel :: "fuel_error \<Rightarrow> (table_error, 'a) res" where
  "table_error_of_fuel (OutOfFuel required_fuel) = Err (TabOutOfFuel required_fuel)"
| "table_error_of_fuel FuelMeteringDisabled = Panic"

definition table_charge :: "fuel option \<Rightarrow> u64 \<Rightarrow> (table_error, unit) res \<times> fuel option" where
  "table_charge fuel len =
     (case fuel of
        None \<Rightarrow> (Ok (), None)
      | Some f \<Rightarrow>
          (case consume_fuel_if f (\<lambda>c. fuel_for_copying_values c (of_nat raw_ref_size) len) of
             (Ok _, f') \<Rightarrow> (Ok (), Some f')
           | (Err e, f') \<Rightarrow> (table_error_of_fuel e, Some f')
           | (Panic, f') \<Rightarrow> (Panic, Some f')))"

definition table_init ::
  "table \<Rightarrow> element_segment \<Rightarrow> u64 \<Rightarrow> u32 \<Rightarrow> u32 \<Rightarrow> fuel option \<Rightarrow> table_result" where
  "table_init t element dst_index src_index len fuel =
     (case ensure_element_type_matches (tb_ty t) (es_ty element) of
        Err e \<Rightarrow> (Err e, t, fuel)
      | Panic \<Rightarrow> (Panic, t, fuel)
      | Ok _ \<Rightarrow>
      case try_from dst_index :: usize option of
        None \<Rightarrow> (Err TabInitOutOfBounds, t, fuel)
      | Some dst \<Rightarrow>
      case try_from src_index :: usize option of
        None \<Rightarrow> (Err TabInitOutOfBounds, t, fuel)
      | Some src \<Rightarrow>
      case try_from len :: usize option of
        None \<Rightarrow> (Err TabInitOutOfBounds, t, fuel)
      | Some len_size \<Rightarrow>
      case Option.bind (slice_from (tb_elements t) (unat dst)) (\<lambda>items. slice_to items (unat len_size)) of
        None \<Rightarrow> (Err TabInitOutOfBounds, t, fuel)
      | Some dst_items \<Rightarrow>
      case Option.bind (slice_from (es_items element) (unat src)) (\<lambda>items. slice_to items (unat len_size)) of
        None \<Rightarrow> (Err TabInitOutOfBounds, t, fuel)
      | Some src_items \<Rightarrow>
      if len = 0 then (Ok (), t, fuel)
      else case table_charge fuel (ucast len) of
        (Ok _, fuel') \<Rightarrow>
          (Ok (), t\<lparr>tb_elements := overwrite (tb_elements t) (unat dst) src_items\<rparr>, fuel')
      | (r, fuel') \<Rightarrow> (r, t, fuel'))"

definition table_copy :: "table \<Rightarrow> u64 \<Rightarrow> table \<Rightarrow> u64 \<Rightarrow> u64 \<Rightarrow> fuel option \<Rightarrow> table_result" where
  "table_copy dst_table dst_index src_table src_index len fuel =
     (case ensure_element_type_matches (tb_ty dst_table) (tt_element (tb_ty src_table)) of
        Err e \<Rightarrow> (Err e, dst_table, fuel)
      | Panic \<Rightarrow> (Panic, dst_table, fuel)
      | Ok _ \<Rightarrow>
      case try_from src_index :: usize option of
        None \<Rightarrow> (Err TabCopyOutOfBounds, dst_table, fuel)
      | Some src \<Rightarrow>
      case try_from dst_index :: usize option of
        None \<Rightarrow> (Err TabCopyOutOfBounds, dst_table, fuel)
      | Some dst \<Rightarrow>
      case try_from len :: usize option of
        None \<Rightarrow> (Err TabCopyOutOfBounds, dst_table, fuel)
      | Some len_size \<Rightarrow>
      case Option.bind (slice_from (tb_elements dst_table) (unat dst)) (\<lambda>items. slice_to items (unat len_size)) of
        None \<Rightarrow> (Err TabCopyOutOfBounds, dst_table, fuel)
      | Some dst_items \<Rightarrow>
      case Option.bind (slice_from (tb_elements src_table) (unat src)) (\<lambda>items. slice_to items (unat len_size)) of
        None \<Rightarrow> (Err TabCopyOutOfBounds, dst_table, fuel)
      | Some src_items \<Rightarrow>
      case table_charge fuel len of
        (Ok _, fuel') \<Rightarrow>
          (Ok (), dst_table\<lparr>tb_elements := overwrite (tb_elements dst_table) (unat dst) src_items\<rparr>, fuel')
      | (r, fuel') \<Rightarrow> (r, dst_table, fuel'))"

text \<open>\<open>slice::copy_within(a..b, d)\<close>, a \<open>memmove\<close>, which panics outside of the slice.\<close>

definition slice_copy_within :: "'a list \<Rightarrow> nat \<Rightarrow> nat \<Rightarrow> nat \<Rightarrow> 'a list option" where
  "slice_copy_within xs a b d =
     (if a \<le> b \<and> b \<le> length xs \<and> d \<le> length xs - (b - a)
      then Some (overwrite xs d (drop a (take b xs))) else None)"

definition table_copy_within :: "table \<Rightarrow> u64 \<Rightarrow> u64 \<Rightarrow> u64 \<Rightarrow> fuel option \<Rightarrow> table_result" where
  "table_copy_within t dst_index src_index len fuel =
     (let max_offset = max dst_index src_index in
      if \<not> (case checked_add max_offset len of None \<Rightarrow> False | Some offset \<Rightarrow> offset \<le> table_size t)
      then (Err TabCopyOutOfBounds, t, fuel)
      else case try_from src_index :: usize option of
        None \<Rightarrow> (Err TabCopyOutOfBounds, t, fuel)
      | Some src \<Rightarrow>
      case try_from dst_index :: usize option of
        None \<Rightarrow> (Err TabCopyOutOfBounds, t, fuel)
      | Some dst \<Rightarrow>
      case try_from len :: usize option of
        None \<Rightarrow> (Err TabCopyOutOfBounds, t, fuel)
      | Some len_size \<Rightarrow>
      case table_charge fuel len of
        (Ok _, fuel') \<Rightarrow>
          (case slice_copy_within (tb_elements t) (unat src) (unat (src + len_size)) (unat dst) of
             None \<Rightarrow> (Panic, t, fuel')
           | Some xs \<Rightarrow> (Ok (), t\<lparr>tb_elements := xs\<rparr>, fuel'))
      | (r, fuel') \<Rightarrow> (r, t, fuel'))"

definition fill_raw :: "table \<Rightarrow> u64 \<Rightarrow> raw_ref \<Rightarrow> u64 \<Rightarrow> fuel option \<Rightarrow> table_result" where
  "fill_raw t dst val len fuel =
     (case try_from dst :: usize option of
        None \<Rightarrow> (Err TabFillOutOfBounds, t, fuel)
      | Some dst_index \<Rightarrow>
      case try_from len :: usize option of
        None \<Rightarrow> (Err TabFillOutOfBounds, t, fuel)
      | Some len_size \<Rightarrow>
      case Option.bind (slice_from (tb_elements t) (unat dst_index)) (\<lambda>xs. slice_to xs (unat len_size)) of
        None \<Rightarrow> (Err TabFillOutOfBounds, t, fuel)
      | Some items \<Rightarrow>
      case table_charge fuel len of
        (Ok _, fuel') \<Rightarrow>
          (Ok (), t\<lparr>tb_elements := overwrite (tb_elements t) (unat dst_index) (replicate (length items) val)\<rparr>,
           fuel')
      | (r, fuel') \<Rightarrow> (r, t, fuel'))"

definition table_fill :: "table \<Rightarrow> u64 \<Rightarrow> typed_raw_ref \<Rightarrow> u64 \<Rightarrow> fuel option \<Rightarrow> table_result" where
  "table_fill t dst val len fuel =
     (case unwrap_typed t val of
        Ok raw \<Rightarrow> fill_raw t dst raw len fuel
      | Err e \<Rightarrow> (Err e, t, fuel)
      | Panic \<Rightarrow> (Panic, t, fuel))"

subsection \<open>The invariant\<close>

definition tt_admits :: "table_type \<Rightarrow> nat \<Rightarrow> bool" where
  "tt_admits ty n \<longleftrightarrow> unat (tt_min ty) \<le> n \<and> (case tt_max ty of None \<Rightarrow> True | Some mx \<Rightarrow> n \<le> unat mx)"

definition tt_wf :: "table_type \<Rightarrow> bool" where
  "tt_wf ty \<longleftrightarrow> unat (tt_min ty) \<le> unat (index_max_size (tt_index_ty ty))
     \<and> (\<forall>mx\<in>set_option (tt_max ty).
          tt_min ty \<le> mx \<and> unat mx \<le> unat (index_max_size (tt_index_ty ty)))"

definition table_wf :: "table \<Rightarrow> bool" where
  "table_wf t \<longleftrightarrow> tt_wf (tb_ty t) \<and> length (tb_elements t) \<le> tb_capacity t
     \<and> raw_ref_size * tb_capacity t \<le> isize_max
     \<and> tt_admits (tb_ty t) (length (tb_elements t))
     \<and> length (tb_elements t) \<le> unat (index_max_size (tt_index_ty (tb_ty t)))"

lemma tt_new_impl_wf:
  "tt_new_impl element index mn mx =
     (let ty = \<lparr>tt_element = element, tt_min = mn, tt_max = mx, tt_index_ty = index\<rparr> in
      if tt_wf ty then Ok ty else Panic)"
  by (auto simp: tt_new_impl_def tt_wf_def Let_def word_le_nat_alt split: option.splits)

lemma index_max_size_le: "unat (index_max_size i) \<le> 2 ^ 64"
  by (simp add: unat_index_max_size)

lemma table_wf_size: "table_wf t \<Longrightarrow> unat (table_size t) = length (tb_elements t)"
  by (simp add: table_wf_def table_size_def isize_max_def raw_ref_size_def unat_of_nat take_bit_nat_eq_self)

lemma table_wf_length: "table_wf t \<Longrightarrow> length (tb_elements t) < 2 ^ 62"
  by (simp add: table_wf_def isize_max_def raw_ref_size_def)

lemma table_wf_overwrite [simp]:
  "table_wf t \<Longrightarrow> at + length ys \<le> length (tb_elements t) \<Longrightarrow>
   table_wf (t\<lparr>tb_elements := overwrite (tb_elements t) at ys\<rparr>)"
  by (simp add: table_wf_def)

lemma raw_ref_fuel:
  "4 * unat n < 2 ^ 64 \<Longrightarrow>
   unat (fuel_for_copying_values p (of_nat raw_ref_size) n) = 4 * unat n div unat (bytes_per_fuel p)"
  using unat_fuel_for_values [of n "of_nat raw_ref_size" p] by (simp add: raw_ref_size_def mult.commute)

lemma table_charge_cases:
  assumes "4 * unat n < 2 ^ 64"
  obtains (ok) fuel' where "table_charge fuel n = (Ok (), fuel')" "charged_for (4 * unat n) fuel fuel'"
  | (out) k where "table_charge fuel n = (Err (TabOutOfFuel k), fuel)"
proof (cases fuel)
  case None
  then show thesis by (intro ok) (simp_all add: table_charge_def charged_for_def)
next
  case (Some f)
  show thesis
    by (rule consume_fuel_if_cases [of f "\<lambda>c. fuel_for_copying_values c (of_nat raw_ref_size) n"])
      (use Some ok out assms in \<open>auto simp: table_charge_def charged_for_def raw_ref_fuel\<close>)
qed

subsection \<open>Bulk operations\<close>

text \<open>
  The outcome of a bulk operation: if its guard holds, the elements are replaced and the fuel is
  charged, or there is not enough fuel and nothing changes; otherwise the given error is returned
  and nothing changes, fuel included.
\<close>

definition bulk_outcome ::
  "bool \<Rightarrow> table_error \<Rightarrow> nat \<Rightarrow> raw_ref list \<Rightarrow> table \<Rightarrow> fuel option \<Rightarrow> table_result \<Rightarrow> bool" where
  "bulk_outcome guard err n xs t fuel result \<longleftrightarrow>
     (case result of (r, t', fuel') \<Rightarrow>
        if guard then
          (r = Ok () \<and> t' = t\<lparr>tb_elements := xs\<rparr> \<and> table_wf t' \<and> charged_for (4 * n) fuel fuel')
          \<or> (\<exists>k. r = Err (TabOutOfFuel k)) \<and> t' = t \<and> fuel' = fuel
        else r = Err err \<and> t' = t \<and> fuel' = fuel)"

lemma table_fuel_bound: "table_wf t \<Longrightarrow> n \<le> length (tb_elements t) \<Longrightarrow> 4 * n < 2 ^ 64"
  using table_wf_length [of t] by simp

lemma bulk_outcome_charge:
  assumes wf: "table_wf t" and n: "unat n \<le> length (tb_elements t)"
    and wf': "table_wf (t\<lparr>tb_elements := xs\<rparr>)"
  shows "bulk_outcome True err (unat n) xs t fuel
    (case table_charge fuel n of
       (Ok _, fuel') \<Rightarrow> (Ok (), t\<lparr>tb_elements := xs\<rparr>, fuel')
     | (r, fuel') \<Rightarrow> (r, t, fuel'))"
  by (rule table_charge_cases [OF table_fuel_bound [OF wf n], of fuel])
    (use wf' in \<open>simp_all add: bulk_outcome_def\<close>)

lemma fill_raw_outcome:
  assumes wf: "table_wf t"
  shows "bulk_outcome (unat dst + unat len \<le> length (tb_elements t)) TabFillOutOfBounds (unat len)
    (overwrite (tb_elements t) (unat dst) (replicate (unat len) val)) t fuel (fill_raw t dst val len fuel)"
proof (cases "unat dst + unat len \<le> length (tb_elements t)")
  case True
  then have eq: "fill_raw t dst val len fuel = (case table_charge fuel len of
      (Ok _, fuel') \<Rightarrow> (Ok (), t\<lparr>tb_elements :=
         overwrite (tb_elements t) (unat dst) (replicate (unat len) val)\<rparr>, fuel')
    | (r, fuel') \<Rightarrow> (r, t, fuel'))"
    by (simp add: fill_raw_def slice_simps split: prod.split res.split)
  show ?thesis unfolding eq eqTrueI [OF True]
    by (rule bulk_outcome_charge [OF wf]) (use True wf in simp_all)
qed (simp add: fill_raw_def slice_simps bulk_outcome_def)

lemma table_copy_outcome:
  assumes wf: "table_wf t" and ty: "tt_element (tb_ty t) = tt_element (tb_ty src)"
  shows "bulk_outcome (unat d + unat len \<le> length (tb_elements t) \<and> unat s + unat len \<le> length (tb_elements src))
    TabCopyOutOfBounds (unat len)
    (overwrite (tb_elements t) (unat d) (take (unat len) (drop (unat s) (tb_elements src))))
    t fuel (table_copy t d src s len fuel)" (is "bulk_outcome ?guard _ _ ?xs _ _ _")
proof (cases ?guard)
  case True
  with ty have eq: "table_copy t d src s len fuel = (case table_charge fuel len of
      (Ok _, fuel') \<Rightarrow> (Ok (), t\<lparr>tb_elements := ?xs\<rparr>, fuel') | (r, fuel') \<Rightarrow> (r, t, fuel'))"
    by (simp add: table_copy_def slice_simps ensure_element_type_matches_def)
  show ?thesis unfolding eq eqTrueI [OF True]
    by (rule bulk_outcome_charge [OF wf]) (use True wf in \<open>auto intro!: table_wf_overwrite\<close>)
qed (use ty in \<open>auto simp: table_copy_def slice_simps bulk_outcome_def ensure_element_type_matches_def\<close>)

lemma try_from_32_64: "(try_from (x :: u32) :: u64 option) = Some (ucast x)"
  by (simp add: try_from_Some)

lemma table_init_outcome:
  assumes wf: "table_wf t" and ty: "tt_element (tb_ty t) = es_ty e"
  shows "bulk_outcome (unat d + unat len \<le> length (tb_elements t) \<and> unat s + unat len \<le> length (es_items e))
    TabInitOutOfBounds (unat len)
    (overwrite (tb_elements t) (unat d) (take (unat len) (drop (unat s) (es_items e))))
    t fuel (table_init t e d s len fuel)" (is "bulk_outcome ?guard _ _ ?xs _ _ _")
proof (cases "len = 0 \<or> \<not> ?guard")
  case True
  with ty wf show ?thesis
    by (auto simp: table_init_def slice_simps bulk_outcome_def ensure_element_type_matches_def
        try_from_32_64 charged_for_0)
next
  case False
  then have g: ?guard by blast
  from False ty have eq: "table_init t e d s len fuel = (case table_charge fuel (ucast len) of
      (Ok _, fuel') \<Rightarrow> (Ok (), t\<lparr>tb_elements := ?xs\<rparr>, fuel') | (r, fuel') \<Rightarrow> (r, t, fuel'))"
    by (simp add: table_init_def slice_simps ensure_element_type_matches_def try_from_32_64)
  have "table_wf (t\<lparr>tb_elements := ?xs\<rparr>)" using g wf by (auto intro!: table_wf_overwrite)
  with bulk_outcome_charge [OF wf, of "ucast len" ?xs TabInitOutOfBounds fuel] g
  have "bulk_outcome True TabInitOutOfBounds (unat len) ?xs t fuel (table_init t e d s len fuel)"
    unfolding eq by simp
  with g show ?thesis by simp
qed

lemma slice_copy_within_eq:
  "s + n \<le> length xs \<Longrightarrow> d + n \<le> length xs \<Longrightarrow>
   slice_copy_within xs s (s + n) d = Some (overwrite xs d (take n (drop s xs)))"
  by (simp add: slice_copy_within_def drop_take)

lemma table_copy_within_outcome:
  assumes wf: "table_wf t"
  shows "bulk_outcome (unat d + unat len \<le> length (tb_elements t) \<and> unat s + unat len \<le> length (tb_elements t))
    TabCopyOutOfBounds (unat len)
    (overwrite (tb_elements t) (unat d) (take (unat len) (drop (unat s) (tb_elements t))))
    t fuel (table_copy_within t d s len fuel)" (is "bulk_outcome ?guard _ _ ?xs _ _ _")
proof -
  have mx: "unat (max d s) = max (unat d) (unat s)" by (simp add: max_def word_le_nat_alt)
  have guard: "(case checked_add (max d s) len of None \<Rightarrow> False | Some off \<Rightarrow> off \<le> table_size t) \<longleftrightarrow> ?guard"
  proof (cases "checked_add (max d s) len")
    case None
    then have "2 ^ 64 \<le> max (unat d) (unat s) + unat len" by (simp add: checked_add_None mx)
    with None table_wf_length [OF wf] show ?thesis by (auto simp: max_def split: if_splits)
  next
    case (Some off)
    then have "unat off = max (unat d) (unat s) + unat len" by (simp add: checked_add_Some mx)
    with Some table_wf_size [OF wf] show ?thesis by (simp add: word_le_nat_alt) linarith
  qed
  show ?thesis
  proof (cases ?guard)
    case True
    have "unat s + unat len < 2 ^ 64" using True table_wf_length [OF wf] by simp
    then have "unat (s + len) = unat s + unat len" by (simp add: unat_word_ariths)
    with True guard have eq: "table_copy_within t d s len fuel = (case table_charge fuel len of
        (Ok _, fuel') \<Rightarrow> (Ok (), t\<lparr>tb_elements := ?xs\<rparr>, fuel') | (r, fuel') \<Rightarrow> (r, t, fuel'))"
      by (simp add: table_copy_within_def Let_def slice_copy_within_eq split: prod.split res.split)
    show ?thesis unfolding eq eqTrueI [OF True]
      by (rule bulk_outcome_charge [OF wf]) (use True wf in \<open>auto intro!: table_wf_overwrite\<close>)
  next
    case False
    with guard show ?thesis by (simp add: table_copy_within_def Let_def bulk_outcome_def)
  qed
qed

text \<open>
  C15: \<open>table.copy\<close> within one table implements the specification's element-wise copy: if both ranges
  lie in the table, the result is that of copying the elements one by one, upwards if the destination
  is not above the source and downwards otherwise, and the fuel for \<open>len\<close> elements is charged; with
  too little fuel, or a range out of bounds, nothing changes and the error says which.
\<close>

theorem table_copy_within_elementwise:
  assumes "table_wf t"
  shows "bulk_outcome (unat d + unat len \<le> length (tb_elements t) \<and> unat s + unat len \<le> length (tb_elements t))
    TabCopyOutOfBounds (unat len)
    (if d \<le> s then copy_forward (tb_elements t) (unat d) (unat s) (unat len)
     else copy_backward (tb_elements t) (unat d) (unat s) (unat len))
    t fuel (table_copy_within t d s len fuel)" (is "bulk_outcome ?guard _ _ _ _ _ _")
proof (cases ?guard)
  case True
  then have "(if d \<le> s then copy_forward (tb_elements t) (unat d) (unat s) (unat len)
     else copy_backward (tb_elements t) (unat d) (unat s) (unat len)) =
    overwrite (tb_elements t) (unat d) (take (unat len) (drop (unat s) (tb_elements t)))"
    by (simp add: copy_forward_overwrite copy_backward_overwrite word_le_nat_alt)
  with table_copy_within_outcome [OF assms] show ?thesis by simp
next
  case False
  then have "?guard = False" by blast
  with table_copy_within_outcome [OF assms, of d len s fuel] show ?thesis
    by (simp only: bulk_outcome_def if_False)
qed

definition example_table :: table where
  "example_table = \<lparr>tb_ty = \<lparr>tt_element = RFunc, tt_min = 0, tt_max = Some 8, tt_index_ty = Index32\<rparr>,
     tb_elements = [1, 2, 3, 4], tb_capacity = 4\<rparr>"

lemma example_table_wf: "table_wf example_table"
  by (simp add: table_wf_def example_table_def tt_wf_def tt_admits_def raw_ref_size_def isize_max_def)

theorem table_copy_within_elementwise_witness:
  "bulk_outcome True TabCopyOutOfBounds 3 [1, 1, 2, 3] example_table None
     (table_copy_within example_table 1 0 3 None)"
proof -
  have "copy_backward [1, 2, 3, 4 :: raw_ref] 1 0 3 = [1, 1, 2, 3]" by (simp add: eval_nat_numeral)
  with table_copy_within_elementwise [OF example_table_wf, of 1 3 0 None] show ?thesis
    by (simp add: example_table_def)
qed



text \<open>
  Reading a table element after writing one: a write in bounds with a reference of the table's
  element type is seen by a read at the same index and no other, keeps size and type; every other
  write is an error without effect.
\<close>

theorem table_set_get:
  assumes "table_wf t"
  shows "case table_set t i v of
      (Ok _, t') \<Rightarrow> unat i < length (tb_elements t) \<and> tr_ty v = tt_element (tb_ty t) \<and> table_wf t'
        \<and> tb_ty t' = tb_ty t \<and> table_size t' = table_size t
        \<and> table_get t' j = (if j = i then Some v else table_get t j)
    | (Err e, t') \<Rightarrow> t' = t \<and> (if tr_ty v \<noteq> tt_element (tb_ty t) then e = TabElementTypeMismatch
        else e = TabSetOutOfBounds \<and> table_get t i = None)
    | (Panic, _) \<Rightarrow> False"
  using assms
  by (auto simp: table_set_def unwrap_typed_def ensure_element_type_matches_def set_raw_def get_opt_def
      table_get_def table_wf_def table_size_def nth_list_update word_unat_eq_iff)

theorem table_set_get_witness:
  "case table_set example_table 2 \<lparr>tr_raw = 9, tr_ty = RFunc\<rparr> of
     (Ok _, t') \<Rightarrow> table_get t' 2 = Some \<lparr>tr_raw = 9, tr_ty = RFunc\<rparr> | _ \<Rightarrow> False"
proof -
  have "is_ok (fst (table_set example_table 2 \<lparr>tr_raw = 9, tr_ty = RFunc\<rparr>))"
    by (simp add: table_set_def unwrap_typed_def ensure_element_type_matches_def set_raw_def get_opt_def
        example_table_def)
  with table_set_get [OF example_table_wf, of 2 "\<lparr>tr_raw = 9, tr_ty = RFunc\<rparr>" 2] show ?thesis
    by (auto simp: is_ok_iff split: prod.splits res.splits)
qed

subsection \<open>Growing\<close>

definition table_grown_by :: "nat \<Rightarrow> raw_ref \<Rightarrow> table \<Rightarrow> table \<Rightarrow> bool" where
  "table_grown_by n init t t' \<longleftrightarrow> tb_ty t' = tb_ty t \<and> table_wf t'
     \<and> tb_elements t' = tb_elements t @ replicate n init"

definition table_growth_in_bounds :: "table \<Rightarrow> nat \<Rightarrow> bool" where
  "table_growth_in_bounds t n \<longleftrightarrow>
     length (tb_elements t) + n < unat (index_max_size (tt_index_ty (tb_ty t)))
     \<and> tt_admits (tb_ty t) (length (tb_elements t) + n)"

lemma table_grow_allowed_cases:
  fixes alloc :: allocator and cur :: u64 and fuel :: "fuel option" and lim :: "'l limiter_ref"
  assumes wf: "table_wf t" and gb: "table_growth_in_bounds t (unat delta)"
    and d: "unat desired = length (tb_elements t) + unat delta"
    and res: "res = table_grow_allowed alloc t delta delta desired init fuel lim"
  obtains (ok) t' fuel' where "res = (Ok (table_size t), t', fuel', lim)"
      "table_grown_by (unat delta) init t t'" "4 * unat delta < 2 ^ 64 \<Longrightarrow> charged_for (4 * unat delta) fuel fuel'"
  | (fail) e fuel' where "res = (case notify_table_grow_failed lim e of (r, lim') \<Rightarrow> (r, t, fuel', lim'))"
proof -
  let ?cap = "try_reserve alloc raw_ref_size (length (tb_elements t)) (tb_capacity t) (unat delta)"
  let ?t = "\<lambda>cap. t\<lparr>tb_elements := tb_elements t @ replicate (unat delta) init, tb_capacity := cap\<rparr>"
  let ?reserve = "\<lambda>fuel :: fuel option. case ?cap of
      None \<Rightarrow> (case notify_table_grow_failed lim TabOutOfSystemMemory of (r, lim') \<Rightarrow> (r, t, fuel, lim'))
    | Some cap \<Rightarrow> (Ok (table_size t), ?t cap, fuel, lim)"
  have grown: "table_grown_by (unat delta) init t (?t cap)" if "?cap = Some cap" for cap
    using try_reserve_Some [OF that] wf gb
    by (auto simp: table_grown_by_def table_wf_def table_growth_in_bounds_def)
  have go: thesis if "res = ?reserve fuel'" "4 * unat delta < 2 ^ 64 \<Longrightarrow> charged_for (4 * unat delta) fuel fuel'" for fuel'
  proof (cases ?cap)
    case None
    with that(1) show thesis by (intro fail [of fuel' TabOutOfSystemMemory]) simp
  next
    case (Some cap)
    with that grown [OF Some] show thesis by (intro ok [of "?t cap" fuel']) simp_all
  qed
  show thesis
  proof (cases fuel)
    case None
    with d show thesis
      by (intro go [of None]) (simp_all add: res table_grow_allowed_def Let_def charged_for_def split: option.split)
  next
    case (Some f)
    let ?sel = "\<lambda>c. fuel_for_copying_values c (of_nat raw_ref_size) delta"
    show thesis
    proof (cases "enabled f")
      case False
      with Some d show thesis
        by (intro go [of fuel])
          (simp_all add: res table_grow_allowed_def Let_def consume_fuel_disabled charged_for_def
            split: option.split)
    next
      case True
      show thesis
      proof (rule consume_fuel_unchecked_cases [of f "?sel (costs f)"])
        fix r assume "consume_fuel_unchecked f (?sel (costs f)) = (Ok r, f\<lparr>remaining := r\<rparr>)"
          "unat (remaining f) = unat (?sel (costs f)) + unat r"
        with Some True d show thesis
          by (intro go [of "Some (f\<lparr>remaining := r\<rparr>)"])
            (auto simp: res table_grow_allowed_def Let_def consume_fuel_eq_if charged_for_def raw_ref_fuel
              split: option.split)
      next
        assume "consume_fuel_unchecked f (?sel (costs f)) = (Err (OutOfFuel (?sel (costs f))), f)"
        with Some True show thesis
          by (intro fail [of "Some f" "TabOutOfFuel (?sel (costs f))"])
            (simp add: res table_grow_allowed_def Let_def consume_fuel_eq_if)
      qed
    qed
  qed
qed

fun table_denial :: "(limiter_error, bool) res option \<Rightarrow> (table_error, u64) res option" where
  "table_denial None = None"
| "table_denial (Some (Ok True)) = None"
| "table_denial (Some (Ok False)) = Some (Err TabGrowOutOfBounds)"
| "table_denial (Some (Err e)) = Some (Err (table_error_of_limiter e))"
| "table_denial (Some Panic) = Some Panic"

lemma table_denial_not_Ok: "table_denial r = Some q \<Longrightarrow> q \<noteq> Ok x"
  by (cases r rule: table_denial.cases) auto

lemma grow_raw_eq:
  assumes wf: "table_wf t" and nz: "delta \<noteq> 0"
  defines "n \<equiv> length (tb_elements t) + unat delta"
  shows "grow_raw alloc t delta init fuel lim =
    (if n < unat (index_max_size (tt_index_ty (tb_ty t)))
     then (case ask_table_growing lim (table_size t) (of_nat n) (tt_max (tb_ty t)) of (r, lim') \<Rightarrow>
        (case table_denial r of
           Some e \<Rightarrow> (e, t, fuel, lim')
         | None \<Rightarrow>
             if tt_admits (tb_ty t) n
             then table_grow_allowed alloc t delta delta (of_nat n) init fuel lim'
             else (case notify_table_grow_failed lim' TabGrowOutOfBounds of
                     (r, lim') \<Rightarrow> (r, t, fuel, lim'))))
     else (Err TabGrowOutOfBounds, t, fuel, lim))"
proof (cases "checked_add (table_size t) delta")
  case None
  then have "2 ^ 64 \<le> n" by (simp add: checked_add_None n_def table_wf_size [OF wf])
  with index_max_size_le [of "tt_index_ty (tb_ty t)"] None nz show ?thesis by (simp add: grow_raw_def)
next
  case (Some d)
  then have d: "unat d = n" by (simp add: checked_add_Some n_def table_wf_size [OF wf])
  then have d': "d = of_nat n" by (simp flip: d)
  have mn: "unat (tt_min (tb_ty t)) \<le> n" using wf by (simp add: table_wf_def tt_admits_def n_def)
  have bind: "Option.bind mx try_from = mx" for mx :: "u64 option" by (cases mx) simp_all
  have adm: "tt_admits (tb_ty t) n \<longleftrightarrow>
      \<not> (case tt_max (tb_ty t) of None \<Rightarrow> False | Some mx \<Rightarrow> of_nat n > mx)"
    using mn by (auto simp: tt_admits_def word_less_nat_alt d [unfolded d'] split: option.split)
  have ov: "\<not> (case mx of None \<Rightarrow> False | Some m \<Rightarrow> (try_from m :: usize option) = None)"
    for mx :: "u64 option" by (simp split: option.split)
  show ?thesis
  proof (cases "n < unat (index_max_size (tt_index_ty (tb_ty t)))")
    case True
    then have "\<not> (ucast d :: u128) \<ge> index_max_size (tt_index_ty (tb_ty t))"
      by (simp add: word_le_nat_alt d)
    with True Some nz ov [of "tt_max (tb_ty t)"] show ?thesis
      by (simp add: grow_raw_def Let_def bind d' adm table_size_def
          split: prod.split option.split res.split bool.split)
  next
    case False
    then have "(ucast d :: u128) \<ge> index_max_size (tt_index_ty (tb_ty t))"
      by (simp add: word_le_nat_alt d)
    with False Some nz show ?thesis by (simp add: grow_raw_def)
  qed
qed

lemma table_growth_desired:
  assumes "table_wf t" "length (tb_elements t) + unat delta < unat (index_max_size (tt_index_ty (tb_ty t)))"
  shows "unat (of_nat (length (tb_elements t) + unat delta) :: usize) = length (tb_elements t) + unat delta"
  using assms(2) index_max_size_le [of "tt_index_ty (tb_ty t)"]
  by (simp add: unat_of_nat take_bit_nat_eq_self del: of_nat_add)

lemma grow_raw_cases:
  fixes lim :: "'l limiter_ref"
  assumes wf: "table_wf t"
  obtains (ok) t' fuel' lim' where "grow_raw alloc t delta init fuel lim = (Ok (table_size t), t', fuel', lim')"
      "table_grown_by (unat delta) init t t'" "charged_for (4 * unat delta) fuel fuel'"
  | (err) r fuel' lim' where "grow_raw alloc t delta init fuel lim = (r, t, fuel', lim')" "\<forall>x. r \<noteq> Ok x"
proof (cases "delta = 0")
  case True
  with wf show thesis
    by (intro ok [of t fuel lim]) (simp_all add: grow_raw_def table_grown_by_def charged_for_0)
next
  case nz: False
  let ?n = "length (tb_elements t) + unat delta"
  note eq = grow_raw_eq [OF wf nz, of alloc init fuel lim]
  show thesis
  proof (cases "?n < unat (index_max_size (tt_index_ty (tb_ty t)))")
    case lt: True
    obtain r lim' where ask: "ask_table_growing lim (table_size t) (of_nat ?n) (tt_max (tb_ty t)) = (r, lim')"
      by fastforce
    note eq' = eq [unfolded ask, simplified lt, simplified]
    show thesis
    proof (cases "table_denial r")
      case (Some q)
      with eq' table_denial_not_Ok [OF Some] show thesis by (intro err [of q fuel lim']) simp_all
    next
      case None
      show thesis
      proof (cases "tt_admits (tb_ty t) ?n")
        case False
        with eq' None show thesis
          by (cases "notify_table_grow_failed lim' TabGrowOutOfBounds :: (table_error, u64) res \<times> 'l limiter_ref")
            (auto intro!: err)
      next
        case True
        with lt have gb: "table_growth_in_bounds t (unat delta)" by (simp add: table_growth_in_bounds_def)
        show thesis
        proof (rule table_grow_allowed_cases [OF wf gb table_growth_desired [OF wf lt] refl, of alloc init fuel lim'])
          fix t' fuel' assume "table_grow_allowed alloc t delta delta (of_nat ?n) init fuel lim' =
              (Ok (table_size t), t', fuel', lim')" and t': "table_grown_by (unat delta) init t t'"
            and c: "4 * unat delta < 2 ^ 64 \<Longrightarrow> charged_for (4 * unat delta) fuel fuel'"
          moreover have "4 * unat delta < 2 ^ 64"
            using table_wf_length [of t'] t' by (simp add: table_grown_by_def)
          ultimately show thesis using eq' None True by (intro ok [of t' fuel' lim']) simp_all
        next
          fix e fuel' assume "table_grow_allowed alloc t delta delta (of_nat ?n) init fuel lim' =
              (case notify_table_grow_failed lim' e of (r, l) \<Rightarrow> (r, t, fuel', l))"
          with eq' None True show thesis
            by (cases "notify_table_grow_failed lim' e :: (table_error, u64) res \<times> 'l limiter_ref")
              (auto intro!: err)
        qed
      qed
    qed
  next
    case False
    with eq show thesis by (intro err [of "Err TabGrowOutOfBounds" fuel lim]) simp_all
  qed
qed

text \<open>
  C22: Growing a well-formed table. On success the old size is returned, the new elements are copies
  of the initial value appended to the old elements, the type is unchanged, the table is well-formed
  (in particular within its maximum) and the fuel for the new elements is charged. On an error or
  panic, or if the initial value has another type, the table is unchanged.
\<close>

theorem table_grow_correct:
  assumes wf: "table_wf t"
  shows "case table_grow alloc t delta init fuel lim of (r, t', fuel', lim') \<Rightarrow>
    table_wf t' \<and> tb_ty t' = tb_ty t \<and>
    (case r of
       Ok old \<Rightarrow> old = table_size t \<and> tr_ty init = tt_element (tb_ty t)
         \<and> tb_elements t' = tb_elements t @ replicate (unat delta) (tr_raw init)
         \<and> charged_for (4 * unat delta) fuel fuel'
     | _ \<Rightarrow> t' = t)"
proof (cases "tr_ty init = tt_element (tb_ty t)")
  case True
  then have eq: "table_grow alloc t delta init fuel lim = grow_raw alloc t delta (tr_raw init) fuel lim"
    by (simp add: table_grow_def unwrap_typed_def ensure_element_type_matches_def)
  show ?thesis unfolding eq
    by (rule grow_raw_cases [OF wf, of alloc delta "tr_raw init" fuel lim])
      (use True wf in \<open>auto simp: table_grown_by_def split: res.split\<close>)
next
  case False
  with wf show ?thesis by (simp add: table_grow_def unwrap_typed_def ensure_element_type_matches_def)
qed

theorem table_grow_correct_witness:
  "case table_grow (\<lambda>n. n < 100) example_table 2 \<lparr>tr_raw = 7, tr_ty = RFunc\<rparr> None
      (None :: store_limits limiter_ref) of (r, t', fuel', lim') \<Rightarrow>
    table_wf t' \<and> tb_ty t' = tb_ty example_table \<and>
    (case r of
       Ok old \<Rightarrow> old = table_size example_table \<and> RFunc = tt_element (tb_ty example_table)
         \<and> tb_elements t' = tb_elements example_table @ replicate (unat (2 :: u64)) 7
         \<and> charged_for (4 * unat (2 :: u64)) None fuel'
     | _ \<Rightarrow> t' = example_table)"
  using table_grow_correct [OF example_table_wf, where alloc = "\<lambda>n. n < 100" and delta = 2
      and init = "\<lparr>tr_raw = 7, tr_ty = RFunc\<rparr>" and fuel = None and lim = "None :: store_limits limiter_ref"]
  by (auto split: prod.splits res.splits)

lemma table_dynamic_ty_ok:
  assumes "table_wf t"
  shows "table_dynamic_ty t = Ok ((tb_ty t)\<lparr>tt_min := table_size t\<rparr>)"
    "tt_is_subtype_of ((tb_ty t)\<lparr>tt_min := table_size t\<rparr>) (tb_ty t)"
proof -
  have "tt_wf ((tb_ty t)\<lparr>tt_min := table_size t\<rparr>)"
    using assms table_wf_size [OF assms]
    by (auto simp: table_wf_def tt_wf_def tt_admits_def word_le_nat_alt split: option.splits)
  then show "table_dynamic_ty t = Ok ((tb_ty t)\<lparr>tt_min := table_size t\<rparr>)"
    by (cases "tb_ty t") (simp add: table_dynamic_ty_def tt_new_impl_wf Let_def)
  show "tt_is_subtype_of ((tb_ty t)\<lparr>tt_min := table_size t\<rparr>) (tb_ty t)"
    using assms table_wf_size [OF assms]
    by (auto simp: tt_is_subtype_of_def tt_is_64_def table_wf_def tt_admits_def word_less_nat_alt
        split: option.splits)
qed

subsection \<open>Growing under a limiter\<close>

context growth_limiter
begin

lemma grow_raw_limited:
  assumes wf: "table_wf t" and b: "within (tab_bound l) (table_size t)"
    and eq: "grow_raw alloc t delta init fuel (Some (vt, l)) = (r, t', fuel', lim')"
  obtains l' where "lim' = Some (vt, l')" "tab_bound l' = tab_bound l" "r \<noteq> Panic"
    "within (tab_bound l) (table_size t')"
proof (cases "delta = 0 \<or> \<not> length (tb_elements t) + unat delta < unat (index_max_size (tt_index_ty (tb_ty t)))")
  case True
  with eq b show thesis
    using grow_raw_eq [OF wf, of delta alloc init fuel "Some (vt, l)"]
    by (cases "delta = 0") (auto simp: grow_raw_def intro!: that [of l])
next
  case False
  let ?n = "length (tb_elements t) + unat delta"
  from False have nz: "delta \<noteq> 0" and lt: "?n < unat (index_max_size (tt_index_ty (tb_ty t)))" by simp_all
  obtain q lim1 where ask: "ask_table_growing (Some (vt, l)) (table_size t) (of_nat ?n) (tt_max (tb_ty t)) = (q, lim1)"
    by fastforce
  then obtain q' l1 where q: "q = Some q'" "lim1 = Some (vt, l1)" "q' \<noteq> Panic"
    "q' = Ok True \<longrightarrow> within (tab_bound l) (of_nat ?n)" "mem_bound l1 = mem_bound l" "tab_bound l1 = tab_bound l"
    by (rule ask_table_law)
  note result = that
  have notify: thesis if "(case notify_table_grow_failed lim1 e of (r, l) \<Rightarrow> (r, t, f, l)) = (r, t', fuel', lim')" for e f
  proof -
    obtain x :: "(table_error, u64) res" and l2 where n: "notify_table_grow_failed (Some (vt, l1)) e = (x, l2)"
      by fastforce
    from n obtain e' l3 where "x = Err e'" "l2 = Some (vt, l3)" "tab_bound l3 = tab_bound l1"
      by (rule notify_table_law)
    with n q b that show thesis by (intro result [of l3]) auto
  qed
  note eq' = eq [unfolded grow_raw_eq [OF wf nz] ask, simplified lt, simplified]
  show thesis
  proof (cases "table_denial q")
    case (Some x)
    then have "x \<noteq> Panic" using q by (cases q rule: table_denial.cases) auto
    with eq' Some q b show thesis by (intro that [of l1]) auto
  next
    case None
    then have ok: "within (tab_bound l) (of_nat ?n)" using q by (cases q rule: table_denial.cases) auto
    show thesis
    proof (cases "tt_admits (tb_ty t) ?n")
      case False
      with eq' None notify show thesis by simp
    next
      case True
      with lt have gb: "table_growth_in_bounds t (unat delta)" by (simp add: table_growth_in_bounds_def)
      show thesis
      proof (rule table_grow_allowed_cases [OF wf gb table_growth_desired [OF wf lt] refl, of alloc init fuel lim1])
        fix t2 f2 assume "table_grow_allowed alloc t delta delta (of_nat ?n) init fuel lim1 =
            (Ok (table_size t), t2, f2, lim1)" and g: "table_grown_by (unat delta) init t t2"
        moreover from g have "table_size t2 = of_nat ?n" by (simp add: table_grown_by_def table_size_def)
        ultimately show thesis using eq' None True q ok by (intro that [of l1]) (auto simp del: of_nat_add)
      qed (use eq' None True notify in auto)
    qed
  qed
qed

end

text \<open>
  Under \<open>StoreLimits\<close>, growing a table that respects the limit on table elements never panics,
  and the table respects the limit afterwards, whatever the outcome; the limiter keeps its limits.
\<close>

theorem store_limits_bound_table:
  assumes "table_wf t" "within (sl_table_elements l) (table_size t)"
  shows "case grow_raw alloc t delta init fuel (Some (StoreLimits, l)) of (r, t', _, lim') \<Rightarrow>
    r \<noteq> Panic \<and> within (sl_table_elements l) (table_size t')
    \<and> (\<exists>l'. lim' = Some (StoreLimits, l') \<and> sl_table_elements l' = sl_table_elements l)"
proof -
  obtain r t' fuel' lim' where eq: "grow_raw alloc t delta init fuel (Some (StoreLimits, l)) = (r, t', fuel', lim')"
    by (metis surj_pair)
  from assms eq obtain l' where "lim' = Some (StoreLimits, l')"
    "sl_table_elements l' = sl_table_elements l" "r \<noteq> Panic" "within (sl_table_elements l) (table_size t')"
    by (rule limits.grow_raw_limited)
  with eq show ?thesis by simp
qed

theorem store_limits_bound_table_witness:
  "case grow_raw (\<lambda>n. n < 100) example_table 3 0 None
      (Some (StoreLimits, builder_table_elements builder_new 5)) of (r, t', _, lim') \<Rightarrow>
    r \<noteq> Panic \<and> within (Some 5) (table_size t')"
  using store_limits_bound_table [OF example_table_wf, of "builder_table_elements builder_new 5"
      "\<lambda>n. n < 100" 3 0 None]
  by (auto simp: builder_table_elements_def within_def example_table_def table_size_def split: prod.splits)

end
