(* ===== verification/Wasm_Integers.thy ===== *)
theory Wasm_Integers
  imports Traps "HOL-Library.Signed_Division"
begin

unbundle bit_operations_syntax

section \<open>Integer instructions (crates/core/src/value.rs, wasm.rs, shift_amount.rs)\<close>

text \<open>
  The integer operations of WebAssembly. The trait \<open>Integer\<close> is implemented by one macro for \<open>i32\<close>
  and \<open>i64\<close>: its methods are polymorphic in the width here, and the instructions of \<open>wasm.rs\<close> are
  their instances. A value is a word; the signed reading is \<open>sint\<close>. The methods of the primitive
  types (\<open>overflowing_div\<close>, \<open>wrapping_shl\<close>, \<open>rotate_left\<close>, \<open>leading_zeros\<close>) are defined as the
  Rust standard library documents them. The lemmas relate each instruction to arithmetic on
  unbounded integers, as the WebAssembly specification states it.
\<close>

subsection \<open>Methods of the primitive integers\<close>

definition min_signed :: "'a::len word" where
  "min_signed = push_bit (LENGTH('a) - 1) 1"

definition overflowing_div_s :: "'a::len word \<Rightarrow> 'a word \<Rightarrow> 'a word \<times> bool" where
  "overflowing_div_s a b =
     (if a = min_signed \<and> b = - 1 then (a, True)
      else (word_of_int (sint a sdiv sint b), False))"

definition overflowing_div_u :: "'a::len word \<Rightarrow> 'a word \<Rightarrow> 'a word \<times> bool" where
  "overflowing_div_u a b = (a div b, False)"

definition wrapping_rem_s :: "'a::len word \<Rightarrow> 'a word \<Rightarrow> 'a word" where
  "wrapping_rem_s a b =
     (if a = min_signed \<and> b = - 1 then 0 else word_of_int (sint a smod sint b))"

definition wrapping_shl :: "'a::len word \<Rightarrow> u32 \<Rightarrow> 'a word" where
  "wrapping_shl a n = push_bit (unat n mod LENGTH('a)) a"

definition wrapping_shr_s :: "'a::len word \<Rightarrow> u32 \<Rightarrow> 'a word" where
  "wrapping_shr_s a n = signed_drop_bit (unat n mod LENGTH('a)) a"

definition wrapping_shr_u :: "'a::len word \<Rightarrow> u32 \<Rightarrow> 'a word" where
  "wrapping_shr_u a n = drop_bit (unat n mod LENGTH('a)) a"

definition prim_leading_zeros :: "'a::len word \<Rightarrow> u32" where
  "prim_leading_zeros a = of_nat (length (takeWhile (\<lambda>i. \<not> bit a i) (rev [0..<LENGTH('a)])))"

definition prim_trailing_zeros :: "'a::len word \<Rightarrow> u32" where
  "prim_trailing_zeros a = of_nat (length (takeWhile (\<lambda>i. \<not> bit a i) [0..<LENGTH('a)]))"

definition prim_count_ones :: "'a::len word \<Rightarrow> u32" where
  "prim_count_ones a = of_nat (length (filter (\<lambda>i. bit a i) [0..<LENGTH('a)]))"

subsection \<open>The trait \<open>Integer\<close>\<close>

definition Integer_is_zero :: "'a::len word \<Rightarrow> bool" where
  "Integer_is_zero a \<longleftrightarrow> a = 0"

definition Integer_leading_zeros :: "'a::len word \<Rightarrow> 'a word" where
  "Integer_leading_zeros a = ucast (prim_leading_zeros a)"

definition Integer_trailing_zeros :: "'a::len word \<Rightarrow> 'a word" where
  "Integer_trailing_zeros a = ucast (prim_trailing_zeros a)"

definition Integer_count_ones :: "'a::len word \<Rightarrow> 'a word" where
  "Integer_count_ones a = ucast (prim_count_ones a)"

definition Integer_shl :: "'a::len word \<Rightarrow> 'a word \<Rightarrow> 'a word" where
  "Integer_shl a b = wrapping_shl a (ucast b)"

definition Integer_shr_s :: "'a::len word \<Rightarrow> 'a word \<Rightarrow> 'a word" where
  "Integer_shr_s a b = wrapping_shr_s a (ucast b)"

definition Integer_shr_u :: "'a::len word \<Rightarrow> 'a word \<Rightarrow> 'a word" where
  "Integer_shr_u a b = wrapping_shr_u a (ucast b)"

definition Integer_rotl :: "'a::len word \<Rightarrow> 'a word \<Rightarrow> 'a word" where
  "Integer_rotl a b = word_rotl (unat (ucast b :: u32)) a"

definition Integer_rotr :: "'a::len word \<Rightarrow> 'a word \<Rightarrow> 'a word" where
  "Integer_rotr a b = word_rotr (unat (ucast b :: u32)) a"

definition Integer_div_s :: "'a::len word \<Rightarrow> 'a word \<Rightarrow> (trap_code, 'a word) res" where
  "Integer_div_s lhs rhs =
     (if rhs = 0 then Err TrapIntegerDivisionByZero
      else case overflowing_div_s lhs rhs of (result, overflow) \<Rightarrow>
        if overflow then Err TrapIntegerOverflow else Ok result)"

definition Integer_div_u :: "'a::len word \<Rightarrow> 'a word \<Rightarrow> (trap_code, 'a word) res" where
  "Integer_div_u lhs rhs =
     (if rhs = 0 then Err TrapIntegerDivisionByZero
      else case overflowing_div_u lhs rhs of (result, overflow) \<Rightarrow>
        if overflow then Err TrapIntegerOverflow else Ok result)"

definition Integer_rem_s :: "'a::len word \<Rightarrow> 'a word \<Rightarrow> (trap_code, 'a word) res" where
  "Integer_rem_s lhs rhs =
     (if rhs = 0 then Err TrapIntegerDivisionByZero else Ok (wrapping_rem_s lhs rhs))"

definition Integer_rem_u :: "'a::len word \<Rightarrow> 'a word \<Rightarrow> (trap_code, 'a word) res" where
  "Integer_rem_u lhs rhs =
     (if rhs = 0 then Err TrapIntegerDivisionByZero else Ok (lhs mod rhs))"

subsection \<open>Instructions\<close>

definition i32_add :: "u32 \<Rightarrow> u32 \<Rightarrow> u32" where
  "i32_add lhs rhs = lhs + rhs"

definition i64_add :: "u64 \<Rightarrow> u64 \<Rightarrow> u64" where
  "i64_add lhs rhs = lhs + rhs"

definition i32_sub :: "u32 \<Rightarrow> u32 \<Rightarrow> u32" where
  "i32_sub lhs rhs = lhs - rhs"

definition i64_sub :: "u64 \<Rightarrow> u64 \<Rightarrow> u64" where
  "i64_sub lhs rhs = lhs - rhs"

definition i32_mul :: "u32 \<Rightarrow> u32 \<Rightarrow> u32" where
  "i32_mul lhs rhs = lhs * rhs"

definition i64_mul :: "u64 \<Rightarrow> u64 \<Rightarrow> u64" where
  "i64_mul lhs rhs = lhs * rhs"

definition i32_bitand :: "u32 \<Rightarrow> u32 \<Rightarrow> u32" where
  "i32_bitand lhs rhs = lhs AND rhs"

definition i64_bitand :: "u64 \<Rightarrow> u64 \<Rightarrow> u64" where
  "i64_bitand lhs rhs = lhs AND rhs"

definition i32_bitor :: "u32 \<Rightarrow> u32 \<Rightarrow> u32" where
  "i32_bitor lhs rhs = lhs OR rhs"

definition i64_bitor :: "u64 \<Rightarrow> u64 \<Rightarrow> u64" where
  "i64_bitor lhs rhs = lhs OR rhs"

definition i32_bitxor :: "u32 \<Rightarrow> u32 \<Rightarrow> u32" where
  "i32_bitxor lhs rhs = lhs XOR rhs"

definition i64_bitxor :: "u64 \<Rightarrow> u64 \<Rightarrow> u64" where
  "i64_bitxor lhs rhs = lhs XOR rhs"

definition i32_shl :: "u32 \<Rightarrow> u32 \<Rightarrow> u32" where
  "i32_shl lhs rhs = Integer_shl lhs rhs"

definition i64_shl :: "u64 \<Rightarrow> u64 \<Rightarrow> u64" where
  "i64_shl lhs rhs = Integer_shl lhs rhs"

definition i32_shr_s :: "u32 \<Rightarrow> u32 \<Rightarrow> u32" where
  "i32_shr_s lhs rhs = Integer_shr_s lhs rhs"

definition i64_shr_s :: "u64 \<Rightarrow> u64 \<Rightarrow> u64" where
  "i64_shr_s lhs rhs = Integer_shr_s lhs rhs"

definition i32_shr_u :: "u32 \<Rightarrow> u32 \<Rightarrow> u32" where
  "i32_shr_u lhs rhs = Integer_shr_u lhs rhs"

definition i64_shr_u :: "u64 \<Rightarrow> u64 \<Rightarrow> u64" where
  "i64_shr_u lhs rhs = Integer_shr_u lhs rhs"

definition i32_rotl :: "u32 \<Rightarrow> u32 \<Rightarrow> u32" where
  "i32_rotl lhs rhs = Integer_rotl lhs rhs"

definition i64_rotl :: "u64 \<Rightarrow> u64 \<Rightarrow> u64" where
  "i64_rotl lhs rhs = Integer_rotl lhs rhs"

definition i32_rotr :: "u32 \<Rightarrow> u32 \<Rightarrow> u32" where
  "i32_rotr lhs rhs = Integer_rotr lhs rhs"

definition i64_rotr :: "u64 \<Rightarrow> u64 \<Rightarrow> u64" where
  "i64_rotr lhs rhs = Integer_rotr lhs rhs"

definition i32_div_s :: "u32 \<Rightarrow> u32 \<Rightarrow> (trap_code, u32) res" where
  "i32_div_s lhs rhs = Integer_div_s lhs rhs"

definition i64_div_s :: "u64 \<Rightarrow> u64 \<Rightarrow> (trap_code, u64) res" where
  "i64_div_s lhs rhs = Integer_div_s lhs rhs"

definition i32_div_u :: "u32 \<Rightarrow> u32 \<Rightarrow> (trap_code, u32) res" where
  "i32_div_u lhs rhs = Integer_div_u lhs rhs"

definition i64_div_u :: "u64 \<Rightarrow> u64 \<Rightarrow> (trap_code, u64) res" where
  "i64_div_u lhs rhs = Integer_div_u lhs rhs"

definition i32_rem_s :: "u32 \<Rightarrow> u32 \<Rightarrow> (trap_code, u32) res" where
  "i32_rem_s lhs rhs = Integer_rem_s lhs rhs"

definition i64_rem_s :: "u64 \<Rightarrow> u64 \<Rightarrow> (trap_code, u64) res" where
  "i64_rem_s lhs rhs = Integer_rem_s lhs rhs"

definition i32_rem_u :: "u32 \<Rightarrow> u32 \<Rightarrow> (trap_code, u32) res" where
  "i32_rem_u lhs rhs = Integer_rem_u lhs rhs"

definition i64_rem_u :: "u64 \<Rightarrow> u64 \<Rightarrow> (trap_code, u64) res" where
  "i64_rem_u lhs rhs = Integer_rem_u lhs rhs"

definition i32_clz :: "u32 \<Rightarrow> u32" where
  "i32_clz v = Integer_leading_zeros v"

definition i64_clz :: "u64 \<Rightarrow> u64" where
  "i64_clz v = Integer_leading_zeros v"

definition i32_ctz :: "u32 \<Rightarrow> u32" where
  "i32_ctz v = Integer_trailing_zeros v"

definition i64_ctz :: "u64 \<Rightarrow> u64" where
  "i64_ctz v = Integer_trailing_zeros v"

definition i32_popcnt :: "u32 \<Rightarrow> u32" where
  "i32_popcnt v = Integer_count_ones v"

definition i64_popcnt :: "u64 \<Rightarrow> u64" where
  "i64_popcnt v = Integer_count_ones v"

definition i32_eqz :: "u32 \<Rightarrow> bool" where
  "i32_eqz v = Integer_is_zero v"

definition i64_eqz :: "u64 \<Rightarrow> bool" where
  "i64_eqz v = Integer_is_zero v"

definition i32_eq :: "u32 \<Rightarrow> u32 \<Rightarrow> bool" where
  "i32_eq lhs rhs = (lhs = rhs)"

definition i64_eq :: "u64 \<Rightarrow> u64 \<Rightarrow> bool" where
  "i64_eq lhs rhs = (lhs = rhs)"

definition i32_ne :: "u32 \<Rightarrow> u32 \<Rightarrow> bool" where
  "i32_ne lhs rhs = (lhs \<noteq> rhs)"

definition i64_ne :: "u64 \<Rightarrow> u64 \<Rightarrow> bool" where
  "i64_ne lhs rhs = (lhs \<noteq> rhs)"

definition i32_lt_s :: "u32 \<Rightarrow> u32 \<Rightarrow> bool" where
  "i32_lt_s lhs rhs = (sint lhs < sint rhs)"

definition i64_lt_s :: "u64 \<Rightarrow> u64 \<Rightarrow> bool" where
  "i64_lt_s lhs rhs = (sint lhs < sint rhs)"

definition i32_lt_u :: "u32 \<Rightarrow> u32 \<Rightarrow> bool" where
  "i32_lt_u lhs rhs = (lhs < rhs)"

definition i64_lt_u :: "u64 \<Rightarrow> u64 \<Rightarrow> bool" where
  "i64_lt_u lhs rhs = (lhs < rhs)"

definition i32_le_s :: "u32 \<Rightarrow> u32 \<Rightarrow> bool" where
  "i32_le_s lhs rhs = (sint lhs \<le> sint rhs)"

definition i64_le_s :: "u64 \<Rightarrow> u64 \<Rightarrow> bool" where
  "i64_le_s lhs rhs = (sint lhs \<le> sint rhs)"

definition i32_le_u :: "u32 \<Rightarrow> u32 \<Rightarrow> bool" where
  "i32_le_u lhs rhs = (lhs \<le> rhs)"

definition i64_le_u :: "u64 \<Rightarrow> u64 \<Rightarrow> bool" where
  "i64_le_u lhs rhs = (lhs \<le> rhs)"

definition i32_gt_s :: "u32 \<Rightarrow> u32 \<Rightarrow> bool" where
  "i32_gt_s lhs rhs = (sint lhs > sint rhs)"

definition i64_gt_s :: "u64 \<Rightarrow> u64 \<Rightarrow> bool" where
  "i64_gt_s lhs rhs = (sint lhs > sint rhs)"

definition i32_gt_u :: "u32 \<Rightarrow> u32 \<Rightarrow> bool" where
  "i32_gt_u lhs rhs = (lhs > rhs)"

definition i64_gt_u :: "u64 \<Rightarrow> u64 \<Rightarrow> bool" where
  "i64_gt_u lhs rhs = (lhs > rhs)"

definition i32_ge_s :: "u32 \<Rightarrow> u32 \<Rightarrow> bool" where
  "i32_ge_s lhs rhs = (sint lhs \<ge> sint rhs)"

definition i64_ge_s :: "u64 \<Rightarrow> u64 \<Rightarrow> bool" where
  "i64_ge_s lhs rhs = (sint lhs \<ge> sint rhs)"

definition i32_ge_u :: "u32 \<Rightarrow> u32 \<Rightarrow> bool" where
  "i32_ge_u lhs rhs = (lhs \<ge> rhs)"

definition i64_ge_u :: "u64 \<Rightarrow> u64 \<Rightarrow> bool" where
  "i64_ge_u lhs rhs = (lhs \<ge> rhs)"

text \<open>\<open>sign_extend_from\<close> casts to the narrow signed type and back.\<close>

definition i32_wrap_i64 :: "u64 \<Rightarrow> u32" where
  "i32_wrap_i64 v = ucast v"

definition i64_extend_i32_s :: "u32 \<Rightarrow> u64" where
  "i64_extend_i32_s v = scast v"

definition i64_extend_i32_u :: "u32 \<Rightarrow> u64" where
  "i64_extend_i32_u v = ucast v"

definition i32_extend8_s :: "u32 \<Rightarrow> u32" where
  "i32_extend8_s v = scast (ucast v :: u8)"

definition i32_extend16_s :: "u32 \<Rightarrow> u32" where
  "i32_extend16_s v = scast (ucast v :: u16)"

definition i64_extend8_s :: "u64 \<Rightarrow> u64" where
  "i64_extend8_s v = scast (ucast v :: u8)"

definition i64_extend16_s :: "u64 \<Rightarrow> u64" where
  "i64_extend16_s v = scast (ucast v :: u16)"

definition i64_extend32_s :: "u64 \<Rightarrow> u64" where
  "i64_extend32_s v = scast (ucast v :: u32)"

text \<open>The 128 bit operations of the \<open>wide-arithmetic\<close> proposal; \<open>>>\<close> on \<open>i128\<close> is arithmetic.\<close>

definition combine128 :: "u64 \<Rightarrow> u64 \<Rightarrow> u128" where
  "combine128 lo hi = push_bit 64 (ucast hi) OR ucast lo"

definition split128 :: "u128 \<Rightarrow> u64 \<times> u64" where
  "split128 v = (let hi = ucast (signed_drop_bit 64 v); lo = ucast v in (lo, hi))"

definition i64_add128 :: "u64 \<Rightarrow> u64 \<Rightarrow> u64 \<Rightarrow> u64 \<Rightarrow> u64 \<times> u64" where
  "i64_add128 lhs_lo lhs_hi rhs_lo rhs_hi =
     split128 (combine128 lhs_lo lhs_hi + combine128 rhs_lo rhs_hi)"

definition i64_sub128 :: "u64 \<Rightarrow> u64 \<Rightarrow> u64 \<Rightarrow> u64 \<Rightarrow> u64 \<times> u64" where
  "i64_sub128 lhs_lo lhs_hi rhs_lo rhs_hi =
     split128 (combine128 lhs_lo lhs_hi - combine128 rhs_lo rhs_hi)"

definition i64_mul_wide_s :: "u64 \<Rightarrow> u64 \<Rightarrow> u64 \<times> u64" where
  "i64_mul_wide_s lhs rhs = split128 ((scast lhs :: u128) * scast rhs)"

definition i64_mul_wide_u :: "u64 \<Rightarrow> u64 \<Rightarrow> u64 \<times> u64" where
  "i64_mul_wide_u lhs rhs = split128 ((ucast lhs :: u128) * ucast rhs)"

text \<open>
  Shift amounts of constant operands: \<open>checked_rem_euclid\<close> on the type's own signed or unsigned
  reading. \<open>size_of\<close> is in bytes; for a SIMD vector it is the size of a lane and the source is \<open>u32\<close>.
\<close>

definition into_shift_amount_s :: "'a::len word \<Rightarrow> u8 option" where
  "into_shift_amount_s source =
     (let len_bits = of_nat LENGTH('a) :: 'a word in
      if sint len_bits = 0 then None
      else Some (ucast (word_of_int (sint source mod \<bar>sint len_bits\<bar>) :: 'a word)))"

definition into_shift_amount_u :: "'a::len word \<Rightarrow> u8 option" where
  "into_shift_amount_u source =
     (let len_bits = of_nat LENGTH('a) :: 'a word in
      if len_bits = 0 then None else Some (ucast (source mod len_bits)))"

definition into_shift_amount_simd :: "nat \<Rightarrow> u32 \<Rightarrow> u8 option" where
  "into_shift_amount_simd lane_bits source =
     (let len_bits = of_nat lane_bits :: u32 in
      if len_bits = 0 then None else Some (ucast (source mod len_bits)))"

subsection \<open>Division and remainder\<close>

lemma sint_word_of_int_range:
  assumes "- (2 ^ (LENGTH('a) - 1)) \<le> k" "k < 2 ^ (LENGTH('a) - 1)"
  shows "sint (word_of_int k :: 'a::len word) = k"
  using assms by (simp add: signed_take_bit_int_eq_self sint_sbintrunc')

lemma min_signed_eq: "(min_signed :: 'a::len word) = word_of_int (- (2 ^ (LENGTH('a) - 1)))"
proof -
  have "(2::'a word) ^ (LENGTH('a) - 1) + 2 ^ (LENGTH('a) - 1) = 2 ^ LENGTH('a)"
    by (metis len_gt_0 mult_2 power_minus_mult mult.commute)
  then show ?thesis by (simp add: min_signed_def push_bit_eq_mult add_eq_0_iff)
qed

lemma sint_min_signed: "sint (min_signed :: 'a::len word) = - (2 ^ (LENGTH('a) - 1))"
  unfolding min_signed_eq by (rule sint_word_of_int_range) simp_all

lemma sint_eq_min_signed: "sint a = - (2 ^ (LENGTH('a) - 1)) \<longleftrightarrow> a = min_signed" for a :: "'a::len word"
  using sint_min_signed [where 'a = 'a] by (metis signed_word_eqI)

lemma sint_eq_minus_one: "sint a = - 1 \<longleftrightarrow> a = - 1" for a :: "'a::len word"
  by (metis signed_word_eqI sint_n1)

lemma sint_eq_0: "sint a = 0 \<longleftrightarrow> a = 0" for a :: "'a::len word"
  by (metis signed_word_eqI sint_0)

lemma sgn_smod:
  assumes "l \<noteq> 0" "k smod l \<noteq> (0 :: int)"
  shows "sgn (k smod l) = sgn k"
proof -
  have "0 \<le> \<bar>k\<bar> mod \<bar>l\<bar>" using assms(1) by (intro pos_mod_sign) simp
  with assms(2) show ?thesis by (auto simp: smod_int_alt_def sgn_mult sgn_if split: if_splits)
qed

lemma sdiv_range:
  fixes a b :: "'a::len word"
  assumes "b \<noteq> 0"
  shows "- (2 ^ (LENGTH('a) - 1)) \<le> sint a sdiv sint b" "sint a sdiv sint b \<le> 2 ^ (LENGTH('a) - 1)"
    "sint a sdiv sint b = 2 ^ (LENGTH('a) - 1) \<longleftrightarrow> a = min_signed \<and> b = - 1"
proof -
  let ?m = "2 ^ (LENGTH('a) - 1) :: int"
  have r: "- \<bar>sint a\<bar> \<le> sint a sdiv sint b" "sint a sdiv sint b \<le> \<bar>sint a\<bar>"
    using sdiv_int_range [of "sint a" "sint b"] by simp_all
  have a: "\<bar>sint a\<bar> \<le> ?m" using sint_ge [of a] sint_lt [of a] by simp
  from r a show "- ?m \<le> sint a sdiv sint b" "sint a sdiv sint b \<le> ?m" by linarith+
  show "sint a sdiv sint b = ?m \<longleftrightarrow> a = min_signed \<and> b = - 1"
  proof
    assume q: "sint a sdiv sint b = ?m"
    with r a have "\<bar>sint a\<bar> = ?m" by linarith
    then have am: "sint a = - ?m" using sint_lt [of a] by linarith
    with q have "sint a sdiv sint b = - sint a" by simp
    moreover have "sint a \<noteq> 0" using am by simp
    ultimately have "sint b = - 1" by simp
    with am sint_eq_min_signed [of a] show "a = min_signed \<and> b = - 1" by (simp add: sint_eq_minus_one)
  next
    assume "a = min_signed \<and> b = - 1"
    then show "sint a sdiv sint b = ?m" by (simp add: sint_min_signed)
  qed
qed

lemma Integer_div_s_cases:
  fixes a b :: "'a::len word"
  obtains (zero) "b = 0" "Integer_div_s a b = Err TrapIntegerDivisionByZero"
  | (overflow) "b \<noteq> 0" "Integer_div_s a b = Err TrapIntegerOverflow"
      "sint a sdiv sint b = 2 ^ (LENGTH('a) - 1)" "a = min_signed" "b = - 1"
  | (ok) q where "b \<noteq> 0" "Integer_div_s a b = Ok q" "sint q = sint a sdiv sint b"
      "\<not> (a = min_signed \<and> b = - 1)"
proof (cases "b = 0")
  case nz: False
  show thesis
  proof (cases "a = min_signed \<and> b = - 1")
    case True
    with nz sdiv_range(3) [OF nz, of a] show thesis
      by (intro overflow) (simp_all add: Integer_div_s_def overflowing_div_s_def)
  next
    case False
    with sdiv_range [OF nz, of a] have "sint a sdiv sint b < 2 ^ (LENGTH('a) - 1)" by linarith
    with False nz sdiv_range(1) [OF nz, of a] show thesis
      by (intro ok [of "word_of_int (sint a sdiv sint b)"] sint_word_of_int_range)
        (auto simp: Integer_div_s_def overflowing_div_s_def)
  qed
qed (intro zero, simp_all add: Integer_div_s_def)

lemma Integer_rem_s_value:
  fixes a b :: "'a::len word"
  assumes "b \<noteq> 0"
  obtains r where "Integer_rem_s a b = Ok r" "sint r = sint a smod sint b"
proof (cases "a = min_signed \<and> b = - 1")
  case True
  then have "sint a smod sint b = 0" by (simp add: smod_int_alt_def)
  with True assms show thesis by (intro that [of 0]) (simp_all add: Integer_rem_s_def wrapping_rem_s_def)
next
  case False
  let ?m = "2 ^ (LENGTH('a) - 1) :: int"
  have "\<bar>sint b\<bar> \<le> ?m" using sint_ge [of b] sint_lt [of b] by simp
  with smod_int_range [of "sint b" "sint a"] assms have "- ?m \<le> sint a smod sint b" "sint a smod sint b < ?m"
    by (auto simp: sint_eq_0)
  with False assms show thesis
    by (intro that [of "word_of_int (sint a smod sint b)"] sint_word_of_int_range)
      (auto simp: Integer_rem_s_def wrapping_rem_s_def)
qed

text \<open>
  C19: Signed division of \<open>i32\<close> and \<open>i64\<close> values traps exactly where the quotient does not exist
  (\<open>IntegerDivisionByZero\<close>) or is not representable (\<open>IntegerOverflow\<close>) and otherwise returns the
  quotient of the signed readings, rounded towards zero.
\<close>

theorem Integer_div_s_exact:
  fixes a b :: "'a::len word"
  shows "case Integer_div_s a b of
      Ok q \<Rightarrow> b \<noteq> 0 \<and> sint q = sint a sdiv sint b
    | Err e \<Rightarrow>
        if b = 0 then e = TrapIntegerDivisionByZero
        else e = TrapIntegerOverflow \<and> sint a sdiv sint b = 2 ^ (LENGTH('a) - 1)
    | Panic \<Rightarrow> False"
  by (rule Integer_div_s_cases [of b a]) simp_all

text \<open>
  Quotient and remainder fit together: where signed division succeeds, so does the remainder,
  the dividend is quotient times divisor plus remainder over the integers, the remainder is smaller
  in magnitude than the divisor and has the sign of the dividend. The remainder never overflows:
  for the least value and \<open>-1\<close>, where division traps, it is zero.
\<close>

theorem div_rem_s_euclid:
  fixes a b :: "'a::len word"
  shows "case Integer_rem_s a b of
      Ok r \<Rightarrow> b \<noteq> 0 \<and> \<bar>sint r\<bar> < \<bar>sint b\<bar> \<and> (sint r \<noteq> 0 \<longrightarrow> sgn (sint r) = sgn (sint a))
        \<and> (case Integer_div_s a b of
             Ok q \<Rightarrow> sint a = sint q * sint b + sint r
           | Err e \<Rightarrow> e = TrapIntegerOverflow \<and> r = 0
           | Panic \<Rightarrow> False)
    | Err e \<Rightarrow> b = 0 \<and> e = TrapIntegerDivisionByZero
    | Panic \<Rightarrow> False"
proof (cases "b = 0")
  case True
  then show ?thesis by (simp add: Integer_rem_s_def)
next
  case nz: False
  then obtain r where r: "Integer_rem_s a b = Ok r" "sint r = sint a smod sint b"
    by (rule Integer_rem_s_value)
  have "\<bar>sint r\<bar> < \<bar>sint b\<bar>" using r(2) nz smod_int_range [of "sint b" "sint a"] by (auto simp: sint_eq_0)
  moreover have "sint r \<noteq> 0 \<longrightarrow> sgn (sint r) = sgn (sint a)"
    using r(2) nz sgn_smod [of "sint b" "sint a"] by (simp add: sint_eq_0)
  moreover have "case Integer_div_s a b of
      Ok q \<Rightarrow> sint a = sint q * sint b + sint r | Err e \<Rightarrow> e = TrapIntegerOverflow \<and> r = 0 | Panic \<Rightarrow> False"
  proof (rule Integer_div_s_cases [of b a])
    fix q assume "Integer_div_s a b = Ok q" "sint q = sint a sdiv sint b"
    with r show ?thesis by (simp add: sdiv_mult_smod_eq)
  next
    assume "Integer_div_s a b = Err TrapIntegerOverflow" "a = min_signed" "b = - 1"
    with r nz show ?thesis by (simp add: Integer_rem_s_def wrapping_rem_s_def)
  qed (use nz in simp)
  ultimately show ?thesis using r nz by simp
qed

theorem div_rem_s_euclid_witness:
  "case Integer_rem_s (- 7 :: u32) 2 of
      Ok r \<Rightarrow> (case Integer_div_s (- 7 :: u32) 2 of
         Ok q \<Rightarrow> sint (- 7 :: u32) = sint q * sint (2 :: u32) + sint r | _ \<Rightarrow> False)
    | _ \<Rightarrow> False"
  using div_rem_s_euclid [of 2 "- 7 :: u32"]
  by (auto split: res.splits simp: Integer_rem_s_def Integer_div_s_def overflowing_div_s_def
      min_signed_def)

subsection \<open>Shifts\<close>

lemma unat_shift_amount:
  fixes b :: "'a::len word"
  assumes "LENGTH('a) dvd 2 ^ 32"
  shows "unat (ucast b :: u32) mod LENGTH('a) = unat b mod LENGTH('a)"
  using assms by (simp add: unsigned_ucast_eq take_bit_eq_mod mod_mod_cancel)

lemma sint_signed_drop_bit: "sint (signed_drop_bit n a) = sint a div 2 ^ n" for a :: "'a::len word"
  by (simp add: sint_signed_drop_bit_eq drop_bit_eq_div)

lemma uint_drop_bit: "uint (drop_bit n a) = uint a div 2 ^ n" for a :: "'a::len word"
  using unsigned_drop_bit_eq [where ?'a = int, of n a] by (simp add: drop_bit_eq_div take_bit_int_eq_self)

lemma Integer_shifts:
  fixes a b :: "'a::len word"
  assumes "LENGTH('a) dvd 2 ^ 32"
  shows "Integer_shl a b = word_of_int (uint a * 2 ^ (unat b mod LENGTH('a)))"
    "sint (Integer_shr_s a b) = sint a div 2 ^ (unat b mod LENGTH('a))"
    "uint (Integer_shr_u a b) = uint a div 2 ^ (unat b mod LENGTH('a))"
  using unat_shift_amount [OF assms, of b]
  by (simp_all add: Integer_shl_def wrapping_shl_def Integer_shr_s_def wrapping_shr_s_def
      Integer_shr_u_def wrapping_shr_u_def push_bit_eq_mult sint_signed_drop_bit uint_drop_bit)

text \<open>
  Shifts take their amount modulo the width, although the 64 bit instructions truncate the amount
  to 32 bits first: \<open>shl\<close> multiplies by a power of two modulo the width, \<open>shr_s\<close> and \<open>shr_u\<close> divide
  the signed and the unsigned reading by it, rounding down.
\<close>

theorem shifts_mod_width:
  fixes a b :: u32 and c d :: u64
  shows "i32_shl a b = word_of_int (uint a * 2 ^ (unat b mod 32))
      \<and> i64_shl c d = word_of_int (uint c * 2 ^ (unat d mod 64))
      \<and> sint (i32_shr_s a b) = sint a div 2 ^ (unat b mod 32)
      \<and> sint (i64_shr_s c d) = sint c div 2 ^ (unat d mod 64)
      \<and> uint (i32_shr_u a b) = uint a div 2 ^ (unat b mod 32)
      \<and> uint (i64_shr_u c d) = uint c div 2 ^ (unat d mod 64)"
  using Integer_shifts [of a b] Integer_shifts [of c d]
  by (simp add: i32_shl_def i64_shl_def i32_shr_s_def i64_shr_s_def i32_shr_u_def i64_shr_u_def)

subsection \<open>Counting bits\<close>

lemma takeWhile_upt_count:
  fixes P :: "nat \<Rightarrow> bool"
  defines "c n \<equiv> length (takeWhile (\<lambda>i. \<not> P i) [0..<n])"
  shows "c n \<le> n" "i < c n \<Longrightarrow> \<not> P i" "c n < n \<Longrightarrow> P (c n)"
proof -
  show le: "c n \<le> n" using length_takeWhile_le [of _ "[0..<n]"] by (simp add: c_def le_trans)
  show "\<not> P i" if "i < c n"
  proof -
    have "takeWhile (\<lambda>i. \<not> P i) [0..<n] ! i = [0..<n] ! i"
      using that by (simp add: c_def takeWhile_nth)
    moreover have "\<not> P (takeWhile (\<lambda>i. \<not> P i) [0..<n] ! i)"
      using that by (metis c_def nth_mem set_takeWhileD)
    ultimately show ?thesis using that le by simp
  qed
  show "P (c n)" if "c n < n"
    using nth_length_takeWhile [of "\<lambda>i. \<not> P i" "[0..<n]"] that by (simp add: c_def)
qed

lemma rev_upt_map: "rev [0..<n] = map (\<lambda>i. n - 1 - i) [0..<n]"
  by (rule nth_equalityI) (simp_all add: rev_nth)

lemma nonzero_bit:
  fixes a :: "'a::len word"
  assumes "a \<noteq> 0"
  obtains n where "n < LENGTH('a)" "bit a n"
proof -
  from assms obtain n where "bit a n" by (auto simp: bit_eq_iff)
  then show thesis using bit_imp_le_length [of a n] by (intro that)
qed

lemma unat_prim_count:
  "LENGTH('a::len) < 2 ^ 32 \<Longrightarrow> k \<le> LENGTH('a) \<Longrightarrow> unat (of_nat k :: u32) = k"
  by (simp add: unat_of_nat take_bit_nat_eq_self)

lemma trailing_zeros_bits:
  fixes a :: "'a::len word"
  assumes "LENGTH('a) < 2 ^ 32" "a \<noteq> 0"
  defines "c \<equiv> unat (prim_trailing_zeros a)"
  shows "c < LENGTH('a)" "i < c \<Longrightarrow> \<not> bit a i" "bit a c"
proof -
  note t = takeWhile_upt_count [where P = "bit a" and n = "LENGTH('a)"]
  have c: "c = length (takeWhile (\<lambda>i. \<not> bit a i) [0..<LENGTH('a)])"
    unfolding c_def prim_trailing_zeros_def by (rule unat_prim_count [OF assms(1) t(1)])
  from t(2) show z: "\<not> bit a i" if "i < c" for i using that by (simp add: c)
  obtain n where "n < LENGTH('a)" "bit a n" using assms(2) by (rule nonzero_bit)
  then show "c < LENGTH('a)" using z [of n] by linarith
  then show "bit a c" using t(3) by (simp add: c)
qed

lemma leading_zeros_bits:
  fixes a :: "'a::len word"
  assumes "LENGTH('a) < 2 ^ 32" "a \<noteq> 0"
  defines "c \<equiv> unat (prim_leading_zeros a)"
  shows "c < LENGTH('a)" "LENGTH('a) - c \<le> i \<Longrightarrow> \<not> bit a i" "bit a (LENGTH('a) - 1 - c)"
proof -
  note t = takeWhile_upt_count [where P = "\<lambda>i. bit a (LENGTH('a) - 1 - i)" and n = "LENGTH('a)"]
  let ?t = "length (takeWhile (\<lambda>i. \<not> bit a (LENGTH('a) - 1 - i)) [0..<LENGTH('a)])"
  have c: "c = ?t"
    unfolding c_def prim_leading_zeros_def rev_upt_map takeWhile_map length_map comp_def
    by (rule unat_prim_count [OF assms(1) t(1)])
  show z: "\<not> bit a i" if "LENGTH('a) - c \<le> i" for i
  proof (cases "i < LENGTH('a)")
    case True
    with that have "LENGTH('a) - 1 - i < ?t" using c by linarith
    from t(2) [OF this] True show ?thesis by simp
  qed (use bit_imp_le_length in blast)
  obtain n where "n < LENGTH('a)" "bit a n" using assms(2) by (rule nonzero_bit)
  then show "c < LENGTH('a)" using z [of n] by linarith
  then show "bit a (LENGTH('a) - 1 - c)" using t(3) by (simp add: c)
qed

lemma bit_uint_div: "bit a n \<longleftrightarrow> odd (uint a div 2 ^ n)" for a :: "'a::len word"
  by (metis bit_iff_odd bit_uint_iff bit_imp_le_length)

lemma uint_bounds_of_bits:
  fixes a :: "'a::len word"
  assumes "bit a n" "\<And>i. n < i \<Longrightarrow> \<not> bit a i"
  shows "2 ^ n \<le> uint a" "uint a < 2 ^ Suc n"
proof -
  have "uint a div 2 ^ n \<noteq> 0" using assms(1) by (auto simp: bit_uint_div)
  then show "2 ^ n \<le> uint a" by (metis div_pos_pos_trivial linorder_not_le uint_ge_0)
  have "take_bit (Suc n) (uint a) = uint a"
    using assms(2)
    by (intro bit_eqI) (auto simp: bit_take_bit_iff bit_uint_iff less_Suc_eq_le, meson linorder_not_le)
  then show "uint a < 2 ^ Suc n" by (metis take_bit_int_less_exp)
qed

lemma unat_ucast_count:
  fixes c :: u32
  assumes "unat c \<le> LENGTH('a::len)"
  shows "unat (ucast c :: 'a word) = unat c"
proof -
  have "unat c < 2 ^ LENGTH('a)" using assms less_exp [of "LENGTH('a)"] by linarith
  then show ?thesis by (simp add: unsigned_ucast_eq take_bit_nat_eq_self)
qed

lemma count_ones_card:
  fixes a :: "'a::len word"
  assumes "LENGTH('a) < 2 ^ 32"
  shows "unat (prim_count_ones a) = card {i. bit a i}"
proof -
  have "length (filter (bit a) [0..<LENGTH('a)]) = card (set (filter (bit a) [0..<LENGTH('a)]))"
    by (rule distinct_card [symmetric]) simp
  moreover have "set (filter (bit a) [0..<LENGTH('a)]) = {i. bit a i}" using bit_imp_le_length by auto
  moreover have "length (filter (bit a) [0..<LENGTH('a)]) \<le> LENGTH('a)"
    by (metis length_filter_le length_upt diff_zero)
  ultimately show ?thesis using assms unfolding prim_count_ones_def by (simp add: unat_prim_count)
qed

text \<open>
  \<open>clz\<close>, \<open>ctz\<close> and \<open>popcnt\<close> of a nonzero value: with \<open>c\<close> leading zeros the unsigned value lies
  between the powers of two with exponents width less \<open>c\<close> less one and width less \<open>c\<close>; with \<open>t\<close>
  trailing zeros it is an odd multiple of \<open>2 ^ t\<close>; \<open>popcnt\<close> is the number of bits set.
\<close>

theorem bit_counts:
  fixes a :: "'a::len word"
  assumes "LENGTH('a) < 2 ^ 32" "a \<noteq> 0"
  shows "2 ^ (LENGTH('a) - 1 - unat (Integer_leading_zeros a)) \<le> uint a
      \<and> uint a < 2 ^ (LENGTH('a) - unat (Integer_leading_zeros a))
      \<and> 2 ^ unat (Integer_trailing_zeros a) dvd uint a
      \<and> odd (uint a div 2 ^ unat (Integer_trailing_zeros a))
      \<and> unat (Integer_count_ones a) = card {i. bit a i}"
proof -
  let ?c = "unat (prim_leading_zeros a)" and ?t = "unat (prim_trailing_zeros a)"
  note lz = leading_zeros_bits [OF assms] and tz = trailing_zeros_bits [OF assms]
  have "unat (Integer_leading_zeros a) = ?c" "unat (Integer_trailing_zeros a) = ?t"
    using lz(1) tz(1) by (simp_all add: Integer_leading_zeros_def Integer_trailing_zeros_def unat_ucast_count)
  moreover have "Suc (LENGTH('a) - 1 - ?c) = LENGTH('a) - ?c" using lz(1) by simp
  with uint_bounds_of_bits [OF lz(3)] lz(2)
  have "2 ^ (LENGTH('a) - 1 - ?c) \<le> uint a" "uint a < 2 ^ (LENGTH('a) - ?c)"
    by (auto simp del: power_Suc)
  moreover note this
  moreover have "take_bit ?t (uint a) = 0"
    by (rule bit_eqI) (use tz(2) in \<open>auto simp: bit_take_bit_iff bit_uint_iff\<close>)
  then have "2 ^ ?t dvd uint a" by (simp add: take_bit_eq_0_iff)
  moreover have "odd (uint a div 2 ^ ?t)" using tz(3) by (simp add: bit_uint_div)
  moreover have "unat (prim_count_ones a) \<le> LENGTH('a)"
    using card_mono [of "{..<LENGTH('a)}" "{i. bit a i}"] bit_imp_le_length
    by (auto simp: count_ones_card [OF assms(1)])
  then have "unat (Integer_count_ones a) = card {i. bit a i}"
    by (simp add: Integer_count_ones_def unat_ucast_count count_ones_card [OF assms(1)])
  ultimately show ?thesis by simp
qed

theorem bit_counts_witness:
  "2 ^ (31 - unat (i32_clz 40)) \<le> uint (40 :: u32) \<and> 2 ^ unat (i32_ctz 40) dvd uint (40 :: u32)
   \<and> unat (i32_popcnt 40) = card {i. bit (40 :: u32) i}"
  using bit_counts [of "40 :: u32"] by (simp add: i32_clz_def i32_ctz_def i32_popcnt_def)

subsection \<open>Sign extension and wide arithmetic\<close>

lemma sint_scast_ucast:
  fixes v :: "'a::len word"
  assumes "LENGTH('b::len) \<le> LENGTH('a)"
  shows "sint (scast (ucast v :: 'b word) :: 'a word) = signed_take_bit (LENGTH('b) - 1) (sint v)"
  using assms
  by transfer (simp add: signed_take_bit_signed_take_bit signed_take_bit_take_bit min_def diff_le_mono)

lemma bit_combine128: "bit (combine128 lo hi) n \<longleftrightarrow> (if n < 64 then bit lo n else n < 128 \<and> bit hi (n - 64))"
  by (auto simp: combine128_def bit_or_iff bit_push_bit_iff bit_ucast_iff dest: bit_imp_le_length)

lemma split128_combine128: "split128 (combine128 lo hi) = (lo, hi)"
proof -
  have "ucast (combine128 lo hi) = lo"
    by (rule bit_word_eqI) (simp add: bit_ucast_iff bit_combine128)
  moreover have "ucast (signed_drop_bit 64 (combine128 lo hi)) = hi"
    by (rule bit_word_eqI) (simp add: bit_ucast_iff bit_signed_drop_bit_iff bit_combine128)
  ultimately show ?thesis by (simp add: split128_def Let_def)
qed

lemma combine128_split128: "case split128 v of (lo, hi) \<Rightarrow> combine128 lo hi = v"
  unfolding split128_def Let_def prod.case
  by (rule bit_word_eqI) (auto simp: bit_combine128 bit_ucast_iff bit_signed_drop_bit_iff)

lemma uint_ucast128: "uint (ucast (a :: u64) :: u128) = uint a"
  by (simp add: unsigned_ucast_eq take_bit_int_eq_self order_less_trans [OF uint_lt2p])

lemma uint_combine128: "uint (combine128 lo hi) = uint hi * 2 ^ 64 + uint lo"
proof -
  have "combine128 lo hi = push_bit 64 (ucast hi) + ucast lo"
    unfolding combine128_def
    by (rule disjunctive_add_eq_or [symmetric])
      (auto intro!: bit_word_eqI simp: bit_simps, use bit_imp_le_length [of lo] in fastforce)
  moreover have "uint hi * 2 ^ 64 + uint lo < 2 ^ 128"
    using uint_lt2p [of hi] uint_lt2p [of lo] by simp
  ultimately show ?thesis
    by (simp add: push_bit_eq_mult uint_word_ariths uint_ucast128 mod_add_left_eq)
qed

lemma sint_scast128: "sint (scast (a :: u64) :: u128) = sint a"
  by (simp add: signed_scast_eq signed_take_bit_int_eq_self order_trans [OF _ sint_ge]
      order_less_trans [OF sint_lt])

text \<open>
  The sign extensions read the low 8, 16 or 32 bits as a signed number, \<open>i64.extend_i32_s\<close> and
  \<open>i64.extend_i32_u\<close> keep the signed and the unsigned reading, and \<open>i32.wrap_i64\<close> undoes both.
\<close>

theorem sign_extensions:
  "sint (i32_extend8_s x) = signed_take_bit 7 (sint x)
   \<and> sint (i32_extend16_s x) = signed_take_bit 15 (sint x)
   \<and> sint (i64_extend8_s y) = signed_take_bit 7 (sint y)
   \<and> sint (i64_extend16_s y) = signed_take_bit 15 (sint y)
   \<and> sint (i64_extend32_s y) = signed_take_bit 31 (sint y)
   \<and> sint (i64_extend_i32_s x) = sint x \<and> uint (i64_extend_i32_u x) = uint x
   \<and> i32_wrap_i64 (i64_extend_i32_s x) = x \<and> i32_wrap_i64 (i64_extend_i32_u x) = x"
proof -
  have "ucast (scast x :: u64) = x" by (rule bit_word_eqI) (auto simp: bit_simps)
  moreover have "ucast (ucast x :: u64) = x" by (rule bit_word_eqI) (auto simp: bit_simps)
  moreover have "sint (scast x :: u64) = sint x"
    by (simp add: signed_scast_eq signed_take_bit_int_eq_self order_trans [OF _ sint_ge]
        order_less_trans [OF sint_lt])
  moreover have "uint (ucast x :: u64) = uint x"
    by (simp add: unsigned_ucast_eq take_bit_int_eq_self order_less_trans [OF uint_lt2p])
  ultimately show ?thesis
    using sint_scast_ucast [of x, where 'b = 8] sint_scast_ucast [of x, where 'b = 16]
      sint_scast_ucast [of y, where 'b = 8] sint_scast_ucast [of y, where 'b = 16]
      sint_scast_ucast [of y, where 'b = 32]
    by (simp add: i32_extend8_s_def i32_extend16_s_def i64_extend8_s_def i64_extend16_s_def
        i64_extend32_s_def i64_extend_i32_s_def i64_extend_i32_u_def i32_wrap_i64_def)
qed

lemma uncurry_combine_split [simp]: "case_prod combine128 (split128 v) = v"
  using combine128_split128 [of v] by (cases "split128 v") simp

lemma abs_mult_bound:
  fixes x y :: int
  assumes "\<bar>x\<bar> \<le> m" "\<bar>y\<bar> \<le> m"
  shows "\<bar>x * y\<bar> \<le> m * m"
  using mult_mono' [OF assms] by (simp add: abs_mult)

text \<open>
  The pair of 64 bit halves \<open>(lo, hi)\<close> stands for \<open>hi * 2 ^ 64 + lo\<close>. \<open>i64.add128\<close> and \<open>i64.sub128\<close>
  compute sum and difference of the pairs modulo \<open>2 ^ 128\<close>; the wide multiplications are exact, without
  wrap-around: the signed one on the signed, the unsigned one on the unsigned readings.
\<close>

theorem wide_arithmetic:
  "uint (combine128 a b) = uint b * 2 ^ 64 + uint a
   \<and> case_prod combine128 (i64_add128 a b c d) = combine128 a b + combine128 c d
   \<and> case_prod combine128 (i64_sub128 a b c d) = combine128 a b - combine128 c d
   \<and> sint (case_prod combine128 (i64_mul_wide_s a b)) = sint a * sint b
   \<and> uint (case_prod combine128 (i64_mul_wide_u a b)) = uint a * uint b"
proof -
  have "\<bar>sint a * sint b\<bar> \<le> 2 ^ 63 * 2 ^ 63"
    by (rule abs_mult_bound) (use sint_ge [of a] sint_lt [of a] sint_ge [of b] sint_lt [of b] in simp_all)
  then have "sint ((scast a :: u128) * scast b) = sint a * sint b"
    by (simp add: sint_word_ariths sint_scast128 signed_take_bit_int_eq_self)
  moreover have "uint a * uint b \<le> (2 ^ 64 - 1) * (2 ^ 64 - 1)"
    using uint_lt2p [of a] uint_lt2p [of b] by (intro mult_mono) simp_all
  then have "uint ((ucast a :: u128) * ucast b) = uint a * uint b"
    by (simp add: uint_word_ariths uint_ucast128)
  ultimately show ?thesis
    by (simp add: uint_combine128 i64_add128_def i64_sub128_def i64_mul_wide_s_def i64_mul_wide_u_def)
qed

subsection \<open>Shift amounts\<close>

lemma sint_mod_pow2:
  fixes x :: "'a::len word"
  assumes "k \<le> LENGTH('a)"
  shows "sint x mod 2 ^ k = uint x mod 2 ^ k"
proof -
  have "take_bit k (signed_take_bit (LENGTH('a) - Suc 0) (uint x)) = take_bit k (uint x)"
  proof (rule bit_eqI)
    fix n
    have "LENGTH('a) - Suc 0 \<le> n \<Longrightarrow> n < k \<Longrightarrow> LENGTH('a) - Suc 0 = n" using assms by linarith
    then show "bit (take_bit k (signed_take_bit (LENGTH('a) - Suc 0) (uint x))) n = bit (take_bit k (uint x)) n"
      using assms by (auto simp: bit_take_bit_iff bit_signed_take_bit_iff min_def)
  qed
  then show ?thesis by (simp add: sint_uint take_bit_eq_mod)
qed

text \<open>
  The shift amount computed for a constant operand of a shift or rotation on \<open>i32\<close> or \<open>i64\<close> is
  always present, even for amount zero, and is the operand modulo the width, in its signed as in its
  unsigned reading.
\<close>

theorem into_shift_amount_mod:
  fixes x :: u32 and y :: u64
  shows "into_shift_amount_s x = Some (of_nat (unat x mod 32)) \<and> into_shift_amount_u x = Some (of_nat (unat x mod 32))
    \<and> into_shift_amount_s y = Some (of_nat (unat y mod 64)) \<and> into_shift_amount_u y = Some (of_nat (unat y mod 64))"
proof -
  have u: "ucast (z mod w) = (of_nat (unat z mod unat w) :: u8)" for z w :: "'b::len word"
    by (simp add: unat_mod [symmetric])
  have "sint x mod 32 = int (unat x mod 32)" "sint y mod 64 = int (unat y mod 64)"
    using sint_mod_pow2 [of 5 x] sint_mod_pow2 [of 6 y] by (simp_all add: zmod_int)
  moreover have "ucast (word_of_nat (unat x mod 32) :: u32) = (of_nat (unat x mod 32) :: u8)"
    "ucast (word_of_nat (unat y mod 64) :: u64) = (of_nat (unat y mod 64) :: u8)"
    by (simp_all add: word_unat_eq_iff unsigned_ucast_eq unat_of_nat take_bit_eq_mod)
  ultimately show ?thesis
    using u [of x 32] u [of y 64] by (simp add: into_shift_amount_s_def into_shift_amount_u_def)
qed

end
