(* ===== verification/Values.thy ===== *)
theory Values
  imports Exec_Stack Ref_Table Wasm_Integers
begin

section \<open>Values and cells (crates/wasmi/src/value.rs, reftype.rs, executor/handler/cell.rs)\<close>

text \<open>
  The values that the embedder sees, their raw untyped form, and their form on the value stack, a
  sequence of 64 bit cells. Floats are their bits, a vector is its 128 bits (the target is little
  endian, so reading the bytes of a vector as a native integer yields the integer it was made of).
  A reference is a non-zero handle that carries the identifier of the store that owns it. The crate
  feature \<open>simd\<close> is enabled.
\<close>

subsection \<open>Store identifiers (crates/wasmi/src/store/id.rs)\<close>

type_synonym store_id = u32

text \<open>The counter of identifiers is the state; it wraps around.\<close>

definition store_id_new :: "u32 \<Rightarrow> store_id \<times> u32" where
  "store_id_new counter = (counter, counter + 1)"

record 'a stored =
  sd_store :: store_id
  sd_value :: 'a

definition stored_wrap :: "store_id \<Rightarrow> 'a \<Rightarrow> 'a stored" where
  "stored_wrap sid v = \<lparr>sd_store = sid, sd_value = v\<rparr>"

definition stored_unwrap :: "store_id \<Rightarrow> 'a stored \<Rightarrow> 'a option" where
  "stored_unwrap sid v = (if sd_store v \<noteq> sid then None else Some (sd_value v))"

subsection \<open>References (crates/wasmi/src/reftype.rs)\<close>

datatype 'a nullable = NNull | NVal 'a

fun nullable_is_null :: "'a nullable \<Rightarrow> bool" where
  "nullable_is_null NNull = True"
| "nullable_is_null (NVal _) = False"

fun nullable_val :: "'a nullable \<Rightarrow> 'a option" where
  "nullable_val NNull = None"
| "nullable_val (NVal v) = Some v"

type_synonym handle_ref = "u32 stored"

datatype wasm_ref = RefFunc "handle_ref nullable" | RefExtern "handle_ref nullable"

definition handle_unwrap_raw :: "store_id \<Rightarrow> handle_ref \<Rightarrow> raw_ref option" where
  "handle_unwrap_raw sid h = (case stored_unwrap sid h of None \<Rightarrow> None | Some v \<Rightarrow> Some v)"

definition handle_from_raw_parts :: "u32 \<Rightarrow> store_id \<Rightarrow> handle_ref" where
  "handle_from_raw_parts v sid = stored_wrap sid v"

fun nullable_unwrap_raw :: "store_id \<Rightarrow> handle_ref nullable \<Rightarrow> raw_ref option" where
  "nullable_unwrap_raw sid NNull = Some 0"
| "nullable_unwrap_raw sid (NVal h) = handle_unwrap_raw sid h"

definition nullable_from_raw_parts :: "raw_ref \<Rightarrow> store_id \<Rightarrow> handle_ref nullable" where
  "nullable_from_raw_parts r sid = (if r = 0 then NNull else NVal (handle_from_raw_parts r sid))"

fun ref_unwrap_raw :: "store_id \<Rightarrow> wasm_ref \<Rightarrow> raw_ref option" where
  "ref_unwrap_raw sid (RefFunc n) = nullable_unwrap_raw sid n"
| "ref_unwrap_raw sid (RefExtern n) = nullable_unwrap_raw sid n"

fun ref_from_raw_parts :: "raw_ref \<Rightarrow> ref_type \<Rightarrow> store_id \<Rightarrow> wasm_ref" where
  "ref_from_raw_parts r RFunc sid = RefFunc (nullable_from_raw_parts r sid)"
| "ref_from_raw_parts r RExtern sid = RefExtern (nullable_from_raw_parts r sid)"

fun ref_null :: "ref_type \<Rightarrow> wasm_ref" where
  "ref_null RExtern = RefExtern NNull"
| "ref_null RFunc = RefFunc NNull"

fun ref_is_null :: "wasm_ref \<Rightarrow> bool" where
  "ref_is_null (RefFunc n) = nullable_is_null n"
| "ref_is_null (RefExtern n) = nullable_is_null n"

fun ref_ty :: "wasm_ref \<Rightarrow> ref_type" where
  "ref_ty (RefFunc _) = RFunc"
| "ref_ty (RefExtern _) = RExtern"

fun ref_unwrap_func :: "wasm_ref \<Rightarrow> (unit, handle_ref nullable) res" where
  "ref_unwrap_func (RefFunc n) = Ok n"
| "ref_unwrap_func (RefExtern _) = Panic"

subsection \<open>Raw values (crates/core/src/raw.rs)\<close>

record raw_val =
  lo64 :: u64
  hi64 :: u64

definition from_bits64 :: "u64 \<Rightarrow> raw_val" where
  "from_bits64 lo = \<lparr>lo64 = lo, hi64 = 0\<rparr>"

definition to_bits64 :: "raw_val \<Rightarrow> u64" where
  "to_bits64 r = lo64 r"

text \<open>Conversions from and to integers, and floats by their bits.\<close>

definition raw_of_word :: "'a::len word \<Rightarrow> raw_val" where
  "raw_of_word v = from_bits64 (ucast v)"

definition word_of_raw :: "raw_val \<Rightarrow> 'a::len word" where
  "word_of_raw r = ucast (to_bits64 r)"

definition v128_of_raw :: "raw_val \<Rightarrow> u128" where
  "v128_of_raw r = push_bit 64 (ucast (hi64 r)) OR ucast (lo64 r)"

definition raw_of_v128 :: "u128 \<Rightarrow> raw_val" where
  "raw_of_v128 v = \<lparr>lo64 = ucast v, hi64 = ucast (shr v 64)\<rparr>"

text \<open>\<open>WriteAs\<close>: writing a narrow value keeps the high half.\<close>

definition write_as_word :: "raw_val \<Rightarrow> 'a::len word \<Rightarrow> raw_val" where
  "write_as_word r v = r\<lparr>lo64 := ucast v\<rparr>"

subsection \<open>Typed values (crates/wasmi/src/value.rs)\<close>

datatype val =
  ValI32 u32
| ValI64 u64
| ValF32 u32
| ValF64 u64
| ValV128 u128
| ValFuncRef "handle_ref nullable"
| ValExternRef "handle_ref nullable"

fun val_from_raw_parts :: "raw_val \<Rightarrow> val_type \<Rightarrow> store_id \<Rightarrow> val" where
  "val_from_raw_parts r I32 sid = ValI32 (word_of_raw r)"
| "val_from_raw_parts r I64 sid = ValI64 (word_of_raw r)"
| "val_from_raw_parts r F32 sid = ValF32 (word_of_raw r)"
| "val_from_raw_parts r F64 sid = ValF64 (word_of_raw r)"
| "val_from_raw_parts r V128 sid = ValV128 (v128_of_raw r)"
| "val_from_raw_parts r FuncRef sid = ValFuncRef (nullable_from_raw_parts (word_of_raw r) sid)"
| "val_from_raw_parts r ExternRef sid = ValExternRef (nullable_from_raw_parts (word_of_raw r) sid)"

fun val_unwrap_raw_val :: "store_id \<Rightarrow> val \<Rightarrow> raw_val option" where
  "val_unwrap_raw_val sid (ValI32 v) = Some (raw_of_word v)"
| "val_unwrap_raw_val sid (ValI64 v) = Some (raw_of_word v)"
| "val_unwrap_raw_val sid (ValF32 v) = Some (raw_of_word v)"
| "val_unwrap_raw_val sid (ValF64 v) = Some (raw_of_word v)"
| "val_unwrap_raw_val sid (ValV128 v) = Some (raw_of_v128 v)"
| "val_unwrap_raw_val sid (ValFuncRef n) = map_option raw_of_word (nullable_unwrap_raw sid n)"
| "val_unwrap_raw_val sid (ValExternRef n) = map_option raw_of_word (nullable_unwrap_raw sid n)"

fun val_unwrap_raw_ref :: "store_id \<Rightarrow> val \<Rightarrow> raw_ref option" where
  "val_unwrap_raw_ref sid (ValFuncRef n) = nullable_unwrap_raw sid n"
| "val_unwrap_raw_ref sid (ValExternRef n) = nullable_unwrap_raw sid n"
| "val_unwrap_raw_ref sid _ = None"

fun val_as_raw_or_none :: "val \<Rightarrow> raw_val option" where
  "val_as_raw_or_none (ValI32 v) = Some (raw_of_word v)"
| "val_as_raw_or_none (ValI64 v) = Some (raw_of_word v)"
| "val_as_raw_or_none (ValF32 v) = Some (raw_of_word v)"
| "val_as_raw_or_none (ValF64 v) = Some (raw_of_word v)"
| "val_as_raw_or_none (ValV128 v) = Some (raw_of_v128 v)"
| "val_as_raw_or_none (ValFuncRef NNull) = Some (raw_of_word raw_ref_null)"
| "val_as_raw_or_none (ValExternRef NNull) = Some (raw_of_word raw_ref_null)"
| "val_as_raw_or_none _ = None"

fun val_default_for_ty :: "val_type \<Rightarrow> val" where
  "val_default_for_ty I32 = ValI32 0"
| "val_default_for_ty I64 = ValI64 0"
| "val_default_for_ty F32 = ValF32 0"
| "val_default_for_ty F64 = ValF64 0"
| "val_default_for_ty V128 = ValV128 0"
| "val_default_for_ty FuncRef = ValFuncRef NNull"
| "val_default_for_ty ExternRef = ValExternRef NNull"

fun val_ty :: "val \<Rightarrow> val_type" where
  "val_ty (ValI32 _) = I32"
| "val_ty (ValI64 _) = I64"
| "val_ty (ValF32 _) = F32"
| "val_ty (ValF64 _) = F64"
| "val_ty (ValV128 _) = V128"
| "val_ty (ValFuncRef _) = FuncRef"
| "val_ty (ValExternRef _) = ExternRef"

fun val_from_ref :: "wasm_ref \<Rightarrow> val" where
  "val_from_ref (RefFunc n) = ValFuncRef n"
| "val_from_ref (RefExtern n) = ValExternRef n"

subsection \<open>Cells (crates/wasmi/src/engine/executor/handler/cell.rs)\<close>

definition cell_of_word :: "'a::len word \<Rightarrow> cell" where
  "cell_of_word v = ucast v"

definition word_of_cell :: "cell \<Rightarrow> 'a::len word" where
  "word_of_cell c = ucast c"

definition cell_of_bool :: "bool \<Rightarrow> cell" where
  "cell_of_bool b = of_bool b"

definition bool_of_cell :: "cell \<Rightarrow> bool" where
  "bool_of_cell c \<longleftrightarrow> c \<noteq> 0"

text \<open>
  Writing to a slice of cells: the slice and the number of cells written so far. Reading consumes
  the slice.
\<close>

record cells_writer =
  cw_cells :: "cell list"
  cw_pos :: nat

definition writer_next :: "cells_writer \<Rightarrow> cell \<Rightarrow> (cell_error, unit) res \<times> cells_writer" where
  "writer_next w c =
     (if cw_pos w < length (cw_cells w)
      then (Ok (), w\<lparr>cw_cells := (cw_cells w)[cw_pos w := c], cw_pos := cw_pos w + 1\<rparr>)
      else (Err NotEnoughCells, w))"

definition reader_next :: "cell list \<Rightarrow> (cell_error, cell) res \<times> cell list" where
  "reader_next cells = (case cells of [] \<Rightarrow> (Err NotEnoughCells, []) | c # rest \<Rightarrow> (Ok c, rest))"

definition store_word :: "'a::len word \<Rightarrow> cells_writer \<Rightarrow> (cell_error, unit) res \<times> cells_writer" where
  "store_word v w = writer_next w (cell_of_word v)"

definition store_v128 :: "u128 \<Rightarrow> cells_writer \<Rightarrow> (cell_error, unit) res \<times> cells_writer" where
  "store_v128 v w =
     (let value_lo = ucast (v AND 0xFFFFFFFFFFFFFFFF) :: u64; value_hi = ucast (shr v 64) :: u64 in
      case store_word value_lo w of
        (Ok _, w') \<Rightarrow> store_word value_hi w'
      | (e, w') \<Rightarrow> (e, w'))"

definition load_word :: "cell list \<Rightarrow> (cell_error, 'a::len word) res \<times> cell list" where
  "load_word cells =
     (case reader_next cells of
        (Ok c, rest) \<Rightarrow> (Ok (word_of_cell c), rest)
      | (Err e, rest) \<Rightarrow> (Err e, rest)
      | (Panic, rest) \<Rightarrow> (Panic, rest))"

definition load_v128 :: "cell list \<Rightarrow> (cell_error, u128) res \<times> cell list" where
  "load_v128 cells =
     (case reader_next cells of
        (Ok lo, rest) \<Rightarrow>
          (case reader_next rest of
             (Ok hi, rest') \<Rightarrow> (Ok (shl (ucast hi) 64 OR ucast lo), rest')
           | (Err e, rest') \<Rightarrow> (Err e, rest')
           | (Panic, rest') \<Rightarrow> (Panic, rest'))
      | (Err e, rest) \<Rightarrow> (Err e, rest)
      | (Panic, rest) \<Rightarrow> (Panic, rest))"

definition lower_handle :: "store_id \<Rightarrow> handle_ref \<Rightarrow> cells_writer \<Rightarrow> (cell_error, unit) res \<times> cells_writer" where
  "lower_handle sid h w =
     (case stored_unwrap sid h of
        None \<Rightarrow> (Err StoreOwnerMismatch, w)
      | Some v \<Rightarrow> store_word v w)"

fun lower_nullable ::
  "store_id \<Rightarrow> handle_ref nullable \<Rightarrow> cells_writer \<Rightarrow> (cell_error, unit) res \<times> cells_writer" where
  "lower_nullable sid NNull w = store_word (0 :: u32) w"
| "lower_nullable sid (NVal h) w = lower_handle sid h w"

definition lift_nullable ::
  "store_id \<Rightarrow> cell list \<Rightarrow> (cell_error, handle_ref nullable) res \<times> cell list" where
  "lift_nullable sid cells =
     (case load_word cells of
        (Ok r, rest) \<Rightarrow> (Ok (nullable_from_raw_parts r sid), rest)
      | (Err e, rest) \<Rightarrow> (Err e, rest)
      | (Panic, rest) \<Rightarrow> (Panic, rest))"

fun lower_ref :: "store_id \<Rightarrow> wasm_ref \<Rightarrow> cells_writer \<Rightarrow> (cell_error, unit) res \<times> cells_writer" where
  "lower_ref sid (RefFunc n) w = lower_nullable sid n w"
| "lower_ref sid (RefExtern n) w = lower_nullable sid n w"

fun lower_val :: "store_id \<Rightarrow> val \<Rightarrow> cells_writer \<Rightarrow> (cell_error, unit) res \<times> cells_writer" where
  "lower_val sid (ValI32 v) w = store_word v w"
| "lower_val sid (ValI64 v) w = store_word v w"
| "lower_val sid (ValF32 v) w = store_word v w"
| "lower_val sid (ValF64 v) w = store_word v w"
| "lower_val sid (ValV128 v) w = store_v128 v w"
| "lower_val sid (ValFuncRef n) w = lower_nullable sid n w"
| "lower_val sid (ValExternRef n) w = lower_nullable sid n w"

fun lower_vals :: "store_id \<Rightarrow> val list \<Rightarrow> cells_writer \<Rightarrow> (cell_error, unit) res \<times> cells_writer" where
  "lower_vals sid [] w = (Ok (), w)"
| "lower_vals sid (v # vs) w =
     (case lower_val sid v w of (Ok _, w') \<Rightarrow> lower_vals sid vs w' | (e, w') \<Rightarrow> (e, w'))"

text \<open>Assigning through \<open>&mut T\<close>: the place keeps its value on an error.\<close>

definition assign :: "('a \<Rightarrow> val) \<Rightarrow> val \<Rightarrow> (cell_error, 'a) res \<times> cell list
    \<Rightarrow> (cell_error, unit) res \<times> val \<times> cell list" where
  "assign c old r =
     (case r of
        (Ok v, rest) \<Rightarrow> (Ok (), c v, rest)
      | (Err e, rest) \<Rightarrow> (Err e, old, rest)
      | (Panic, rest) \<Rightarrow> (Panic, old, rest))"

fun lift_val :: "store_id \<Rightarrow> val \<Rightarrow> cell list \<Rightarrow> (cell_error, unit) res \<times> val \<times> cell list" where
  "lift_val sid (ValI32 v) cells = assign ValI32 (ValI32 v) (load_word cells)"
| "lift_val sid (ValI64 v) cells = assign ValI64 (ValI64 v) (load_word cells)"
| "lift_val sid (ValF32 v) cells = assign ValF32 (ValF32 v) (load_word cells)"
| "lift_val sid (ValF64 v) cells = assign ValF64 (ValF64 v) (load_word cells)"
| "lift_val sid (ValV128 v) cells = assign ValV128 (ValV128 v) (load_v128 cells)"
| "lift_val sid (ValFuncRef n) cells = assign ValFuncRef (ValFuncRef n) (lift_nullable sid cells)"
| "lift_val sid (ValExternRef n) cells = assign ValExternRef (ValExternRef n) (lift_nullable sid cells)"

fun lift_vals :: "store_id \<Rightarrow> val list \<Rightarrow> cell list \<Rightarrow> (cell_error, unit) res \<times> val list \<times> cell list" where
  "lift_vals sid [] cells = (Ok (), [], cells)"
| "lift_vals sid (v # vs) cells =
     (case lift_val sid v cells of
        (Ok _, v', rest) \<Rightarrow>
          (case lift_vals sid vs rest of (r, vs', rest') \<Rightarrow> (r, v' # vs', rest'))
      | (e, v', rest) \<Rightarrow> (e, v' # vs, rest))"

subsection \<open>Sizes (crates/wasmi/src/engine/translator/utils.rs)\<close>

definition required_cells_for_ty :: "val_type \<Rightarrow> u16" where
  "required_cells_for_ty ty = (if ty = V128 then 2 else 1)"

datatype slot_access_error = SlotAccessOutOfBounds

text \<open>The sum cannot overflow \<open>usize\<close> for a slice that exists in memory.\<close>

definition required_cells_for_tys :: "val_type list \<Rightarrow> (slot_access_error, u16) res" where
  "required_cells_for_tys tys =
     (let len_cells = sum_list (map (\<lambda>ty. unat (required_cells_for_ty ty)) tys) in
      if len_cells < 2 ^ 16 then Ok (of_nat len_cells) else Err SlotAccessOutOfBounds)"

subsection \<open>Host call parameters and results (crates/wasmi/src/engine/executor/inout.rs)\<close>

definition decode_params_into ::
  "store_id \<Rightarrow> inout_params \<Rightarrow> val list \<Rightarrow> (cell_error, unit) res \<times> val list" where
  "decode_params_into sid io out =
     (case lift_vals sid out (inout_params_slice io) of (r, out', _) \<Rightarrow> (r, out'))"

text \<open>
  The results are written to the front of the cells; the second component is the slice that
  \<open>InOutResults::results\<close> returns, the cells that are left behind the written ones.
\<close>

definition encode_results ::
  "store_id \<Rightarrow> inout_params \<Rightarrow> val list \<Rightarrow> (cell_error, cell list) res \<times> cell list" where
  "encode_results sid io results =
     (let n = unat (io_len_results io) in
      case lower_vals sid results \<lparr>cw_cells = take n (io_cells io), cw_pos = 0\<rparr> of
        (Ok _, w) \<Rightarrow> (Ok (drop (cw_pos w) (cw_cells w)), cw_cells w @ drop n (io_cells io))
      | (Err e, w) \<Rightarrow> (Err e, cw_cells w @ drop n (io_cells io))
      | (Panic, w) \<Rightarrow> (Panic, cw_cells w @ drop n (io_cells io)))"

subsection \<open>The cells of a value\<close>

fun cells_of_val :: "val \<Rightarrow> cell list" where
  "cells_of_val (ValI32 v) = [ucast v]"
| "cells_of_val (ValI64 v) = [v]"
| "cells_of_val (ValF32 v) = [ucast v]"
| "cells_of_val (ValF64 v) = [v]"
| "cells_of_val (ValV128 v) = [ucast v, ucast (drop_bit 64 v)]"
| "cells_of_val (ValFuncRef NNull) = [0]"
| "cells_of_val (ValFuncRef (NVal h)) = [ucast (sd_value h)]"
| "cells_of_val (ValExternRef NNull) = [0]"
| "cells_of_val (ValExternRef (NVal h)) = [ucast (sd_value h)]"

text \<open>A value that may be used with a store: its handle belongs to the store and is not zero.\<close>

fun nullable_owned :: "store_id \<Rightarrow> handle_ref nullable \<Rightarrow> bool" where
  "nullable_owned sid NNull = True"
| "nullable_owned sid (NVal h) \<longleftrightarrow> sd_store h = sid \<and> sd_value h \<noteq> 0"

fun val_owned :: "store_id \<Rightarrow> val \<Rightarrow> bool" where
  "val_owned sid (ValFuncRef n) = nullable_owned sid n"
| "val_owned sid (ValExternRef n) = nullable_owned sid n"
| "val_owned sid _ = True"

text \<open>A value that refers to an entity of another store.\<close>

fun nullable_foreign :: "store_id \<Rightarrow> handle_ref nullable \<Rightarrow> bool" where
  "nullable_foreign sid NNull = False"
| "nullable_foreign sid (NVal h) \<longleftrightarrow> sd_store h \<noteq> sid"

fun val_foreign :: "store_id \<Rightarrow> val \<Rightarrow> bool" where
  "val_foreign sid (ValFuncRef n) = nullable_foreign sid n"
| "val_foreign sid (ValExternRef n) = nullable_foreign sid n"
| "val_foreign sid _ = False"

lemma length_cells_of_val: "length (cells_of_val v) = unat (required_cells_for_ty (val_ty v))"
  by (cases v rule: cells_of_val.cases) (simp_all add: required_cells_for_ty_def)

lemma ucast_ucast_u32 [simp]: "ucast (ucast (v :: u32) :: u64) = v"
  by (rule bit_word_eqI) (auto simp: bit_ucast_iff)

lemma v128_halves:
  "shl (ucast (ucast (drop_bit 64 v) :: u64)) 64 OR ucast (ucast v :: u64) = (v :: u128)"
  by (rule bit_word_eqI) (auto simp: shl_def bit_or_iff bit_push_bit_iff bit_ucast_iff bit_drop_bit_eq)

lemma v128_low: "ucast (v AND 0xFFFFFFFFFFFFFFFF) = (ucast v :: u64)" for v :: u128
proof -
  have low: "(0xFFFFFFFFFFFFFFFF :: u128) = mask 64" by (simp add: mask_eq_exp_minus_1)
  show ?thesis unfolding low by (rule bit_word_eqI) (simp add: bit_ucast_iff bit_and_iff bit_mask_iff)
qed

text \<open>Writing a list of cells one by one.\<close>

fun write_cells :: "cell list \<Rightarrow> cells_writer \<Rightarrow> (cell_error, unit) res \<times> cells_writer" where
  "write_cells [] w = (Ok (), w)"
| "write_cells (c # cs) w =
     (case writer_next w c of (Ok _, w') \<Rightarrow> write_cells cs w' | (e, w') \<Rightarrow> (e, w'))"

lemma write_cells_outcome:
  "case write_cells cs w of
     (Ok _, w') \<Rightarrow> cw_pos w + length cs \<le> length (cw_cells w) \<and> cw_pos w' = cw_pos w + length cs
       \<and> cw_cells w' = overwrite (cw_cells w) (cw_pos w) cs
   | (Err e, w') \<Rightarrow> e = NotEnoughCells \<and> length (cw_cells w') = length (cw_cells w)
       \<and> length (cw_cells w) < cw_pos w + length cs
   | (Panic, _) \<Rightarrow> False"
  if "cw_pos w \<le> length (cw_cells w)"
  using that
proof (induction cs arbitrary: w)
  case (Cons c cs)
  show ?case
  proof (cases "cw_pos w < length (cw_cells w)")
    case True
    let ?w = "w\<lparr>cw_cells := (cw_cells w)[cw_pos w := c], cw_pos := cw_pos w + 1\<rparr>"
    have "overwrite ((cw_cells w)[cw_pos w := c]) (Suc (cw_pos w)) cs = overwrite (cw_cells w) (cw_pos w) (c # cs)"
      using True by (simp add: overwrite_def upd_conv_take_nth_drop take_Suc_conv_app_nth add.commute)
    then show ?thesis
      using Cons.IH [of ?w] True by (auto simp: writer_next_def split: prod.splits res.splits)
  qed (simp add: writer_next_def)
qed simp

lemma write_cells_error: "fst (write_cells cs w) \<in> {Ok (), Err NotEnoughCells}"
  by (induction cs arbitrary: w) (auto simp: writer_next_def)

lemma lower_val_cells: "val_owned sid v \<Longrightarrow> lower_val sid v w = write_cells (cells_of_val v) w"
  by (cases v rule: cells_of_val.cases)
    (auto simp: store_word_def store_v128_def cell_of_word_def lower_handle_def stored_unwrap_def
      v128_low shr_def split: prod.splits res.splits)

lemma write_cells_append:
  "write_cells (cs @ ds) w = (case write_cells cs w of (Ok _, w') \<Rightarrow> write_cells ds w' | (e, w') \<Rightarrow> (e, w'))"
  by (induction cs arbitrary: w) (auto split: prod.splits res.splits)

lemma lower_vals_cells:
  "list_all (val_owned sid) vs \<Longrightarrow> lower_vals sid vs w = write_cells (concat (map cells_of_val vs)) w"
  by (induction vs arbitrary: w) (simp_all add: lower_val_cells write_cells_append split: prod.split res.split)

lemma lift_val_cells:
  assumes "val_owned sid v" "val_ty u = val_ty v"
  shows "lift_val sid u (cells_of_val v @ rest) = (Ok (), v, rest)"
  using assms
  by (cases v rule: cells_of_val.cases; cases u)
    (auto simp: assign_def load_word_def load_v128_def lift_nullable_def reader_next_def word_of_cell_def
      nullable_from_raw_parts_def handle_from_raw_parts_def stored_wrap_def v128_halves)

lemma lift_vals_cells:
  assumes "list_all (val_owned sid) vs" "map val_ty us = map val_ty vs"
  shows "lift_vals sid us (concat (map cells_of_val vs) @ rest) = (Ok (), vs, rest)"
  using assms
proof (induction vs arbitrary: us)
  case (Cons v vs)
  then obtain u us' where "us = u # us'" "val_ty u = val_ty v" "map val_ty us' = map val_ty vs" by auto
  with Cons show ?case by (simp add: lift_val_cells)
qed simp

lemma lower_vals_foreign:
  assumes "list_all (val_owned sid) vs" "val_foreign sid u"
  shows "fst (lower_vals sid (vs @ u # us) w) \<in> {Err StoreOwnerMismatch, Err NotEnoughCells}"
  using assms
proof (induction vs arbitrary: w)
  case Nil
  then show ?case
    by (cases u rule: cells_of_val.cases) (simp_all add: lower_handle_def stored_unwrap_def)
next
  case (Cons v vs)
  then show ?case
    using write_cells_error [of "cells_of_val v" w]
    by (auto simp: lower_val_cells split: prod.splits res.splits)
qed

lemma required_cells_sum:
  "length (concat (map cells_of_val vs)) = sum_list (map (\<lambda>ty. unat (required_cells_for_ty ty)) (map val_ty vs))"
  by (simp add: length_concat o_def length_cells_of_val)

text \<open>
  C27: passing values through cells. Lowering a list of values of the store into a slice succeeds
  exactly if the slice has the required number of cells, which is the number computed from their
  types; lifting the same cells into places of the same types returns the values and leaves the
  rest of the slice. A value that refers to another store is never lowered.
\<close>
theorem values_through_cells:
  assumes owned: "list_all (val_owned sid) vs" and tys: "map val_ty places = map val_ty vs"
    and size: "required_cells_for_tys (map val_ty vs) = Ok n"
  shows "(case lower_vals sid vs \<lparr>cw_cells = cells, cw_pos = 0\<rparr> of
      (Ok _, w) \<Rightarrow> unat n \<le> length cells \<and> length (cw_cells w) = length cells
        \<and> cw_pos w = unat n \<and> lift_vals sid places (cw_cells w) = (Ok (), vs, drop (unat n) cells)
    | (Err e, _) \<Rightarrow> e = NotEnoughCells \<and> length cells < unat n
    | (Panic, _) \<Rightarrow> False)
    \<and> (val_foreign sid u \<longrightarrow> \<not> is_ok (fst (lower_vals sid (vs @ u # us) \<lparr>cw_cells = cells, cw_pos = 0\<rparr>)))"
proof -
  define cs where "cs = concat (map cells_of_val vs)"
  have n: "unat n = length cs"
    using size unfolding cs_def required_cells_sum
    by (auto simp: required_cells_for_tys_def Let_def unat_of_nat take_bit_nat_eq_self split: if_splits)
  have "lift_vals sid places (overwrite cells 0 cs) = (Ok (), vs, drop (length cs) cells)"
    using lift_vals_cells [OF owned tys, of "drop (length cs) cells"] by (simp add: cs_def overwrite_def)
  moreover have "\<not> is_ok (fst (lower_vals sid (vs @ u # us) w))" if "val_foreign sid u" for w
    using lower_vals_foreign [OF owned that, of us w] by (auto simp: is_ok_iff)
  ultimately show ?thesis
    using write_cells_outcome [of "\<lparr>cw_cells = cells, cw_pos = 0\<rparr>" cs]
    by (auto simp: lower_vals_cells [OF owned] n simp flip: cs_def split: prod.splits res.splits)
qed

theorem values_through_cells_witness:
  "case lower_vals 3 [ValV128 5, ValFuncRef (NVal \<lparr>sd_store = 3, sd_value = 9\<rparr>)] \<lparr>cw_cells = [0, 0, 0, 7], cw_pos = 0\<rparr> of
      (Ok _, w) \<Rightarrow> lift_vals 3 [ValV128 0, ValFuncRef NNull] (cw_cells w)
        = (Ok (), [ValV128 5, ValFuncRef (NVal \<lparr>sd_store = 3, sd_value = 9\<rparr>)], [7])
    | _ \<Rightarrow> False"
proof -
  have "required_cells_for_tys (map val_ty [ValV128 5, ValFuncRef (NVal \<lparr>sd_store = 3, sd_value = 9\<rparr>)]) = Ok 3"
    by (simp add: required_cells_for_tys_def required_cells_for_ty_def)
  from values_through_cells [OF _ _ this, of 3 "[ValV128 0, ValFuncRef NNull]" "[0, 0, 0, 7]"]
  show ?thesis by (auto split: prod.splits res.splits)
qed

text \<open>
  A value of a store converted to its raw form and back with its type is the same value; a
  reference to another store has no raw form.
\<close>
theorem val_raw_roundtrip:
  "(val_owned sid v \<longrightarrow> (case val_unwrap_raw_val sid v of
       Some r \<Rightarrow> val_from_raw_parts r (val_ty v) sid = v | None \<Rightarrow> False))
   \<and> (val_foreign sid v \<longrightarrow> val_unwrap_raw_val sid v = None)"
  by (cases v rule: cells_of_val.cases)
    (auto simp: raw_of_word_def word_of_raw_def from_bits64_def to_bits64_def raw_of_v128_def v128_of_raw_def
      nullable_from_raw_parts_def handle_from_raw_parts_def handle_unwrap_raw_def stored_unwrap_def stored_wrap_def
      shr_def v128_halves [unfolded shl_def, simplified])

theorem val_raw_roundtrip_witness:
  "val_from_raw_parts (the (val_unwrap_raw_val 1 (ValI32 7))) I32 1 = ValI32 7"
  using val_raw_roundtrip [of 1 "ValI32 7"] by simp

end
