(* ===== verification/Func_Entry.thy ===== *)
theory Func_Entry
  imports Fuel Traps
begin

section \<open>Function entries and lazy compilation (crates/wasmi/src/engine/code_map/mod.rs)\<close>

text \<open>
  An entry of the code map is an atomic state byte and a payload, a union whose active field is
  told by the state. Many threads may ask for the compiled function of one entry: one of them wins
  the transition to \<open>COMPILING\<close>, takes the payload out, compiles it and publishes the result; the
  others wait. Reading a field of the union that is not active is undefined behaviour.

  The translator is a parameter, as is the liveness of the engine and the set of Wasm features
  (\<open>compile_env\<close>). The module header is a value of type \<open>'m\<close>, the resources of the validator
  (crate \<open>wasmparser\<close>) are of type \<open>'v\<close> and errors of the translator of type \<open>'e\<close>.
\<close>

subsection \<open>Small byte slices (code_map/utils.rs)\<close>

datatype small_byte_slice = SmallBytes u8 "u8 list" | BigBytes "u8 list"

definition MAX_INLINE_SIZE :: nat where "MAX_INLINE_SIZE = 22"

definition small_bytes_default :: small_byte_slice where
  "small_bytes_default = SmallBytes 0 (replicate MAX_INLINE_SIZE 0)"

fun small_bytes_as_slice :: "small_byte_slice \<Rightarrow> u8 list" where
  "small_bytes_as_slice (SmallBytes len bytes) = take (unat len) bytes"
| "small_bytes_as_slice (BigBytes bytes) = bytes"

definition small_bytes_from :: "u8 list \<Rightarrow> small_byte_slice" where
  "small_bytes_from bytes =
     (if length bytes \<le> MAX_INLINE_SIZE
      then let len = of_nat (length bytes) :: u8; buffer = replicate MAX_INLINE_SIZE 0 in
           SmallBytes len (overwrite buffer 0 bytes)
      else BigBytes bytes)"

lemma small_bytes_roundtrip [simp]: "small_bytes_as_slice (small_bytes_from bytes) = bytes"
proof (cases "length bytes \<le> MAX_INLINE_SIZE")
  case True
  then have "length bytes < 2 ^ 8" by (simp add: MAX_INLINE_SIZE_def)
  then have "unat (of_nat (length bytes) :: u8) = length bytes" by (simp add: unat_of_nat take_bit_nat_eq_self)
  with True show ?thesis by (simp add: small_bytes_from_def overwrite_def)
qed (simp add: small_bytes_from_def)

subsection \<open>Uncompiled and compiled functions\<close>

record ('m, 'v) uncompiled_func =
  un_func_index :: u32
  un_bytes :: small_byte_slice
  un_module :: 'm
  un_validation :: "(u32 \<times> 'v) option"

text \<open>\<open>FuncToValidate\<close> of \<open>wasmparser\<close>: the index and type of the function and the resources.\<close>

record 'v func_to_validate =
  fv_index :: u32
  fv_ty :: u32
  fv_resources :: 'v

definition uncompiled_new ::
  "u32 \<Rightarrow> u8 list \<Rightarrow> 'm \<Rightarrow> 'v func_to_validate option \<Rightarrow> (unit, ('m, 'v) uncompiled_func) res" where
  "uncompiled_new func_index bytes module func_to_validate =
     (case func_to_validate of
        Some fv \<Rightarrow>
          if fv_index fv \<noteq> func_index then Panic
          else Ok \<lparr>un_func_index = func_index, un_bytes = small_bytes_from bytes, un_module = module,
                   un_validation = Some (fv_ty fv, fv_resources fv)\<rparr>
      | None \<Rightarrow> Ok \<lparr>un_func_index = func_index, un_bytes = small_bytes_from bytes, un_module = module,
                   un_validation = None\<rparr>)"

record compiled_func =
  co_ops :: "u8 list"
  co_len_local_slots :: u16
  co_len_stack_slots :: u16

definition compiled_new :: "u16 \<Rightarrow> u16 \<Rightarrow> u8 list \<Rightarrow> compiled_func" where
  "compiled_new len_local_slots len_stack_slots ops =
     \<lparr>co_ops = ops, co_len_local_slots = len_local_slots, co_len_stack_slots = len_stack_slots\<rparr>"

record compiled_ref =
  cr_ops :: "u8 list"
  cr_len_local_slots :: u16
  cr_len_stack_slots :: u16

definition compiled_ref_from :: "compiled_func \<Rightarrow> compiled_ref" where
  "compiled_ref_from f =
     \<lparr>cr_ops = co_ops f, cr_len_local_slots = co_len_local_slots f, cr_len_stack_slots = co_len_stack_slots f\<rparr>"

datatype 'e compile_error = ResumableOutOfFuel u64 | LazyCompilationFailed | Translation 'e

record ('m, 'v, 'f, 'e) compile_env =
  ce_translate :: "'m \<Rightarrow> u32 \<Rightarrow> u8 list \<Rightarrow> (u32 \<times> 'v) option \<Rightarrow> 'f \<Rightarrow> ('e, compiled_func) res"
  ce_engine_alive :: "'m \<Rightarrow> bool"
  ce_features :: 'f
  ce_error_trap :: "'e \<Rightarrow> trap_code option"

definition as_trap_code :: "('m, 'v, 'f, 'e) compile_env \<Rightarrow> 'e compile_error \<Rightarrow> trap_code option" where
  "as_trap_code env err =
     (case err of
        ResumableOutOfFuel _ \<Rightarrow> Some TrapOutOfFuel
      | LazyCompilationFailed \<Rightarrow> None
      | Translation e \<Rightarrow> ce_error_trap env e)"

definition COMPILE_FUEL_PER_BYTE :: u64 where "COMPILE_FUEL_PER_BYTE = 7"

definition VALIDATE_FUEL_PER_BYTE :: u64 where "VALIDATE_FUEL_PER_BYTE = 2"

definition VALIDATE_AND_COMPILE_FUEL_PER_BYTE :: u64 where
  "VALIDATE_AND_COMPILE_FUEL_PER_BYTE = VALIDATE_FUEL_PER_BYTE + COMPILE_FUEL_PER_BYTE"

definition compilation_fuel :: "('m, 'v) uncompiled_func \<Rightarrow> u64" where
  "compilation_fuel u =
     (let len_bytes = of_nat (length (small_bytes_as_slice (un_bytes u))) :: u64;
          needs_validation = un_validation u \<noteq> None;
          fuel_per_byte = (if needs_validation then VALIDATE_AND_COMPILE_FUEL_PER_BYTE else COMPILE_FUEL_PER_BYTE)
      in saturating_mul len_bytes fuel_per_byte)"

text \<open>Charging the fuel of a compilation; \<open>None\<close> stands for an execution without a fuel counter.\<close>

definition charge_compilation ::
  "fuel option \<Rightarrow> ('m, 'v) uncompiled_func \<Rightarrow> ('e compile_error, unit) res \<times> fuel option" where
  "charge_compilation fuel u =
     (case fuel of
        None \<Rightarrow> (Ok (), None)
      | Some f \<Rightarrow>
          (case consume_fuel f (\<lambda>_. compilation_fuel u) of
             (Err (OutOfFuel required_fuel), f') \<Rightarrow> (Err (ResumableOutOfFuel required_fuel), Some f')
           | (Panic, f') \<Rightarrow> (Panic, Some f')
           | (_, f') \<Rightarrow> (Ok (), Some f')))"

text \<open>
  Compiling charges the fuel first and then takes the validation out of the entry: the third
  component is the entry afterwards.
\<close>

definition uncompiled_compile ::
  "('m, 'v, 'f, 'e) compile_env \<Rightarrow> fuel option \<Rightarrow> ('m, 'v) uncompiled_func
   \<Rightarrow> ('e compile_error, compiled_func) res \<times> fuel option \<times> ('m, 'v) uncompiled_func" where
  "uncompiled_compile env fuel u =
     (case charge_compilation fuel u of
        (Err e, fuel') \<Rightarrow> (Err e, fuel', u)
      | (Panic, fuel') \<Rightarrow> (Panic, fuel', u)
      | (Ok _, fuel') \<Rightarrow>
          if \<not> ce_engine_alive env (un_module u) then (Panic, fuel', u)
          else (map_err Translation
                  (ce_translate env (un_module u) (un_func_index u) (small_bytes_as_slice (un_bytes u))
                     (un_validation u) (ce_features env)),
                fuel', u\<lparr>un_validation := None\<rparr>))"

subsection \<open>Entries\<close>

definition UNINIT :: u8 where "UNINIT = 0"

definition UNCOMPILED :: u8 where "UNCOMPILED = 1"

definition COMPILING :: u8 where "COMPILING = 2"

definition FAILED_TO_COMPILE :: u8 where "FAILED_TO_COMPILE = 3"

definition COMPILED :: u8 where "COMPILED = 4"

lemmas entry_states = UNINIT_def UNCOMPILED_def COMPILING_def FAILED_TO_COMPILE_def COMPILED_def

datatype ('m, 'v) entry_data =
  DataUndefined
| DataUncompiled "('m, 'v) uncompiled_func"
| DataCompiled compiled_func

record ('m, 'v) func_entry =
  fe_data :: "('m, 'v) entry_data"
  fe_state :: u8

definition entry_uninit :: "('m, 'v) func_entry" where
  "entry_uninit = \<lparr>fe_data = DataUndefined, fe_state = UNINIT\<rparr>"

definition entry_is_initialized :: "('m, 'v) func_entry \<Rightarrow> bool" where
  "entry_is_initialized e \<longleftrightarrow> fe_state e \<noteq> UNINIT"

definition set_compiled :: "('m, 'v) func_entry \<Rightarrow> compiled_func \<Rightarrow> ('m, 'v) func_entry" where
  "set_compiled e c = e\<lparr>fe_data := DataCompiled c, fe_state := COMPILED\<rparr>"

definition set_uncompiled :: "('m, 'v) func_entry \<Rightarrow> ('m, 'v) uncompiled_func \<Rightarrow> ('m, 'v) func_entry" where
  "set_uncompiled e u = e\<lparr>fe_data := DataUncompiled u, fe_state := UNCOMPILED\<rparr>"

definition init_compiled :: "('m, 'v) func_entry \<Rightarrow> compiled_func \<Rightarrow> (unit, unit) res \<times> ('m, 'v) func_entry" where
  "init_compiled e c = (if entry_is_initialized e then (Panic, e) else (Ok (), set_compiled e c))"

definition init_uncompiled ::
  "('m, 'v) func_entry \<Rightarrow> ('m, 'v) uncompiled_func \<Rightarrow> (unit, unit) res \<times> ('m, 'v) func_entry" where
  "init_uncompiled e u = (if entry_is_initialized e then (Panic, e) else (Ok (), set_uncompiled e u))"

definition take_uncompiled ::
  "('m, 'v) func_entry \<Rightarrow> ('m, 'v) uncompiled_func option \<times> ('m, 'v) func_entry" where
  "take_uncompiled e =
     (case fe_data e of
        DataUncompiled u \<Rightarrow> (Some u, e\<lparr>fe_data := DataUndefined\<rparr>)
      | _ \<Rightarrow> (None, e))"

definition assume_compiled :: "('m, 'v) func_entry \<Rightarrow> compiled_ref option" where
  "assume_compiled e = (case fe_data e of DataCompiled c \<Rightarrow> Some (compiled_ref_from c) | _ \<Rightarrow> None)"

definition is_out_of_fuel :: "('m, 'v, 'f, 'e) compile_env \<Rightarrow> 'e compile_error \<Rightarrow> bool" where
  "is_out_of_fuel env err \<longleftrightarrow> as_trap_code env err = Some TrapOutOfFuel"

text \<open>
  \<open>FuncEntry::compile\<close> when no other thread touches the entry. The outer \<open>None\<close> is a loop that does
  not end (the entry stays in the state \<open>COMPILING\<close>); undefined behaviour is \<open>Panic\<close>.
\<close>

definition read_compiled :: "('m, 'v) func_entry \<Rightarrow> ('e compile_error, compiled_ref) res" where
  "read_compiled e = (case assume_compiled e of Some r \<Rightarrow> Ok r | None \<Rightarrow> Panic)"

partial_function (option) entry_compile ::
  "('m, 'v, 'f, 'e) compile_env \<Rightarrow> fuel option \<Rightarrow> ('m, 'v) func_entry
   \<Rightarrow> (('e compile_error, compiled_ref) res \<times> fuel option \<times> ('m, 'v) func_entry) option" where
  "entry_compile env fuel e =
     (if fe_state e = COMPILED then Some (read_compiled e, fuel, e)
      else if fe_state e = COMPILING then entry_compile env fuel e
      else if fe_state e = FAILED_TO_COMPILE then Some (Err LazyCompilationFailed, fuel, e)
      else if fe_state e = UNCOMPILED then
        (case take_uncompiled (e\<lparr>fe_state := COMPILING\<rparr>) of
           (None, e1) \<Rightarrow> Some (Panic, fuel, e1)
         | (Some u, e1) \<Rightarrow>
             (case uncompiled_compile env fuel u of
                (Ok c, fuel', _) \<Rightarrow> Some (read_compiled (set_compiled e1 c), fuel', set_compiled e1 c)
              | (Err err, fuel', u') \<Rightarrow>
                  if is_out_of_fuel env err then Some (Err err, fuel', set_uncompiled e1 u')
                  else Some (Err err, fuel', e1\<lparr>fe_state := FAILED_TO_COMPILE\<rparr>)
              | (Panic, fuel', _) \<Rightarrow> Some (Panic, fuel', e1)))
      else Some (Panic, fuel, e))"

definition entry_get_or_compile ::
  "('m, 'v, 'f, 'e) compile_env \<Rightarrow> fuel option \<Rightarrow> ('m, 'v) func_entry
   \<Rightarrow> (('e compile_error, compiled_ref) res \<times> fuel option \<times> ('m, 'v) func_entry) option" where
  "entry_get_or_compile env fuel e =
     (if fe_state e = COMPILED then Some (read_compiled e, fuel, e) else entry_compile env fuel e)"

subsection \<open>Threads\<close>

text \<open>
  The places of \<open>get_or_compile\<close> and \<open>compile\<close> between two accesses to shared memory, with the local
  variables that are live there. Each step performs one access: a load, store or compare-and-exchange
  of the state byte, or a read or write of the payload. \<open>AtFault\<close> is undefined behaviour.
\<close>

datatype ('m, 'v, 'e) thread =
  AtHotPath "fuel option"
| AtLoad "fuel option"
| AtExchange "fuel option"
| AtTake "fuel option"
| AtCompile "fuel option" "('m, 'v) uncompiled_func"
| AtWriteCompiled "fuel option" compiled_func
| AtPublishCompiled "fuel option"
| AtWriteUncompiled "fuel option" "'e compile_error" "('m, 'v) uncompiled_func"
| AtPublishUncompiled "fuel option" "'e compile_error"
| AtPublishFailed "fuel option" "'e compile_error"
| AtRead "fuel option"
| Returned "fuel option" "('e compile_error, compiled_ref) res"
| AtFault

fun thread_step ::
  "('m, 'v, 'f, 'e) compile_env \<Rightarrow> ('m, 'v) func_entry \<Rightarrow> ('m, 'v, 'e) thread
   \<Rightarrow> ('m, 'v) func_entry \<times> ('m, 'v, 'e) thread" where
  "thread_step env e (AtHotPath f) = (e, if fe_state e = COMPILED then AtRead f else AtLoad f)"
| "thread_step env e (AtLoad f) =
     (e, if fe_state e = COMPILED then AtRead f
         else if fe_state e = COMPILING then AtLoad f
         else if fe_state e = FAILED_TO_COMPILE then Returned f (Err LazyCompilationFailed)
         else if fe_state e = UNCOMPILED then AtExchange f
         else AtFault)"
| "thread_step env e (AtExchange f) =
     (if fe_state e = UNCOMPILED then (e\<lparr>fe_state := COMPILING\<rparr>, AtTake f) else (e, AtLoad f))"
| "thread_step env e (AtTake f) =
     (case take_uncompiled e of (Some u, e') \<Rightarrow> (e', AtCompile f u) | (None, e') \<Rightarrow> (e', AtFault))"
| "thread_step env e (AtCompile f u) =
     (e, case uncompiled_compile env f u of
           (Ok c, f', _) \<Rightarrow> AtWriteCompiled f' c
         | (Err err, f', u') \<Rightarrow> if is_out_of_fuel env err then AtWriteUncompiled f' err u' else AtPublishFailed f' err
         | (Panic, f', _) \<Rightarrow> Returned f' Panic)"
| "thread_step env e (AtWriteCompiled f c) = (e\<lparr>fe_data := DataCompiled c\<rparr>, AtPublishCompiled f)"
| "thread_step env e (AtPublishCompiled f) = (e\<lparr>fe_state := COMPILED\<rparr>, AtRead f)"
| "thread_step env e (AtWriteUncompiled f err u) = (e\<lparr>fe_data := DataUncompiled u\<rparr>, AtPublishUncompiled f err)"
| "thread_step env e (AtPublishUncompiled f err) = (e\<lparr>fe_state := UNCOMPILED\<rparr>, Returned f (Err err))"
| "thread_step env e (AtPublishFailed f err) = (e\<lparr>fe_state := FAILED_TO_COMPILE\<rparr>, Returned f (Err err))"
| "thread_step env e (AtRead f) =
     (e, case assume_compiled e of Some r \<Rightarrow> Returned f (Ok r) | None \<Rightarrow> AtFault)"
| "thread_step env e (Returned f r) = (e, Returned f r)"
| "thread_step env e AtFault = (e, AtFault)"

text \<open>An entry shared by threads; the scheduler picks the thread that makes the next step.\<close>

type_synonym ('m, 'v, 'e) entry_system = "('m, 'v) func_entry \<times> ('m, 'v, 'e) thread list"

definition system_step ::
  "('m, 'v, 'f, 'e) compile_env \<Rightarrow> nat \<Rightarrow> ('m, 'v, 'e) entry_system \<Rightarrow> ('m, 'v, 'e) entry_system" where
  "system_step env i s =
     (case s of (e, ts) \<Rightarrow>
        if i < length ts then let (e', t') = thread_step env e (ts ! i) in (e', ts[i := t']) else (e, ts))"

inductive system_reach ::
  "('m, 'v, 'f, 'e) compile_env \<Rightarrow> ('m, 'v, 'e) entry_system \<Rightarrow> ('m, 'v, 'e) entry_system \<Rightarrow> bool"
  for env s where
  system_refl: "system_reach env s s"
| system_next: "system_reach env s s' \<Longrightarrow> system_reach env s (system_step env i s')"

fun system_run ::
  "('m, 'v, 'f, 'e) compile_env \<Rightarrow> (nat \<Rightarrow> nat) \<Rightarrow> nat \<Rightarrow> ('m, 'v, 'e) entry_system \<Rightarrow> ('m, 'v, 'e) entry_system" where
  "system_run env sched 0 s = s"
| "system_run env sched (Suc k) s = system_step env (sched k) (system_run env sched k s)"

subsection \<open>The protocol\<close>

text \<open>
  The thread that owns the payload, and what the payload is while it does. A thread that panicked
  while compiling keeps the ownership.
\<close>

fun owner_data :: "('m, 'v) uncompiled_func \<Rightarrow> ('m, 'v, 'e) thread \<Rightarrow> (('m, 'v) entry_data \<Rightarrow> bool) option" where
  "owner_data u (AtTake f) = Some (\<lambda>d. d = DataUncompiled u)"
| "owner_data u (AtCompile f u') = Some (\<lambda>d. d = DataUndefined)"
| "owner_data u (AtWriteCompiled f c) = Some (\<lambda>d. d = DataUndefined)"
| "owner_data u (AtPublishCompiled f) = Some (\<lambda>d. case d of DataCompiled c \<Rightarrow> True | _ \<Rightarrow> False)"
| "owner_data u (AtWriteUncompiled f err u') = Some (\<lambda>d. d = DataUndefined)"
| "owner_data u (AtPublishUncompiled f err) = Some (\<lambda>d. d = DataUncompiled u)"
| "owner_data u (AtPublishFailed f err) = Some (\<lambda>d. d = DataUndefined)"
| "owner_data u (Returned f Panic) = Some (\<lambda>d. d = DataUndefined)"
| "owner_data u _ = None"

abbreviation owns :: "('m, 'v) uncompiled_func \<Rightarrow> ('m, 'v, 'e) thread \<Rightarrow> bool" where
  "owns u t \<equiv> owner_data u t \<noteq> None"

text \<open>The accesses of a thread's next step to the payload.\<close>

fun writes_payload :: "('m, 'v, 'e) thread \<Rightarrow> bool" where
  "writes_payload (AtTake _) = True"
| "writes_payload (AtWriteCompiled _ _) = True"
| "writes_payload (AtWriteUncompiled _ _ _) = True"
| "writes_payload _ = False"

fun reads_payload :: "('m, 'v, 'e) thread \<Rightarrow> bool" where
  "reads_payload (AtRead _) = True"
| "reads_payload t = writes_payload t"

fun returned :: "('m, 'v, 'e) thread \<Rightarrow> bool" where
  "returned (Returned _ _) = True"
| "returned _ = False"

text \<open>
  What holds of every thread: it has not faulted, the payload it holds is the original one and a
  compiled function is what the translator makes of it, a thread that reads the payload or has
  returned a function sees the state \<open>COMPILED\<close>, and a panic comes from the translator or from an
  engine that is gone.
\<close>

definition translated :: "('m, 'v, 'f, 'e) compile_env \<Rightarrow> ('m, 'v) uncompiled_func \<Rightarrow> compiled_func \<Rightarrow> bool" where
  "translated env u c \<longleftrightarrow>
     ce_translate env (un_module u) (un_func_index u) (small_bytes_as_slice (un_bytes u)) (un_validation u) (ce_features env) = Ok c"

definition may_panic :: "('m, 'v, 'f, 'e) compile_env \<Rightarrow> ('m, 'v) uncompiled_func \<Rightarrow> bool" where
  "may_panic env u \<longleftrightarrow> \<not> ce_engine_alive env (un_module u) \<or>
     ce_translate env (un_module u) (un_func_index u) (small_bytes_as_slice (un_bytes u)) (un_validation u) (ce_features env) = Panic"

fun thread_ok ::
  "('m, 'v, 'f, 'e) compile_env \<Rightarrow> ('m, 'v) uncompiled_func \<Rightarrow> ('m, 'v) func_entry \<Rightarrow> ('m, 'v, 'e) thread \<Rightarrow> bool" where
  "thread_ok env u e (AtCompile _ u') \<longleftrightarrow> u' = u"
| "thread_ok env u e (AtWriteCompiled _ c) \<longleftrightarrow> translated env u c"
| "thread_ok env u e (AtWriteUncompiled _ err u') \<longleftrightarrow> u' = u"
| "thread_ok env u e (AtRead _) \<longleftrightarrow> fe_state e = COMPILED"
| "thread_ok env u e (Returned _ (Ok r)) \<longleftrightarrow> fe_state e = COMPILED \<and> assume_compiled e = Some r"
| "thread_ok env u e (Returned _ Panic) \<longleftrightarrow> may_panic env u"
| "thread_ok env u e AtFault \<longleftrightarrow> False"
| "thread_ok env u e _ \<longleftrightarrow> True"

definition entry_ok :: "('m, 'v, 'f, 'e) compile_env \<Rightarrow> ('m, 'v) uncompiled_func \<Rightarrow> ('m, 'v) func_entry \<Rightarrow> bool" where
  "entry_ok env u e \<longleftrightarrow>
     (case fe_data e of DataCompiled c \<Rightarrow> translated env u c | _ \<Rightarrow> True) \<and>
     (fe_state e = UNCOMPILED \<and> fe_data e = DataUncompiled u \<or>
      fe_state e = COMPILED \<and> assume_compiled e \<noteq> None \<or>
      fe_state e = FAILED_TO_COMPILE \<and> fe_data e = DataUndefined \<or>
      fe_state e = COMPILING)"

definition owner_ok :: "('m, 'v) uncompiled_func \<Rightarrow> ('m, 'v) func_entry \<Rightarrow> ('m, 'v, 'e) thread \<Rightarrow> bool" where
  "owner_ok u e t \<longleftrightarrow>
     (case owner_data u t of None \<Rightarrow> True | Some P \<Rightarrow> fe_state e = COMPILING \<and> P (fe_data e))"

text \<open>The entry is in the state \<open>COMPILING\<close> exactly if a thread owns the payload, and only one does.\<close>

definition system_ok ::
  "('m, 'v, 'f, 'e) compile_env \<Rightarrow> ('m, 'v) uncompiled_func \<Rightarrow> ('m, 'v, 'e) entry_system \<Rightarrow> bool" where
  "system_ok env u s \<longleftrightarrow>
     (case s of (e, ts) \<Rightarrow>
        entry_ok env u e \<and> (\<forall>i<length ts. thread_ok env u e (ts ! i) \<and> owner_ok u e (ts ! i)) \<and>
        (\<forall>i<length ts. \<forall>j<length ts. owns u (ts ! i) \<and> owns u (ts ! j) \<longrightarrow> i = j) \<and>
        (fe_state e = COMPILING \<longrightarrow> (\<exists>i<length ts. owns u (ts ! i))))"

text \<open>The translator reports errors of its own, never a lack of fuel.\<close>

definition no_fuel_errors :: "('m, 'v, 'f, 'e) compile_env \<Rightarrow> bool" where
  "no_fuel_errors env \<longleftrightarrow> (\<forall>err. ce_error_trap env err \<noteq> Some TrapOutOfFuel)"

lemmas entry_data_simps = entry_states entry_ok_def owner_ok_def assume_compiled_def take_uncompiled_def

lemma charge_compilation_no_panic: "fst (charge_compilation f u) \<noteq> Panic"
  by (auto simp: charge_compilation_def consume_fuel_def check_fuel_metering_enabled_def
      consume_fuel_unchecked_def split: option.splits prod.splits res.splits fuel_error.splits)

lemma uncompiled_compile_outcome:
  fixes env :: "('m, 'v, 'f, 'e) compile_env"
  assumes "no_fuel_errors env"
  shows "case uncompiled_compile env f u of
      (Ok c, _) \<Rightarrow> translated env u c
    | (Err err, _, u') \<Rightarrow> is_out_of_fuel env err \<longrightarrow> u' = u
    | (Panic, _) \<Rightarrow> may_panic env u"
proof (cases "charge_compilation f u :: ('e compile_error, unit) res \<times> fuel option")
  case (Pair r f')
  moreover have "r \<noteq> Panic"
    using Pair by (metis charge_compilation_no_panic fst_conv)
  moreover have "\<not> is_out_of_fuel env (Translation err)" for err
    using assms by (simp add: no_fuel_errors_def is_out_of_fuel_def as_trap_code_def)
  ultimately show ?thesis
    by (cases r; cases "ce_translate env (un_module u) (un_func_index u)
        (small_bytes_as_slice (un_bytes u)) (un_validation u) (ce_features env)")
      (auto simp: uncompiled_compile_def translated_def may_panic_def)
qed

lemma step_keeps_entry:
  assumes "entry_ok env u e" "thread_ok env u e t" "owner_ok u e t" "no_fuel_errors env"
    and "thread_step env e t = (e', t')"
  shows "entry_ok env u e'" and "thread_ok env u e' t'" and "owner_ok u e' t'"
  using assms uncompiled_compile_outcome [OF assms(4), of u "case t of AtCompile f _ \<Rightarrow> f"]
  by (cases "(env, e, t)" rule: thread_step.cases;
      auto simp: entry_data_simps split: if_splits entry_data.splits prod.splits res.splits; fail)+

lemma step_other_thread: "fe_state e \<noteq> COMPILED \<Longrightarrow> thread_ok env u e t \<Longrightarrow> thread_ok env u e' t"
  by (cases "(env, u, e, t)" rule: thread_ok.cases) auto

lemma step_ownership:
  assumes "entry_ok env u e" "thread_ok env u e t" "owner_ok u e t" "thread_step env e t = (e', t')"
  shows "owns u t' \<Longrightarrow> owns u t \<or> fe_state e = UNCOMPILED"
    and "owns u t \<Longrightarrow> owns u t' \<or> fe_state e' \<noteq> COMPILING"
    and "\<not> owns u t \<Longrightarrow> \<not> owns u t' \<Longrightarrow> e' = e"
    and "fe_state e = COMPILED \<Longrightarrow> e' = e"
    and "fe_state e' = COMPILING \<Longrightarrow> fe_state e = COMPILING \<or> owns u t'"
  using assms
  by (cases "(env, e, t)" rule: thread_step.cases;
      auto simp: entry_data_simps split: if_splits entry_data.splits prod.splits res.splits; fail)+

lemma system_step_ok:
  assumes ok: "system_ok env u (e, ts)" and env: "no_fuel_errors env"
  shows "system_ok env u (system_step env i (e, ts))"
proof (cases "i < length ts")
  case i: True
  obtain e' t' where step: "thread_step env e (ts ! i) = (e', t')" by (cases "thread_step env e (ts ! i)")
  have e: "entry_ok env u e" and ti: "thread_ok env u e (ts ! i)" and oi: "owner_ok u e (ts ! i)"
    using ok i by (simp_all add: system_ok_def)
  note own = step_ownership [OF e ti oi step]
  have other: "thread_ok env u e' (ts ! j)" "owns u (ts ! j) \<Longrightarrow> e' = e \<and> \<not> owns u (ts ! i) \<and> \<not> owns u t'"
    if j: "j < length ts" "j \<noteq> i" for j
  proof -
    have tj: "thread_ok env u e (ts ! j)" using ok j by (simp add: system_ok_def)
    show "thread_ok env u e' (ts ! j)"
      using tj own(4) step_other_thread [OF _ tj, of e'] by (cases "fe_state e = COMPILED") auto
    assume oj: "owns u (ts ! j)"
    then have ni: "\<not> owns u (ts ! i)" using ok i j unfolding system_ok_def by blast
    moreover have "fe_state e = COMPILING" using oj ok j by (auto simp: system_ok_def owner_ok_def)
    ultimately have "\<not> owns u t'" using own(1) by (cases "owner_data u t'") (auto simp: entry_states)
    with ni show "e' = e \<and> \<not> owns u (ts ! i) \<and> \<not> owns u t'" using own(3) by simp
  qed
  have threads: "thread_ok env u e' (ts[i := t'] ! j) \<and> owner_ok u e' (ts[i := t'] ! j)" if "j < length ts" for j
    using step_keeps_entry [OF e ti oi env step] other [of j] that i ok
    by (cases "j = i") (auto simp: system_ok_def owner_ok_def nth_list_update split: option.splits)
  have unique: "j = k" if "j < length ts" "k < length ts" "owns u (ts[i := t'] ! j)" "owns u (ts[i := t'] ! k)" for j k
    using that other(2) [of j] other(2) [of k] ok
    by (cases "j = i"; cases "k = i") (auto simp: system_ok_def)
  have owner: "\<exists>j<length ts. owns u (ts[i := t'] ! j)" if compiling: "fe_state e' = COMPILING"
  proof (cases "owns u t'")
    case False
    then have ni: "\<not> owns u (ts ! i)" using own(2) compiling by blast
    then have "e' = e" using False own(3) by blast
    then obtain j where "j < length ts" "owns u (ts ! j)"
      using ok compiling unfolding system_ok_def by auto
    with ni show ?thesis by (metis nth_list_update_neq)
  qed (use i in auto)
  show ?thesis
    using step i threads unique owner step_keeps_entry(1) [OF e ti oi env step]
    by (simp add: system_step_def system_ok_def)
qed (use ok in \<open>simp add: system_step_def\<close>)

lemma system_reach_ok:
  assumes "system_reach env s s'" "system_ok env u s" "no_fuel_errors env"
  shows "system_ok env u s'"
  using assms
proof (induction rule: system_reach.induct)
  case (system_next s' i)
  then show ?case using system_step_ok [of env u "fst s'" "snd s'"] by simp
qed

text \<open>An initialized entry that is not being compiled, and threads that are about to ask for it.\<close>

definition starting :: "('m, 'v, 'e) thread list \<Rightarrow> bool" where
  "starting ts = list_all (\<lambda>t. case t of AtHotPath _ \<Rightarrow> True | _ \<Rightarrow> False) ts"

lemma starting_ok: "entry_ok env u e \<Longrightarrow> fe_state e \<noteq> COMPILING \<Longrightarrow> starting ts \<Longrightarrow> system_ok env u (e, ts)"
proof -
  assume "entry_ok env u e" "fe_state e \<noteq> COMPILING" and ts: "starting ts"
  moreover have "\<exists>f. ts ! i = AtHotPath f" if "i < length ts" for i
  proof -
    have "case ts ! i of AtHotPath _ \<Rightarrow> True | _ \<Rightarrow> False" using ts that by (simp add: starting_def list_all_length)
    then show ?thesis by (cases "ts ! i") auto
  qed
  ultimately show ?thesis by (fastforce simp: system_ok_def owner_ok_def)
qed

lemma starting_uncompiled: "starting ts \<Longrightarrow> system_ok env u (set_uncompiled entry_uninit u, ts)"
  by (rule starting_ok) (simp_all add: set_uncompiled_def entry_ok_def entry_states)

text \<open>
  C30: lazy compilation is safe for any number of threads in any interleaving. Starting from an
  uncompiled entry, no thread ever reaches undefined behaviour; whenever a thread is about to write
  the payload no other thread is about to read or write it; at most one thread holds the payload; and
  every thread that returns a function returns the one stored in the entry, which is what the
  translator makes of the original function, with its validation.
\<close>
theorem lazy_compile_safe:
  assumes env: "no_fuel_errors env" and ts: "starting ts"
    and reach: "system_reach env (set_uncompiled entry_uninit u, ts) (e, ts')"
    and ij: "i < length ts'" "j < length ts'"
  shows "ts' ! i \<noteq> AtFault
    \<and> (i \<noteq> j \<and> writes_payload (ts' ! i) \<longrightarrow> \<not> reads_payload (ts' ! j))
    \<and> (i \<noteq> j \<and> owns u (ts' ! i) \<longrightarrow> \<not> owns u (ts' ! j))
    \<and> (case ts' ! i of Returned _ (Ok r) \<Rightarrow> fe_state e = COMPILED \<and>
         (\<exists>c. fe_data e = DataCompiled c \<and> r = compiled_ref_from c \<and> translated env u c) | _ \<Rightarrow> True)"
proof -
  have ok: "system_ok env u (e, ts')"
    using system_reach_ok [OF reach starting_uncompiled [OF ts] env] .
  then have t: "thread_ok env u e (ts' ! i)" "owner_ok u e (ts' ! i)" "thread_ok env u e (ts' ! j)"
      "owner_ok u e (ts' ! j)" and e: "entry_ok env u e"
    and u: "owns u (ts' ! i) \<and> owns u (ts' ! j) \<longrightarrow> i = j"
    using ij by (auto simp: system_ok_def)
  have writer: "owns u t" if "writes_payload t" for t :: "('a, 'b, 'd) thread"
    using that by (cases t rule: writes_payload.cases) auto
  have "\<not> reads_payload (ts' ! j)" if "i \<noteq> j" "writes_payload (ts' ! i)"
  proof
    assume "reads_payload (ts' ! j)"
    then have "writes_payload (ts' ! j) \<or> fe_state e = COMPILED"
      using t(3) by (cases "ts' ! j" rule: reads_payload.cases) auto
    then show False using writer [OF that(2)] writer [of "ts' ! j"] u that(1) t(2)
      by (auto simp: owner_ok_def entry_states)
  qed
  moreover have "ts' ! i \<noteq> AtFault" using t(1) by auto
  moreover have "case ts' ! i of Returned _ (Ok r) \<Rightarrow> fe_state e = COMPILED \<and>
         (\<exists>c. fe_data e = DataCompiled c \<and> r = compiled_ref_from c \<and> translated env u c) | _ \<Rightarrow> True"
    using t(1) e by (auto simp: assume_compiled_def entry_ok_def split: thread.splits res.splits entry_data.splits)
  ultimately show ?thesis using u by blast
qed

lemma system_reach_run: "system_reach env s (system_run env sched k s)"
  by (induction k) (auto intro: system_reach.intros)

lemma system_run_numeral:
  "system_run env sched (numeral n) s =
     system_step env (sched (pred_numeral n)) (system_run env sched (pred_numeral n) s)"
  by (simp add: numeral_eq_Suc)

text \<open>A translator for examples: every function compiles to the bytes of its body.\<close>

definition example_env :: "(unit, unit, unit, unit) compile_env" where
  "example_env = \<lparr>ce_translate = \<lambda>m i bytes v f. Ok (compiled_new 0 1 bytes), ce_engine_alive = \<lambda>_. True,
     ce_features = (), ce_error_trap = \<lambda>_. None\<rparr>"

definition example_func :: "(unit, unit) uncompiled_func" where
  "example_func = \<lparr>un_func_index = 0, un_bytes = small_bytes_from [7], un_module = (), un_validation = Some (0, ())\<rparr>"

lemmas example_simps = example_env_def example_func_def no_fuel_errors_def may_panic_def starting_def
  translated_def compiled_new_def compiled_ref_from_def

lemmas run_simps = system_step_def entry_states set_uncompiled_def entry_uninit_def take_uncompiled_def
  assume_compiled_def uncompiled_compile_def charge_compilation_def is_out_of_fuel_def as_trap_code_def

theorem lazy_compile_safe_witness:
  "snd (system_run example_env (\<lambda>k. if k < 3 then 0 else if k < 5 then 1 else if k < 10 then 0 else 1) 12
      (set_uncompiled entry_uninit example_func, [AtHotPath None, AtHotPath None]))
    = [Returned None (Ok \<lparr>cr_ops = [7], cr_len_local_slots = 0, cr_len_stack_slots = 1\<rparr>),
       Returned None (Ok \<lparr>cr_ops = [7], cr_len_local_slots = 0, cr_len_stack_slots = 1\<rparr>)]
   \<and> translated example_env example_func \<lparr>co_ops = [7], co_len_local_slots = 0, co_len_stack_slots = 1\<rparr>"
proof -
  let ?s = "(set_uncompiled entry_uninit example_func, [AtHotPath None, AtHotPath None])"
  let ?run = "system_run example_env (\<lambda>k. if k < 3 then 0 else if k < 5 then 1 else if k < 10 then 0 else 1) 12 ?s"
  let ?c = "\<lparr>co_ops = [7], co_len_local_slots = 0, co_len_stack_slots = 1\<rparr>"
  have run: "?run = (\<lparr>fe_data = DataCompiled ?c, fe_state = COMPILED\<rparr>,
      [Returned None (Ok (compiled_ref_from ?c)), Returned None (Ok (compiled_ref_from ?c))])"
    by (simp add: system_run_numeral run_simps example_env_def compiled_new_def example_func_def)
  have "no_fuel_errors example_env" "starting [AtHotPath None, AtHotPath None]" by (simp_all add: example_simps)
  from lazy_compile_safe [OF this, of example_func "fst ?run" "snd ?run" 0 1]
  have "translated example_env example_func ?c"
    using run system_reach_run [where env = example_env and s = ?s and k = 12 and sched = "\<lambda>k. if k < 3 then 0 else if k < 5 then 1 else if k < 10 then 0 else 1"]
    by (simp add: compiled_ref_from_def)
  with run show ?thesis by (simp add: compiled_ref_from_def)
qed

subsection \<open>Progress\<close>

text \<open>
  A run of a system in which every step leaves the state as it is or makes a measure smaller, and in
  which some thread can always change the state until the end, ends under every fair schedule.
\<close>

lemma fair_run_ends:
  assumes wf: "wf R"
    and dec: "\<And>k. run (Suc k) = run k \<or> (m (run (Suc k)), m (run k)) \<in> R"
    and moves: "\<And>k. \<not> final (run k) \<Longrightarrow> \<exists>i<n. \<forall>k'. sched k' = i \<and> run k' = run k \<longrightarrow> run (Suc k') \<noteq> run k'"
    and fair: "\<And>i k. i < n \<Longrightarrow> \<exists>k'\<ge>k. sched k' = (i :: nat)"
  shows "\<exists>k'\<ge>k. final (run k')"
proof (induction "m (run k)" arbitrary: k rule: wf_induct_rule [OF wf])
  case (1 k)
  show ?case
  proof (cases "final (run k)")
    case False
    have "\<exists>j\<ge>k. run (Suc j) \<noteq> run j"
    proof (rule ccontr)
      assume never: "\<not> ?thesis"
      have same: "run j = run k" if "j \<ge> k" for j
        using that
      proof (induction rule: dec_induct)
        case (step l)
        then show ?case using never by auto
      qed simp
      obtain i k' where "i < n" "k' \<ge> k" "sched k' = i" "run (Suc k') \<noteq> run k'"
        using moves [OF False] fair [of _ k] same by metis
      then show False using same [of k'] same [of "Suc k'"] by simp
    qed
    then obtain j where j: "j \<ge> k" "run (Suc j) \<noteq> run j" and least: "\<And>l. l \<ge> k \<Longrightarrow> l < j \<Longrightarrow> run (Suc l) = run l"
      using exists_least_iff [of "\<lambda>j. j \<ge> k \<and> run (Suc j) \<noteq> run j"] by blast
    have "run (k + l) = run k" if "k + l \<le> j" for l
      using that by (induction l) (use least in \<open>auto simp: Suc_le_eq\<close>)
    from this [of "j - k"] have "(m (run (Suc j)), m (run k)) \<in> R" using dec [of j] j by auto
    from 1 [OF this] show ?thesis using j(1) by (meson Suc_leD le_trans)
  qed blast
qed

text \<open>The threads that may still win the race, and how far a thread is from returning.\<close>

fun contender :: "('m, 'v, 'e) thread \<Rightarrow> bool" where
  "contender (AtHotPath _) = True"
| "contender (AtLoad _) = True"
| "contender (AtExchange _) = True"
| "contender _ = False"

fun distance :: "bool \<Rightarrow> ('m, 'v, 'e) thread \<Rightarrow> nat" where
  "distance free (AtHotPath _) = 5"
| "distance free (AtLoad _) = 4"
| "distance free (AtExchange _) = (if free then 3 else 5)"
| "distance free (AtTake _) = 8"
| "distance free (AtCompile _ _) = 7"
| "distance free (AtWriteCompiled _ _) = 6"
| "distance free (AtPublishCompiled _) = 5"
| "distance free (AtWriteUncompiled _ _ _) = 6"
| "distance free (AtPublishUncompiled _ _) = 5"
| "distance free (AtPublishFailed _ _) = 5"
| "distance free (AtRead _) = 1"
| "distance free (Returned _ _) = 0"
| "distance free AtFault = 0"

definition system_measure :: "('m, 'v, 'e) entry_system \<Rightarrow> nat \<times> nat" where
  "system_measure s =
     (case s of (e, ts) \<Rightarrow>
        (sum_list (map (of_bool \<circ> contender) ts), sum_list (map (distance (fe_state e = UNCOMPILED)) ts)))"

lemma sum_list_update_less:
  fixes f g :: "'a \<Rightarrow> nat"
  assumes "i < length xs" "g y < f (xs ! i)" "\<And>j. j < length xs \<Longrightarrow> j \<noteq> i \<Longrightarrow> g (xs ! j) \<le> f (xs ! j)"
  shows "sum_list (map g (xs[i := y])) < sum_list (map f xs)"
proof -
  have "sum_list (map g (xs[i := y])) = sum_list (map g (take i xs)) + g y + sum_list (map g (drop (Suc i) xs))"
    using assms(1) by (simp add: upd_conv_take_nth_drop)
  also have "\<dots> < sum_list (map f (take i xs)) + f (xs ! i) + sum_list (map f (drop (Suc i) xs))"
  proof -
    have "sum_list (map g (take i xs)) \<le> sum_list (map f (take i xs))"
      using assms(1,3) by (intro sum_list_mono) (auto simp: in_set_conv_nth)
    moreover have "sum_list (map g (drop (Suc i) xs)) \<le> sum_list (map f (drop (Suc i) xs))"
      using assms(3) by (intro sum_list_mono) (auto simp: in_set_conv_nth)
    ultimately show ?thesis using assms(2) by linarith
  qed
  also have "\<dots> = sum_list (map f xs)"
    using arg_cong [OF id_take_nth_drop [OF assms(1)], of "\<lambda>ys. sum_list (map f ys)"] by (simp only: map_append list.map sum_list_append sum_list.Cons add.assoc)
  finally show ?thesis .
qed

lemma distance_free: "distance True t \<le> distance free t"
  by (cases t) auto

lemma thread_step_distance:
  assumes "owner_ok u e t" "thread_step env e t = (e', t')"
  shows "e' = e \<and> t' = t \<or> contender t \<and> \<not> contender t' \<or>
    (contender t' \<longrightarrow> contender t) \<and> (fe_state e = UNCOMPILED \<longrightarrow> fe_state e' = UNCOMPILED) \<and>
    distance (fe_state e' = UNCOMPILED) t' < distance (fe_state e = UNCOMPILED) t"
  using assms
  by (cases "(env, e, t)" rule: thread_step.cases)
    (auto simp: owner_ok_def entry_states take_uncompiled_def split: if_splits option.splits prod.splits res.splits entry_data.splits)

lemma sum_list_update_le:
  fixes f :: "'a \<Rightarrow> nat"
  assumes "i < length xs" "f y \<le> f (xs ! i)"
  shows "sum_list (map f (xs[i := y])) \<le> sum_list (map f xs)"
proof (cases "f y = f (xs ! i)")
  case True
  then have "map f (xs[i := y]) = map f xs" using assms(1) by (simp add: map_update list_update_same_conv)
  then show ?thesis by simp
next
  case False
  then show ?thesis using sum_list_update_less [of i xs f y f] assms by simp
qed

lemma system_step_measure:
  assumes ok: "system_ok env u s"
  shows "system_step env i s = s \<or>
    (system_measure (system_step env i s), system_measure s) \<in> less_than <*lex*> less_than"
proof -
  obtain e ts where s: "s = (e, ts)" by (cases s)
  obtain e' t' where step: "thread_step env e (ts ! i) = (e', t')" by (cases "thread_step env e (ts ! i)")
  show ?thesis
  proof (cases "i < length ts")
    case i: True
    let ?w = "\<lambda>ts. sum_list (map (of_bool \<circ> contender) ts :: nat list)"
    have next_state: "system_step env i s = (e', ts[i := t'])" using step i s by (simp add: system_step_def)
    have "owner_ok u e (ts ! i)" using ok i s by (simp add: system_ok_def)
    from thread_step_distance [OF this step] show ?thesis
    proof (elim disjE conjE)
      assume "contender (ts ! i)" "\<not> contender t'"
      then have "?w (ts[i := t']) < ?w ts" using i by (intro sum_list_update_less) auto
      then show ?thesis using next_state s by (simp add: system_measure_def)
    next
      assume c: "contender t' \<longrightarrow> contender (ts ! i)" and st: "fe_state e = UNCOMPILED \<longrightarrow> fe_state e' = UNCOMPILED"
        and d: "distance (fe_state e' = UNCOMPILED) t' < distance (fe_state e = UNCOMPILED) (ts ! i)"
      have "?w (ts[i := t']) \<le> ?w ts" using i c by (intro sum_list_update_le) auto
      moreover have "sum_list (map (distance (fe_state e' = UNCOMPILED)) (ts[i := t']))
          < sum_list (map (distance (fe_state e = UNCOMPILED)) ts)"
        using i d
      proof (rule sum_list_update_less)
        show "distance (fe_state e' = UNCOMPILED) (ts ! j) \<le> distance (fe_state e = UNCOMPILED) (ts ! j)" for j
          using st distance_free by (cases "fe_state e' = UNCOMPILED") auto
      qed
      ultimately show ?thesis using next_state s by (auto simp: system_measure_def)
    qed (use next_state s in simp)
  qed (use s in \<open>simp add: system_step_def\<close>)
qed

lemma some_thread_moves:
  assumes ok: "system_ok env u (e, ts)" and panic: "\<not> may_panic env u"
    and not_done: "\<not> list_all returned ts"
  shows "\<exists>i<length ts. system_step env i (e, ts) \<noteq> (e, ts)"
proof -
  have moves: "system_step env i (e, ts) \<noteq> (e, ts)"
    if i: "i < length ts" and "snd (thread_step env e (ts ! i)) \<noteq> ts ! i" for i
  proof
    assume "system_step env i (e, ts) = (e, ts)"
    then have "ts[i := snd (thread_step env e (ts ! i))] = ts"
      using i by (simp add: system_step_def split_def Let_def)
    with that show False by (metis nth_list_update_eq)
  qed
  show ?thesis
  proof (cases "fe_state e = COMPILING")
    case True
    then obtain i where i: "i < length ts" "owns u (ts ! i)" using ok by (auto simp: system_ok_def)
    moreover have "thread_ok env u e (ts ! i)" using ok i by (simp add: system_ok_def)
    ultimately have "snd (thread_step env e (ts ! i)) \<noteq> ts ! i"
      using panic
      by (cases "(u, ts ! i)" rule: owner_data.cases)
        (auto simp: take_uncompiled_def split: option.splits entry_data.splits prod.splits res.splits)
    with moves i show ?thesis by blast
  next
    case False
    from not_done obtain i where i: "i < length ts" "\<not> returned (ts ! i)" by (auto simp: list_all_length)
    moreover have "thread_ok env u e (ts ! i)" using ok i by (simp add: system_ok_def)
    ultimately have "snd (thread_step env e (ts ! i)) \<noteq> ts ! i"
      using False
      by (cases "(env, e, ts ! i)" rule: thread_step.cases)
        (auto simp: take_uncompiled_def split: option.splits entry_data.splits prod.splits res.splits)
    with moves i show ?thesis by blast
  qed
qed



subsection \<open>One thread alone\<close>

text \<open>What a call costs if fuel is metered, and whether it can be paid.\<close>

definition can_pay :: "fuel option \<Rightarrow> u64 \<Rightarrow> bool" where
  "can_pay fuel n = (case fuel of None \<Rightarrow> True | Some f \<Rightarrow> \<not> enabled f \<or> n \<le> remaining f)"

definition paid :: "fuel option \<Rightarrow> u64 \<Rightarrow> fuel option" where
  "paid fuel n = map_option (\<lambda>f. if enabled f then f\<lparr>remaining := remaining f - n\<rparr> else f) fuel"

lemma charge_compilation_outcome:
  "charge_compilation fuel u =
     (if can_pay fuel (compilation_fuel u) then (Ok (), paid fuel (compilation_fuel u))
      else (Err (ResumableOutOfFuel (compilation_fuel u)), fuel))"
  by (auto simp: charge_compilation_def can_pay_def paid_def consume_fuel_def check_fuel_metering_enabled_def
      is_fuel_metering_enabled_def consume_fuel_unchecked_def checked_sub_def split: option.splits)

lemma system_run_add: "system_run env (\<lambda>_. i) (m + n) s = system_run env (\<lambda>_. i) m (system_run env (\<lambda>_. i) n s)"
  by (induction m) simp_all

lemma one_thread_step:
  "system_step env 0 (e, [t]) = (case thread_step env e t of (e', t') \<Rightarrow> (e', [t']))"
  by (simp add: system_step_def)

lemmas one_thread_simps = system_run_numeral one_thread_step take_uncompiled_def assume_compiled_def read_compiled_def
  set_compiled_def set_uncompiled_def

text \<open>A call without a fuel counter.\<close>

lemma get_or_compile_unmetered:
  assumes "no_fuel_errors env" "ce_engine_alive env (un_module u)"
  shows "entry_get_or_compile env None \<lparr>fe_data = DataUncompiled u, fe_state = UNCOMPILED\<rparr> = Some (
    case ce_translate env (un_module u) (un_func_index u) (small_bytes_as_slice (un_bytes u)) (un_validation u) (ce_features env) of
      Ok c \<Rightarrow> (Ok (compiled_ref_from c), None, \<lparr>fe_data = DataCompiled c, fe_state = COMPILED\<rparr>)
    | Err err \<Rightarrow> (Err (Translation err), None, \<lparr>fe_data = DataUndefined, fe_state = FAILED_TO_COMPILE\<rparr>)
    | Panic \<Rightarrow> (Panic, None, \<lparr>fe_data = DataUndefined, fe_state = COMPILING\<rparr>))"
proof -
  have "\<not> is_out_of_fuel env (Translation err)" for err
    using assms(1) by (simp add: is_out_of_fuel_def as_trap_code_def no_fuel_errors_def)
  then show ?thesis
    using assms(2)
    by (simp add: entry_get_or_compile_def entry_compile.simps [of env] uncompiled_compile_def charge_compilation_def
        take_uncompiled_def assume_compiled_def read_compiled_def set_compiled_def entry_states split: res.split)
qed

lemma get_or_compile_settled:
  "entry_get_or_compile env fuel \<lparr>fe_data = DataCompiled c, fe_state = COMPILED\<rparr>
    = Some (Ok (compiled_ref_from c), fuel, \<lparr>fe_data = DataCompiled c, fe_state = COMPILED\<rparr>)"
  "entry_get_or_compile env fuel \<lparr>fe_data = d, fe_state = FAILED_TO_COMPILE\<rparr>
    = Some (Err LazyCompilationFailed, fuel, \<lparr>fe_data = d, fe_state = FAILED_TO_COMPILE\<rparr>)"
  by (simp_all add: entry_get_or_compile_def entry_compile.simps [of env] read_compiled_def assume_compiled_def entry_states)

text \<open>
  C32: a call of \<open>get_or_compile\<close> on an entry that no other thread is compiling. It always returns, with
  the result and the entry of the thread's steps run alone. A compiled entry and a failed one answer at
  once and charge nothing. An uncompiled entry charges the fuel of the compilation or fails with the
  required fuel and changes neither the fuel nor the entry, so that the call may be repeated; once
  paid, the entry becomes compiled with the translator's result, or failed with its error.
\<close>
theorem get_or_compile_alone:
  assumes ok: "entry_ok env u e" and "fe_state e \<noteq> COMPILING" and env: "no_fuel_errors env" "\<not> may_panic env u"
  shows "case entry_get_or_compile env fuel e of None \<Rightarrow> False | Some (r, fuel', e') \<Rightarrow>
      system_run env (\<lambda>_. 0) 10 (e, [AtHotPath fuel]) = (e', [Returned fuel' r])
      \<and> (fe_state e = COMPILED \<longrightarrow> (case r of Ok c \<Rightarrow> assume_compiled e = Some c | _ \<Rightarrow> False) \<and> fuel' = fuel \<and> e' = e)
      \<and> (fe_state e = FAILED_TO_COMPILE \<longrightarrow> r = Err LazyCompilationFailed \<and> fuel' = fuel \<and> e' = e)
      \<and> (fe_state e = UNCOMPILED \<longrightarrow>
          (if \<not> can_pay fuel (compilation_fuel u)
           then r = Err (ResumableOutOfFuel (compilation_fuel u)) \<and> fuel' = fuel \<and> e' = e
           else fuel' = paid fuel (compilation_fuel u) \<and>
             (case ce_translate env (un_module u) (un_func_index u) (small_bytes_as_slice (un_bytes u))
                     (un_validation u) (ce_features env) of
                Ok c \<Rightarrow> r = Ok (compiled_ref_from c) \<and> e' = \<lparr>fe_data = DataCompiled c, fe_state = COMPILED\<rparr>
              | Err err \<Rightarrow> r = Err (Translation err) \<and> e' = \<lparr>fe_data = DataUndefined, fe_state = FAILED_TO_COMPILE\<rparr>
              | Panic \<Rightarrow> False)))"
proof -
  have fuel_error: "is_out_of_fuel env (ResumableOutOfFuel n)" "\<not> is_out_of_fuel env (Translation err)" for n err
    using env(1) by (simp_all add: is_out_of_fuel_def as_trap_code_def no_fuel_errors_def)
  have alive: "ce_engine_alive env (un_module u)" using env(2) by (simp add: may_panic_def)
  obtain d s where e: "e = \<lparr>fe_data = d, fe_state = s\<rparr>" by (cases e)
  consider (compiled) c where "s = COMPILED" "d = DataCompiled c" | (failed) "s = FAILED_TO_COMPILE"
    | (uncompiled) "s = UNCOMPILED" "d = DataUncompiled u"
    using ok assms(2) e by (auto simp: entry_ok_def assume_compiled_def split: entry_data.splits)
  then show ?thesis
  proof cases
    case uncompiled
    let ?t = "ce_translate env (un_module u) (un_func_index u) (small_bytes_as_slice (un_bytes u)) (un_validation u) (ce_features env)"
    show ?thesis
    proof (cases "can_pay fuel (compilation_fuel u)")
      case True
      then have "uncompiled_compile env fuel u = (map_err Translation ?t, paid fuel (compilation_fuel u), u\<lparr>un_validation := None\<rparr>)"
        using alive by (simp add: uncompiled_compile_def charge_compilation_outcome)
      then show ?thesis
        using uncompiled e True fuel_error env(2)
        by (cases ?t) (simp_all add: entry_get_or_compile_def entry_compile.simps [of env] one_thread_simps entry_states may_panic_def)
    next
      case False
      then have "uncompiled_compile env fuel u = (Err (ResumableOutOfFuel (compilation_fuel u)), fuel, u)"
        by (simp add: uncompiled_compile_def charge_compilation_outcome)
      then show ?thesis
        using uncompiled e False fuel_error
        by (simp add: entry_get_or_compile_def entry_compile.simps [of env] one_thread_simps entry_states)
    qed
  qed (use e in \<open>simp_all add: entry_get_or_compile_def entry_compile.simps [of env] one_thread_simps entry_states\<close>)
qed

theorem get_or_compile_alone_witness:
  "entry_get_or_compile example_env None (set_uncompiled entry_uninit example_func)
    = Some (Ok \<lparr>cr_ops = [7], cr_len_local_slots = 0, cr_len_stack_slots = 1\<rparr>, None,
        \<lparr>fe_data = DataCompiled \<lparr>co_ops = [7], co_len_local_slots = 0, co_len_stack_slots = 1\<rparr>, fe_state = COMPILED\<rparr>)"
proof -
  have "entry_ok example_env example_func (set_uncompiled entry_uninit example_func)"
    "fe_state (set_uncompiled entry_uninit example_func) \<noteq> COMPILING"
    by (simp_all add: entry_ok_def set_uncompiled_def entry_states)
  from get_or_compile_alone [OF this, of None] show ?thesis
    by (auto simp: example_simps can_pay_def paid_def set_uncompiled_def entry_states split: option.splits)
qed

end
