(* ===== verification/Code_Map.thy ===== *)
theory Code_Map
  imports Func_Entry Wasm_Integers
begin

section \<open>The code map (crates/wasmi/src/engine/code_map)\<close>

text \<open>
  The functions of an engine: an append-only collection of entries in buckets of doubling sizes, the
  spans of function indices that allocation returns, and the view through which an execution looks
  functions up. The raw bucket pointers are the buckets themselves; the length that is published last
  is the number of functions. Allocation is serialized by a lock and is one step here.
\<close>

subsection \<open>Function indices and spans (code_map/span.rs)\<close>

type_synonym engine_func = u32

record engine_func_span =
  efs_start :: engine_func
  efs_end :: engine_func

definition efs_new :: "engine_func \<Rightarrow> engine_func \<Rightarrow> (unit, engine_func_span) res" where
  "efs_new s e = (if s \<le> e then Ok \<lparr>efs_start = s, efs_end = e\<rparr> else Panic)"

definition efs_empty :: engine_func_span where
  "efs_empty = \<lparr>efs_start = 0, efs_end = 0\<rparr>"

definition efs_is_empty :: "engine_func_span \<Rightarrow> bool" where
  "efs_is_empty sp \<longleftrightarrow> efs_start sp = efs_end sp"

definition efs_len :: "engine_func_span \<Rightarrow> u32" where
  "efs_len sp = efs_end sp - efs_start sp"

definition efs_get :: "engine_func_span \<Rightarrow> u32 \<Rightarrow> engine_func option" where
  "efs_get sp n = (if n \<ge> efs_len sp then None else Some (efs_start sp + n))"

definition efs_position :: "engine_func_span \<Rightarrow> engine_func \<Rightarrow> u32 option" where
  "efs_position sp func = (if func < efs_start sp \<or> func \<ge> efs_end sp then None else Some (func - efs_start sp))"

definition efs_get_or_panic :: "engine_func_span \<Rightarrow> u32 \<Rightarrow> (unit, engine_func) res" where
  "efs_get_or_panic sp n = (case efs_get sp n of Some f \<Rightarrow> Ok f | None \<Rightarrow> Panic)"

definition efs_iter_next :: "engine_func_span \<Rightarrow> engine_func option \<times> engine_func_span" where
  "efs_iter_next sp =
     (if efs_is_empty sp then (None, sp) else (Some (efs_start sp), sp\<lparr>efs_start := efs_start sp + 1\<rparr>))"

definition efs_iter_next_back :: "engine_func_span \<Rightarrow> engine_func option \<times> engine_func_span" where
  "efs_iter_next_back sp =
     (if efs_is_empty sp then (None, sp)
      else let sp' = sp\<lparr>efs_end := efs_end sp - 1\<rparr> in (Some (efs_end sp'), sp'))"

lemma efs_position_get:
  assumes "efs_start sp \<le> efs_end sp"
  shows "efs_get sp n = Some f \<longleftrightarrow> efs_position sp f = Some n"
  using assms unsigned_less [of "efs_end sp", where ?'a = nat]
  by (auto simp: efs_get_def efs_position_def efs_len_def word_le_nat_alt word_less_nat_alt word_unat_eq_iff
      unat_sub_if' unat_word_ariths split: if_splits)

subsection \<open>Buckets\<close>

definition LEN_BUCKET0_LOG2 :: nat where "LEN_BUCKET0_LOG2 = 5"

definition MAX_FUNCS :: nat where "MAX_FUNCS = 100000000"

definition LEN_BUCKET0 :: u64 where "LEN_BUCKET0 = push_bit LEN_BUCKET0_LOG2 1"

definition required_buckets_for_len :: "usize \<Rightarrow> nat" where
  "required_buckets_for_len len =
     (if len = 0 then 0
      else let j = (len - 1) + LEN_BUCKET0; msb = 63 - unat (prim_leading_zeros j) in (msb - LEN_BUCKET0_LOG2) + 1)"

definition MAX_BUCKETS :: nat where
  "MAX_BUCKETS = required_buckets_for_len (of_nat MAX_FUNCS)"

definition size_of_bucket_at :: "nat \<Rightarrow> usize" where
  "size_of_bucket_at n = shl 1 (LEN_BUCKET0_LOG2 + n)"

definition locate :: "engine_func \<Rightarrow> nat \<times> nat" where
  "locate func =
     (let index = func; j = ucast index + LEN_BUCKET0 :: u64; msb = 63 - unat (prim_leading_zeros j);
          bucket = msb - LEN_BUCKET0_LOG2; slot = unat (j - shl 1 msb)
      in (bucket, slot))"

text \<open>A bucket, allocated with all its entries uninitialized.\<close>

type_synonym ('m, 'v) funcs_bucket = "('m, 'v) func_entry list"

definition bucket_new :: "usize \<Rightarrow> ('m, 'v) funcs_bucket" where
  "bucket_new n = replicate (unat n) entry_uninit"

record ('m, 'v) funcs =
  fs_buckets :: "('m, 'v) funcs_bucket option list"
  fs_len_funcs :: usize

definition funcs_default :: "('m, 'v) funcs" where
  "funcs_default = \<lparr>fs_buckets = replicate MAX_BUCKETS None, fs_len_funcs = 0\<rparr>"

definition write_buckets :: "('m, 'v) funcs_bucket option list \<Rightarrow> nat list \<Rightarrow> ('m, 'v) funcs_bucket option list" where
  "write_buckets buckets ns = fold (\<lambda>n bs. bs[n := Some (bucket_new (size_of_bucket_at n))]) ns buckets"

definition funcs_alloc :: "('m, 'v) funcs \<Rightarrow> usize \<Rightarrow> (unit, engine_func_span) res \<times> ('m, 'v) funcs" where
  "funcs_alloc fs n =
     (let start = fs_len_funcs fs in
      case Option.bind (checked_add start n) (\<lambda>e. if e \<le> of_nat MAX_FUNCS then Some e else None) of
        None \<Rightarrow> (Panic, fs)
      | Some e \<Rightarrow>
          let current_buckets = required_buckets_for_len start; needed = required_buckets_for_len e;
              buckets = write_buckets (fs_buckets fs) [current_buckets..<needed]
          in (efs_new (ucast start) (ucast e), fs\<lparr>fs_buckets := buckets, fs_len_funcs := e\<rparr>))"

text \<open>
  Looking an entry up. A bucket that is not there is undefined behaviour, \<open>Panic\<close>; the position of
  the entry is returned so that it can be updated.
\<close>

definition funcs_get_within ::
  "('m, 'v) funcs \<Rightarrow> engine_func \<Rightarrow> usize \<Rightarrow> (unit, ('m, 'v) func_entry option) res" where
  "funcs_get_within fs func len_funcs =
     (if ucast func \<ge> len_funcs then Ok None
      else case locate func of (bucket, slot) \<Rightarrow>
        (case get_opt (fs_buckets fs) bucket of
           Some (Some raw) \<Rightarrow> Ok (get_opt raw slot)
         | _ \<Rightarrow> Panic))"

definition funcs_get :: "('m, 'v) funcs \<Rightarrow> engine_func \<Rightarrow> (unit, ('m, 'v) func_entry option) res" where
  "funcs_get fs func = funcs_get_within fs func (fs_len_funcs fs)"

text \<open>Mutation of an entry through its shared reference.\<close>

definition funcs_put :: "('m, 'v) funcs \<Rightarrow> engine_func \<Rightarrow> ('m, 'v) func_entry \<Rightarrow> ('m, 'v) funcs" where
  "funcs_put fs func e =
     (case locate func of (bucket, slot) \<Rightarrow>
        (case get_opt (fs_buckets fs) bucket of
           Some (Some raw) \<Rightarrow> fs\<lparr>fs_buckets := (fs_buckets fs)[bucket := Some (raw[slot := e])]\<rparr>
         | _ \<Rightarrow> fs))"

record buckets_iter =
  bi_len :: nat
  bi_n :: nat

definition buckets_iter_new :: "('m, 'v) funcs \<Rightarrow> buckets_iter" where
  "buckets_iter_new fs = \<lparr>bi_len = required_buckets_for_len (fs_len_funcs fs), bi_n = 0\<rparr>"

definition buckets_iter_next :: "('m, 'v) funcs \<Rightarrow> buckets_iter \<Rightarrow> ('m, 'v) funcs_bucket option \<times> buckets_iter" where
  "buckets_iter_next fs it =
     (case get_opt (take (bi_len it) (fs_buckets fs)) (bi_n it) of
        Some (Some raw) \<Rightarrow> (Some raw, it\<lparr>bi_n := bi_n it + 1\<rparr>)
      | _ \<Rightarrow> (None, it))"

subsection \<open>The code map and its views\<close>

record ('m, 'v, 'f) code_map =
  cm_funcs :: "('m, 'v) funcs"
  cm_features :: 'f

definition code_map_new :: "'f \<Rightarrow> ('m, 'v, 'f) code_map" where
  "code_map_new features = \<lparr>cm_funcs = funcs_default, cm_features = features\<rparr>"

definition alloc_funcs :: "('m, 'v, 'f) code_map \<Rightarrow> usize \<Rightarrow> (unit, engine_func_span) res \<times> ('m, 'v, 'f) code_map" where
  "alloc_funcs cm amount =
     (case funcs_alloc (cm_funcs cm) amount of
        (Ok span, fs) \<Rightarrow> (Ok span, cm\<lparr>cm_funcs := fs\<rparr>)
      | (_, fs) \<Rightarrow> (Panic, cm\<lparr>cm_funcs := fs\<rparr>))"

definition init_func_as_compiled ::
  "('m, 'v, 'f) code_map \<Rightarrow> engine_func \<Rightarrow> compiled_func \<Rightarrow> (unit, unit) res \<times> ('m, 'v, 'f) code_map" where
  "init_func_as_compiled cm func entity =
     (case funcs_get (cm_funcs cm) func of
        Ok (Some e) \<Rightarrow>
          (case init_compiled e entity of (r, e') \<Rightarrow> (r, cm\<lparr>cm_funcs := funcs_put (cm_funcs cm) func e'\<rparr>))
      | _ \<Rightarrow> (Panic, cm))"

definition init_func_as_uncompiled ::
  "('m, 'v, 'f) code_map \<Rightarrow> engine_func \<Rightarrow> u32 \<Rightarrow> u8 list \<Rightarrow> 'm \<Rightarrow> 'v func_to_validate option
   \<Rightarrow> (unit, unit) res \<times> ('m, 'v, 'f) code_map" where
  "init_func_as_uncompiled cm func func_idx bytes module func_to_validate =
     (case funcs_get (cm_funcs cm) func of
        Ok (Some e) \<Rightarrow>
          (case uncompiled_new func_idx bytes module func_to_validate of
             Ok u \<Rightarrow>
               (case init_uncompiled e u of (r, e') \<Rightarrow> (r, cm\<lparr>cm_funcs := funcs_put (cm_funcs cm) func e'\<rparr>))
           | _ \<Rightarrow> (Panic, cm))
      | _ \<Rightarrow> (Panic, cm))"

text \<open>A view is the number of functions that were published when it was made.\<close>

type_synonym code_view = usize

definition code_map_view :: "('m, 'v, 'f) code_map \<Rightarrow> code_view" where
  "code_map_view cm = fs_len_funcs (cm_funcs cm)"

definition view_refresh :: "('m, 'v, 'f) code_map \<Rightarrow> code_view \<Rightarrow> code_view" where
  "view_refresh cm view = fs_len_funcs (cm_funcs cm)"

definition view_entry ::
  "('m, 'v, 'f) code_map \<Rightarrow> code_view \<Rightarrow> engine_func \<Rightarrow> (unit, ('m, 'v) func_entry option) res" where
  "view_entry cm view func = funcs_get_within (cm_funcs cm) func view"

text \<open>The outer \<open>None\<close>: the call does not return.\<close>

definition view_get_or_compile ::
  "('m, 'v, 'f, 'e) compile_env \<Rightarrow> ('m, 'v, 'f) code_map \<Rightarrow> code_view \<Rightarrow> fuel option \<Rightarrow> engine_func
   \<Rightarrow> (('e compile_error, compiled_ref option) res \<times> fuel option \<times> ('m, 'v, 'f) code_map) option" where
  "view_get_or_compile env cm view fuel func =
     (case view_entry cm view func of
        Ok (Some entry) \<Rightarrow>
          Option.bind (entry_get_or_compile (env\<lparr>ce_features := cm_features cm\<rparr>) fuel entry) (\<lambda>(r, fuel', entry').
            Some (case r of Ok c \<Rightarrow> Ok (Some c) | Err e \<Rightarrow> Err e | Panic \<Rightarrow> Panic, fuel',
                  cm\<lparr>cm_funcs := funcs_put (cm_funcs cm) func entry'\<rparr>))
      | Ok None \<Rightarrow> Some (Ok None, fuel, cm)
      | _ \<Rightarrow> Some (Panic, fuel, cm))"

subsection \<open>Positions\<close>

lemma msb_bounds:
  assumes "j \<noteq> (0 :: u64)"
  shows "2 ^ (63 - unat (prim_leading_zeros j)) \<le> unat j" "unat j < 2 ^ Suc (63 - unat (prim_leading_zeros j))"
proof -
  let ?m = "63 - unat (prim_leading_zeros j)"
  have lz: "unat (prim_leading_zeros j) < 64" "\<And>i. 64 - unat (prim_leading_zeros j) \<le> i \<Longrightarrow> \<not> bit j i" "bit j ?m"
    using leading_zeros_bits [of j] assms by simp_all
  have "\<not> bit j i" if "?m < i" for i using lz(1,2) that by simp
  from uint_bounds_of_bits [OF lz(3) this] show "2 ^ ?m \<le> unat j" "unat j < 2 ^ Suc ?m"
    unfolding uint_nat by (metis of_nat_le_iff of_nat_numeral of_nat_power, metis of_nat_less_iff of_nat_numeral of_nat_power)
qed

lemma msb_unique:
  assumes "2 ^ m \<le> unat (j :: u64)" "unat j < 2 ^ Suc m"
  shows "63 - unat (prim_leading_zeros j) = m"
proof -
  have "j \<noteq> 0" using assms(1) by auto
  note b = msb_bounds [OF this]
  have "m < Suc (63 - unat (prim_leading_zeros j))"
    using le_less_trans [OF assms(1) b(2)] by (simp del: power_Suc)
  moreover have "63 - unat (prim_leading_zeros j) < Suc m"
    using le_less_trans [OF b(1) assms(2)] by (simp del: power_Suc)
  ultimately show ?thesis by simp
qed

text \<open>The index of the first function of a bucket.\<close>

definition bucket_base :: "nat \<Rightarrow> nat" where
  "bucket_base b = 32 * (2 ^ b - 1)"

lemma bucket_base_Suc: "bucket_base (Suc b) = bucket_base b + 32 * 2 ^ b"
  by (simp add: bucket_base_def algebra_simps)

lemma bucket_base_mono: "b \<le> c \<Longrightarrow> bucket_base b \<le> bucket_base c"
  by (simp add: bucket_base_def diff_le_mono)

lemma bucket_base_unique:
  assumes "bucket_base b \<le> i" "i < bucket_base (Suc b)" "bucket_base c \<le> i" "i < bucket_base (Suc c)"
  shows "b = c"
proof (rule ccontr)
  assume "b \<noteq> c"
  then have "Suc b \<le> c \<or> Suc c \<le> b" by auto
  then show False using bucket_base_mono [of "Suc b" c] bucket_base_mono [of "Suc c" b] assms by auto
qed

lemma bucket_exists: "\<exists>b. bucket_base b \<le> i \<and> i < bucket_base (Suc b)"
proof (induction i)
  case 0
  show ?case by (rule exI [of _ 0]) (simp add: bucket_base_def)
next
  case (Suc i)
  then obtain b where b: "bucket_base b \<le> i" "i < bucket_base (Suc b)" by blast
  then show ?case
  proof (cases "Suc i < bucket_base (Suc b)")
    case False
    then have "Suc i = bucket_base (Suc b)" using b by simp
    then show ?thesis by (metis bucket_base_Suc le_refl less_add_same_cancel1 mult_pos_pos zero_less_numeral zero_less_power)
  qed (use b in \<open>auto intro!: exI [of _ b]\<close>)
qed

lemma bucket_msb:
  fixes j :: u64
  assumes "unat j = i + 32" "bucket_base b \<le> i" "i < bucket_base (Suc b)"
  shows "63 - unat (prim_leading_zeros j) = b + 5"
  by (rule msb_unique) (use assms in \<open>auto simp: bucket_base_def power_add\<close>)

lemma unat_LEN_BUCKET0: "LEN_BUCKET0 = 32"
  by (simp add: LEN_BUCKET0_def LEN_BUCKET0_LOG2_def)

lemma locate_iff:
  "locate func = (b, s) \<longleftrightarrow> unat func = bucket_base b + s \<and> s < 32 * 2 ^ b"
proof -
  obtain c where c: "bucket_base c \<le> unat func" "unat func < bucket_base (Suc c)" using bucket_exists by blast
  have small: "unat func < 2 ^ 32" using unsigned_less [of func, where ?'a = nat] by simp
  let ?j = "ucast func + LEN_BUCKET0 :: u64"
  have j: "unat ?j = unat func + 32"
    using small by (simp add: unat_LEN_BUCKET0 unat_word_ariths unsigned_ucast_eq take_bit_nat_eq_self)
  have c5: "2 ^ (c + 5) \<le> unat ?j" using c(1) by (simp add: j bucket_base_def power_add)
  then have "(2 :: nat) ^ (c + 5) < 2 ^ 33" using j small by simp
  then have "c + 5 < 33" by (rule power_less_imp_less_exp [rotated]) simp
  then have p: "unat (shl (1 :: u64) (c + 5)) = 2 ^ (c + 5)"
    using power_strict_increasing [of "c + 5" 64 "2 :: nat"] by (simp add: unat_shl del: power_add)
  have "locate func = (c + 5 - 5, unat (?j - shl 1 (c + 5)))"
    by (simp only: locate_def Let_def LEN_BUCKET0_LOG2_def bucket_msb [OF j c])
  moreover have "(2 :: nat) ^ (c + 5) = bucket_base c + 32"
    by (simp add: bucket_base_def power_add diff_mult_distrib2)
  ultimately have "locate func = (c, unat func - bucket_base c)"
    using c5 p j by (simp add: unat_sub word_le_nat_alt)
  moreover have "unat func = bucket_base b + s \<and> s < 32 * 2 ^ b \<Longrightarrow> b = c"
    using bucket_base_unique [of b "unat func" c] c by (simp add: bucket_base_Suc)
  moreover have "unat func - bucket_base c < 32 * 2 ^ c" using c by (simp add: bucket_base_Suc)
  ultimately show ?thesis using c(1) by auto
qed

lemma required_buckets_iff:
  assumes "unat len \<le> 2 ^ 32"
  shows "b < required_buckets_for_len len \<longleftrightarrow> bucket_base b < unat len"
proof (cases "len = 0")
  case False
  obtain c where c: "bucket_base c \<le> unat len - 1" "unat len - 1 < bucket_base (Suc c)" using bucket_exists by blast
  have pos: "unat len - 1 + 32 < 2 ^ 64" "0 < unat len" using assms False by (simp_all add: unat_gt_0)
  have "unat (len - 1 + LEN_BUCKET0) = unat len - 1 + 32"
    using pos False by (simp add: unat_LEN_BUCKET0 unat_word_ariths unat_minus_one)
  from bucket_msb [OF this c] have "required_buckets_for_len len = Suc c"
    using False by (simp only: required_buckets_for_len_def Let_def LEN_BUCKET0_LOG2_def if_False)
  moreover have "b \<le> c \<longleftrightarrow> bucket_base b \<le> unat len - 1"
  proof
    assume "bucket_base b \<le> unat len - 1"
    then show "b \<le> c" using c(2) bucket_base_mono [of "Suc c" b] by (meson le_less_trans not_less_eq_eq order.irrefl order_trans)
  qed (use bucket_base_mono [of b c] c(1) in auto)
  ultimately show ?thesis using pos(2) by auto
qed (simp add: required_buckets_for_len_def)

lemma MAX_BUCKETS_eq: "MAX_BUCKETS = 22"
proof -
  have len: "unat (of_nat MAX_FUNCS :: usize) = 100000000" by (simp add: MAX_FUNCS_def)
  have "b < MAX_BUCKETS \<longleftrightarrow> bucket_base b < 100000000" for b
    unfolding MAX_BUCKETS_def using required_buckets_iff [of "of_nat MAX_FUNCS" b] len by simp
  from this [of 22] this [of 21] show ?thesis by (simp add: bucket_base_def)
qed

lemma unat_size_of_bucket: "b < MAX_BUCKETS \<Longrightarrow> unat (size_of_bucket_at b) = 32 * 2 ^ b"
proof -
  assume "b < MAX_BUCKETS"
  then have "(2 :: nat) ^ (5 + b) < 2 ^ 64"
    by (intro power_strict_increasing) (simp_all add: MAX_BUCKETS_eq)
  then show ?thesis using \<open>b < MAX_BUCKETS\<close>
    by (simp add: size_of_bucket_at_def LEN_BUCKET0_LOG2_def unat_shl MAX_BUCKETS_eq power_add)
qed

subsection \<open>The functions as a list\<close>

definition bucket_ok :: "nat \<Rightarrow> nat \<Rightarrow> ('m, 'v) funcs_bucket option \<Rightarrow> bool" where
  "bucket_ok len b slot =
     (if bucket_base b < len
      then case slot of None \<Rightarrow> False | Some raw \<Rightarrow> length raw = 32 * 2 ^ b
             \<and> (\<forall>s<length raw. len \<le> bucket_base b + s \<longrightarrow> raw ! s = entry_uninit)
      else slot = None)"

definition funcs_inv :: "('m, 'v) funcs \<Rightarrow> bool" where
  "funcs_inv fs \<longleftrightarrow> length (fs_buckets fs) = MAX_BUCKETS \<and> unat (fs_len_funcs fs) \<le> MAX_FUNCS
     \<and> (\<forall>b<MAX_BUCKETS. bucket_ok (unat (fs_len_funcs fs)) b (fs_buckets fs ! b))"

definition entry_at :: "('m, 'v) funcs \<Rightarrow> nat \<Rightarrow> ('m, 'v) func_entry" where
  "entry_at fs i = (case locate (of_nat i) of (b, s) \<Rightarrow> the (fs_buckets fs ! b) ! s)"

definition funcs_abs :: "('m, 'v) funcs \<Rightarrow> ('m, 'v) func_entry list" where
  "funcs_abs fs = map (entry_at fs) [0..<unat (fs_len_funcs fs)]"

lemma length_funcs_abs [simp]: "length (funcs_abs fs) = unat (fs_len_funcs fs)"
  by (simp add: funcs_abs_def)

lemma bucket_of_func:
  assumes inv: "funcs_inv fs" and i: "unat func < unat (fs_len_funcs fs)"
  obtains b s raw where "locate func = (b, s)" "b < MAX_BUCKETS" "fs_buckets fs ! b = Some raw"
    "s < length raw" "unat func = bucket_base b + s" "length raw = 32 * 2 ^ b"
proof -
  obtain b s where loc: "locate func = (b, s)" by (cases "locate func")
  then have p: "unat func = bucket_base b + s" "s < 32 * 2 ^ b" by (simp_all add: locate_iff)
  have "b < MAX_BUCKETS"
    unfolding MAX_BUCKETS_def
    using required_buckets_iff [of "of_nat MAX_FUNCS" b] inv i p(1) by (simp add: funcs_inv_def MAX_FUNCS_def)
  then have "bucket_ok (unat (fs_len_funcs fs)) b (fs_buckets fs ! b)" using inv by (simp add: funcs_inv_def)
  then obtain raw where "fs_buckets fs ! b = Some raw" "length raw = 32 * 2 ^ b"
    using i p by (auto simp: bucket_ok_def split: option.splits)
  then show thesis using that loc p \<open>b < MAX_BUCKETS\<close> by simp
qed

lemma u32_of_index:
  "funcs_inv fs \<Longrightarrow> i < unat (fs_len_funcs fs) \<Longrightarrow> unat (of_nat i :: u32) = i"
  by (simp add: funcs_inv_def MAX_FUNCS_def unat_of_nat take_bit_nat_eq_self)

lemma bucket_of_index:
  assumes inv: "funcs_inv fs" and i: "i < unat (fs_len_funcs fs)"
  obtains b s raw where "locate (of_nat i) = (b, s)" "b < MAX_BUCKETS" "fs_buckets fs ! b = Some raw"
    "s < length raw" "i = bucket_base b + s"
proof -
  note ui = u32_of_index [OF inv i]
  show thesis
    by (rule bucket_of_func [OF inv, of "of_nat i"]) (use i ui that in \<open>simp_all only: ui\<close>)
qed

lemma nth_funcs_abs:
  assumes "funcs_inv fs" "unat func < unat (fs_len_funcs fs)" "locate func = (b, s)" "fs_buckets fs ! b = Some raw"
  shows "funcs_abs fs ! unat func = raw ! s"
  using assms by (simp add: funcs_abs_def entry_at_def)

lemma funcs_get_within_abs:
  assumes inv: "funcs_inv fs" and view: "view \<le> fs_len_funcs fs"
  shows "funcs_get_within fs func view = Ok (if unat func < unat view then Some (funcs_abs fs ! unat func) else None)"
proof (cases "unat func < unat view")
  case True
  then have i: "unat func < unat (fs_len_funcs fs)" using view by (simp add: word_le_nat_alt)
  have "unat (ucast func :: usize) = unat func"
    using unsigned_less [of func, where ?'a = nat] by (simp add: unsigned_ucast_eq take_bit_nat_eq_self)
  then have visible: "\<not> view \<le> ucast func" using True by (simp add: word_le_nat_alt)
  from inv i obtain b s raw where b: "locate func = (b, s)" "b < MAX_BUCKETS" "fs_buckets fs ! b = Some raw" "s < length raw"
    by (rule bucket_of_func)
  moreover have "length (fs_buckets fs) = MAX_BUCKETS" using inv by (simp add: funcs_inv_def)
  ultimately show ?thesis
    using True visible nth_funcs_abs [OF inv i b(1,3)] by (simp add: funcs_get_within_def get_opt_def)
next
  case False
  have "unat (ucast func :: usize) = unat func"
    using unsigned_less [of func, where ?'a = nat] by (simp add: unsigned_ucast_eq take_bit_nat_eq_self)
  with False show ?thesis by (simp add: funcs_get_within_def word_le_nat_alt)
qed

lemma funcs_put_abs:
  assumes inv: "funcs_inv fs" and i: "unat func < unat (fs_len_funcs fs)"
  shows "funcs_inv (funcs_put fs func e)" "funcs_abs (funcs_put fs func e) = (funcs_abs fs)[unat func := e]"
    "fs_len_funcs (funcs_put fs func e) = fs_len_funcs fs"
proof -
  obtain b s raw where b: "locate func = (b, s)" "b < MAX_BUCKETS" "fs_buckets fs ! b = Some raw" "s < length raw"
      "unat func = bucket_base b + s" "length raw = 32 * 2 ^ b"
    using bucket_of_func [OF inv i] .
  have len: "length (fs_buckets fs) = MAX_BUCKETS" using inv by (simp add: funcs_inv_def)
  have put: "funcs_put fs func e = fs\<lparr>fs_buckets := (fs_buckets fs)[b := Some (raw[s := e])]\<rparr>"
    using b len by (simp add: funcs_put_def get_opt_def)
  have "bucket_ok (unat (fs_len_funcs fs)) b (Some (raw[s := e]))"
    using b i inv by (force simp: funcs_inv_def bucket_ok_def nth_list_update)
  then show "funcs_inv (funcs_put fs func e)"
    using inv b len by (auto simp: put funcs_inv_def nth_list_update)
  show "fs_len_funcs (funcs_put fs func e) = fs_len_funcs fs" by (simp add: put)
  show "funcs_abs (funcs_put fs func e) = (funcs_abs fs)[unat func := e]"
  proof (rule nth_equalityI)
    fix k assume "k < length (funcs_abs (funcs_put fs func e))"
    then have k: "k < unat (fs_len_funcs fs)" by (simp add: put)
    note uk = u32_of_index [OF inv k]
    obtain c t raw' where c: "locate (of_nat k) = (c, t)" "c < MAX_BUCKETS" "fs_buckets fs ! c = Some raw'" "t < length raw'" "k = bucket_base c + t"
      by (rule bucket_of_index [OF inv k])
    have "k = unat func \<longleftrightarrow> c = b \<and> t = s"
      using b(1,5) c(1,5) uk by (metis prod.inject word_unat_eq_iff)
    then show "funcs_abs (funcs_put fs func e) ! k = (funcs_abs fs)[unat func := e] ! k"
      using k c b len by (auto simp: put funcs_abs_def entry_at_def nth_list_update)
  qed (simp add: put)
qed

lemma nth_write_buckets:
  "distinct ns \<Longrightarrow> b < length bs \<Longrightarrow>
   write_buckets bs ns ! b = (if b \<in> set ns then Some (bucket_new (size_of_bucket_at b)) else bs ! b)"
  unfolding write_buckets_def by (induction ns arbitrary: bs) (auto simp: nth_list_update)

lemma length_write_buckets [simp]: "length (write_buckets bs ns) = length bs"
  unfolding write_buckets_def by (induction ns arbitrary: bs) auto

lemma funcs_default_inv: "funcs_inv funcs_default" "funcs_abs funcs_default = []"
  by (simp_all add: funcs_inv_def funcs_default_def bucket_ok_def funcs_abs_def)

lemma funcs_alloc_abs:
  assumes inv: "funcs_inv fs"
  shows "case funcs_alloc fs n of
      (Ok sp, fs') \<Rightarrow> unat (fs_len_funcs fs) + unat n \<le> MAX_FUNCS \<and> funcs_inv fs'
        \<and> funcs_abs fs' = funcs_abs fs @ replicate (unat n) entry_uninit
        \<and> unat (efs_start sp) = unat (fs_len_funcs fs) \<and> unat (efs_end sp) = unat (fs_len_funcs fs) + unat n
    | (Err _, _) \<Rightarrow> False
    | (Panic, fs') \<Rightarrow> fs' = fs \<and> MAX_FUNCS < unat (fs_len_funcs fs) + unat n"
proof (cases "unat (fs_len_funcs fs) + unat n \<le> MAX_FUNCS")
  case False
  then have "Option.bind (checked_add (fs_len_funcs fs) n) (\<lambda>e. if e \<le> of_nat MAX_FUNCS then Some e else None) = None"
  proof (cases "checked_add (fs_len_funcs fs) n")
    case (Some c)
    then have "unat c = unat (fs_len_funcs fs) + unat n" by (simp add: rust_arith)
    with False Some show ?thesis by (simp add: word_le_nat_alt MAX_FUNCS_def)
  qed simp
  then show ?thesis using False by (simp add: funcs_alloc_def)
next
  case True
  let ?start = "fs_len_funcs fs" and ?stop = "fs_len_funcs fs + n"
  let ?bs = "write_buckets (fs_buckets fs) [required_buckets_for_len ?start..<required_buckets_for_len ?stop]"
  let ?fs = "fs\<lparr>fs_buckets := ?bs, fs_len_funcs := ?stop\<rparr>"
  have e: "unat ?stop = unat ?start + unat n" using True by (simp add: unat_word_ariths MAX_FUNCS_def)
  then have add: "checked_add ?start n = Some ?stop" by (simp add: rust_arith)
  have small: "unat ?stop \<le> 2 ^ 32" "unat ?start \<le> 2 ^ 32" using True e by (simp_all add: MAX_FUNCS_def)
  have casts: "unat (ucast ?start :: u32) = unat ?start" "unat (ucast ?stop :: u32) = unat ?stop"
    using True e by (simp_all add: MAX_FUNCS_def unsigned_ucast_eq take_bit_nat_eq_self)
  have alloc: "funcs_alloc fs n = (Ok \<lparr>efs_start = ucast ?start, efs_end = ucast ?stop\<rparr>, ?fs)"
    using add True e casts by (simp add: funcs_alloc_def efs_new_def word_le_nat_alt MAX_FUNCS_def Let_def)
  have len: "length (fs_buckets fs) = MAX_BUCKETS" using inv by (simp add: funcs_inv_def)
  have bucket: "?bs ! b = (if bucket_base b < unat ?stop \<and> \<not> bucket_base b < unat ?start
      then Some (bucket_new (size_of_bucket_at b)) else fs_buckets fs ! b)" if "b < MAX_BUCKETS" for b
    using that len required_buckets_iff [OF small(1), of b] required_buckets_iff [OF small(2), of b]
    by (subst nth_write_buckets) (auto simp: not_less)
  have old_ok: "bucket_ok (unat ?start) b (fs_buckets fs ! b)" if "b < MAX_BUCKETS" for b
    using inv that by (simp add: funcs_inv_def)
  have inv': "funcs_inv ?fs"
    unfolding funcs_inv_def
  proof (intro conjI allI impI)
    fix b assume b: "b < MAX_BUCKETS"
    show "bucket_ok (unat (fs_len_funcs ?fs)) b (fs_buckets ?fs ! b)"
      using old_ok [OF b] bucket [OF b] unat_size_of_bucket [OF b] e
      by (auto simp: bucket_ok_def bucket_new_def split: option.splits if_splits)
  qed (use len True e in simp_all)
  have "funcs_abs ?fs = funcs_abs fs @ replicate (unat n) entry_uninit"
  proof (rule nth_equalityI)
    fix k assume "k < length (funcs_abs ?fs)"
    then have k: "k < unat ?stop" by simp
    obtain c t raw where c: "locate (of_nat k) = (c, t)" "c < MAX_BUCKETS" "fs_buckets ?fs ! c = Some raw" "t < length raw" "k = bucket_base c + t"
      by (rule bucket_of_index [OF inv', of k]) (use k in simp_all)
    then have "funcs_abs ?fs ! k = raw ! t" using k by (simp add: funcs_abs_def entry_at_def)
    moreover have "raw ! t = (if k < unat ?start then entry_at fs k else entry_uninit)"
      using bucket [OF c(2)] old_ok [OF c(2)] c unat_size_of_bucket [OF c(2)]
      by (auto simp: entry_at_def bucket_ok_def bucket_new_def split: if_splits option.splits)
    ultimately show "funcs_abs ?fs ! k = (funcs_abs fs @ replicate (unat n) entry_uninit) ! k"
      using k e by (simp add: nth_append funcs_abs_def)
  qed (simp add: e)
  with alloc inv' e casts True show ?thesis by simp
qed

text \<open>
  C33: the position of a function. Every function index below the maximum lies in an existing bucket,
  in a slot of it, and its index is the number of functions of the earlier buckets plus the slot, so
  that no two functions share a position; the bucket is allocated as soon as the map holds the function.
\<close>
theorem locate_position:
  assumes "unat func < MAX_FUNCS"
  shows "case locate func of (b, s) \<Rightarrow>
      b < MAX_BUCKETS \<and> s < unat (size_of_bucket_at b)
      \<and> unat func = (\<Sum>c<b. unat (size_of_bucket_at c)) + s
      \<and> (unat func < unat len \<and> unat len \<le> MAX_FUNCS \<longrightarrow> b < required_buckets_for_len len)"
proof -
  obtain b s where loc: "locate func = (b, s)" by (cases "locate func")
  then have p: "unat func = bucket_base b + s" "s < 32 * 2 ^ b" by (simp_all add: locate_iff)
  have b: "b < MAX_BUCKETS"
    unfolding MAX_BUCKETS_def
    using required_buckets_iff [of "of_nat MAX_FUNCS" b] assms p(1) by (simp add: MAX_FUNCS_def)
  have "(\<Sum>c<k. unat (size_of_bucket_at c)) = bucket_base k" if "k \<le> b" for k
    using that by (induction k) (use b in \<open>simp_all add: bucket_base_Suc unat_size_of_bucket bucket_base_def\<close>)
  moreover have "b < required_buckets_for_len len" if "unat func < unat len" "unat len \<le> MAX_FUNCS"
    using required_buckets_iff [of len b] that p by (simp add: MAX_FUNCS_def)
  ultimately show ?thesis using loc p b by (simp add: unat_size_of_bucket)
qed

theorem locate_position_witness:
  "locate 100 = (2, 4) \<and> (100 :: nat) = (\<Sum>c<2. unat (size_of_bucket_at c)) + 4"
proof -
  have "locate 100 = (2, 4)" by (simp add: locate_iff bucket_base_def)
  with locate_position [of 100 0] show ?thesis by (simp add: MAX_FUNCS_def)
qed

text \<open>
  C34: the code map implements a list of entries. Allocation appends uninitialized entries, changes no
  other entry and returns the span of their indices, or panics, without effect, exactly if the maximum
  number of functions would be exceeded. A view finds exactly the functions that existed when it was
  made, and what it finds is the current entry, however many functions were allocated since.
\<close>
theorem code_map_refines_list:
  assumes inv: "funcs_inv (cm_funcs cm)" and view: "view \<le> code_map_view cm"
  shows "case alloc_funcs cm n of
      (Ok span, cm') \<Rightarrow> unat (code_map_view cm) + unat n \<le> MAX_FUNCS \<and> funcs_inv (cm_funcs cm')
        \<and> funcs_abs (cm_funcs cm') = funcs_abs (cm_funcs cm) @ replicate (unat n) entry_uninit
        \<and> unat (efs_start span) = unat (code_map_view cm) \<and> unat (efs_end span) = unat (code_map_view cm')
        \<and> view_entry cm' view func = view_entry cm view func
        \<and> view_entry cm' (view_refresh cm' view) func =
            Ok (if unat func < unat (efs_end span) then Some (funcs_abs (cm_funcs cm') ! unat func) else None)
    | (Err _, _) \<Rightarrow> False
    | (Panic, cm') \<Rightarrow> cm' = cm \<and> MAX_FUNCS < unat (code_map_view cm) + unat n"
proof -
  obtain r fs where alloc: "funcs_alloc (cm_funcs cm) n = (r, fs)" by (cases "funcs_alloc (cm_funcs cm) n")
  note spec = funcs_alloc_abs [OF inv, of n]
  show ?thesis
  proof (cases r)
    case (Ok span)
    then have fs: "funcs_inv fs" "funcs_abs fs = funcs_abs (cm_funcs cm) @ replicate (unat n) entry_uninit"
      "unat (efs_start span) = unat (code_map_view cm)" "unat (efs_end span) = unat (code_map_view cm) + unat n"
      "unat (code_map_view cm) + unat n \<le> MAX_FUNCS"
      using spec alloc by (simp_all add: code_map_view_def)
    have len: "unat (fs_len_funcs fs) = unat (code_map_view cm) + unat n"
      using arg_cong [OF fs(2), of length] by (simp add: code_map_view_def)
    have old: "view \<le> fs_len_funcs (cm_funcs cm)" "view \<le> fs_len_funcs fs"
      using view len by (simp_all add: word_le_nat_alt code_map_view_def)
    have "unat func < unat (code_map_view cm)" if "unat func < unat view"
      using that view by (simp add: word_le_nat_alt)
    then show ?thesis
      using Ok alloc fs len funcs_get_within_abs [OF inv old(1), of func] funcs_get_within_abs [OF fs(1) old(2), of func]
        funcs_get_within_abs [OF fs(1), of "fs_len_funcs fs" func]
      by (auto simp: alloc_funcs_def view_entry_def view_refresh_def code_map_view_def nth_append)
  qed (use spec alloc in \<open>simp_all add: alloc_funcs_def code_map_view_def\<close>)
qed

theorem code_map_refines_list_witness:
  "case alloc_funcs (code_map_new () :: (unit, unit, unit) code_map) 40 of
     (Ok span, cm') \<Rightarrow> funcs_abs (cm_funcs cm') = replicate 40 entry_uninit | _ \<Rightarrow> False"
proof -
  let ?cm = "code_map_new () :: (unit, unit, unit) code_map"
  have "funcs_inv (cm_funcs ?cm)" "0 \<le> code_map_view ?cm"
    by (simp_all add: code_map_new_def funcs_default_inv)
  from code_map_refines_list [OF this, of 40 0] show ?thesis
    by (auto simp: code_map_new_def code_map_view_def funcs_default_inv MAX_FUNCS_def split: prod.splits res.splits)
      (simp_all add: funcs_default_def)
qed

lemma funcs_get_visible:
  "funcs_inv fs \<Longrightarrow> unat func < unat view \<Longrightarrow> view \<le> fs_len_funcs fs \<Longrightarrow>
   funcs_get_within fs func view = Ok (Some (funcs_abs fs ! unat func))"
  by (simp add: funcs_get_within_abs)

lemma funcs_put_same:
  assumes "funcs_inv fs" "unat func < unat (fs_len_funcs fs)"
  shows "funcs_put fs func (funcs_abs fs ! unat func) = fs"
proof -
  obtain b s raw where b: "locate func = (b, s)" "b < MAX_BUCKETS" "fs_buckets fs ! b = Some raw" "s < length raw"
    using bucket_of_func [OF assms] by metis
  then have "(fs_buckets fs)[b := Some (raw[s := funcs_abs fs ! unat func])] = fs_buckets fs"
    using nth_funcs_abs [OF assms b(1,3)] by (metis list_update_id)
  then show ?thesis using b assms(1) by (simp add: funcs_put_def get_opt_def funcs_inv_def)
qed

lemma alloc_func_uninit:
  assumes inv: "funcs_inv (cm_funcs cm)" and alloc: "alloc_funcs cm n = (Ok span, cm1)" and func: "efs_get span k = Some func"
  shows "funcs_inv (cm_funcs cm1)" "unat func < unat (code_map_view cm1)"
    "funcs_abs (cm_funcs cm1) ! unat func = entry_uninit" "cm_features cm1 = cm_features cm"
proof -
  obtain fs where fs: "funcs_alloc (cm_funcs cm) n = (Ok span, fs)" "cm1 = cm\<lparr>cm_funcs := fs\<rparr>"
    using alloc by (auto simp: alloc_funcs_def split: prod.splits res.splits)
  let ?len = "unat (fs_len_funcs (cm_funcs cm))"
  have abs: "funcs_inv fs" "funcs_abs fs = funcs_abs (cm_funcs cm) @ replicate (unat n) entry_uninit"
    "unat (efs_start span) = ?len" "unat (efs_end span) = ?len + unat n"
    using funcs_alloc_abs [OF inv, of n] fs(1) by simp_all
  have fi: "?len \<le> unat func" "unat func < ?len + unat n"
    using func abs(3,4) unsigned_less [of "efs_end span", where ?'a = nat]
    by (auto simp: efs_get_def efs_len_def word_le_nat_alt unat_sub_if' unat_word_ariths split: if_splits)
  have len: "unat (fs_len_funcs fs) = ?len + unat n" using arg_cong [OF abs(2), of length] by simp
  show "unat func < unat (code_map_view cm1)" "funcs_abs (cm_funcs cm1) ! unat func = entry_uninit"
    using abs(2) len fs(2) fi by (simp_all add: code_map_view_def nth_append)
qed (use assms funcs_alloc_abs [OF inv, of n] in \<open>auto simp: alloc_funcs_def split: prod.splits res.splits\<close>)

lemma init_func_fresh:
  assumes "funcs_inv (cm_funcs cm)" "unat func < unat (code_map_view cm)" "uncompiled_new idx bytes module fv = Ok u"
  shows "init_func_as_uncompiled cm func idx bytes module fv =
    (if funcs_abs (cm_funcs cm) ! unat func = entry_uninit
     then (Ok (), cm\<lparr>cm_funcs := funcs_put (cm_funcs cm) func \<lparr>fe_data = DataUncompiled u, fe_state = UNCOMPILED\<rparr>\<rparr>)
     else init_func_as_uncompiled cm func idx bytes module fv)"
  using assms funcs_get_visible [OF assms(1), of func "code_map_view cm"]
  by (simp add: init_func_as_uncompiled_def funcs_get_def init_uncompiled_def entry_is_initialized_def
      entry_uninit_def set_uncompiled_def code_map_view_def)

lemma init_func_twice:
  assumes "funcs_inv (cm_funcs cm)" "unat func < unat (code_map_view cm)"
    "fe_state (funcs_abs (cm_funcs cm) ! unat func) \<noteq> UNINIT"
  shows "fst (init_func_as_uncompiled cm func idx bytes module fv) = Panic"
  using assms funcs_get_visible [OF assms(1), of func "code_map_view cm"]
  by (simp add: init_func_as_uncompiled_def funcs_get_def init_uncompiled_def entry_is_initialized_def
      code_map_view_def split: res.split)

lemma view_get_or_compile_visible:
  assumes "funcs_inv (cm_funcs cm)" "unat func < unat view" "view \<le> code_map_view cm"
    and "entry_get_or_compile (env\<lparr>ce_features := cm_features cm\<rparr>) fuel (funcs_abs (cm_funcs cm) ! unat func) = Some (r, fuel', e)"
  shows "view_get_or_compile env cm view fuel func =
    Some (case r of Ok c \<Rightarrow> Ok (Some c) | Err err \<Rightarrow> Err err | Panic \<Rightarrow> Panic, fuel', cm\<lparr>cm_funcs := funcs_put (cm_funcs cm) func e\<rparr>)"
  using assms funcs_get_visible [OF assms(1,2)] by (simp add: view_get_or_compile_def view_entry_def code_map_view_def)

text \<open>
  C35: from allocation to execution. A function of a new span is initialized once, a second
  initialization panics; a lookup through a fresh view without a fuel counter returns what the
  translator makes of the given bytes and validation, or its error. The outcome is kept: a later lookup
  through any view that sees the function returns the same function again, or reports that its
  compilation has failed; no other function changes.
\<close>
theorem code_map_compiles_on_demand:
  assumes inv: "funcs_inv (cm_funcs cm)" and alloc: "alloc_funcs cm n = (Ok span, cm1)"
    and func: "efs_get span k = Some func" and fv: "case fv of None \<Rightarrow> True | Some v \<Rightarrow> fv_index v = idx"
    and env: "no_fuel_errors env" "ce_engine_alive env module"
    and view: "unat func < unat view" "view \<le> code_map_view cm1"
  shows "case init_func_as_uncompiled cm1 func idx bytes module fv of (r, cm2) \<Rightarrow>
      r = Ok () \<and> fst (init_func_as_uncompiled cm2 func idx bytes module fv) = Panic
      \<and> (case view_get_or_compile env cm2 (code_map_view cm2) None func of None \<Rightarrow> False | Some (r, _, cm3) \<Rightarrow>
          (case ce_translate env module idx bytes (map_option (\<lambda>v. (fv_ty v, fv_resources v)) fv) (cm_features cm) of
             Ok c \<Rightarrow> r = Ok (Some (compiled_ref_from c))
               \<and> view_get_or_compile env cm3 view fuel func = Some (Ok (Some (compiled_ref_from c)), fuel, cm3)
               \<and> funcs_abs (cm_funcs cm3) = (funcs_abs (cm_funcs cm1))[unat func := \<lparr>fe_data = DataCompiled c, fe_state = COMPILED\<rparr>]
           | Err e \<Rightarrow> r = Err (Translation e)
               \<and> view_get_or_compile env cm3 view fuel func = Some (Err LazyCompilationFailed, fuel, cm3)
           | Panic \<Rightarrow> r = Panic))"
proof -
  note new = alloc_func_uninit [OF inv alloc func]
  define u where "u = \<lparr>un_func_index = idx, un_bytes = small_bytes_from bytes, un_module = module,
      un_validation = map_option (\<lambda>v. (fv_ty v, fv_resources v)) fv\<rparr>"
  define env' where "env' = env\<lparr>ce_features := cm_features cm\<rparr>"
  let ?put = "\<lambda>e. cm1\<lparr>cm_funcs := funcs_put (cm_funcs cm1) func e\<rparr>"
  let ?e2 = "\<lparr>fe_data = DataUncompiled u, fe_state = UNCOMPILED\<rparr>"
  note i = new(2) [unfolded code_map_view_def]
  have put: "funcs_inv (cm_funcs (?put e))" "funcs_abs (cm_funcs (?put e)) ! unat func = e"
      "code_map_view (?put e) = code_map_view cm1" for e
    using funcs_put_abs [OF new(1) i, of e] i by (simp_all add: code_map_view_def)
  have put_put: "funcs_put (funcs_put (cm_funcs cm1) func d) func e = funcs_put (cm_funcs cm1) func e" for d e
  proof -
    obtain b s raw where "locate func = (b, s)" "b < MAX_BUCKETS" "fs_buckets (cm_funcs cm1) ! b = Some raw"
      using bucket_of_func [OF new(1) i] by metis
    then show ?thesis using new(1) by (simp add: funcs_put_def get_opt_def funcs_inv_def)
  qed
  have "uncompiled_new idx bytes module fv = Ok u"
    using fv by (auto simp: uncompiled_new_def u_def split: option.splits)
  then have init: "init_func_as_uncompiled cm1 func idx bytes module fv = (Ok (), ?put ?e2)"
    using init_func_fresh [OF new(1,2)] new(3) by auto
  have again: "fst (init_func_as_uncompiled (?put ?e2) func idx bytes module fv) = Panic"
    by (rule init_func_twice) (use put [of ?e2] new(2) in \<open>simp_all add: entry_states\<close>)
  have env': "no_fuel_errors env'" "ce_engine_alive env' (un_module u)"
    using env by (simp_all add: env'_def no_fuel_errors_def u_def)
  have look: "view_get_or_compile env (?put e) w fl func =
      Some (case r of Ok c \<Rightarrow> Ok (Some c) | Err err \<Rightarrow> Err err | Panic \<Rightarrow> Panic, fl', ?put e')"
    if "entry_get_or_compile env' fl e = Some (r, fl', e')" "unat func < unat w" "w \<le> code_map_view cm1" for e w fl r fl' e'
    using view_get_or_compile_visible [of "?put e" func w env fl r fl' e'] that put [of e] put_put new(4)
    by (simp add: env'_def)
  have last: "view_get_or_compile env (?put e) view fuel func = Some (case r of Ok c \<Rightarrow> Ok (Some c) | Err err \<Rightarrow> Err err | Panic \<Rightarrow> Panic, fuel, ?put e)"
    if "entry_get_or_compile env' fuel e = Some (r, fuel, e)" for e r
    using look [OF that view] .
  define t where "t = ce_translate env module idx bytes (map_option (\<lambda>v. (fv_ty v, fv_resources v)) fv) (cm_features cm)"
  have first: "entry_get_or_compile env' None ?e2 = Some (case t of
      Ok c \<Rightarrow> (Ok (compiled_ref_from c), None, \<lparr>fe_data = DataCompiled c, fe_state = COMPILED\<rparr>)
    | Err err \<Rightarrow> (Err (Translation err), None, \<lparr>fe_data = DataUndefined, fe_state = FAILED_TO_COMPILE\<rparr>)
    | Panic \<Rightarrow> (Panic, None, \<lparr>fe_data = DataUndefined, fe_state = COMPILING\<rparr>))"
    using get_or_compile_unmetered [OF env'] by (simp add: t_def env'_def u_def)
  have abs3: "funcs_abs (cm_funcs (?put e)) = (funcs_abs (cm_funcs cm1))[unat func := e]" for e
    using funcs_put_abs(2) [OF new(1) i, of e] by simp
  show ?thesis
    unfolding init t_def [symmetric]
    using again put(3) [of ?e2] first abs3 last [OF get_or_compile_settled(1)] last [OF get_or_compile_settled(2)]
      look [of None ?e2, OF _ new(2) order_refl]
    by (cases t) simp_all
qed

theorem code_map_compiles_on_demand_witness:
  "case alloc_funcs (code_map_new () :: (unit, unit, unit) code_map) 40 of (Ok span, cm1) \<Rightarrow>
     (case init_func_as_uncompiled cm1 33 0 [7] () None of (r, cm2) \<Rightarrow>
       r = Ok () \<and> (case view_get_or_compile example_env cm2 (code_map_view cm2) None 33 of
          Some (r, _, _) \<Rightarrow> r = Ok (Some \<lparr>cr_ops = [7], cr_len_local_slots = 0, cr_len_stack_slots = 1\<rparr>) | None \<Rightarrow> False)) | _ \<Rightarrow> False"
proof -
  let ?cm = "code_map_new () :: (unit, unit, unit) code_map"
  have inv: "funcs_inv (cm_funcs ?cm)" by (simp add: code_map_new_def funcs_default_inv)
  obtain r fs where fs: "funcs_alloc (funcs_default :: (unit, unit) funcs) 40 = (r, fs)" by fastforce
  have zero: "unat (fs_len_funcs (funcs_default :: (unit, unit) funcs)) = 0" by (simp add: funcs_default_def)
  then obtain span where r: "r = Ok span" "unat (efs_start span) = 0" "unat (efs_end span) = 40"
      "funcs_abs fs = replicate 40 entry_uninit"
    using funcs_alloc_abs [of "funcs_default :: (unit, unit) funcs" 40] fs
    by (cases r) (auto simp: MAX_FUNCS_def funcs_default_inv)
  define cm1 where "cm1 = ?cm\<lparr>cm_funcs := fs\<rparr>"
  have a: "alloc_funcs ?cm 40 = (Ok span, cm1)" "unat (code_map_view cm1) = 40"
    using fs r length_funcs_abs [of fs] by (simp_all add: alloc_funcs_def code_map_new_def cm1_def code_map_view_def)
  have "efs_start span = 0" "efs_end span = 40" using r(2,3) by (simp_all add: word_unat_eq_iff)
  then have "efs_get span 33 = Some 33" by (simp add: efs_get_def efs_len_def)
  from code_map_compiles_on_demand [OF inv a(1) this, where fv = None and idx = 0 and env = example_env and module = "()"
      and view = "code_map_view cm1" and bytes = "[7]" and fuel = None] a
  show ?thesis by (auto simp: example_simps split: prod.splits option.splits)
qed

end
