(* ===== verification/Store.thy ===== *)
theory Store
  imports Linear_Memory Arena Values Code_Map
begin

section \<open>The store (crates/wasmi/src/store, instance/mod.rs, memory/data.rs, crates/core/src/global.rs)\<close>

text \<open>
  The entities a store owns, the handles that name them, and the operations that allocate and resolve
  them. A handle is the key of an arena with the identifier of its store. A reference to an entity is
  its value, and a write through a mutable reference is a \<open>put\<close> that replaces it. The host state is the
  parameter \<open>'l\<close> of the resource limiter; the host functions themselves are parameters where they are
  called. The size of an entity in memory, which the allocator sees, is the parameter \<open>elem\<close>.
\<close>

subsection \<open>Data segments (memory/data.rs)\<close>

record data_segment =
  ds_bytes :: "u8 list option"

definition data_active :: data_segment where
  "data_active = \<lparr>ds_bytes = None\<rparr>"

definition data_passive :: "u8 list \<Rightarrow> data_segment" where
  "data_passive bytes = \<lparr>ds_bytes = Some bytes\<rparr>"

definition data_bytes :: "data_segment \<Rightarrow> u8 list" where
  "data_bytes d = (case ds_bytes d of Some bytes \<Rightarrow> bytes | None \<Rightarrow> [])"

definition drop_bytes :: "data_segment \<Rightarrow> data_segment" where
  "drop_bytes d = d\<lparr>ds_bytes := None\<rparr>"

subsection \<open>Globals (crates/core/src/global.rs)\<close>

datatype global_error = ImmutableWrite | GlobalTypeMismatch

datatype mutability = Const | Var

fun is_const :: "mutability \<Rightarrow> bool" where
  "is_const Const = True"
| "is_const Var = False"

fun is_mut :: "mutability \<Rightarrow> bool" where
  "is_mut Const = False"
| "is_mut Var = True"

record global_type =
  gt_content :: val_type
  gt_mutability :: mutability

record global =
  gl_value :: raw_val
  gl_ty :: global_type

definition global_new :: "raw_val \<Rightarrow> global_type \<Rightarrow> global" where
  "global_new v ty = \<lparr>gl_value = v, gl_ty = ty\<rparr>"

text \<open>A typed raw value is its type and its raw value.\<close>

definition global_set :: "global \<Rightarrow> val_type \<times> raw_val \<Rightarrow> (global_error, unit) res \<times> global" where
  "global_set g new_value =
     (if \<not> is_mut (gt_mutability (gl_ty g)) then (Err ImmutableWrite, g)
      else if gt_content (gl_ty g) \<noteq> fst new_value then (Err GlobalTypeMismatch, g)
      else (Ok (), g\<lparr>gl_value := snd new_value\<rparr>))"

definition global_get :: "global \<Rightarrow> val_type \<times> raw_val" where
  "global_get g = (gt_content (gl_ty g), gl_value g)"

subsection \<open>Handles, functions and instances (handle.rs, func/mod.rs, instance/mod.rs)\<close>

type_synonym handle = "u32 stored"

text \<open>A deduplicated function type is a key of the engine.\<close>

type_synonym dedup_func_type = "u32 stored"

record wasm_func =
  wf_ty :: dedup_func_type
  wf_body :: engine_func
  wf_instance :: handle

record host_func =
  hf_len_param_cells :: u16
  hf_len_result_cells :: u16
  hf_ty :: dedup_func_type
  hf_trampoline :: "usize stored"

datatype func_entity = WasmFunc wasm_func | HostFunc host_func

fun ty_dedup :: "func_entity \<Rightarrow> dedup_func_type" where
  "ty_dedup (WasmFunc f) = wf_ty f"
| "ty_dedup (HostFunc f) = hf_ty f"

datatype extern = ExternGlobal handle | ExternTable handle | ExternMemory handle | ExternFunc handle

record instance_entity =
  in_initialized :: bool
  in_func_types :: "dedup_func_type list"
  in_tables :: "handle list"
  in_funcs :: "handle list"
  in_memories :: "handle list"
  in_globals :: "handle list"
  in_exports :: "string \<rightharpoonup> extern"
  in_data_segments :: "handle list"
  in_elem_segments :: "handle list"

definition instance_uninitialized :: instance_entity where
  "instance_uninitialized = \<lparr>in_initialized = False, in_func_types = [], in_tables = [], in_funcs = [],
     in_memories = [], in_globals = [], in_exports = Map.empty, in_data_segments = [], in_elem_segments = []\<rparr>"

definition get_memory :: "instance_entity \<Rightarrow> u32 \<Rightarrow> handle option" where
  "get_memory i index = get_opt (in_memories i) (unat index)"

definition get_table :: "instance_entity \<Rightarrow> u32 \<Rightarrow> handle option" where
  "get_table i index = get_opt (in_tables i) (unat index)"

definition get_global :: "instance_entity \<Rightarrow> u32 \<Rightarrow> handle option" where
  "get_global i index = get_opt (in_globals i) (unat index)"

definition get_func :: "instance_entity \<Rightarrow> u32 \<Rightarrow> handle option" where
  "get_func i index = get_opt (in_funcs i) (unat index)"

definition get_signature :: "instance_entity \<Rightarrow> u32 \<Rightarrow> dedup_func_type option" where
  "get_signature i index = get_opt (in_func_types i) (unat index)"

definition get_data_segment :: "instance_entity \<Rightarrow> u32 \<Rightarrow> handle option" where
  "get_data_segment i index = get_opt (in_data_segments i) (unat index)"

definition get_element_segment :: "instance_entity \<Rightarrow> u32 \<Rightarrow> handle option" where
  "get_element_segment i index = get_opt (in_elem_segments i) (unat index)"

definition get_export :: "instance_entity \<Rightarrow> string \<Rightarrow> extern option" where
  "get_export i name = in_exports i name"

subsection \<open>The inner store (store/inner.rs)\<close>

datatype internal_store_error = RestoreTypeMismatch | StoreMismatch | EntityNotFound

datatype 'e store_error = Internal internal_store_error | External 'e

record store_inner =
  si_id :: store_id
  si_funcs :: "func_entity arena"
  si_memories :: "memory arena"
  si_tables :: "table arena"
  si_globals :: "global arena"
  si_instances :: "instance_entity arena"
  si_datas :: "data_segment arena"
  si_elems :: "element_segment arena"
  si_fuel :: fuel

text \<open>\<open>StoreInner::new\<close>: the counter of store identifiers is threaded through.\<close>

definition store_inner_new :: "bool \<Rightarrow> fuel_costs_provider \<Rightarrow> u32 \<Rightarrow> store_inner \<times> u32" where
  "store_inner_new fuel_enabled fuel_costs counter =
     (case store_id_new counter of (sid, counter') \<Rightarrow>
        (\<lparr>si_id = sid, si_funcs = arena_new, si_memories = arena_new, si_tables = arena_new, si_globals = arena_new,
          si_instances = arena_new, si_datas = arena_new, si_elems = arena_new, si_fuel = fuel_new fuel_enabled fuel_costs\<rparr>, counter'))"

definition unwrap_stored :: "store_inner \<Rightarrow> 'k stored \<Rightarrow> (internal_store_error, 'k) res" where
  "unwrap_stored s h = ok_or StoreMismatch (stored_unwrap (si_id s) h)"

text \<open>Every error of an arena while allocating panics.\<close>

definition alloc_in ::
  "'k arena_key \<Rightarrow> allocator \<Rightarrow> nat \<Rightarrow> store_id \<Rightarrow> 'a arena \<Rightarrow> 'a \<Rightarrow> (internal_store_error, 'k stored) res \<times> 'a arena" where
  "alloc_in K alloc elem sid arena v =
     (case arena_alloc K alloc elem arena v of
        (Ok key, arena') \<Rightarrow> (Ok (stored_wrap sid key), arena')
      | (_, arena') \<Rightarrow> (Panic, arena'))"

definition alloc_global :: "allocator \<Rightarrow> nat \<Rightarrow> global \<Rightarrow> store_inner \<Rightarrow> (internal_store_error, handle) res \<times> store_inner" where
  "alloc_global alloc elem v s =
     (case alloc_in u32_key alloc elem (si_id s) (si_globals s) v of (r, a) \<Rightarrow> (r, s\<lparr>si_globals := a\<rparr>))"

definition alloc_table :: "allocator \<Rightarrow> nat \<Rightarrow> table \<Rightarrow> store_inner \<Rightarrow> (internal_store_error, handle) res \<times> store_inner" where
  "alloc_table alloc elem v s =
     (case alloc_in u32_key alloc elem (si_id s) (si_tables s) v of (r, a) \<Rightarrow> (r, s\<lparr>si_tables := a\<rparr>))"

definition alloc_memory :: "allocator \<Rightarrow> nat \<Rightarrow> memory \<Rightarrow> store_inner \<Rightarrow> (internal_store_error, handle) res \<times> store_inner" where
  "alloc_memory alloc elem v s =
     (case alloc_in u32_key alloc elem (si_id s) (si_memories s) v of (r, a) \<Rightarrow> (r, s\<lparr>si_memories := a\<rparr>))"

definition alloc_data_segment ::
  "allocator \<Rightarrow> nat \<Rightarrow> data_segment \<Rightarrow> store_inner \<Rightarrow> (internal_store_error, handle) res \<times> store_inner" where
  "alloc_data_segment alloc elem v s =
     (case alloc_in u32_key alloc elem (si_id s) (si_datas s) v of (r, a) \<Rightarrow> (r, s\<lparr>si_datas := a\<rparr>))"

definition alloc_element_segment ::
  "allocator \<Rightarrow> nat \<Rightarrow> element_segment \<Rightarrow> store_inner \<Rightarrow> (internal_store_error, handle) res \<times> store_inner" where
  "alloc_element_segment alloc elem v s =
     (case alloc_in u32_key alloc elem (si_id s) (si_elems s) v of (r, a) \<Rightarrow> (r, s\<lparr>si_elems := a\<rparr>))"

definition alloc_func :: "allocator \<Rightarrow> nat \<Rightarrow> func_entity \<Rightarrow> store_inner \<Rightarrow> (internal_store_error, handle) res \<times> store_inner" where
  "alloc_func alloc elem v s =
     (case alloc_in nonzero_u32_key alloc elem (si_id s) (si_funcs s) v of (r, a) \<Rightarrow> (r, s\<lparr>si_funcs := a\<rparr>))"

definition alloc_instance :: "allocator \<Rightarrow> nat \<Rightarrow> store_inner \<Rightarrow> (internal_store_error, handle) res \<times> store_inner" where
  "alloc_instance alloc elem s =
     (case alloc_in u32_key alloc elem (si_id s) (si_instances s) instance_uninitialized of (r, a) \<Rightarrow> (r, s\<lparr>si_instances := a\<rparr>))"

definition initialize_instance :: "handle \<Rightarrow> instance_entity \<Rightarrow> store_inner \<Rightarrow> (internal_store_error, unit) res \<times> store_inner" where
  "initialize_instance h init s =
     (if \<not> in_initialized init then (Panic, s)
      else case unwrap_stored s h of
        Ok key \<Rightarrow>
          (case arena_get u32_key (si_instances s) key of
             Ok uninit \<Rightarrow>
               if in_initialized uninit then (Panic, s)
               else (Ok (), s\<lparr>si_instances := snd (arena_get_mut_set u32_key (si_instances s) key init)\<rparr>)
           | _ \<Rightarrow> (Panic, s))
      | _ \<Rightarrow> (Panic, s))"

definition resolve :: "'k arena_key \<Rightarrow> store_inner \<Rightarrow> 'k stored \<Rightarrow> 'a arena \<Rightarrow> (internal_store_error, 'a) res" where
  "resolve K s h arena =
     (case unwrap_stored s h of
        Ok key \<Rightarrow> (case arena_get K arena key of Ok x \<Rightarrow> Ok x | Err _ \<Rightarrow> Err EntityNotFound | Panic \<Rightarrow> Panic)
      | Err e \<Rightarrow> Err e
      | Panic \<Rightarrow> Panic)"

text \<open>Writing through the reference that \<open>resolve_mut\<close> returns, once the handle is unwrapped.\<close>

definition put :: "'k arena_key \<Rightarrow> 'k stored \<Rightarrow> 'a \<Rightarrow> 'a arena \<Rightarrow> 'a arena" where
  "put K h v arena = snd (arena_get_mut_set K arena (sd_value h) v)"

definition try_resolve_global :: "store_inner \<Rightarrow> handle \<Rightarrow> (internal_store_error, global) res" where
  "try_resolve_global s h = resolve u32_key s h (si_globals s)"

definition try_resolve_table :: "store_inner \<Rightarrow> handle \<Rightarrow> (internal_store_error, table) res" where
  "try_resolve_table s h = resolve u32_key s h (si_tables s)"

definition try_resolve_element :: "store_inner \<Rightarrow> handle \<Rightarrow> (internal_store_error, element_segment) res" where
  "try_resolve_element s h = resolve u32_key s h (si_elems s)"

definition try_resolve_memory :: "store_inner \<Rightarrow> handle \<Rightarrow> (internal_store_error, memory) res" where
  "try_resolve_memory s h = resolve u32_key s h (si_memories s)"

definition try_resolve_data :: "store_inner \<Rightarrow> handle \<Rightarrow> (internal_store_error, data_segment) res" where
  "try_resolve_data s h = resolve u32_key s h (si_datas s)"

definition try_resolve_instance :: "store_inner \<Rightarrow> handle \<Rightarrow> (internal_store_error, instance_entity) res" where
  "try_resolve_instance s h = resolve u32_key s h (si_instances s)"

definition try_resolve_func :: "store_inner \<Rightarrow> handle \<Rightarrow> (internal_store_error, func_entity) res" where
  "try_resolve_func s h = resolve nonzero_u32_key s h (si_funcs s)"

text \<open>
  Two entities at once. The positions of a pair come from \<open>get_pair_mut\<close>, whose errors panic; of a
  table or memory and a segment the segment is resolved first.
\<close>

definition try_resolve_pair :: "store_inner \<Rightarrow> handle \<Rightarrow> handle \<Rightarrow> 'a arena \<Rightarrow> (internal_store_error, 'a \<times> 'a) res" where
  "try_resolve_pair s h1 h2 arena =
     (case unwrap_stored s h1 of
        Ok k1 \<Rightarrow>
          (case unwrap_stored s h2 of
             Ok k2 \<Rightarrow>
               (case get_pair_mut u32_key arena k1 k2 of
                  Ok (i, j) \<Rightarrow> Ok (ar_items arena ! i, ar_items arena ! j)
                | _ \<Rightarrow> Panic)
           | Err e \<Rightarrow> Err e
           | Panic \<Rightarrow> Panic)
      | Err e \<Rightarrow> Err e
      | Panic \<Rightarrow> Panic)"

definition try_resolve_memory_pair :: "store_inner \<Rightarrow> handle \<Rightarrow> handle \<Rightarrow> (internal_store_error, memory \<times> memory) res" where
  "try_resolve_memory_pair s h1 h2 = try_resolve_pair s h1 h2 (si_memories s)"

definition try_resolve_table_pair :: "store_inner \<Rightarrow> handle \<Rightarrow> handle \<Rightarrow> (internal_store_error, table \<times> table) res" where
  "try_resolve_table_pair s h1 h2 = try_resolve_pair s h1 h2 (si_tables s)"

definition try_resolve_init ::
  "store_inner \<Rightarrow> handle \<Rightarrow> 'a arena \<Rightarrow> handle \<Rightarrow> 'b arena \<Rightarrow> (internal_store_error, 'a \<times> 'b) res" where
  "try_resolve_init s h entities seg segments =
     (case unwrap_stored s h of
        Ok _ \<Rightarrow>
          (case resolve u32_key s seg segments of
             Ok segment \<Rightarrow>
               (case resolve u32_key s h entities of Ok entity \<Rightarrow> Ok (entity, segment) | Err e \<Rightarrow> Err e | Panic \<Rightarrow> Panic)
           | Err e \<Rightarrow> Err e
           | Panic \<Rightarrow> Panic)
      | Err e \<Rightarrow> Err e
      | Panic \<Rightarrow> Panic)"

definition try_resolve_memory_init_params :: "store_inner \<Rightarrow> handle \<Rightarrow> handle \<Rightarrow> (internal_store_error, memory \<times> data_segment) res" where
  "try_resolve_memory_init_params s h seg = try_resolve_init s h (si_memories s) seg (si_datas s)"

definition try_resolve_table_init_params :: "store_inner \<Rightarrow> handle \<Rightarrow> handle \<Rightarrow> (internal_store_error, table \<times> element_segment) res" where
  "try_resolve_table_init_params s h seg = try_resolve_init s h (si_tables s) seg (si_elems s)"

definition put_memory :: "handle \<Rightarrow> memory \<Rightarrow> store_inner \<Rightarrow> store_inner" where
  "put_memory h m s = s\<lparr>si_memories := put u32_key h m (si_memories s)\<rparr>"

definition put_table :: "handle \<Rightarrow> table \<Rightarrow> store_inner \<Rightarrow> store_inner" where
  "put_table h t s = s\<lparr>si_tables := put u32_key h t (si_tables s)\<rparr>"

definition put_global :: "handle \<Rightarrow> global \<Rightarrow> store_inner \<Rightarrow> store_inner" where
  "put_global h g s = s\<lparr>si_globals := put u32_key h g (si_globals s)\<rparr>"

definition put_data :: "handle \<Rightarrow> data_segment \<Rightarrow> store_inner \<Rightarrow> store_inner" where
  "put_data h d s = s\<lparr>si_datas := put u32_key h d (si_datas s)\<rparr>"

definition put_element :: "handle \<Rightarrow> element_segment \<Rightarrow> store_inner \<Rightarrow> store_inner" where
  "put_element h e s = s\<lparr>si_elems := put u32_key h e (si_elems s)\<rparr>"

subsection \<open>The store of an execution (store/pruned.rs, store/mod.rs)\<close>

text \<open>
  The type of the host data is erased while code runs. The table of methods restores it and compares
  the identifiers of the types.
\<close>

record 'l pruned_store =
  ps_inner :: store_inner
  ps_type_id :: nat
  ps_restore_id :: nat
  ps_limiter :: "'l limiter_ref"

definition restore :: "'l pruned_store \<Rightarrow> (internal_store_error, unit) res" where
  "restore ps = (if ps_restore_id ps \<noteq> ps_type_id ps then Err RestoreTypeMismatch else Ok ())"

definition grow_memory ::
  "allocator \<Rightarrow> handle \<Rightarrow> u64 \<Rightarrow> 'l pruned_store \<Rightarrow> (memory_error store_error, u64) res \<times> 'l pruned_store" where
  "grow_memory alloc h delta ps =
     (case restore ps of
        Ok _ \<Rightarrow>
          (case try_resolve_memory (ps_inner ps) h of
             Ok m \<Rightarrow>
               (case memory_grow alloc m delta (Some (si_fuel (ps_inner ps))) (ps_limiter ps) of
                  (r, m', fuel', limiter') \<Rightarrow>
                    (map_err External r,
                     ps\<lparr>ps_inner := (put_memory h m' (ps_inner ps))\<lparr>si_fuel := the fuel'\<rparr>, ps_limiter := limiter'\<rparr>))
           | Err e \<Rightarrow> (Err (Internal e), ps)
           | Panic \<Rightarrow> (Panic, ps))
      | Err e \<Rightarrow> (Err (Internal e), ps)
      | Panic \<Rightarrow> (Panic, ps))"

definition grow_table ::
  "allocator \<Rightarrow> handle \<Rightarrow> u64 \<Rightarrow> raw_ref \<Rightarrow> 'l pruned_store \<Rightarrow> (table_error store_error, u64) res \<times> 'l pruned_store" where
  "grow_table alloc h delta init ps =
     (case restore ps of
        Ok _ \<Rightarrow>
          (case try_resolve_table (ps_inner ps) h of
             Ok t \<Rightarrow>
               (case grow_raw alloc t delta init (Some (si_fuel (ps_inner ps))) (ps_limiter ps) of
                  (r, t', fuel', limiter') \<Rightarrow>
                    (map_err External r,
                     ps\<lparr>ps_inner := (put_table h t' (ps_inner ps))\<lparr>si_fuel := the fuel'\<rparr>, ps_limiter := limiter'\<rparr>))
           | Err e \<Rightarrow> (Err (Internal e), ps)
           | Panic \<Rightarrow> (Panic, ps))
      | Err e \<Rightarrow> (Err (Internal e), ps)
      | Panic \<Rightarrow> (Panic, ps))"

definition can_create_more_instances :: "'l pruned_store \<Rightarrow> usize \<Rightarrow> bool" where
  "can_create_more_instances ps additional =
     (case as_resource_limiter (ps_limiter ps) of
        Some (vt, l) \<Rightarrow> \<not> saturating_add (arena_len (si_instances (ps_inner ps))) additional > rl_instances vt l
      | None \<Rightarrow> True)"

definition can_create_more_memories :: "'l pruned_store \<Rightarrow> usize \<Rightarrow> bool" where
  "can_create_more_memories ps additional =
     (case as_resource_limiter (ps_limiter ps) of
        Some (vt, l) \<Rightarrow> \<not> saturating_add (arena_len (si_memories (ps_inner ps))) additional > rl_memories vt l
      | None \<Rightarrow> True)"

definition can_create_more_tables :: "'l pruned_store \<Rightarrow> usize \<Rightarrow> bool" where
  "can_create_more_tables ps additional =
     (case as_resource_limiter (ps_limiter ps) of
        Some (vt, l) \<Rightarrow> \<not> saturating_add (arena_len (si_tables (ps_inner ps))) additional > rl_tables vt l
      | None \<Rightarrow> True)"

subsection \<open>Handles stay valid\<close>

text \<open>
  The part of a store that holds one kind of entity: an arena inside the store, whose update does not
  touch the identifier of the store.
\<close>

locale store_part = lawful_key K
  for K :: "'k arena_key" +
  fixes part :: "store_inner \<Rightarrow> 'a arena" and set_part :: "'a arena \<Rightarrow> store_inner \<Rightarrow> store_inner"
  assumes part_set: "part (set_part a s) = a" and id_set: "si_id (set_part a s) = si_id s"
begin

lemma resolve_put:
  assumes "ak_valid K (sd_value h)" "ak_valid K (sd_value h')" "resolve K s h (part s) = Ok y"
  shows "resolve K (set_part (put K h x (part s)) s) h' (part (set_part (put K h x (part s)) s)) =
    (if h' = h then Ok x else resolve K s h' (part s))"
proof -
  have inj: "unat (into_usize K (sd_value h')) = unat (into_usize K (sd_value h)) \<longleftrightarrow> sd_value h' = sd_value h"
    using into_usize_inj assms(1,2) by (metis word_unat_eq_iff)
  have len: "unat (into_usize K (sd_value h)) < length (ar_items (part s))" and own: "sd_store h = si_id s"
    using assms(3) by (auto simp: resolve_def unwrap_stored_def stored_unwrap_def arena_get_def get_opt_def split: if_splits res.splits)
  have "h' = h \<longleftrightarrow> sd_store h' = sd_store h \<and> sd_value h' = sd_value h" by (metis stored.equality unit.exhaust)
  then show ?thesis using inj len own
    by (auto simp: resolve_def unwrap_stored_def stored_unwrap_def id_set part_set put_def arena_get_mut_set_def
        arena_get_def get_opt_def nth_list_update)
qed

lemma alloc_resolves:
  assumes wf: "arena_wf K elem (part s)" and alloc: "alloc_in K alloc elem (si_id s) (part s) x = (Ok h, a)"
  shows "arena_wf K elem a \<and> ak_valid K (sd_value h) \<and> resolve K s h (part s) = Err EntityNotFound
    \<and> (\<forall>h'. ak_valid K (sd_value h') \<longrightarrow>
        resolve K (set_part a s) h' (part (set_part a s)) = (if h' = h then Ok x else resolve K s h' (part s)))"
proof -
  obtain k where k: "arena_alloc K alloc elem (part s) x = (Ok k, a)" "h = stored_wrap (si_id s) k"
    using alloc by (auto simp: alloc_in_def split: prod.splits res.splits)
  note law = arena_alloc_law [OF wf, where alloc = alloc and x = x, unfolded k(1), simplified]
  have "h' = h \<longleftrightarrow> sd_store h' = si_id s \<and> sd_value h' = k" for h'
    unfolding k(2) stored_wrap_def by (metis stored.equality stored.select_convs unit.exhaust)
  then show ?thesis using law k(2)
    by (auto simp: resolve_def unwrap_stored_def stored_unwrap_def stored_wrap_def id_set part_set)
qed

lemma alloc_fails: "alloc_in K alloc elem (si_id s) (part s) x \<noteq> (Err e, a)"
  by (auto simp: alloc_in_def split: prod.splits res.splits)

lemma resolve_foreign: "sd_store h \<noteq> si_id s \<Longrightarrow> resolve K s h (part s) = Err StoreMismatch"
  by (simp add: resolve_def unwrap_stored_def stored_unwrap_def)

end

interpretation memories: store_part u32_key si_memories "\<lambda>a. si_memories_update (\<lambda>_. a)"
  by unfold_locales simp_all

interpretation tables: store_part u32_key si_tables "\<lambda>a. si_tables_update (\<lambda>_. a)"
  by unfold_locales simp_all

interpretation globals: store_part u32_key si_globals "\<lambda>a. si_globals_update (\<lambda>_. a)"
  by unfold_locales simp_all

interpretation datas: store_part u32_key si_datas "\<lambda>a. si_datas_update (\<lambda>_. a)"
  by unfold_locales simp_all

interpretation elems: store_part u32_key si_elems "\<lambda>a. si_elems_update (\<lambda>_. a)"
  by unfold_locales simp_all

interpretation instances: store_part u32_key si_instances "\<lambda>a. si_instances_update (\<lambda>_. a)"
  by unfold_locales simp_all

interpretation funcs: store_part nonzero_u32_key si_funcs "\<lambda>a. si_funcs_update (\<lambda>_. a)"
  by unfold_locales simp_all

lemma valid_u32 [simp]: "ak_valid u32_key k"
  by (simp add: u32_key_def)

lemma resolve_put_memory:
  "try_resolve_memory s h = Ok y \<Longrightarrow>
   try_resolve_memory (put_memory h m s) h' = (if h' = h then Ok m else try_resolve_memory s h')"
  using memories.resolve_put [of h h' s y m] by (simp add: try_resolve_memory_def put_memory_def)

lemma resolve_put_table:
  "try_resolve_table s h = Ok y \<Longrightarrow>
   try_resolve_table (put_table h t s) h' = (if h' = h then Ok t else try_resolve_table s h')"
  using tables.resolve_put [of h h' s y t] by (simp add: try_resolve_table_def put_table_def)


definition example_store :: store_inner where
  "example_store = fst (store_inner_new False \<lparr>custom = None\<rparr> 0)"

definition example_host_func :: func_entity where
  "example_host_func = HostFunc \<lparr>hf_len_param_cells = 0, hf_len_result_cells = 0, hf_ty = stored_wrap 0 0, hf_trampoline = stored_wrap 0 0\<rparr>"


end
