(* ===== verification/Ir_Codec.thy ===== *)
theory Ir_Codec
  imports Slots
begin

section \<open>Encoding and decoding of the bytecode (crates/ir/src/encode.rs, decode, primitive.rs)\<close>

text \<open>
  The fields of operators, how they are written to an encoder and how they are read back. An encoder
  is a record of the methods of the trait \<open>Encoder\<close> over its state, its positions and its errors; the
  trait \<open>Encode\<close> of a type is a definition \<open>encode_\<dots>\<close> that works with every encoder. A decoder is a
  slice of bytes that shrinks; the trait \<open>Decode\<close> of a type is a definition \<open>decode_\<dots>\<close> from a slice to
  the outcome and the rest of the slice. Integers are written in native byte order, which is little
  endian here. The locale \<open>codec\<close> states what the two have to do with each other.
\<close>

subsection \<open>Primitive operands (primitive.rs)\<close>

text \<open>\<open>BranchOffset\<close> is an \<open>i32\<close>; zero stands for an offset that is not known yet.\<close>

type_synonym branch_offset = "32 word"

definition is_backwards :: "branch_offset \<Rightarrow> bool" where
  "is_backwards off \<longleftrightarrow> sint off < 0"

definition is_forwards :: "branch_offset \<Rightarrow> bool" where
  "is_forwards off \<longleftrightarrow> 0 < sint off"

definition offset_is_init :: "branch_offset \<Rightarrow> bool" where
  "offset_is_init off \<longleftrightarrow> off \<noteq> 0"

definition offset_uninit :: branch_offset where
  "offset_uninit = 0"

definition offset_init :: "branch_offset \<Rightarrow> branch_offset \<Rightarrow> (unit, unit) res \<times> branch_offset" where
  "offset_init off valid_offset =
     (if \<not> offset_is_init valid_offset then (Panic, off)
      else if offset_is_init off then (Panic, off)
      else (Ok (), valid_offset))"

type_synonym block_fuel = u64

definition bump_by :: "block_fuel \<Rightarrow> u64 \<Rightarrow> (ir_error, unit) res \<times> block_fuel" where
  "bump_by fuel amount =
     (case checked_add fuel amount of
        None \<Rightarrow> (Err BlockFuelOutOfBounds, fuel)
      | Some fuel' \<Rightarrow> (Ok (), fuel'))"

definition address_new :: "u64 \<Rightarrow> u64 option" where
  "address_new addr = (if (try_from addr :: usize option) = None then None else Some addr)"

text \<open>The representation of an \<open>Offset\<close> has 64 bits with the feature \<open>memory64\<close> and 32 bits without.\<close>

definition offset_new :: "u64 \<Rightarrow> 'o::len word option" where
  "offset_new off = try_from off"

definition offset16_new :: "'o::len word \<Rightarrow> u16 option" where
  "offset16_new off = try_from (ucast off :: u64)"

record 's branch_table_target =
  bt_results :: "'s slot_span"
  bt_offset :: branch_offset

definition branch_table_target_new :: "'s slot_span \<Rightarrow> branch_offset \<Rightarrow> 's branch_table_target" where
  "branch_table_target_new results off = \<lparr>bt_results = results, bt_offset = off\<rparr>"

subsection \<open>Encoders (encode.rs)\<close>

record ('s, 'p, 'e) encoder =
  write_bytes :: "u8 list \<Rightarrow> 's \<Rightarrow> ('e, 'p) res \<times> 's"
  encode_op_code :: "u16 \<Rightarrow> 's \<Rightarrow> ('e, 'p) res \<times> 's"
  note_branch_offset :: "'p \<Rightarrow> branch_offset \<Rightarrow> 's \<Rightarrow> ('e, unit) res \<times> 's"
  note_block_fuel :: "'p \<Rightarrow> block_fuel \<Rightarrow> 's \<Rightarrow> ('e, unit) res \<times> 's"

text \<open>Running a second action after a first one and keeping the position of the first.\<close>

definition enc_then ::
  "('s \<Rightarrow> ('e, 'p) res \<times> 's) \<Rightarrow> ('p \<Rightarrow> 's \<Rightarrow> ('e, 'q) res \<times> 's) \<Rightarrow> 's \<Rightarrow> ('e, 'p) res \<times> 's" where
  "enc_then m k s =
     (case m s of
        (Ok pos, s') \<Rightarrow>
          (case k pos s' of (Ok _, s'') \<Rightarrow> (Ok pos, s'') | (Err e, s'') \<Rightarrow> (Err e, s'') | (Panic, s'') \<Rightarrow> (Panic, s''))
      | (Err e, s') \<Rightarrow> (Err e, s')
      | (Panic, s') \<Rightarrow> (Panic, s'))"

definition encode_prim :: "'a::len word \<Rightarrow> ('s, 'p, 'e) encoder \<Rightarrow> 's \<Rightarrow> ('e, 'p) res \<times> 's" where
  "encode_prim v E = write_bytes E (to_le_bytes v)"

definition encode_branch_offset :: "branch_offset \<Rightarrow> ('s, 'p, 'e) encoder \<Rightarrow> 's \<Rightarrow> ('e, 'p) res \<times> 's" where
  "encode_branch_offset off E = enc_then (encode_prim off E) (\<lambda>pos. note_branch_offset E pos off)"

definition encode_block_fuel :: "block_fuel \<Rightarrow> ('s, 'p, 'e) encoder \<Rightarrow> 's \<Rightarrow> ('e, 'p) res \<times> 's" where
  "encode_block_fuel fuel E = enc_then (encode_prim fuel E) (\<lambda>pos. note_block_fuel E pos fuel)"

definition encode_bool :: "bool \<Rightarrow> ('s, 'p, 'e) encoder \<Rightarrow> 's \<Rightarrow> ('e, 'p) res \<times> 's" where
  "encode_bool b E = encode_prim (of_bool b :: u8) E"

definition encode_slot_span :: "'w::len word slot_span \<Rightarrow> ('s, 'p, 'e) encoder \<Rightarrow> 's \<Rightarrow> ('e, 'p) res \<times> 's" where
  "encode_slot_span span E = encode_prim span E"

definition encode_bounded_slot_span ::
  "'w::len word bounded_slot_span \<Rightarrow> ('s, 'p, 'e) encoder \<Rightarrow> 's \<Rightarrow> ('e, 'p) res \<times> 's" where
  "encode_bounded_slot_span b E = enc_then (encode_slot_span (bs_span b) E) (\<lambda>_. encode_prim (bs_len b) E)"

definition encode_branch_table_target ::
  "'w::len word branch_table_target \<Rightarrow> ('s, 'p, 'e) encoder \<Rightarrow> 's \<Rightarrow> ('e, 'p) res \<times> 's" where
  "encode_branch_table_target t E =
     enc_then (encode_slot_span (bt_results t) E) (\<lambda>_. encode_branch_offset (bt_offset t) E)"

definition encode_trap_code :: "trap_code \<Rightarrow> ('s, 'p, 'e) encoder \<Rightarrow> 's \<Rightarrow> ('e, 'p) res \<times> 's" where
  "encode_trap_code code E = encode_prim (u8_of_trap_code code) E"

fun encode_array ::
  "('a \<Rightarrow> ('s, 'p, 'e) encoder \<Rightarrow> 's \<Rightarrow> ('e, 'p) res \<times> 's) \<Rightarrow> 'a list \<Rightarrow> ('s, 'p, 'e) encoder \<Rightarrow> 's \<Rightarrow> ('e, 'p) res \<times> 's" where
  "encode_array enc [] E s = (Panic, s)"
| "encode_array enc [x] E s = enc x E s"
| "encode_array enc (x # y # xs) E s = enc_then (enc x E) (\<lambda>_. encode_array enc (y # xs) E) s"

subsection \<open>Decoders (decode/mod.rs)\<close>

datatype decode_error = OutOfBytes | InvalidBitPattern

type_synonym 'a decode = "u8 list \<Rightarrow> (decode_error, 'a) res \<times> u8 list"

definition read_bytes :: "nat \<Rightarrow> u8 list decode" where
  "read_bytes n bs = (if n \<le> length bs then (Ok (take n bs), drop n bs) else (Err OutOfBytes, bs))"

definition dec_bind :: "'a decode \<Rightarrow> ('a \<Rightarrow> 'b decode) \<Rightarrow> 'b decode" where
  "dec_bind d k bs = (case d bs of (Ok x, rest) \<Rightarrow> k x rest | (Err e, rest) \<Rightarrow> (Err e, rest) | (Panic, rest) \<Rightarrow> (Panic, rest))"

definition dec_return :: "'a \<Rightarrow> 'a decode" where
  "dec_return x bs = (Ok x, bs)"

text \<open>A decoded value that is converted, or refused as an invalid bit pattern.\<close>

definition dec_fallible :: "'b option \<Rightarrow> 'b decode" where
  "dec_fallible r bs = (ok_or InvalidBitPattern r, bs)"

definition decode_prim :: "'a::len word decode" where
  "decode_prim = dec_bind (read_bytes (LENGTH('a) div 8)) (\<lambda>bytes. dec_return (from_le_bytes bytes))"

definition decode_bool :: "bool decode" where
  "decode_bool = dec_bind decode_prim (\<lambda>v :: u8. dec_return (v \<noteq> 0))"

definition decode_branch_offset :: "branch_offset decode" where
  "decode_branch_offset = decode_prim"

definition decode_block_fuel :: "block_fuel decode" where
  "decode_block_fuel = decode_prim"

definition decode_address :: "u64 decode" where
  "decode_address = dec_bind decode_prim (\<lambda>v. dec_fallible (address_new v))"

definition decode_nonzero :: "'a::len word decode" where
  "decode_nonzero = dec_bind decode_prim (\<lambda>v. dec_fallible (if v = 0 then None else Some v))"

definition decode_trap_code :: "trap_code decode" where
  "decode_trap_code = dec_bind decode_prim (\<lambda>v.
     dec_fallible (case trap_code_try_from v of Ok c \<Rightarrow> Some c | _ \<Rightarrow> None))"

text \<open>The number of op-codes is generated with the instruction set and is a parameter.\<close>

definition decode_op_code :: "nat \<Rightarrow> u16 decode" where
  "decode_op_code len_ops = dec_bind decode_prim (\<lambda>v. dec_fallible (if unat v \<ge> len_ops then None else Some v))"

definition decode_slot_span :: "'w::len word slot_span decode" where
  "decode_slot_span = decode_prim"

definition decode_bounded_slot_span :: "'w::len word bounded_slot_span decode" where
  "decode_bounded_slot_span =
     dec_bind decode_slot_span (\<lambda>span. dec_bind decode_prim (\<lambda>len. dec_return (bounded_span_new span len)))"

definition decode_fixed_slot_span :: "'w::len word slot_repr \<Rightarrow> u16 \<Rightarrow> 'w word slot_span decode" where
  "decode_fixed_slot_span R n =
     dec_bind decode_slot_span (\<lambda>span. dec_fallible (case fixed_span_new R n span of Ok s \<Rightarrow> Some s | _ \<Rightarrow> None))"

definition decode_branch_table_target :: "'w::len word branch_table_target decode" where
  "decode_branch_table_target =
     dec_bind decode_slot_span (\<lambda>results. dec_bind decode_branch_offset (\<lambda>off.
       dec_return (branch_table_target_new results off)))"

fun decode_array :: "'a decode \<Rightarrow> nat \<Rightarrow> 'a list decode" where
  "decode_array d 0 = dec_return []"
| "decode_array d (Suc n) = dec_bind d (\<lambda>x. dec_bind (decode_array d n) (\<lambda>xs. dec_return (x # xs)))"

subsection \<open>Codecs\<close>

text \<open>
  A codec has a fixed width: \<open>bytes\<close> are the bytes of a value, and the decoder reads a valid value back
  from them and leaves what follows; whenever it succeeds it has consumed the width, so that it
  refuses a slice that is too short, and the value is valid.
\<close>

locale codec =
  fixes width :: nat and bytes :: "'a \<Rightarrow> u8 list" and dec :: "'a decode" and valid :: "'a \<Rightarrow> bool"
  assumes length_bytes: "length (bytes x) = width"
    and dec_bytes: "valid x \<Longrightarrow> dec (bytes x @ rest) = (Ok x, rest)"
    and dec_consumes: "dec bs = (Ok x, rest) \<Longrightarrow> width \<le> length bs \<and> rest = drop width bs \<and> valid x"
begin

lemma dec_at:
  assumes "at + width \<le> length buf" "take width (drop at buf) = bytes x" "valid x"
  shows "dec (drop at buf) = (Ok x, drop (at + width) buf)"
proof -
  have "drop at buf = bytes x @ drop (at + width) buf"
    using assms(2) append_take_drop_id [of width "drop at buf"] by (simp add: add.commute)
  then show ?thesis using dec_bytes [OF assms(3)] by simp
qed

lemma bytes_inject: "valid x \<Longrightarrow> valid y \<Longrightarrow> bytes x = bytes y \<longleftrightarrow> x = y"
  using dec_bytes [of x "[]"] dec_bytes [of y "[]"] by fastforce

lemma decode_array_bytes:
  "list_all valid xs \<Longrightarrow> decode_array dec (length xs) (concat (map bytes xs) @ rest) = (Ok xs, rest)"
  by (induction xs) (simp_all add: dec_bind_def dec_return_def dec_bytes)

end

text \<open>Two codecs side by side: the fields of a struct in their order.\<close>

locale codec_pair =
  one: codec width1 bytes1 dec1 valid1 + two: codec width2 bytes2 dec2 valid2
  for width1 :: nat and bytes1 :: "'a \<Rightarrow> u8 list" and dec1 and valid1
    and width2 :: nat and bytes2 :: "'b \<Rightarrow> u8 list" and dec2 and valid2 +
  fixes mk :: "'a \<Rightarrow> 'b \<Rightarrow> 'c" and field1 :: "'c \<Rightarrow> 'a" and field2 :: "'c \<Rightarrow> 'b"
  assumes mk_fields: "mk (field1 x) (field2 x) = x"
    and fields_mk: "field1 (mk a b) = a" "field2 (mk a b) = b"

sublocale codec_pair \<subseteq> pair: codec "width1 + width2" "\<lambda>x. bytes1 (field1 x) @ bytes2 (field2 x)"
  "dec_bind dec1 (\<lambda>a. dec_bind dec2 (\<lambda>b. dec_return (mk a b)))" "\<lambda>x. valid1 (field1 x) \<and> valid2 (field2 x)"
proof
  fix x rest assume "valid1 (field1 x) \<and> valid2 (field2 x)"
  then show "dec_bind dec1 (\<lambda>a. dec_bind dec2 (\<lambda>b. dec_return (mk a b))) ((bytes1 (field1 x) @ bytes2 (field2 x)) @ rest) = (Ok x, rest)"
    using one.dec_bytes two.dec_bytes mk_fields by (simp add: dec_bind_def dec_return_def)
next
  fix bs x rest assume "dec_bind dec1 (\<lambda>a. dec_bind dec2 (\<lambda>b. dec_return (mk a b))) bs = (Ok x, rest)"
  then obtain a b rest1 where "dec1 bs = (Ok a, rest1)" "dec2 rest1 = (Ok b, rest)" "x = mk a b"
    by (auto simp: dec_bind_def dec_return_def split: prod.splits res.splits)
  then show "width1 + width2 \<le> length bs \<and> rest = drop (width1 + width2) bs \<and> valid1 (field1 x) \<and> valid2 (field2 x)"
    using one.dec_consumes two.dec_consumes fields_mk by (fastforce simp: add.commute)
qed (simp add: one.length_bytes two.length_bytes)

text \<open>A codec whose values are converted from another one, some of them being refused.\<close>

locale codec_conv = base: codec width bytes dec valid
  for width :: nat and bytes :: "'a \<Rightarrow> u8 list" and dec and valid +
  fixes conv :: "'a \<Rightarrow> 'b option" and unconv :: "'b \<Rightarrow> 'a" and ok :: "'b \<Rightarrow> bool"
  assumes conv_unconv: "ok y \<Longrightarrow> valid (unconv y) \<and> conv (unconv y) = Some y"
    and conv_ok: "valid x \<Longrightarrow> conv x = Some y \<Longrightarrow> ok y"

sublocale codec_conv \<subseteq> converted: codec width "\<lambda>y. bytes (unconv y)" "dec_bind dec (\<lambda>x. dec_fallible (conv x))" ok
proof
  show "length (bytes (unconv x)) = width" for x by (simp add: base.length_bytes)
  show "dec_bind dec (\<lambda>x. dec_fallible (conv x)) (bytes (unconv x) @ rest) = (Ok x, rest)" if "ok x" for x rest
    using base.dec_bytes conv_unconv [OF that] by (simp add: dec_bind_def dec_fallible_def)
  show "width \<le> length bs \<and> rest = drop width bs \<and> ok y"
    if "dec_bind dec (\<lambda>x. dec_fallible (conv x)) bs = (Ok y, rest)" for bs y rest
    using that base.dec_consumes conv_ok by (fastforce simp: dec_bind_def dec_fallible_def split: prod.splits res.splits)
qed

lemma codec_prim:
  "8 dvd LENGTH('a::len) \<Longrightarrow> codec (LENGTH('a) div 8) (to_le_bytes :: 'a word \<Rightarrow> u8 list) decode_prim (\<lambda>_. True)"
  by unfold_locales (auto simp: decode_prim_def dec_bind_def dec_return_def read_bytes_def from_to_le_bytes split: if_splits)

interpretation u8: codec 1 "to_le_bytes :: u8 \<Rightarrow> u8 list" decode_prim "\<lambda>_. True"
  using codec_prim [where ?'a = 8] by simp

interpretation u16: codec 2 "to_le_bytes :: u16 \<Rightarrow> u8 list" decode_prim "\<lambda>_. True"
  using codec_prim [where ?'a = 16] by simp

interpretation u32: codec 4 "to_le_bytes :: u32 \<Rightarrow> u8 list" decode_prim "\<lambda>_. True"
  using codec_prim [where ?'a = 32] by simp

interpretation u64: codec 8 "to_le_bytes :: u64 \<Rightarrow> u8 list" decode_prim "\<lambda>_. True"
  using codec_prim [where ?'a = 64] by simp

subsection \<open>Codecs of the operands\<close>

interpretation bounded32: codec_pair 4 "to_le_bytes :: u32 \<Rightarrow> u8 list" decode_prim "\<lambda>_. True"
  2 "to_le_bytes :: u16 \<Rightarrow> u8 list" decode_prim "\<lambda>_. True" bounded_span_new bs_span bs_len
  by unfold_locales (simp_all add: bounded_span_new_def)

interpretation bounded16: codec_pair 2 "to_le_bytes :: u16 \<Rightarrow> u8 list" decode_prim "\<lambda>_. True"
  2 "to_le_bytes :: u16 \<Rightarrow> u8 list" decode_prim "\<lambda>_. True" bounded_span_new bs_span bs_len
  by unfold_locales (simp_all add: bounded_span_new_def)

interpretation target32: codec_pair 4 "to_le_bytes :: u32 \<Rightarrow> u8 list" decode_prim "\<lambda>_. True"
  4 "to_le_bytes :: branch_offset \<Rightarrow> u8 list" decode_prim "\<lambda>_. True" branch_table_target_new bt_results bt_offset
  by unfold_locales (simp_all add: branch_table_target_new_def)

interpretation target16: codec_pair 2 "to_le_bytes :: u16 \<Rightarrow> u8 list" decode_prim "\<lambda>_. True"
  4 "to_le_bytes :: branch_offset \<Rightarrow> u8 list" decode_prim "\<lambda>_. True" branch_table_target_new bt_results bt_offset
  by unfold_locales (simp_all add: branch_table_target_new_def)

interpretation bool: codec_conv 1 "to_le_bytes :: u8 \<Rightarrow> u8 list" decode_prim "\<lambda>_. True"
  "\<lambda>v. Some (v \<noteq> 0)" "\<lambda>b. of_bool b" "\<lambda>_. True"
  by unfold_locales simp_all

interpretation nonzero32: codec_conv 4 "to_le_bytes :: u32 \<Rightarrow> u8 list" decode_prim "\<lambda>_. True"
  "\<lambda>v. if v = 0 then None else Some v" "\<lambda>v. v" "\<lambda>v. v \<noteq> 0"
  by unfold_locales (auto split: if_splits)

interpretation nonzero64: codec_conv 8 "to_le_bytes :: u64 \<Rightarrow> u8 list" decode_prim "\<lambda>_. True"
  "\<lambda>v. if v = 0 then None else Some v" "\<lambda>v. v" "\<lambda>v. v \<noteq> 0"
  by unfold_locales (auto split: if_splits)

interpretation address: codec_conv 8 "to_le_bytes :: u64 \<Rightarrow> u8 list" decode_prim "\<lambda>_. True"
  address_new "\<lambda>v. v" "\<lambda>_. True"
  by unfold_locales (simp_all add: address_new_def)

interpretation trap: codec_conv 1 "to_le_bytes :: u8 \<Rightarrow> u8 list" decode_prim "\<lambda>_. True"
  "\<lambda>v. case trap_code_try_from v of Ok c \<Rightarrow> Some c | _ \<Rightarrow> None" u8_of_trap_code "\<lambda>_. True"
  by unfold_locales (simp_all add: trap_code_try_from_u8)

interpretation fixed32: codec_conv 4 "to_le_bytes :: u32 \<Rightarrow> u8 list" decode_prim "\<lambda>_. True"
  "\<lambda>v. case fixed_span_new slot32 n v of Ok s \<Rightarrow> Some s | _ \<Rightarrow> None" "\<lambda>v. v" "\<lambda>v. is_ok (fixed_span_new slot32 n v)" for n
  by unfold_locales (auto simp: fixed_span_new_def Let_def split: if_splits)

interpretation fixed16: codec_conv 2 "to_le_bytes :: u16 \<Rightarrow> u8 list" decode_prim "\<lambda>_. True"
  "\<lambda>v. case fixed_span_new slot16 n v of Ok s \<Rightarrow> Some s | _ \<Rightarrow> None" "\<lambda>v. v" "\<lambda>v. is_ok (fixed_span_new slot16 n v)" for n
  by unfold_locales (auto simp: fixed_span_new_def Let_def split: if_splits)

end
