(* ===== verification/Op_Encoder.thy ===== *)
theory Op_Encoder
  imports Ir_Codec Fuel
begin

section \<open>The operator encoder of the translator (crates/wasmi/src/engine/translator/func)\<close>

text \<open>
  The buffer of encoded operators (\<open>encoder.rs\<close>) and the labels of a function (\<open>labels.rs\<close>). A branch to
  a label that is pinned is encoded with its offset; the others are recorded and get their offsets once
  all operators are encoded. Fuel is accumulated in the operand of the operator that consumes it.

  The operators themselves and their \<open>Encode\<close> implementations are generated by a build script from the
  instruction set. An operator is therefore the sequence of calls that its implementation makes to the
  encoder (\<open>op_field\<close>): its op-code and its operands in their order. The addresses of the handlers that
  direct dispatch stores in place of op-codes are a parameter, as are the op-code of the operator
  that consumes fuel and the allocator (\<open>enc_config\<close>). Positions are natural numbers; no buffer exceeds
  \<open>isize::MAX\<close> bytes.
\<close>

subsection \<open>Labels (labels.rs)\<close>

type_synonym label_ref = nat

datatype label = Pinned nat | Unpinned

record label_user =
  lu_dst :: label_ref
  lu_src :: nat
  lu_pos :: nat

record label_registry =
  lr_labels :: "label list"
  lr_users :: "label_user list"

datatype label_error = AlreadyPinned label_ref nat

definition registry_default :: label_registry where
  "registry_default = \<lparr>lr_labels = [], lr_users = []\<rparr>"

definition registry_reset :: "label_registry \<Rightarrow> label_registry" where
  "registry_reset r = r\<lparr>lr_labels := [], lr_users := []\<rparr>"

definition registry_new_label :: "label_registry \<Rightarrow> label_ref \<times> label_registry" where
  "registry_new_label r = (length (lr_labels r), r\<lparr>lr_labels := lr_labels r @ [Unpinned]\<rparr>)"

definition new_user :: "label_registry \<Rightarrow> label_ref \<Rightarrow> nat \<Rightarrow> nat \<Rightarrow> label_registry" where
  "new_user r dst src pos = r\<lparr>lr_users := lr_users r @ [\<lparr>lu_dst = dst, lu_src = src, lu_pos = pos\<rparr>]\<rparr>"

text \<open>Indexing the labels out of bounds panics.\<close>

definition get_label :: "label_registry \<Rightarrow> label_ref \<Rightarrow> label option" where
  "get_label r lref = get_opt (lr_labels r) lref"

definition is_pinned :: "label_registry \<Rightarrow> label_ref \<Rightarrow> bool option" where
  "is_pinned r lref = map_option (\<lambda>l. case l of Pinned _ \<Rightarrow> True | Unpinned \<Rightarrow> False) (get_label r lref)"

definition pin_label_or_err :: "label_registry \<Rightarrow> label_ref \<Rightarrow> nat \<Rightarrow> (label_error, unit) res \<times> label_registry" where
  "pin_label_or_err r lref target =
     (case get_label r lref of
        None \<Rightarrow> (Panic, r)
      | Some (Pinned pinned) \<Rightarrow> (Err (AlreadyPinned lref pinned), r)
      | Some Unpinned \<Rightarrow> (Ok (), r\<lparr>lr_labels := (lr_labels r)[lref := Pinned target]\<rparr>))"

definition registry_pin_label :: "label_registry \<Rightarrow> label_ref \<Rightarrow> nat \<Rightarrow> (unit, unit) res \<times> label_registry" where
  "registry_pin_label r lref target =
     (case pin_label_or_err r lref target of (Ok _, r') \<Rightarrow> (Ok (), r') | (_, r') \<Rightarrow> (Panic, r'))"

definition registry_pin_label_if_unpinned ::
  "label_registry \<Rightarrow> label_ref \<Rightarrow> nat \<Rightarrow> (unit, unit) res \<times> label_registry" where
  "registry_pin_label_if_unpinned r lref target =
     (case get_label r lref of
        None \<Rightarrow> (Panic, r)
      | Some Unpinned \<Rightarrow> (Ok (), r\<lparr>lr_labels := (lr_labels r)[lref := Pinned target]\<rparr>)
      | Some (Pinned _) \<Rightarrow> (Ok (), r))"

record resolved_label_user =
  ru_src :: nat
  ru_dst :: nat
  ru_pos :: nat

definition resolve_user :: "label_registry \<Rightarrow> label_user \<Rightarrow> resolved_label_user option" where
  "resolve_user r u =
     (case get_label r (lu_dst u) of
        Some (Pinned dst) \<Rightarrow> Some \<lparr>ru_src = lu_src u, ru_dst = dst, ru_pos = lu_pos u\<rparr>
      | _ \<Rightarrow> None)"

subsection \<open>The buffer (encoder.rs)\<close>

datatype reporting_pos = ReportBranchOffset nat | ReportBlockFuel nat

record encoded_ops =
  eo_buffer :: "u8 list"
  eo_cap :: nat
  eo_temp :: "reporting_pos option"

datatype translation_error =
  BranchOffsetOutOfBounds | AllocatedTooManySlots | TooManyFunctionParams | TooManyLocalVariables | OutOfSystemMemory

record enc_config =
  cfg_alloc :: allocator
  cfg_indirect_dispatch :: bool
  cfg_handler :: "u16 \<Rightarrow> usize"
  cfg_consume_fuel :: u16

definition ops_default :: encoded_ops where
  "ops_default = \<lparr>eo_buffer = [], eo_cap = 0, eo_temp = None\<rparr>"

definition ops_reset :: "encoded_ops \<Rightarrow> encoded_ops" where
  "ops_reset ops = ops\<lparr>eo_buffer := []\<rparr>"

definition next_pos :: "encoded_ops \<Rightarrow> nat" where
  "next_pos ops = length (eo_buffer ops)"

definition take_reporting_pos :: "encoded_ops \<Rightarrow> reporting_pos option \<times> encoded_ops" where
  "take_reporting_pos ops = (eo_temp ops, ops\<lparr>eo_temp := None\<rparr>)"

definition ops_truncate :: "encoded_ops \<Rightarrow> nat \<Rightarrow> encoded_ops" where
  "ops_truncate ops pos = ops\<lparr>eo_buffer := take pos (eo_buffer ops)\<rparr>"

definition ops_write_bytes ::
  "allocator \<Rightarrow> u8 list \<Rightarrow> encoded_ops \<Rightarrow> (translation_error, nat) res \<times> encoded_ops" where
  "ops_write_bytes alloc bytes ops =
     (let pos = length (eo_buffer ops) in
      case try_reserve alloc 1 pos (eo_cap ops) (length bytes) of
        None \<Rightarrow> (Err OutOfSystemMemory, ops)
      | Some cap \<Rightarrow> (Ok pos, ops\<lparr>eo_buffer := eo_buffer ops @ bytes, eo_cap := cap\<rparr>))"

text \<open>Op-codes are written as they are, or as the address of their handler.\<close>

definition generic_encode_op_code ::
  "enc_config \<Rightarrow> (u8 list \<Rightarrow> 's \<Rightarrow> ('e, 'p) res \<times> 's) \<Rightarrow> u16 \<Rightarrow> 's \<Rightarrow> ('e, 'p) res \<times> 's" where
  "generic_encode_op_code cfg write code =
     (if cfg_indirect_dispatch cfg then write (to_le_bytes code) else write (to_le_bytes (cfg_handler cfg code)))"

definition encoded_ops_encoder :: "enc_config \<Rightarrow> (encoded_ops, nat, translation_error) encoder" where
  "encoded_ops_encoder cfg =
     \<lparr>write_bytes = ops_write_bytes (cfg_alloc cfg),
      encode_op_code = generic_encode_op_code cfg (ops_write_bytes (cfg_alloc cfg)),
      note_branch_offset = (\<lambda>pos _ ops. (Ok (), ops\<lparr>eo_temp := Some (ReportBranchOffset pos)\<rparr>)),
      note_block_fuel = (\<lambda>pos _ ops. (Ok (), ops\<lparr>eo_temp := Some (ReportBlockFuel pos)\<rparr>))\<rparr>"

text \<open>Encoding into a slice always writes to its start.\<close>

datatype slice_encoder_error = SliceEncoderError

definition slice_write_bytes :: "u8 list \<Rightarrow> u8 list \<Rightarrow> (slice_encoder_error, unit) res \<times> u8 list" where
  "slice_write_bytes bytes buf =
     (if length bytes \<le> length buf then (Ok (), overwrite buf 0 bytes) else (Err SliceEncoderError, buf))"

definition slice_encoder :: "enc_config \<Rightarrow> (u8 list, unit, slice_encoder_error) encoder" where
  "slice_encoder cfg =
     \<lparr>write_bytes = slice_write_bytes, encode_op_code = generic_encode_op_code cfg slice_write_bytes,
      note_branch_offset = (\<lambda>_ _ s. (Ok (), s)), note_block_fuel = (\<lambda>_ _ s. (Ok (), s))\<rparr>"

datatype update_encoded_error = BufferOutOfBounds | FailedToDecode | FailedToEncode | FailedToUpdateEncoded

definition update_encoded_or_err ::
  "'a decode \<Rightarrow> ('a \<Rightarrow> (u8 list, unit, slice_encoder_error) encoder \<Rightarrow> u8 list \<Rightarrow> (slice_encoder_error, unit) res \<times> u8 list)
   \<Rightarrow> enc_config \<Rightarrow> encoded_ops \<Rightarrow> nat \<Rightarrow> ('a \<Rightarrow> 'a option) \<Rightarrow> (update_encoded_error, unit) res \<times> encoded_ops" where
  "update_encoded_or_err dec enc cfg ops at f =
     (case slice_from (eo_buffer ops) at of
        None \<Rightarrow> (Err BufferOutOfBounds, ops)
      | Some buffer \<Rightarrow>
          (case fst (dec buffer) of
             Ok decoded \<Rightarrow>
               (case f decoded of
                  None \<Rightarrow> (Err FailedToUpdateEncoded, ops)
                | Some updated \<Rightarrow>
                    (case enc updated (slice_encoder cfg) buffer of
                       (Ok _, buffer') \<Rightarrow> (Ok (), ops\<lparr>eo_buffer := take at (eo_buffer ops) @ buffer'\<rparr>)
                     | (_, buffer') \<Rightarrow> (Err FailedToEncode, ops\<lparr>eo_buffer := take at (eo_buffer ops) @ buffer'\<rparr>)))
           | _ \<Rightarrow> (Err FailedToDecode, ops)))"

definition update_encoded ::
  "'a decode \<Rightarrow> ('a \<Rightarrow> (u8 list, unit, slice_encoder_error) encoder \<Rightarrow> u8 list \<Rightarrow> (slice_encoder_error, unit) res \<times> u8 list)
   \<Rightarrow> enc_config \<Rightarrow> encoded_ops \<Rightarrow> nat \<Rightarrow> ('a \<Rightarrow> 'a option) \<Rightarrow> (translation_error, unit) res \<times> encoded_ops" where
  "update_encoded dec enc cfg ops at f =
     (case update_encoded_or_err dec enc cfg ops at f of (Ok _, ops') \<Rightarrow> (Ok (), ops') | (_, ops') \<Rightarrow> (Panic, ops'))"

definition update_branch_offset ::
  "enc_config \<Rightarrow> encoded_ops \<Rightarrow> nat \<Rightarrow> branch_offset \<Rightarrow> (translation_error, unit) res \<times> encoded_ops" where
  "update_branch_offset cfg ops pos off =
     update_encoded decode_branch_offset encode_branch_offset cfg ops pos (\<lambda>_. Some off)"

definition trace_branch_offset :: "nat \<Rightarrow> nat \<Rightarrow> (translation_error, branch_offset) res" where
  "trace_branch_offset src dst =
     (let off = int dst - int src in
      if src \<le> isize_max \<and> dst \<le> isize_max \<and> - (2 ^ 31) \<le> off \<and> off < 2 ^ 31
      then Ok (word_of_int off) else Err BranchOffsetOutOfBounds)"

subsection \<open>Operators\<close>

datatype op_field = FieldCode u16 | FieldBytes "u8 list" | FieldBranch branch_offset | FieldFuel block_fuel

type_synonym op = "op_field list"

fun encode_field :: "op_field \<Rightarrow> ('s, 'p, 'e) encoder \<Rightarrow> 's \<Rightarrow> ('e, 'p) res \<times> 's" where
  "encode_field (FieldCode code) E s = encode_op_code E code s"
| "encode_field (FieldBytes bytes) E s = write_bytes E bytes s"
| "encode_field (FieldBranch off) E s = encode_branch_offset off E s"
| "encode_field (FieldFuel fuel) E s = encode_block_fuel fuel E s"

text \<open>An operator without fields does not exist.\<close>

fun encode_fields :: "op \<Rightarrow> ('s, 'p, 'e) encoder \<Rightarrow> 's \<Rightarrow> ('e, unit) res \<times> 's" where
  "encode_fields [] E s = (Ok (), s)"
| "encode_fields (f # fs) E s =
     (case encode_field f E s of
        (Ok _, s') \<Rightarrow> encode_fields fs E s'
      | (Err e, s') \<Rightarrow> (Err e, s')
      | (Panic, s') \<Rightarrow> (Panic, s'))"

subsection \<open>The encoder\<close>

record staged_op =
  so_op :: op
  so_pos :: nat
  so_fuel :: "(nat \<times> u64) option"

definition staged_update :: "staged_op \<Rightarrow> op \<Rightarrow> staged_op" where
  "staged_update st op' = st\<lparr>so_op := op'\<rparr>"

record op_encoder =
  oe_staged :: "staged_op option"
  oe_fuel_costs :: "fuel_costs_provider option"
  oe_ops :: encoded_ops
  oe_labels :: label_registry

text \<open>\<open>fuel_costs\<close> is present if the configuration of the engine meters fuel.\<close>

definition op_encoder_new :: "fuel_costs_provider option \<Rightarrow> encoded_ops \<Rightarrow> label_registry \<Rightarrow> op_encoder" where
  "op_encoder_new fuel_costs ops labels =
     \<lparr>oe_staged = None, oe_fuel_costs = fuel_costs, oe_ops = ops, oe_labels = labels\<rparr>"

text \<open>The operator \<open>?\<close> of Rust on an outcome with a state.\<close>

definition and_then :: "('e, 'a) res \<times> 's \<Rightarrow> ('a \<Rightarrow> 's \<Rightarrow> ('e, 'b) res \<times> 's) \<Rightarrow> ('e, 'b) res \<times> 's" where
  "and_then r k = (case r of (Ok x, s) \<Rightarrow> k x s | (Err e, s) \<Rightarrow> (Err e, s) | (Panic, s) \<Rightarrow> (Panic, s))"

text \<open>Running an action of the buffer inside the encoder.\<close>

definition on_ops :: "(encoded_ops \<Rightarrow> ('e, 'a) res \<times> encoded_ops) \<Rightarrow> op_encoder \<Rightarrow> ('e, 'a) res \<times> op_encoder" where
  "on_ops m e = (case m (oe_ops e) of (r, ops) \<Rightarrow> (r, e\<lparr>oe_ops := ops\<rparr>))"

definition new_label :: "op_encoder \<Rightarrow> label_ref \<times> op_encoder" where
  "new_label e = (case registry_new_label (oe_labels e) of (l, r) \<Rightarrow> (l, e\<lparr>oe_labels := r\<rparr>))"

definition bump_fuel_consumption_by ::
  "enc_config \<Rightarrow> nat option \<Rightarrow> u64 \<Rightarrow> op_encoder \<Rightarrow> (translation_error, unit) res \<times> op_encoder" where
  "bump_fuel_consumption_by cfg fuel_pos delta e =
     (case fuel_pos of
        None \<Rightarrow> (Ok (), e)
      | Some pos \<Rightarrow>
          on_ops (\<lambda>ops. update_encoded decode_block_fuel encode_block_fuel cfg ops pos
                    (\<lambda>fuel. case bump_by fuel delta of (Ok _, fuel') \<Rightarrow> Some fuel' | _ \<Rightarrow> None)) e)"

definition bump_fuel_consumption ::
  "enc_config \<Rightarrow> nat option \<Rightarrow> (fuel_costs_provider \<Rightarrow> u64) \<Rightarrow> op_encoder \<Rightarrow> (translation_error, unit) res \<times> op_encoder" where
  "bump_fuel_consumption cfg fuel_pos sel e =
     (let fuel_used = (case oe_fuel_costs e of None \<Rightarrow> 0 | Some cs \<Rightarrow> sel cs) in
      if fuel_used = 0 then (Ok (), e) else bump_fuel_consumption_by cfg fuel_pos fuel_used e)"

definition commit_staged :: "enc_config \<Rightarrow> staged_op \<Rightarrow> op_encoder \<Rightarrow> (translation_error, unit) res \<times> op_encoder" where
  "commit_staged cfg st e =
     (case so_fuel st of
        Some (fuel_pos, fuel_used) \<Rightarrow> bump_fuel_consumption_by cfg (Some fuel_pos) fuel_used e
      | None \<Rightarrow> (Ok (), e))"

definition commit_staged_if_any :: "enc_config \<Rightarrow> op_encoder \<Rightarrow> (translation_error, unit) res \<times> op_encoder" where
  "commit_staged_if_any cfg e =
     (case oe_staged e of
        Some st \<Rightarrow> commit_staged cfg st (e\<lparr>oe_staged := None\<rparr>)
      | None \<Rightarrow> (Ok (), e))"

definition ALIGN :: nat where "ALIGN = 8"

definition next_multiple_of :: "nat \<Rightarrow> nat \<Rightarrow> nat" where
  "next_multiple_of n k = (if n mod k = 0 then n else n + (k - n mod k))"

text \<open>\<open>Vec::extend\<close> panics or aborts if it cannot reserve the bytes.\<close>

definition pad_to_op_alignment :: "enc_config \<Rightarrow> op_encoder \<Rightarrow> (translation_error, unit) res \<times> op_encoder" where
  "pad_to_op_alignment cfg e =
     (if cfg_indirect_dispatch cfg then (Ok (), e)
      else let len = length (eo_buffer (oe_ops e)); aligned_len = next_multiple_of len ALIGN;
               padding_len = aligned_len - len
           in case ops_write_bytes (cfg_alloc cfg) (replicate padding_len 0) (oe_ops e) of
                (Ok _, ops) \<Rightarrow> (Ok (), e\<lparr>oe_ops := ops\<rparr>)
              | (_, ops) \<Rightarrow> (Panic, e\<lparr>oe_ops := ops\<rparr>))"

definition encode_impl :: "enc_config \<Rightarrow> op \<Rightarrow> op_encoder \<Rightarrow> (translation_error, nat) res \<times> op_encoder" where
  "encode_impl cfg op e =
     (let pos = next_pos (oe_ops e) in
      and_then (on_ops (encode_fields op (encoded_ops_encoder cfg)) e) (\<lambda>_ e. (Ok pos, e)))"

definition pin_label :: "enc_config \<Rightarrow> label_ref \<Rightarrow> op_encoder \<Rightarrow> (translation_error, unit) res \<times> op_encoder" where
  "pin_label cfg lref e =
     and_then (commit_staged_if_any cfg e) (\<lambda>_ e.
     and_then (pad_to_op_alignment cfg e) (\<lambda>_ e.
       case registry_pin_label (oe_labels e) lref (next_pos (oe_ops e)) of
         (Ok _, r) \<Rightarrow> (Ok (), e\<lparr>oe_labels := r\<rparr>)
       | (_, r) \<Rightarrow> (Panic, e\<lparr>oe_labels := r\<rparr>)))"

definition pin_label_if_unpinned :: "enc_config \<Rightarrow> label_ref \<Rightarrow> op_encoder \<Rightarrow> (translation_error, unit) res \<times> op_encoder" where
  "pin_label_if_unpinned cfg lref e =
     and_then (commit_staged_if_any cfg e) (\<lambda>_ e.
     and_then (pad_to_op_alignment cfg e) (\<lambda>_ e.
       case registry_pin_label_if_unpinned (oe_labels e) lref (next_pos (oe_ops e)) of
         (Ok _, r) \<Rightarrow> (Ok (), e\<lparr>oe_labels := r\<rparr>)
       | (_, r) \<Rightarrow> (Panic, e\<lparr>oe_labels := r\<rparr>)))"

definition try_resolve_label :: "label_ref \<Rightarrow> op_encoder \<Rightarrow> (translation_error, branch_offset) res" where
  "try_resolve_label lref e =
     (if oe_staged e \<noteq> None then Panic
      else let src = next_pos (oe_ops e) in
        case get_label (oe_labels e) lref of
          None \<Rightarrow> Panic
        | Some (Pinned dst) \<Rightarrow> trace_branch_offset src dst
        | Some Unpinned \<Rightarrow> Ok offset_uninit)"

definition peek_staged :: "op_encoder \<Rightarrow> op option" where
  "peek_staged e = map_option so_op (oe_staged e)"

definition stage_op ::
  "enc_config \<Rightarrow> op \<Rightarrow> nat option \<Rightarrow> (fuel_costs_provider \<Rightarrow> u64) \<Rightarrow> op_encoder
   \<Rightarrow> (translation_error, unit) res \<times> op_encoder" where
  "stage_op cfg new_staged fuel_op sel e =
     and_then (commit_staged_if_any cfg e) (\<lambda>_ e.
     and_then (pad_to_op_alignment cfg e) (\<lambda>_ e.
     and_then (encode_impl cfg new_staged e) (\<lambda>pos e.
       case (fuel_op, oe_fuel_costs e) of
         (None, None) \<Rightarrow> (Ok (), e\<lparr>oe_staged := Some \<lparr>so_op = new_staged, so_pos = pos, so_fuel = None\<rparr>\<rparr>)
       | (Some fuel_pos, Some cs) \<Rightarrow>
           (Ok (), e\<lparr>oe_staged := Some \<lparr>so_op = new_staged, so_pos = pos, so_fuel = Some (fuel_pos, sel cs)\<rparr>\<rparr>)
       | _ \<Rightarrow> (Panic, e))))"

definition drop_staged :: "op_encoder \<Rightarrow> (translation_error, nat option \<times> u64) res \<times> op_encoder" where
  "drop_staged e =
     (case oe_staged e of
        None \<Rightarrow> (Panic, e)
      | Some st \<Rightarrow>
          (Ok (map_option fst (so_fuel st), case so_fuel st of Some (_, used) \<Rightarrow> used | None \<Rightarrow> 0),
           e\<lparr>oe_staged := None, oe_ops := ops_truncate (oe_ops e) (so_pos st)\<rparr>))"

definition replace_staged :: "enc_config \<Rightarrow> op \<Rightarrow> op_encoder \<Rightarrow> (translation_error, unit) res \<times> op_encoder" where
  "replace_staged cfg new_staged e =
     (case oe_staged e of
        None \<Rightarrow> (Panic, e)
      | Some st \<Rightarrow>
          and_then (encode_impl cfg new_staged
             (e\<lparr>oe_staged := Some (staged_update st new_staged), oe_ops := ops_truncate (oe_ops e) (so_pos st)\<rparr>))
             (\<lambda>_ e. (Ok (), e)))"

definition encode_op ::
  "enc_config \<Rightarrow> op \<Rightarrow> nat option \<Rightarrow> (fuel_costs_provider \<Rightarrow> u64) \<Rightarrow> op_encoder
   \<Rightarrow> (translation_error, nat) res \<times> op_encoder" where
  "encode_op cfg op fuel_pos sel e =
     and_then (commit_staged_if_any cfg e) (\<lambda>_ e.
     and_then (bump_fuel_consumption cfg fuel_pos sel e) (\<lambda>_ e.
     and_then (pad_to_op_alignment cfg e) (\<lambda>_ e.
       encode_impl cfg op e)))"

definition encode_consume_fuel_op :: "enc_config \<Rightarrow> op_encoder \<Rightarrow> (translation_error, nat option) res \<times> op_encoder" where
  "encode_consume_fuel_op cfg e =
     (case oe_fuel_costs e of
        None \<Rightarrow> (Ok None, e)
      | Some cs \<Rightarrow>
          let consumed_fuel = provider_base cs in
          and_then (commit_staged_if_any cfg e) (\<lambda>_ e.
          and_then (pad_to_op_alignment cfg e) (\<lambda>_ e.
          and_then (on_ops (encode_fields [FieldCode (cfg_consume_fuel cfg), FieldFuel consumed_fuel] (encoded_ops_encoder cfg)) e) (\<lambda>_ e.
            case take_reporting_pos (oe_ops e) of
              (Some (ReportBlockFuel pos), ops) \<Rightarrow> (Ok (Some pos), e\<lparr>oe_ops := ops\<rparr>)
            | (_, ops) \<Rightarrow> (Panic, e\<lparr>oe_ops := ops\<rparr>)))))"

definition encode_branch ::
  "enc_config \<Rightarrow> label_ref \<Rightarrow> (branch_offset \<Rightarrow> op) \<Rightarrow> nat option \<Rightarrow> (fuel_costs_provider \<Rightarrow> u64) \<Rightarrow> op_encoder
   \<Rightarrow> (translation_error, nat \<times> nat) res \<times> op_encoder" where
  "encode_branch cfg dst make_branch fuel_pos sel e =
     and_then (commit_staged_if_any cfg e) (\<lambda>_ e.
     and_then (bump_fuel_consumption cfg fuel_pos sel e) (\<lambda>_ e.
     and_then (try_resolve_label dst e, e) (\<lambda>off e.
     and_then (encode_impl cfg (make_branch off) e) (\<lambda>pos_item e.
       case take_reporting_pos (oe_ops e) of
         (Some (ReportBranchOffset pos_offset), ops) \<Rightarrow>
           (case is_pinned (oe_labels e) dst of
              None \<Rightarrow> (Panic, e\<lparr>oe_ops := ops\<rparr>)
            | Some True \<Rightarrow> (Ok (pos_item, pos_offset), e\<lparr>oe_ops := ops\<rparr>)
            | Some False \<Rightarrow>
                (Ok (pos_item, pos_offset),
                 e\<lparr>oe_ops := ops, oe_labels := new_user (oe_labels e) dst pos_item pos_offset\<rparr>))
       | (_, ops) \<Rightarrow> (Panic, e\<lparr>oe_ops := ops\<rparr>)))))"

fun update_users :: "enc_config \<Rightarrow> label_user list \<Rightarrow> op_encoder \<Rightarrow> (translation_error, unit) res \<times> op_encoder" where
  "update_users cfg [] e = (Ok (), e)"
| "update_users cfg (u # us) e =
     (case resolve_user (oe_labels e) u of
        None \<Rightarrow> (Panic, e)
      | Some user \<Rightarrow>
          (case trace_branch_offset (ru_src user) (ru_dst user) of
             Ok off \<Rightarrow>
               and_then (on_ops (\<lambda>ops. update_branch_offset cfg ops (ru_pos user) off) e) (\<lambda>_ e. update_users cfg us e)
           | Err err \<Rightarrow> (Err err, e)
           | Panic \<Rightarrow> (Panic, e)))"

definition update_branch_offsets :: "enc_config \<Rightarrow> op_encoder \<Rightarrow> (translation_error, unit) res \<times> op_encoder" where
  "update_branch_offsets cfg e = update_users cfg (lr_users (oe_labels e)) e"

definition encoded_ops_bytes :: "op_encoder \<Rightarrow> u8 list" where
  "encoded_ops_bytes e = eo_buffer (oe_ops e)"

subsection \<open>What the encoder writes\<close>

definition word_at :: "u8 list \<Rightarrow> nat \<Rightarrow> 'a::len word" where
  "word_at buf at = from_le_bytes (take (LENGTH('a) div 8) (drop at buf))"

lemma overwrite_other:
  assumes "at + length bytes \<le> length buf" "q + n \<le> at \<or> at + length bytes \<le> q"
  shows "take n (drop q (overwrite buf at bytes)) = take n (drop q buf)"
proof (rule nth_equalityI)
  fix i assume "i < length (take n (drop q (overwrite buf at bytes)))"
  then have "i < n" "q + i < length buf" using assms(1) by auto
  then show "take n (drop q (overwrite buf at bytes)) ! i = take n (drop q buf) ! i"
    using assms by (auto simp: nth_overwrite)
qed (use assms(1) in simp)

lemma word_at_overwrite_other:
  fixes buf :: "u8 list"
  assumes "at + length bytes \<le> length buf" "q + LENGTH('a::len) div 8 \<le> at \<or> at + length bytes \<le> q"
  shows "word_at (overwrite buf at bytes) q = (word_at buf q :: 'a word)"
  using overwrite_other [OF assms] by (simp add: word_at_def)

lemma word_at_overwrite:
  fixes v :: "'a::len word"
  assumes "at + LENGTH('a) div 8 \<le> length buf" "8 dvd LENGTH('a)"
  shows "word_at (overwrite buf at (to_le_bytes v)) at = v"
  using assms take_drop_overwrite [of at "to_le_bytes v" buf] by (simp add: word_at_def from_to_le_bytes)

lemma word_at_append:
  "at + LENGTH('a::len) div 8 \<le> length buf \<Longrightarrow> word_at (buf @ bs) at = (word_at buf at :: 'a word)"
  by (simp add: word_at_def)

lemma word_at_end:
  fixes v :: "'a::len word"
  shows "8 dvd LENGTH('a) \<Longrightarrow> word_at (buf @ to_le_bytes v @ bs) (length buf) = v"
  by (simp add: word_at_def from_to_le_bytes)

lemma word_at_take:
  "at + LENGTH('a::len) div 8 \<le> n \<Longrightarrow> word_at (take n buf) at = (word_at buf at :: 'a word)"
  by (simp add: word_at_def drop_take min_def)

lemma decode_prim_at:
  "at + LENGTH('a::len) div 8 \<le> length buf \<Longrightarrow>
   decode_prim (drop at buf) = (Ok (word_at buf at :: 'a word), drop (at + LENGTH('a) div 8) buf)"
  by (simp add: decode_prim_def dec_bind_def dec_return_def read_bytes_def word_at_def add.commute)

lemma decode_prim_short: "length buf < LENGTH('a::len) div 8 \<Longrightarrow> fst (decode_prim buf :: (_, 'a word) res \<times> _) = Err OutOfBytes"
  by (simp add: decode_prim_def dec_bind_def read_bytes_def)

text \<open>In-place updates of an integer of the buffer.\<close>

lemma update_encoded_word:
  fixes f :: "'a::len word \<Rightarrow> 'a word option"
  assumes enc: "\<And>v buf. enc v (slice_encoder cfg) buf = slice_write_bytes (to_le_bytes v) buf"
  shows "update_encoded decode_prim enc cfg ops at f =
    (if at + LENGTH('a) div 8 \<le> length (eo_buffer ops) then
       case f (word_at (eo_buffer ops) at) of
         Some v \<Rightarrow> (Ok (), ops\<lparr>eo_buffer := overwrite (eo_buffer ops) at (to_le_bytes v)\<rparr>)
       | None \<Rightarrow> (Panic, ops)
     else (Panic, ops))"
proof (cases "at + LENGTH('a) div 8 \<le> length (eo_buffer ops)")
  case True
  then show ?thesis
    using decode_prim_at [OF True]
    by (auto simp: update_encoded_def update_encoded_or_err_def slice_from_def enc slice_write_bytes_def overwrite_def
        add.commute split: option.splits)
next
  case False
  then show ?thesis
    using decode_prim_short [where ?'a = 'a, of "drop at (eo_buffer ops)"]
    by (auto simp: update_encoded_def update_encoded_or_err_def slice_from_def)
qed

lemma slice_encode_simps:
  "encode_branch_offset off (slice_encoder cfg) buf = slice_write_bytes (to_le_bytes off) buf"
  "encode_block_fuel fuel (slice_encoder cfg) buf = slice_write_bytes (to_le_bytes fuel) buf"
  by (simp_all add: encode_branch_offset_def encode_block_fuel_def enc_then_def encode_prim_def slice_encoder_def
      slice_write_bytes_def)

lemma update_branch_offset_eq:
  "update_branch_offset cfg ops at off =
     (if at + 4 \<le> length (eo_buffer ops)
      then (Ok (), ops\<lparr>eo_buffer := overwrite (eo_buffer ops) at (to_le_bytes off)\<rparr>) else (Panic, ops))"
  using update_encoded_word [where enc = encode_branch_offset and cfg = cfg, OF slice_encode_simps(1)]
  by (simp add: update_branch_offset_def decode_branch_offset_def)

lemma bump_fuel_consumption_by_eq:
  "bump_fuel_consumption_by cfg (Some at) delta e =
     (if at + 8 \<le> length (eo_buffer (oe_ops e)) then
        case checked_add (word_at (eo_buffer (oe_ops e)) at :: u64) delta of
          Some v \<Rightarrow> (Ok (), e\<lparr>oe_ops := (oe_ops e)\<lparr>eo_buffer := overwrite (eo_buffer (oe_ops e)) at (to_le_bytes v)\<rparr>\<rparr>)
        | None \<Rightarrow> (Panic, e)
      else (Panic, e))"
  using update_encoded_word [where enc = encode_block_fuel and cfg = cfg, OF slice_encode_simps(2)]
  by (auto simp: bump_fuel_consumption_by_def on_ops_def decode_block_fuel_def bump_by_def split: option.splits)

text \<open>The bytes of a field and of an operator.\<close>

fun field_bytes :: "enc_config \<Rightarrow> op_field \<Rightarrow> u8 list" where
  "field_bytes cfg (FieldCode code) =
     (if cfg_indirect_dispatch cfg then to_le_bytes code else to_le_bytes (cfg_handler cfg code))"
| "field_bytes cfg (FieldBytes bytes) = bytes"
| "field_bytes cfg (FieldBranch off) = to_le_bytes off"
| "field_bytes cfg (FieldFuel fuel) = to_le_bytes fuel"

definition op_bytes :: "enc_config \<Rightarrow> op \<Rightarrow> u8 list" where
  "op_bytes cfg op = concat (map (field_bytes cfg) op)"

fun plain_field :: "op_field \<Rightarrow> bool" where
  "plain_field (FieldCode _) = True"
| "plain_field (FieldBytes _) = True"
| "plain_field _ = False"

abbreviation plain :: "op \<Rightarrow> bool" where
  "plain op \<equiv> list_all plain_field op"

fun reported :: "nat \<Rightarrow> op_field \<Rightarrow> reporting_pos option \<Rightarrow> reporting_pos option" where
  "reported pos (FieldBranch _) _ = Some (ReportBranchOffset pos)"
| "reported pos (FieldFuel _) _ = Some (ReportBlockFuel pos)"
| "reported pos _ t = t"

lemma ops_write_bytes_Ok:
  "ops_write_bytes alloc bytes ops = (Ok pos, ops') \<Longrightarrow>
   pos = length (eo_buffer ops) \<and> eo_buffer ops' = eo_buffer ops @ bytes \<and> eo_temp ops' = eo_temp ops"
  by (auto simp: ops_write_bytes_def Let_def split: option.splits)

lemma encode_field_Ok:
  assumes "encode_field f (encoded_ops_encoder cfg) ops = (Ok pos, ops')"
  shows "pos = length (eo_buffer ops)" "eo_buffer ops' = eo_buffer ops @ field_bytes cfg f"
    "eo_temp ops' = reported (length (eo_buffer ops)) f (eo_temp ops)"
  using assms
  by (cases f; auto simp: encoded_ops_encoder_def generic_encode_op_code_def encode_branch_offset_def encode_block_fuel_def
      enc_then_def encode_prim_def dest: ops_write_bytes_Ok split: prod.splits res.splits if_splits; fail)+

lemma encode_fields_Ok:
  assumes "encode_fields op (encoded_ops_encoder cfg) ops = (Ok (), ops')"
  shows "eo_buffer ops' = eo_buffer ops @ op_bytes cfg op" "plain op \<Longrightarrow> eo_temp ops' = eo_temp ops"
proof -
  have "eo_buffer ops' = eo_buffer ops @ op_bytes cfg op \<and> (plain op \<longrightarrow> eo_temp ops' = eo_temp ops)"
    using assms
  proof (induction op arbitrary: ops)
    case (Cons f op)
    then obtain pos ops1 where f: "encode_field f (encoded_ops_encoder cfg) ops = (Ok pos, ops1)"
      and r: "encode_fields op (encoded_ops_encoder cfg) ops1 = (Ok (), ops')"
      by (auto split: prod.splits res.splits)
    moreover have "plain_field f \<Longrightarrow> reported n f t = t" for n t by (cases f) simp_all
    ultimately show ?case using Cons.IH [OF r] encode_field_Ok [OF f] by (auto simp: op_bytes_def)
  qed (simp add: op_bytes_def)
  then show "eo_buffer ops' = eo_buffer ops @ op_bytes cfg op" "plain op \<Longrightarrow> eo_temp ops' = eo_temp ops" by blast+
qed

lemma encode_fields_append:
  "encode_fields (xs @ ys) E s =
     (case encode_fields xs E s of
        (Ok _, s') \<Rightarrow> encode_fields ys E s' | (Err e, s') \<Rightarrow> (Err e, s') | (Panic, s') \<Rightarrow> (Panic, s'))"
  by (induction xs arbitrary: s) (auto split: prod.splits res.splits)

lemma encode_fields_reports:
  assumes "encode_fields (pre @ f # post) (encoded_ops_encoder cfg) ops = (Ok (), ops')" "plain post" "\<not> plain_field f"
  shows "eo_temp ops' = reported (length (eo_buffer ops) + length (op_bytes cfg pre)) f None"
proof -
  from assms(1) obtain ops1 pos ops2 where
    pre: "encode_fields pre (encoded_ops_encoder cfg) ops = (Ok (), ops1)"
    and f: "encode_field f (encoded_ops_encoder cfg) ops1 = (Ok pos, ops2)"
    and post: "encode_fields post (encoded_ops_encoder cfg) ops2 = (Ok (), ops')"
    by (auto simp: encode_fields_append split: prod.splits res.splits)
  show ?thesis
    using encode_fields_Ok [OF pre] encode_field_Ok [OF f] encode_fields_Ok(2) [OF post assms(2)] assms(3)
    by (cases f) auto
qed

end
