(* ===== verification/Branch_Offsets.thy ===== *)
theory Branch_Offsets
  imports Op_Encoder
begin

section \<open>Branch offsets and block fuel of an encoded function\<close>

text \<open>
  The operators of a function are built by a sequence of calls of the encoder. For every such sequence
  the branches that were encoded and the fuel that was charged to each block are recorded beside the
  encoder (\<open>built\<close>), and an invariant relates the record to the bytes in the buffer. Once all labels are
  pinned, \<open>update_branch_offsets\<close> makes every branch reach its label.
\<close>

record branch =
  br_dst :: label_ref
  br_src :: nat
  br_pos :: nat

definition user_of :: "branch \<Rightarrow> label_user" where
  "user_of b = \<lparr>lu_dst = br_dst b, lu_src = br_src b, lu_pos = br_pos b\<rparr>"

abbreviation buf :: "op_encoder \<Rightarrow> u8 list" where
  "buf e \<equiv> eo_buffer (oe_ops e)"

text \<open>The fields of the buffer that are rewritten later, with their sizes.\<close>

definition rewritten :: "(nat \<rightharpoonup> nat) \<Rightarrow> branch set \<Rightarrow> (nat \<times> nat) set" where
  "rewritten F B = (\<lambda>p. (p, 8)) ` dom F \<union> (\<lambda>b. (br_pos b, 4)) ` B"

definition apart :: "(nat \<times> nat) set \<Rightarrow> bool" where
  "apart R \<longleftrightarrow> (\<forall>x\<in>R. \<forall>y\<in>R. x \<noteq> y \<longrightarrow> fst x + snd x \<le> fst y \<or> fst y + snd y \<le> fst x)"

text \<open>Everything behind the limit may still be dropped or replaced.\<close>

definition limit :: "op_encoder \<Rightarrow> nat" where
  "limit e = (case oe_staged e of None \<Rightarrow> length (buf e) | Some st \<Rightarrow> so_pos st)"

definition resolved :: "label_registry \<Rightarrow> u8 list \<Rightarrow> branch \<Rightarrow> bool" where
  "resolved r bs b \<longleftrightarrow> (case get_label r (br_dst b) of
     Some (Pinned dst) \<Rightarrow> trace_branch_offset (br_src b) dst = Ok (word_at bs (br_pos b)) | _ \<Rightarrow> False)"

definition staged_fuel_in :: "staged_op option \<Rightarrow> (nat \<rightharpoonup> nat) \<Rightarrow> bool" where
  "staged_fuel_in st F =
     (case st of None \<Rightarrow> True | Some st \<Rightarrow> (case so_fuel st of None \<Rightarrow> True | Some (p, _) \<Rightarrow> p \<in> dom F))"

definition encoder_inv :: "op_encoder \<Rightarrow> (nat \<rightharpoonup> nat) \<Rightarrow> branch set \<Rightarrow> bool" where
  "encoder_inv e F B \<longleftrightarrow>
     eo_temp (oe_ops e) = None \<and> limit e \<le> length (buf e) \<and> staged_fuel_in (oe_staged e) F \<and>
     (\<forall>x\<in>rewritten F B. fst x + snd x \<le> limit e) \<and> apart (rewritten F B) \<and> inj_on br_pos B \<and>
     (\<forall>p t. F p = Some t \<longrightarrow> unat (word_at (buf e) p :: u64) = t) \<and>
     (\<forall>b\<in>B. br_src b \<le> br_pos b \<and> (user_of b \<in> set (lr_users (oe_labels e)) \<or> resolved (oe_labels e) (buf e) b)) \<and>
     set (lr_users (oe_labels e)) \<subseteq> user_of ` B \<and>
     (\<forall>l dst. get_label (oe_labels e) l = Some (Pinned dst) \<longrightarrow> dst \<le> limit e)"

lemmas inv_simps = encoder_inv_def limit_def staged_fuel_in_def

lemma and_then_Ok:
  assumes "and_then r k = (Ok y, s')"
  obtains x s where "r = (Ok x, s)" "k x s = (Ok y, s')"
  using assms by (auto simp: and_then_def split: prod.splits res.splits)

lemma is_pinned_True: "is_pinned r l = Some True \<longleftrightarrow> (\<exists>dst. get_label r l = Some (Pinned dst))"
proof -
  have "(case k of Pinned _ \<Rightarrow> True | Unpinned \<Rightarrow> False) \<longleftrightarrow> (\<exists>dst. k = Pinned dst)" for k :: label
    by (cases k) simp_all
  then show ?thesis by (auto simp: is_pinned_def)
qed

lemma rewritten_iff: "x \<in> rewritten F B \<longleftrightarrow> (\<exists>p\<in>dom F. x = (p, 8)) \<or> (\<exists>b\<in>B. x = (br_pos b, 4))"
  by (auto simp: rewritten_def)

lemma rewrittenI: "F p = Some t \<Longrightarrow> (p, 8) \<in> rewritten F B" "b \<in> B \<Longrightarrow> (br_pos b, 4) \<in> rewritten F B"
  by (auto simp: rewritten_def)

lemma apartD: "apart R \<Longrightarrow> (p, m) \<in> R \<Longrightarrow> (q, n) \<in> R \<Longrightarrow> (p, m) \<noteq> (q, n) \<Longrightarrow> p + m \<le> q \<or> q + n \<le> p"
  by (fastforce simp: apart_def)

lemma rewritten_upd: "F p \<noteq> None \<Longrightarrow> rewritten (F(p \<mapsto> t)) B = rewritten F B"
  by (auto simp: rewritten_def)

lemma resolved_word: "word_at bs' (br_pos b) = (word_at bs (br_pos b) :: branch_offset) \<Longrightarrow> resolved r bs' b = resolved r bs b"
  by (simp add: resolved_def split: option.splits label.splits)

lemma word_at_cong:
  "take (LENGTH('a::len) div 8) (drop p xs) = take (LENGTH('a) div 8) (drop p ys) \<Longrightarrow> word_at xs p = (word_at ys p :: 'a word)"
  by (simp add: word_at_def)

text \<open>Writing behind the limit, and cutting the buffer off at the limit.\<close>

lemma inv_change_tail:
  assumes inv: "encoder_inv e F B"
    and e': "oe_labels e' = oe_labels e" "eo_temp (oe_ops e') = None" "take (limit e) (buf e') = take (limit e) (buf e)"
      "limit e \<le> limit e'" "limit e' \<le> length (buf e')" "staged_fuel_in (oe_staged e') F"
  shows "encoder_inv e' F B"
proof -
  have same: "take n (drop p (buf e')) = take n (drop p (buf e))" if "p + n \<le> limit e" for p n
  proof -
    have "n \<le> limit e - p" using that by simp
    then show ?thesis
      using arg_cong [OF e'(3), of "\<lambda>bs. take n (drop p bs)"] by (simp add: drop_take min_absorb1)
  qed
  have lim: "fst x + snd x \<le> limit e" if "x \<in> rewritten F B" for x
    using inv that by (simp add: encoder_inv_def)
  have "unat (word_at (buf e') p :: u64) = t" if "F p = Some t" for p t
    using inv that word_at_cong [where ?'a = 64, OF same] lim [OF rewrittenI(1) [where F = F and p = p, OF that]] by (simp add: encoder_inv_def)
  moreover have "resolved (oe_labels e) (buf e') b = resolved (oe_labels e) (buf e) b" if "b \<in> B" for b
    using lim [OF rewrittenI(2) [OF that]] by (intro resolved_word word_at_cong same) simp
  moreover have "dst \<le> limit e'" if "get_label (oe_labels e) l = Some (Pinned dst)" for l dst
    using inv that e'(4) unfolding encoder_inv_def by (meson le_trans)
  moreover have "fst x + snd x \<le> limit e'" if "x \<in> rewritten F B" for x using lim [OF that] e'(4) by simp
  ultimately show ?thesis using inv e' by (auto simp: encoder_inv_def)
qed

lemma inv_extend:
  assumes "encoder_inv e F B" "oe_staged e = None" "oe_staged e' = None" "oe_labels e' = oe_labels e"
    "eo_temp (oe_ops e') = None" "buf e' = buf e @ bs"
  shows "encoder_inv e' F B"
  by (rule inv_change_tail [OF assms(1)]) (use assms in \<open>simp_all add: limit_def staged_fuel_in_def\<close>)

definition charge :: "(nat \<rightharpoonup> nat) \<Rightarrow> nat \<Rightarrow> u64 \<Rightarrow> (nat \<rightharpoonup> nat)" where
  "charge F p d = F(p \<mapsto> the (F p) + unat d)"

text \<open>Overwriting one of the recorded fields.\<close>

lemma bump_inv:
  assumes inv: "encoder_inv e F B" and p: "p \<in> dom F" and bump: "bump_fuel_consumption_by cfg (Some p) d e = (Ok (), e')"
  shows "encoder_inv e' (charge F p d) B" "oe_staged e' = oe_staged e" "oe_labels e' = oe_labels e"
    "oe_fuel_costs e' = oe_fuel_costs e" "length (buf e') = length (buf e)"
proof -
  obtain v where v: "checked_add (word_at (buf e) p :: u64) d = Some v" and len: "p + 8 \<le> length (buf e)"
    and e': "e' = e\<lparr>oe_ops := (oe_ops e)\<lparr>eo_buffer := overwrite (buf e) p (to_le_bytes v)\<rparr>\<rparr>"
    using bump by (auto simp: bump_fuel_consumption_by_eq split: if_splits option.splits)
  show "oe_staged e' = oe_staged e" "oe_labels e' = oe_labels e" "oe_fuel_costs e' = oe_fuel_costs e"
    "length (buf e') = length (buf e)" using e' len by simp_all
  have in_p: "(p, 8) \<in> rewritten F B" using p by (auto simp: rewritten_def)
  have other: "take n (drop q (buf e')) = take n (drop q (buf e))"
    if "(q, n) \<in> rewritten F B" "(q, n) \<noteq> (p, 8)" for q n
    using apartD [OF _ that(1) in_p that(2)] inv len e' by (simp add: encoder_inv_def overwrite_other)
  have "unat (word_at (buf e') q :: u64) = t" if "charge F p d q = Some t" for q t
  proof (cases "q = p")
    case True
    moreover have "unat (word_at (buf e) p :: u64) = the (F p)" using inv p by (auto simp: encoder_inv_def)
    ultimately show ?thesis
      using that v len e' by (simp add: charge_def word_at_overwrite rust_arith)
  next
    case False
    then have q: "F q = Some t" using that by (simp add: charge_def)
    with word_at_cong [where ?'a = 64, OF other] False inv rewrittenI(1) [where F = F and p = q and B = B, OF q] show ?thesis
      by (simp add: encoder_inv_def)
  qed
  moreover have "resolved (oe_labels e) (buf e') b = resolved (oe_labels e) (buf e) b" if "b \<in> B" for b
    using rewrittenI(2) [OF that, of F] by (intro resolved_word word_at_cong other) simp_all
  moreover have "rewritten (charge F p d) B = rewritten F B" using p by (auto simp: charge_def intro!: rewritten_upd)
  moreover have "staged_fuel_in (oe_staged e) (charge F p d)"
    using inv by (auto simp: encoder_inv_def staged_fuel_in_def charge_def split: option.splits)
  moreover have "limit e' = limit e" using e' len by (simp add: limit_def split: option.splits)
  moreover have "eo_temp (oe_ops e') = eo_temp (oe_ops e)" "length (buf e') = length (buf e)" "oe_labels e' = oe_labels e"
    "oe_staged e' = oe_staged e" using e' len by simp_all
  ultimately show "encoder_inv e' (charge F p d) B"
    using inv unfolding encoder_inv_def by simp
qed

definition pending :: "op_encoder \<Rightarrow> (nat \<rightharpoonup> nat) \<Rightarrow> (nat \<rightharpoonup> nat)" where
  "pending e F =
     (case oe_staged e of None \<Rightarrow> F
      | Some st \<Rightarrow> (case so_fuel st of None \<Rightarrow> F | Some (p, d) \<Rightarrow> charge F p d))"

lemma commit_inv:
  assumes inv: "encoder_inv e F B" and commit: "commit_staged_if_any cfg e = (Ok (), e')"
  shows "encoder_inv e' (pending e F) B" "oe_staged e' = None" "oe_labels e' = oe_labels e"
    "oe_fuel_costs e' = oe_fuel_costs e" "length (buf e') = length (buf e)"
proof -
  let ?e = "e\<lparr>oe_staged := None\<rparr>"
  have inv': "encoder_inv ?e F B"
    by (rule inv_change_tail [OF inv]) (use inv in \<open>auto simp: inv_simps\<close>)
  have "encoder_inv e' (pending e F) B \<and> oe_staged e' = None \<and> oe_labels e' = oe_labels e
    \<and> oe_fuel_costs e' = oe_fuel_costs e \<and> length (buf e') = length (buf e)"
  proof (cases "oe_staged e")
    case None
    then show ?thesis using inv commit by (simp add: commit_staged_if_any_def pending_def)
  next
    case (Some st)
    show ?thesis
    proof (cases "so_fuel st")
      case None
      then show ?thesis
        using inv' commit Some by (auto simp: commit_staged_if_any_def commit_staged_def pending_def)
    next
      case (Some f)
      then obtain p d where f: "so_fuel st = Some (p, d)" by (cases f) simp
      then have "p \<in> dom F" using inv \<open>oe_staged e = Some st\<close> by (auto simp: encoder_inv_def staged_fuel_in_def)
      moreover have "bump_fuel_consumption_by cfg (Some p) d ?e = (Ok (), e')"
        using commit f \<open>oe_staged e = Some st\<close> by (simp add: commit_staged_if_any_def commit_staged_def)
      ultimately show ?thesis using bump_inv [OF inv'] f \<open>oe_staged e = Some st\<close> by (simp add: pending_def)
    qed
  qed
  then show "encoder_inv e' (pending e F) B" "oe_staged e' = None" "oe_labels e' = oe_labels e"
    "oe_fuel_costs e' = oe_fuel_costs e" "length (buf e') = length (buf e)" by blast+
qed

subsection \<open>The operations keep the invariant\<close>

definition fuel_in :: "nat option \<Rightarrow> (nat \<rightharpoonup> nat) \<Rightarrow> bool" where
  "fuel_in fp F = (case fp of None \<Rightarrow> True | Some p \<Rightarrow> p \<in> dom F)"

definition charge_op :: "(nat \<rightharpoonup> nat) \<Rightarrow> nat option \<Rightarrow> fuel_costs_provider option \<Rightarrow> (fuel_costs_provider \<Rightarrow> u64) \<Rightarrow> (nat \<rightharpoonup> nat)" where
  "charge_op F fp cs sel =
     (case fp of None \<Rightarrow> F | Some p \<Rightarrow> charge F p (case cs of None \<Rightarrow> 0 | Some c \<Rightarrow> sel c))"

lemma charge_zero [simp]: "p \<in> dom F \<Longrightarrow> charge F p 0 = F"
  by (auto simp: charge_def)

lemma dom_charge [simp]: "p \<in> dom F \<Longrightarrow> dom (charge F p d) = dom F"
  by (auto simp: charge_def)

lemma dom_pending: "encoder_inv e F B \<Longrightarrow> dom (pending e F) = dom F"
  by (simp add: pending_def encoder_inv_def staged_fuel_in_def split: option.splits prod.splits)

lemma bump_consumption_inv:
  assumes inv: "encoder_inv e F B" and fp: "fuel_in fp F" and bump: "bump_fuel_consumption cfg fp sel e = (Ok (), e')"
  shows "encoder_inv e' (charge_op F fp (oe_fuel_costs e) sel) B" "oe_staged e' = oe_staged e"
    "oe_labels e' = oe_labels e" "oe_fuel_costs e' = oe_fuel_costs e" "length (buf e') = length (buf e)"
proof -
  let ?d = "case oe_fuel_costs e of None \<Rightarrow> 0 | Some c \<Rightarrow> sel c"
  have "encoder_inv e' (charge_op F fp (oe_fuel_costs e) sel) B \<and> oe_staged e' = oe_staged e
    \<and> oe_labels e' = oe_labels e \<and> oe_fuel_costs e' = oe_fuel_costs e \<and> length (buf e') = length (buf e)"
  proof (cases "?d = 0 \<or> fp = None")
    case True
    then have "e' = e" using bump by (auto simp: bump_fuel_consumption_def Let_def bump_fuel_consumption_by_def split: if_splits)
    then show ?thesis using True inv fp by (auto simp: charge_op_def fuel_in_def split: option.splits)
  next
    case False
    then obtain p where p: "fp = Some p" "p \<in> dom F" using fp by (auto simp: fuel_in_def)
    then have "bump_fuel_consumption_by cfg (Some p) ?d e = (Ok (), e')"
      using bump False by (simp add: bump_fuel_consumption_def Let_def)
    from bump_inv [OF inv p(2) this] show ?thesis using p(1) by (simp add: charge_op_def)
  qed
  then show "encoder_inv e' (charge_op F fp (oe_fuel_costs e) sel) B" "oe_staged e' = oe_staged e"
    "oe_labels e' = oe_labels e" "oe_fuel_costs e' = oe_fuel_costs e" "length (buf e') = length (buf e)" by blast+
qed

lemma pad_inv:
  assumes inv: "encoder_inv e F B" and "oe_staged e = None" and pad: "pad_to_op_alignment cfg e = (Ok (), e')"
  shows "encoder_inv e' F B" "oe_staged e' = None" "oe_labels e' = oe_labels e" "oe_fuel_costs e' = oe_fuel_costs e"
proof -
  obtain bs where e': "oe_staged e' = None" "oe_labels e' = oe_labels e" "oe_fuel_costs e' = oe_fuel_costs e"
      "eo_temp (oe_ops e') = None" "buf e' = buf e @ bs"
    using pad assms(1,2) unfolding pad_to_op_alignment_def encoder_inv_def
    by (auto simp: Let_def split: if_splits prod.splits res.splits dest!: ops_write_bytes_Ok)
  then show "encoder_inv e' F B" "oe_staged e' = None" "oe_labels e' = oe_labels e" "oe_fuel_costs e' = oe_fuel_costs e"
    using inv_extend [OF inv assms(2)] by simp_all
qed

lemma encode_impl_Ok:
  assumes "encode_impl cfg op e = (Ok pos, e')"
  shows "pos = length (buf e)" "buf e' = buf e @ op_bytes cfg op" "oe_staged e' = oe_staged e"
    "oe_labels e' = oe_labels e" "oe_fuel_costs e' = oe_fuel_costs e" "plain op \<Longrightarrow> eo_temp (oe_ops e') = eo_temp (oe_ops e)"
    "encode_fields op (encoded_ops_encoder cfg) (oe_ops e) = (Ok (), oe_ops e')"
proof -
  obtain ops where ops: "encode_fields op (encoded_ops_encoder cfg) (oe_ops e) = (Ok (), ops)"
      "e' = e\<lparr>oe_ops := ops\<rparr>" "pos = length (buf e)"
    using assms by (auto simp: encode_impl_def on_ops_def next_pos_def elim!: and_then_Ok split: prod.splits)
  then show "pos = length (buf e)" "buf e' = buf e @ op_bytes cfg op" "oe_staged e' = oe_staged e"
    "oe_labels e' = oe_labels e" "oe_fuel_costs e' = oe_fuel_costs e" "plain op \<Longrightarrow> eo_temp (oe_ops e') = eo_temp (oe_ops e)"
    "encode_fields op (encoded_ops_encoder cfg) (oe_ops e) = (Ok (), oe_ops e')"
    using encode_fields_Ok [OF ops(1)] by simp_all
qed

lemma encode_plain_inv:
  assumes inv: "encoder_inv e F B" and "oe_staged e = None" "plain op" and enc: "encode_impl cfg op e = (Ok pos, e')"
  shows "encoder_inv e' F B"
  by (rule inv_extend [OF inv assms(2)])
    (use encode_impl_Ok [OF enc] assms in \<open>simp_all add: encoder_inv_def\<close>)

lemma pin_inv:
  assumes inv: "encoder_inv e F B" and "oe_staged e = None" "get_label (oe_labels e) l = Some Unpinned"
    and e': "e' = e\<lparr>oe_labels := (oe_labels e)\<lparr>lr_labels := (lr_labels (oe_labels e))[l := Pinned (length (buf e))]\<rparr>\<rparr>"
  shows "encoder_inv e' F B"
proof -
  have label: "get_label (oe_labels e') k = (if k = l then Some (Pinned (length (buf e))) else get_label (oe_labels e) k)" for k
    using assms(3) e' by (auto simp: get_label_def get_opt_def nth_list_update)
  have "resolved (oe_labels e') (buf e') b" if "resolved (oe_labels e) (buf e) b" for b
    using that assms(3) label [of "br_dst b"] e' by (auto simp: resolved_def)
  moreover have "dst \<le> limit e'" if "get_label (oe_labels e') k = Some (Pinned dst)" for k dst
    using that label [of k] inv e' assms(2) by (auto simp: encoder_inv_def limit_def split: if_splits)
  ultimately show ?thesis using inv e' assms(2) by (auto simp: encoder_inv_def limit_def)
qed

lemma pin_label_inv:
  assumes inv: "encoder_inv e F B"
  shows "pin_label cfg l e = (Ok (), e') \<Longrightarrow> encoder_inv e' (pending e F) B"
    and "pin_label_if_unpinned cfg l e = (Ok (), e') \<Longrightarrow> encoder_inv e' (pending e F) B"
proof -
  have steps: "encoder_inv e2 (pending e F) B \<and> oe_staged e2 = None"
    if "commit_staged_if_any cfg e = (Ok u, e1)" "pad_to_op_alignment cfg e1 = (Ok w, e2)" for u w e1 e2
    using commit_inv [OF inv, of cfg e1] pad_inv [of e1 "pending e F" B cfg e2] that by simp
  show "encoder_inv e' (pending e F) B" if "pin_label cfg l e = (Ok (), e')"
    using that unfolding pin_label_def
    by (elim and_then_Ok)
      (auto simp: registry_pin_label_def pin_label_or_err_def next_pos_def split: option.splits label.splits
        intro: pin_inv [OF conjunct1 [OF steps] conjunct2 [OF steps]])
  show "encoder_inv e' (pending e F) B" if "pin_label_if_unpinned cfg l e = (Ok (), e')"
    using that unfolding pin_label_if_unpinned_def
    by (elim and_then_Ok)
      (auto simp: registry_pin_label_if_unpinned_def next_pos_def split: option.splits label.splits
        intro: pin_inv [OF conjunct1 [OF steps] conjunct2 [OF steps]] conjunct1 [OF steps])
qed

lemma stage_inv:
  assumes inv: "encoder_inv e F B" and "plain op" and fp: "fuel_in fp F" and stage: "stage_op cfg op fp sel e = (Ok (), e')"
  shows "encoder_inv e' (pending e F) B"
proof -
  obtain e1 e2 pos e3 where e1: "commit_staged_if_any cfg e = (Ok (), e1)" and e2: "pad_to_op_alignment cfg e1 = (Ok (), e2)"
    and e3: "encode_impl cfg op e2 = (Ok pos, e3)"
    and e': "\<exists>st. e' = e3\<lparr>oe_staged := Some st\<rparr> \<and> so_pos st = pos \<and> (case so_fuel st of None \<Rightarrow> True | Some (p, _) \<Rightarrow> fp = Some p)"
    using stage unfolding stage_op_def
    by (elim and_then_Ok) (fastforce split: option.splits)
  note c = commit_inv [OF inv e1] and pad = pad_inv [OF commit_inv(1) [OF inv e1] commit_inv(2) [OF inv e1] e2]
  have "encoder_inv e3 (pending e F) B" using encode_plain_inv [OF pad(1,2) assms(2) e3] .
  note inv_change_tail [OF pad(1), of e']
  moreover have "staged_fuel_in (oe_staged e') (pending e F)"
    using e' fp dom_pending [OF inv] by (auto simp: staged_fuel_in_def fuel_in_def split: option.splits)
  ultimately show ?thesis
    using e' encode_impl_Ok [OF e3] assms(2) pad by (auto simp: limit_def encoder_inv_def)
qed

lemma drop_inv:
  assumes inv: "encoder_inv e F B" and "drop_staged e = (Ok r, e')"
  shows "encoder_inv e' F B"
proof -
  obtain st where st: "oe_staged e = Some st" "e' = e\<lparr>oe_staged := None, oe_ops := ops_truncate (oe_ops e) (so_pos st)\<rparr>"
    using assms(2) by (auto simp: drop_staged_def split: option.splits)
  show ?thesis
    by (rule inv_change_tail [OF inv]) (use st inv in \<open>auto simp: inv_simps ops_truncate_def\<close>)
qed

lemma replace_inv:
  assumes inv: "encoder_inv e F B" and "plain op" and "replace_staged cfg op e = (Ok (), e')"
  shows "encoder_inv e' F B"
proof -
  obtain st pos where st: "oe_staged e = Some st"
    and enc: "encode_impl cfg op (e\<lparr>oe_staged := Some (staged_update st op), oe_ops := ops_truncate (oe_ops e) (so_pos st)\<rparr>) = (Ok pos, e')"
    using assms(3) by (auto simp: replace_staged_def split: option.splits elim!: and_then_Ok)
  show ?thesis
    by (rule inv_change_tail [OF inv])
      (use st inv encode_impl_Ok [OF enc] assms(2) in
        \<open>auto simp: inv_simps ops_truncate_def staged_update_def min_def split: option.splits\<close>)
qed

lemma encode_op_inv:
  assumes inv: "encoder_inv e F B" and "plain op" and fp: "fuel_in fp F" and enc: "encode_op cfg op fp sel e = (Ok pos, e')"
  shows "encoder_inv e' (charge_op (pending e F) fp (oe_fuel_costs e) sel) B"
proof -
  obtain e1 e2 e3 where e1: "commit_staged_if_any cfg e = (Ok (), e1)" and e2: "bump_fuel_consumption cfg fp sel e1 = (Ok (), e2)"
    and e3: "pad_to_op_alignment cfg e2 = (Ok (), e3)" and e': "encode_impl cfg op e3 = (Ok pos, e')"
    using enc unfolding encode_op_def by (elim and_then_Ok) auto
  note c = commit_inv [OF inv e1]
  have "fuel_in fp (pending e F)" using fp dom_pending [OF inv] by (simp add: fuel_in_def split: option.splits)
  note b = bump_consumption_inv [OF c(1) this e2]
  have "oe_staged e2 = None" using b(2) c(2) by simp
  note pad = pad_inv [OF b(1) this e3]
  show ?thesis using encode_plain_inv [OF pad(1,2) assms(2) e'] c(4) by simp
qed

lemma apart_insert:
  assumes "apart R" "\<forall>x\<in>R. fst x + snd x \<le> p"
  shows "apart (insert (p, n) R)"
  using assms by (auto simp: apart_def)

lemma encode_consume_fuel_inv:
  assumes inv: "encoder_inv e F B" and enc: "encode_consume_fuel_op cfg e = (Ok (Some p), e')"
  shows "\<exists>cs. oe_fuel_costs e = Some cs \<and> encoder_inv e' ((pending e F)(p \<mapsto> unat (provider_base cs))) B"
proof -
  obtain cs where cs: "oe_fuel_costs e = Some cs" using enc by (auto simp: encode_consume_fuel_op_def split: option.splits)
  let ?op = "[FieldCode (cfg_consume_fuel cfg), FieldFuel (provider_base cs)]"
  obtain e1 e2 ops where e1: "commit_staged_if_any cfg e = (Ok (), e1)" and e2: "pad_to_op_alignment cfg e1 = (Ok (), e2)"
    and ops: "encode_fields ?op (encoded_ops_encoder cfg) (oe_ops e2) = (Ok (), ops)"
    and rep: "eo_temp ops = Some (ReportBlockFuel p)" and e': "e' = e2\<lparr>oe_ops := ops\<lparr>eo_temp := None\<rparr>\<rparr>"
    using enc cs unfolding encode_consume_fuel_op_def
    by (auto simp: Let_def on_ops_def take_reporting_pos_def elim!: and_then_Ok split: option.splits reporting_pos.splits prod.splits simp del: encode_fields.simps)
  note c = commit_inv [OF inv e1]
  note pad = pad_inv [OF c(1,2) e2]
  note b = encode_fields_Ok(1) [OF ops]
  have p: "p = length (buf e2) + length (op_bytes cfg [FieldCode (cfg_consume_fuel cfg)])"
    using encode_fields_reports [of "[FieldCode (cfg_consume_fuel cfg)]" "FieldFuel (provider_base cs)" "[]" cfg "oe_ops e2" ops] ops rep
    by simp
  have inv': "encoder_inv e' (pending e F) B"
    by (rule inv_extend [OF pad(1,2)]) (use b e' pad in simp_all)
  have "word_at (buf e') p = provider_base cs"
    using b p e' word_at_end [of "buf e2 @ op_bytes cfg [FieldCode (cfg_consume_fuel cfg)]" "provider_base cs" "[]"]
    by (simp add: op_bytes_def)
  moreover have old: "\<forall>x\<in>rewritten (pending e F) B. fst x + snd x \<le> p"
    using pad(1,2) p unfolding encoder_inv_def limit_def by fastforce
  moreover have "rewritten ((pending e F)(p \<mapsto> t)) B = insert (p, 8) (rewritten (pending e F) B)" for t
    by (auto simp: rewritten_def)
  moreover have "p + 8 \<le> limit e'"
    using b p e' pad(2) by (simp add: limit_def op_bytes_def)
  ultimately have "encoder_inv e' ((pending e F)(p \<mapsto> unat (provider_base cs))) B"
    using inv' apart_insert [OF _ old, of 8] unfolding encoder_inv_def
    by (auto simp: staged_fuel_in_def split: option.splits)
  with cs show ?thesis by blast
qed

lemma encode_branch_inv:
  assumes inv: "encoder_inv e F B" and mkbr: "\<And>off. mkbr off = pre @ FieldBranch off # post" "plain pre" "plain post"
    and fp: "fuel_in fp F" and enc: "encode_branch cfg l mkbr fp sel e = (Ok (src, pos), e')"
  shows "encoder_inv e' (charge_op (pending e F) fp (oe_fuel_costs e) sel) (insert \<lparr>br_dst = l, br_src = src, br_pos = pos\<rparr> B)"
proof -
  let ?F = "charge_op (pending e F) fp (oe_fuel_costs e) sel" and ?b = "\<lparr>br_dst = l, br_src = src, br_pos = pos\<rparr>"
  obtain e1 e2 off e3 where e1: "commit_staged_if_any cfg e = (Ok (), e1)" and e2: "bump_fuel_consumption cfg fp sel e1 = (Ok (), e2)"
    and off: "try_resolve_label l e2 = Ok off" and e3: "encode_impl cfg (mkbr off) e2 = (Ok src, e3)"
    and rep: "eo_temp (oe_ops e3) = Some (ReportBranchOffset pos)"
    and e': "is_pinned (oe_labels e3) l = Some True \<and> e' = e3\<lparr>oe_ops := (oe_ops e3)\<lparr>eo_temp := None\<rparr>\<rparr> \<or>
      is_pinned (oe_labels e3) l = Some False \<and>
      e' = e3\<lparr>oe_ops := (oe_ops e3)\<lparr>eo_temp := None\<rparr>, oe_labels := new_user (oe_labels e3) l src pos\<rparr>"
    using enc unfolding encode_branch_def
    by (elim and_then_Ok) (auto simp: take_reporting_pos_def split: option.splits reporting_pos.splits bool.splits)
  note c = commit_inv [OF inv e1]
  have "fuel_in fp (pending e F)" using fp dom_pending [OF inv] by (simp add: fuel_in_def split: option.splits)
  note b2 = bump_consumption_inv [OF c(1) this e2]
  have st: "oe_staged e2 = None" using b2(2) c(2) by simp
  note enc3 = encode_impl_Ok [OF e3]
  have pos: "pos = length (buf e2) + length (op_bytes cfg pre)" and src: "src = length (buf e2)"
    using encode_fields_reports [of pre "FieldBranch off" post cfg "oe_ops e2" "oe_ops e3"] enc3 mkbr rep by simp_all
  have buf3: "buf e3 = (buf e2 @ op_bytes cfg pre) @ to_le_bytes off @ op_bytes cfg post"
    using enc3(2) mkbr(1) by (simp add: op_bytes_def)
  let ?e = "e3\<lparr>oe_ops := (oe_ops e3)\<lparr>eo_temp := None\<rparr>\<rparr>"
  have inv3: "encoder_inv ?e ?F B"
    by (rule inv_extend [of e2]) (use b2(1) c(4) st enc3 in simp_all)
  have word: "word_at (buf e3) pos = off"
    using word_at_end [of "buf e2 @ op_bytes cfg pre" off "op_bytes cfg post"] buf3 pos by simp
  have old: "\<forall>x\<in>rewritten ?F B. fst x + snd x \<le> pos"
    using b2(1) c(4) st pos unfolding encoder_inv_def limit_def by fastforce
  have rew: "rewritten ?F (insert ?b B) = insert (pos, 4) (rewritten ?F B)" by (auto simp: rewritten_def)
  have inj: "inj_on br_pos (insert ?b B)"
  proof -
    have "br_pos b \<noteq> pos" if "b \<in> B" for b using old rewrittenI(2) [OF that, of ?F] by fastforce
    then show ?thesis using inv3 by (auto simp: encoder_inv_def inj_on_insert)
  qed
  have res: "resolved (oe_labels e3) (buf e3) ?b" if "is_pinned (oe_labels e3) l = Some True"
    using that off st enc3(4) word src
    by (auto simp: resolved_def is_pinned_def try_resolve_label_def next_pos_def split: option.splits label.splits)
  have users: "set (lr_users (oe_labels e')) =
      (if is_pinned (oe_labels e3) l = Some True then set (lr_users (oe_labels e3)) else insert (user_of ?b) (set (lr_users (oe_labels e3))))"
    using e' by (auto simp: new_user_def user_of_def)
  have labels: "get_label (oe_labels e') k = get_label (oe_labels e3) k" for k
    using e' by (auto simp: new_user_def get_label_def)
  have same: "resolved (oe_labels e') bs b = resolved (oe_labels e3) bs b" for bs b
    using labels by (simp add: resolved_def)
  have lim: "limit e' = limit ?e" "pos + 4 \<le> limit e'" "buf e' = buf e3" "eo_temp (oe_ops e') = None" "oe_staged e' = oe_staged ?e"
    using e' st enc3(3) buf3 pos by (auto simp: limit_def)
  have "\<forall>b\<in>insert ?b B. br_src b \<le> br_pos b \<and> (user_of b \<in> set (lr_users (oe_labels e')) \<or> resolved (oe_labels e') (buf e') b)"
    using inv3 res users same lim(3) src pos by (auto simp: encoder_inv_def)
  moreover have "set (lr_users (oe_labels e')) \<subseteq> user_of ` insert ?b B" using users inv3 by (auto simp: encoder_inv_def split: if_splits)
  ultimately show ?thesis
    using inv3 lim inj rew labels apart_insert [OF _ old, of 4] unfolding encoder_inv_def by auto
qed

subsection \<open>Sequences of calls\<close>

text \<open>
  One successful call of the encoder, with the fuel charged to each of its blocks and the branches it
  encoded before and after the call. Staged operators have neither branch offsets nor fuel operands,
  and fuel is charged to blocks of this encoder only.
\<close>

inductive enc_step ::
  "enc_config \<Rightarrow> op_encoder \<Rightarrow> (nat \<rightharpoonup> nat) \<Rightarrow> branch set \<Rightarrow> op_encoder \<Rightarrow> (nat \<rightharpoonup> nat) \<Rightarrow> branch set \<Rightarrow> bool" for cfg where
  step_label: "new_label e = (l, e') \<Longrightarrow> enc_step cfg e F B e' F B"
| step_pin: "pin_label cfg l e = (Ok (), e') \<Longrightarrow> enc_step cfg e F B e' (pending e F) B"
| step_pin_if: "pin_label_if_unpinned cfg l e = (Ok (), e') \<Longrightarrow> enc_step cfg e F B e' (pending e F) B"
| step_stage: "plain op \<Longrightarrow> fuel_in fp F \<Longrightarrow> stage_op cfg op fp sel e = (Ok (), e') \<Longrightarrow> enc_step cfg e F B e' (pending e F) B"
| step_commit: "commit_staged_if_any cfg e = (Ok (), e') \<Longrightarrow> enc_step cfg e F B e' (pending e F) B"
| step_drop: "drop_staged e = (Ok r, e') \<Longrightarrow> enc_step cfg e F B e' F B"
| step_replace: "plain op \<Longrightarrow> replace_staged cfg op e = (Ok (), e') \<Longrightarrow> enc_step cfg e F B e' F B"
| step_op: "plain op \<Longrightarrow> fuel_in fp F \<Longrightarrow> encode_op cfg op fp sel e = (Ok pos, e')
    \<Longrightarrow> enc_step cfg e F B e' (charge_op (pending e F) fp (oe_fuel_costs e) sel) B"
| step_consume_fuel: "oe_fuel_costs e = Some cs \<Longrightarrow> encode_consume_fuel_op cfg e = (Ok (Some p), e')
    \<Longrightarrow> enc_step cfg e F B e' ((pending e F)(p \<mapsto> unat (provider_base cs))) B"
| step_pad: "oe_staged e = None \<Longrightarrow> pad_to_op_alignment cfg e = (Ok (), e') \<Longrightarrow> enc_step cfg e F B e' F B"
| step_branch: "(\<And>off. mkbr off = pre @ FieldBranch off # post) \<Longrightarrow> plain pre \<Longrightarrow> plain post
    \<Longrightarrow> fuel_in fp F \<Longrightarrow> encode_branch cfg l mkbr fp sel e = (Ok (src, pos), e')
    \<Longrightarrow> enc_step cfg e F B e' (charge_op (pending e F) fp (oe_fuel_costs e) sel) (insert \<lparr>br_dst = l, br_src = src, br_pos = pos\<rparr> B)"

text \<open>What a sequence of calls makes of an encoder, and what a new encoder is built to.\<close>

inductive later ::
  "enc_config \<Rightarrow> op_encoder \<Rightarrow> (nat \<rightharpoonup> nat) \<Rightarrow> branch set \<Rightarrow> op_encoder \<Rightarrow> (nat \<rightharpoonup> nat) \<Rightarrow> branch set \<Rightarrow> bool" for cfg e F B where
  later_refl: "later cfg e F B e F B"
| later_step: "later cfg e F B e1 F1 B1 \<Longrightarrow> enc_step cfg e1 F1 B1 e2 F2 B2 \<Longrightarrow> later cfg e F B e2 F2 B2"

inductive built :: "enc_config \<Rightarrow> op_encoder \<Rightarrow> (nat \<rightharpoonup> nat) \<Rightarrow> branch set \<Rightarrow> bool" for cfg where
  built_new: "eo_temp ops = None \<Longrightarrow> built cfg (op_encoder_new cs (ops_reset ops) (registry_reset labels)) Map.empty {}"
| built_step: "built cfg e F B \<Longrightarrow> enc_step cfg e F B e' F' B' \<Longrightarrow> built cfg e' F' B'"

lemma later_built: "later cfg e F B e' F' B' \<Longrightarrow> built cfg e F B \<Longrightarrow> built cfg e' F' B'"
  by (induction rule: later.induct) (auto intro: built_step)

lemma later_branches: "later cfg e F B e' F' B' \<Longrightarrow> B \<subseteq> B'"
  by (induction rule: later.induct) (auto elim: enc_step.cases)

lemma new_label_inv:
  assumes inv: "encoder_inv e F B" and new: "new_label e = (l, e')"
  shows "encoder_inv e' F B"
proof -
  have e': "e' = e\<lparr>oe_labels := (oe_labels e)\<lparr>lr_labels := lr_labels (oe_labels e) @ [Unpinned]\<rparr>\<rparr>"
    using new by (auto simp: new_label_def registry_new_label_def)
  have label: "get_label (oe_labels e) k = Some x \<Longrightarrow> get_label (oe_labels e') k = Some x" for k x
    using e' by (simp add: get_label_def nth_append)
  have unlabel: "get_label (oe_labels e') k = Some (Pinned d) \<Longrightarrow> get_label (oe_labels e) k = Some (Pinned d)" for k d
    using e' by (auto simp: get_label_def nth_append split: if_splits)
  have "resolved (oe_labels e) bs b \<Longrightarrow> resolved (oe_labels e') bs b" for bs b
    using label by (fastforce simp: resolved_def split: option.splits label.splits)
  moreover have "limit e' = limit e" "oe_ops e' = oe_ops e" "oe_staged e' = oe_staged e"
      "lr_users (oe_labels e') = lr_users (oe_labels e)"
    using e' by (simp_all add: limit_def split: option.splits)
  moreover have "d \<le> limit e" if "get_label (oe_labels e') k = Some (Pinned d)" for k d
    using unlabel [OF that] inv unfolding encoder_inv_def by blast
  ultimately show ?thesis using inv unfolding encoder_inv_def by auto
qed

lemma enc_step_inv:
  assumes "enc_step cfg e F B e' F' B'" "encoder_inv e F B"
  shows "encoder_inv e' F' B'"
  using assms
proof (cases rule: enc_step.cases)
  case (step_consume_fuel cs p)
  then show ?thesis using encode_consume_fuel_inv [OF assms(2) step_consume_fuel(4)] by (metis option.inject)
qed (auto intro: new_label_inv pin_label_inv stage_inv commit_inv drop_inv replace_inv encode_op_inv pad_inv encode_branch_inv)

lemma built_inv: "built cfg e F B \<Longrightarrow> encoder_inv e F B"
proof (induction rule: built.induct)
  case (built_new ops cs labels)
  then show ?case
    by (simp add: op_encoder_new_def ops_reset_def registry_reset_def inv_simps rewritten_def apart_def get_label_def get_opt_def)
qed (rule enc_step_inv)

subsection \<open>Resolving the branches\<close>

lemma trace_branch_offset_Ok:
  "trace_branch_offset src dst = Ok off \<Longrightarrow> sint off = int dst - int src"
  using sint_sbintrunc' [of "int dst - int src", where ?'a = 32]
  by (auto simp: trace_branch_offset_def Let_def signed_take_bit_int_eq_self simp del: of_int_diff split: if_splits)

lemma trace_branch_offset_in_range:
  "src \<le> n \<Longrightarrow> dst \<le> n \<Longrightarrow> n < 2 ^ 31 \<Longrightarrow> is_ok (trace_branch_offset src dst)"
  by (auto simp: trace_branch_offset_def Let_def isize_max_def)

text \<open>Updating a list of users: all their fields get their offsets, nothing else changes.\<close>

lemma update_users_outcome:
  assumes "\<forall>u\<in>set us. \<exists>dst. get_label (oe_labels e) (lu_dst u) = Some (Pinned dst) \<and> dst \<le> n \<and> lu_src u \<le> n"
    and "\<forall>u\<in>set us. lu_pos u + 4 \<le> length (buf e)" "n < 2 ^ 31"
    and "\<forall>u\<in>set us. \<forall>v\<in>set us. u \<noteq> v \<longrightarrow> lu_pos u + 4 \<le> lu_pos v \<or> lu_pos v + 4 \<le> lu_pos u"
  shows "\<exists>e'. update_users cfg us e = (Ok (), e') \<and> e' = e\<lparr>oe_ops := (oe_ops e)\<lparr>eo_buffer := buf e'\<rparr>\<rparr>
    \<and> length (buf e') = length (buf e)
    \<and> (\<forall>u\<in>set us. case get_label (oe_labels e) (lu_dst u) of
        Some (Pinned dst) \<Rightarrow> trace_branch_offset (lu_src u) dst = Ok (word_at (buf e') (lu_pos u)) | _ \<Rightarrow> False)
    \<and> (\<forall>p k. (\<forall>u\<in>set us. p + k \<le> lu_pos u \<or> lu_pos u + 4 \<le> p) \<longrightarrow> take k (drop p (buf e')) = take k (drop p (buf e)))"
  using assms
proof (induction us arbitrary: e)
  case (Cons u us)
  obtain dst where dst: "get_label (oe_labels e) (lu_dst u) = Some (Pinned dst)" "dst \<le> n" "lu_src u \<le> n"
    using Cons.prems(1) by auto
  obtain off where off: "trace_branch_offset (lu_src u) dst = Ok off"
    using trace_branch_offset_in_range [OF dst(3,2) Cons.prems(3)] by (auto simp: is_ok_iff)
  have pos: "lu_pos u + 4 \<le> length (buf e)" using Cons.prems(2) by simp
  let ?e = "e\<lparr>oe_ops := (oe_ops e)\<lparr>eo_buffer := overwrite (buf e) (lu_pos u) (to_le_bytes off)\<rparr>\<rparr>"
  have step: "update_users cfg (u # us) e = update_users cfg us ?e"
    using dst off pos by (simp add: resolve_user_def and_then_def on_ops_def update_branch_offset_eq)
  have "\<exists>e'. update_users cfg us ?e = (Ok (), e') \<and> e' = ?e\<lparr>oe_ops := (oe_ops ?e)\<lparr>eo_buffer := buf e'\<rparr>\<rparr>
    \<and> length (buf e') = length (buf ?e)
    \<and> (\<forall>u\<in>set us. case get_label (oe_labels ?e) (lu_dst u) of
        Some (Pinned dst) \<Rightarrow> trace_branch_offset (lu_src u) dst = Ok (word_at (buf e') (lu_pos u)) | _ \<Rightarrow> False)
    \<and> (\<forall>p k. (\<forall>u\<in>set us. p + k \<le> lu_pos u \<or> lu_pos u + 4 \<le> p) \<longrightarrow> take k (drop p (buf e')) = take k (drop p (buf ?e)))"
    by (rule Cons.IH) (use Cons.prems pos in auto)
  then obtain e' where e': "update_users cfg us ?e = (Ok (), e')" "e' = ?e\<lparr>oe_ops := (oe_ops ?e)\<lparr>eo_buffer := buf e'\<rparr>\<rparr>"
      "length (buf e') = length (buf ?e)"
      "\<forall>u\<in>set us. case get_label (oe_labels ?e) (lu_dst u) of
        Some (Pinned dst) \<Rightarrow> trace_branch_offset (lu_src u) dst = Ok (word_at (buf e') (lu_pos u)) | _ \<Rightarrow> False"
      "\<And>p k. (\<forall>u\<in>set us. p + k \<le> lu_pos u \<or> lu_pos u + 4 \<le> p) \<Longrightarrow> take k (drop p (buf e')) = take k (drop p (buf ?e))"
    by blast
  have "word_at (buf e') (lu_pos u) = off" if "u \<notin> set us"
  proof -
    have "word_at (buf e') (lu_pos u) = (word_at (buf ?e) (lu_pos u) :: branch_offset)"
      using Cons.prems(4) that by (intro word_at_cong e'(5)) auto
    then show ?thesis using pos by (simp add: word_at_overwrite)
  qed
  then have "case get_label (oe_labels e) (lu_dst u) of
        Some (Pinned dst) \<Rightarrow> trace_branch_offset (lu_src u) dst = Ok (word_at (buf e') (lu_pos u)) | _ \<Rightarrow> False"
    using dst off e'(4) by (cases "u \<in> set us") fastforce+
  moreover have "take k (drop p (buf e')) = take k (drop p (buf e))"
    if "\<forall>v\<in>set (u # us). p + k \<le> lu_pos v \<or> lu_pos v + 4 \<le> p" for p k
    using e'(5) [of p k] that overwrite_other [of "lu_pos u" "to_le_bytes off" "buf e" p k] pos by simp
  moreover have "e' = e\<lparr>oe_ops := (oe_ops e)\<lparr>eo_buffer := buf e'\<rparr>\<rparr>" by (subst e'(2)) simp
  ultimately show ?case using step e'(1,3,4) pos by (intro exI [of _ e']) auto
qed simp

text \<open>What the invariant says about the fields of the branches once their labels are pinned.\<close>

lemma inv_branches:
  assumes inv: "encoder_inv e F B"
  shows "\<And>b. b \<in> B \<Longrightarrow> br_pos b + 4 \<le> length (buf e) \<and> br_src b \<le> length (buf e)"
    and "\<And>b c. b \<in> B \<Longrightarrow> c \<in> B \<Longrightarrow> b \<noteq> c \<Longrightarrow> br_pos b + 4 \<le> br_pos c \<or> br_pos c + 4 \<le> br_pos b"
    and "\<And>b p t. b \<in> B \<Longrightarrow> F p = Some t \<Longrightarrow> p + 8 \<le> br_pos b \<or> br_pos b + 4 \<le> p"
    and "\<And>l dst. get_label (oe_labels e) l = Some (Pinned dst) \<Longrightarrow> dst \<le> length (buf e)"
proof -
  show "br_pos b + 4 \<le> length (buf e) \<and> br_src b \<le> length (buf e)" if "b \<in> B" for b
    using inv rewrittenI(2) [OF that, of F] that unfolding encoder_inv_def by fastforce
  show "br_pos b + 4 \<le> br_pos c \<or> br_pos c + 4 \<le> br_pos b" if "b \<in> B" "c \<in> B" "b \<noteq> c" for b c
    using inv apartD [OF _ rewrittenI(2) [OF that(1), of F] rewrittenI(2) [OF that(2), of F]] that
    unfolding encoder_inv_def inj_on_def by blast
  show "p + 8 \<le> br_pos b \<or> br_pos b + 4 \<le> p" if "b \<in> B" "F p = Some t" for b p t
    using inv apartD [OF _ rewrittenI(1) [where F = F, OF that(2)] rewrittenI(2) [OF that(1), of F]]
    unfolding encoder_inv_def by auto
  show "dst \<le> length (buf e)" if "get_label (oe_labels e) l = Some (Pinned dst)" for l dst
    using inv that unfolding encoder_inv_def by (meson le_trans)
qed

lemma update_branch_offsets_outcome:
  assumes built: "built cfg e F B" and pinned: "\<forall>b\<in>B. is_pinned (oe_labels e) (br_dst b) = Some True"
    and small: "length (buf e) < 2 ^ 31"
  shows "\<exists>e'. update_branch_offsets cfg e = (Ok (), e') \<and> length (buf e') = length (buf e)
    \<and> (\<forall>b\<in>B. \<exists>dst. get_label (oe_labels e) (br_dst b) = Some (Pinned dst) \<and> dst \<le> length (buf e)
          \<and> sint (word_at (buf e') (br_pos b) :: branch_offset) = int dst - int (br_src b))
    \<and> (\<forall>p t. F p = Some t \<longrightarrow> unat (word_at (buf e') p :: u64) = t)
    \<and> (\<forall>p k. (\<forall>b\<in>B. p + k \<le> br_pos b \<or> br_pos b + 4 \<le> p) \<longrightarrow> take k (drop p (buf e')) = take k (drop p (buf e)))"
proof -
  note inv = built_inv [OF built]
  note branches = inv_branches [OF inv]
  let ?us = "lr_users (oe_labels e)" and ?n = "length (buf e)"
  have users: "set ?us \<subseteq> user_of ` B" using inv by (simp add: encoder_inv_def)
  have dst: "\<exists>dst. get_label (oe_labels e) (br_dst b) = Some (Pinned dst) \<and> dst \<le> ?n" if "b \<in> B" for b
    using pinned that branches(4) by (auto simp: is_pinned_True)
  obtain e' where e': "update_users cfg ?us e = (Ok (), e')" "length (buf e') = ?n"
      "\<forall>u\<in>set ?us. case get_label (oe_labels e) (lu_dst u) of
        Some (Pinned dst) \<Rightarrow> trace_branch_offset (lu_src u) dst = Ok (word_at (buf e') (lu_pos u)) | _ \<Rightarrow> False"
      "\<And>p k. \<forall>u\<in>set ?us. p + k \<le> lu_pos u \<or> lu_pos u + 4 \<le> p \<Longrightarrow> take k (drop p (buf e')) = take k (drop p (buf e))"
  proof -
    have "\<forall>u\<in>set ?us. \<exists>dst. get_label (oe_labels e) (lu_dst u) = Some (Pinned dst) \<and> dst \<le> ?n \<and> lu_src u \<le> ?n"
      using users dst branches(1) by (fastforce simp: user_of_def)
    moreover have "\<forall>u\<in>set ?us. lu_pos u + 4 \<le> ?n" using users branches(1) by (fastforce simp: user_of_def)
    moreover have "\<forall>u\<in>set ?us. \<forall>v\<in>set ?us. u \<noteq> v \<longrightarrow> lu_pos u + 4 \<le> lu_pos v \<or> lu_pos v + 4 \<le> lu_pos u"
    proof (intro ballI impI)
      fix u v assume uv: "u \<in> set ?us" "v \<in> set ?us" "u \<noteq> v"
      obtain b c where "u = user_of b" "v = user_of c" "b \<in> B" "c \<in> B" using users uv(1,2) by blast
      then show "lu_pos u + 4 \<le> lu_pos v \<or> lu_pos v + 4 \<le> lu_pos u"
        using branches(2) [of b c] uv(3) by (auto simp: user_of_def)
    qed
    ultimately show ?thesis using update_users_outcome [of ?us e ?n cfg] small that by blast
  qed
  have outside: "take k (drop p (buf e')) = take k (drop p (buf e))"
    if "\<forall>b\<in>B. p + k \<le> br_pos b \<or> br_pos b + 4 \<le> p" for p k
    using that users by (intro e'(4)) (fastforce simp: user_of_def)
  have res: "resolved (oe_labels e) (buf e') b" if b: "b \<in> B" for b
  proof (cases "user_of b \<in> set ?us")
    case True
    then show ?thesis using bspec [OF e'(3) True] by (auto simp: resolved_def user_of_def split: option.splits label.splits)
  next
    case False
    then have "\<forall>u\<in>set ?us. br_pos b + 4 \<le> lu_pos u \<or> lu_pos u + 4 \<le> br_pos b"
      using users branches(2) [OF b] by (fastforce simp: user_of_def)
    then have "word_at (buf e') (br_pos b) = (word_at (buf e) (br_pos b) :: branch_offset)"
      by (intro word_at_cong e'(4)) simp
    moreover have "resolved (oe_labels e) (buf e) b" using inv b False unfolding encoder_inv_def by blast
    ultimately show ?thesis using resolved_word [of "buf e'" b "buf e"] by blast
  qed
  have "\<exists>dst. get_label (oe_labels e) (br_dst b) = Some (Pinned dst) \<and> dst \<le> ?n
      \<and> sint (word_at (buf e') (br_pos b) :: branch_offset) = int dst - int (br_src b)" if "b \<in> B" for b
    using dst [OF that] res [OF that] by (auto simp: resolved_def dest: trace_branch_offset_Ok)
  moreover have "unat (word_at (buf e') p :: u64) = t" if "F p = Some t" for p t
  proof -
    have "word_at (buf e') p = (word_at (buf e) p :: u64)"
      using branches(3) that by (intro word_at_cong outside) auto
    then show ?thesis using inv that by (simp add: encoder_inv_def)
  qed
  ultimately show ?thesis using e'(1,2) outside unfolding update_branch_offsets_def by blast
qed

text \<open>
  C36: let an encoder be built by any sequence of successful calls, with the fuel that was charged to each
  block and the branches that were encoded recorded beside it. When all labels that branches refer to are
  pinned and the code is shorter than 2 GiB, \<open>update_branch_offsets\<close> succeeds. Afterwards the offset field
  of every branch is the signed distance from the branch operator to its label, also for the backward
  branches that were encoded with their final offset, every block still carries exactly the fuel charged
  to it, and no byte outside of the branch offset fields has changed.
\<close>

theorem branch_offsets_resolved:
  assumes built: "built cfg e F B" and pinned: "\<forall>b\<in>B. is_pinned (oe_labels e) (br_dst b) = Some True"
    and small: "length (buf e) < 2 ^ 31"
  shows "\<exists>e'. update_branch_offsets cfg e = (Ok (), e') \<and> length (buf e') = length (buf e)
    \<and> (\<forall>b\<in>B. \<exists>dst. get_label (oe_labels e) (br_dst b) = Some (Pinned dst) \<and> dst \<le> length (buf e)
          \<and> sint (word_at (buf e') (br_pos b) :: branch_offset) = int dst - int (br_src b))
    \<and> (\<forall>p t. F p = Some t \<longrightarrow> unat (word_at (buf e') p :: u64) = t)
    \<and> (\<forall>p k. (\<forall>b\<in>B. p + k \<le> br_pos b \<or> br_pos b + 4 \<le> p) \<longrightarrow> take k (drop p (buf e')) = take k (drop p (buf e)))"
  using update_branch_offsets_outcome [OF assms] .

definition sample_cfg :: enc_config where
  "sample_cfg = \<lparr>cfg_alloc = (\<lambda>_. True), cfg_indirect_dispatch = True, cfg_handler = (\<lambda>_. 0), cfg_consume_fuel = 1\<rparr>"

definition sample_jump :: "branch_offset \<Rightarrow> op" where
  "sample_jump off = [FieldCode 7, FieldBranch off]"

definition sample_encoder :: "u8 list \<Rightarrow> nat \<Rightarrow> label list \<Rightarrow> label_user list \<Rightarrow> op_encoder" where
  "sample_encoder bytes cap labels users =
     \<lparr>oe_staged = None, oe_fuel_costs = Some \<lparr>custom = None\<rparr>, oe_ops = \<lparr>eo_buffer = bytes, eo_cap = cap, eo_temp = None\<rparr>,
      oe_labels = \<lparr>lr_labels = labels, lr_users = users\<rparr>\<rparr>"

lemmas sample_simps = sample_cfg_def sample_encoder_def sample_jump_def
  new_label_def registry_new_label_def encode_consume_fuel_op_def commit_staged_if_any_def pad_to_op_alignment_def
  and_then_def on_ops_def encoded_ops_encoder_def generic_encode_op_code_def ops_write_bytes_def try_reserve_def
  min_non_zero_cap_def isize_max_def take_reporting_pos_def encode_block_fuel_def encode_prim_def enc_then_def get_opt_def overwrite_def Let_def encode_branch_offset_def
  provider_base_def provider_apply_def DefaultFuelCosts_def fuel_costs_provided_def encode_branch_def bump_fuel_consumption_def
  bump_fuel_consumption_by_eq checked_add_def try_resolve_label_def next_pos_def encode_impl_def offset_uninit_def
  pin_label_def registry_pin_label_def pin_label_or_err_def get_label_def is_pinned_def new_user_def
  word_at_def to_le_bytes_def overwrite_def trace_branch_offset_def

text \<open>A block that charges fuel, a jump that costs one unit, and the label behind it.\<close>

lemma sample_built:
  "built sample_cfg (sample_encoder [1,0,2,0,0,0,0,0,0,0,7,0,0,0,0,0] 16 [Pinned 16] [\<lparr>lu_dst = 0, lu_src = 10, lu_pos = 12\<rparr>])
     [2 \<mapsto> 2] {\<lparr>br_dst = 0, br_src = 10, br_pos = 12\<rparr>}"
proof -
  let ?user = "\<lparr>lu_dst = 0, lu_src = 10, lu_pos = 12\<rparr>"
  have "built sample_cfg (sample_encoder [] 0 [] []) Map.empty {}"
    using built_new [of ops_default sample_cfg "Some \<lparr>custom = None\<rparr>" registry_default]
    by (simp add: sample_encoder_def op_encoder_new_def ops_reset_def ops_default_def registry_reset_def registry_default_def)
  then have "built sample_cfg (sample_encoder [] 0 [Unpinned] []) Map.empty {}"
    by (rule built_step [OF _ step_label [where l = 0]]) (simp add: sample_simps)
  then have "built sample_cfg (sample_encoder [1,0,1,0,0,0,0,0,0,0] 16 [Unpinned] [])
      ((pending (sample_encoder [] 0 [Unpinned] []) Map.empty)(2 \<mapsto> unat (provider_base \<lparr>custom = None\<rparr>))) {}"
    by (rule built_step [OF _ step_consume_fuel]) (simp_all add: sample_simps upt_rec)
  then have "built sample_cfg (sample_encoder [1,0,1,0,0,0,0,0,0,0] 16 [Unpinned] []) [2 \<mapsto> 1] {}"
    by (simp add: pending_def sample_simps)
  moreover have "encode_branch sample_cfg 0 sample_jump (Some 2) provider_base (sample_encoder [1,0,1,0,0,0,0,0,0,0] 16 [Unpinned] [])
      = (Ok (10, 12), sample_encoder [1,0,2,0,0,0,0,0,0,0,7,0,0,0,0,0] 16 [Unpinned] [?user])"
    by (simp add: sample_simps upt_rec)
  ultimately have "built sample_cfg (sample_encoder [1,0,2,0,0,0,0,0,0,0,7,0,0,0,0,0] 16 [Unpinned] [?user])
      (charge_op (pending (sample_encoder [1,0,1,0,0,0,0,0,0,0] 16 [Unpinned] []) [2 \<mapsto> 1]) (Some 2)
        (oe_fuel_costs (sample_encoder [1,0,1,0,0,0,0,0,0,0] 16 [Unpinned] [])) provider_base)
      (insert \<lparr>br_dst = 0, br_src = 10, br_pos = 12\<rparr> {})"
    by (intro built_step [OF _ step_branch [where pre = "[FieldCode 7]" and post = "[]" and mkbr = sample_jump and B = "{}"]])
      (simp_all add: sample_jump_def fuel_in_def)
  then have "built sample_cfg (sample_encoder [1,0,2,0,0,0,0,0,0,0,7,0,0,0,0,0] 16 [Unpinned] [?user])
      [2 \<mapsto> 2] {\<lparr>br_dst = 0, br_src = 10, br_pos = 12\<rparr>}"
    by (simp add: charge_op_def charge_def pending_def sample_simps flip: numeral_2_eq_2)
  moreover have "pin_label sample_cfg 0 (sample_encoder [1,0,2,0,0,0,0,0,0,0,7,0,0,0,0,0] 16 [Unpinned] [?user])
      = (Ok (), sample_encoder [1,0,2,0,0,0,0,0,0,0,7,0,0,0,0,0] 16 [Pinned 16] [?user])"
    by (simp add: sample_simps)
  ultimately show ?thesis using built_step [OF _ step_pin] by (fastforce simp: pending_def sample_encoder_def)
qed

theorem branch_offsets_resolved_witness:
  "\<exists>e'. update_branch_offsets sample_cfg
      (sample_encoder [1,0,2,0,0,0,0,0,0,0,7,0,0,0,0,0] 16 [Pinned 16] [\<lparr>lu_dst = 0, lu_src = 10, lu_pos = 12\<rparr>]) = (Ok (), e')
    \<and> sint (word_at (buf e') 12 :: branch_offset) = 6 \<and> unat (word_at (buf e') 2 :: u64) = 2"
  using branch_offsets_resolved [OF sample_built]
  by (fastforce simp: sample_encoder_def is_pinned_def get_label_def get_opt_def)

end
