(* ===== verification/Copy_Span.thy ===== *)
theory Copy_Span
  imports Values
begin

section \<open>Copies between stack slots (crates/wasmi/src/engine/executor/handler/utils.rs)\<close>

text \<open>
  The cells of the current frame as seen from its stack pointer, accesses through a slot, and the
  copies of whole spans. A slot addresses the cell at its byte offset; an access outside of the cells
  or not at the start of a cell is undefined behaviour in the source and \<open>None\<close> here. The loops run
  until two slots are equal: \<open>None\<close> also stands for a loop that does not end.
\<close>

definition cell_index :: "'w::len word slot_repr \<Rightarrow> 'w word \<Rightarrow> nat option" where
  "cell_index R s = (let b = unat (slot_byte_offset R s) in if b mod 8 = 0 then Some (b div 8) else None)"

definition get_slot_value :: "'w::len word slot_repr \<Rightarrow> cell list \<Rightarrow> 'w word \<Rightarrow> cell option" where
  "get_slot_value R cells s = Option.bind (cell_index R s) (get_opt cells)"

definition set_slot_value :: "'w::len word slot_repr \<Rightarrow> cell list \<Rightarrow> 'w word \<Rightarrow> cell \<Rightarrow> cell list option" where
  "set_slot_value R cells s v =
     Option.bind (cell_index R s) (\<lambda>i. if i < length cells then Some (cells[i := v]) else None)"

partial_function (option) copy_asc_loop ::
  "'w::len word slot_repr \<Rightarrow> cell list \<Rightarrow> 'w word \<Rightarrow> 'w word \<Rightarrow> 'w word \<Rightarrow> cell list option" where
  "copy_asc_loop R cells dst src dst_end =
     (if dst = dst_end then Some cells
      else Option.bind (get_slot_value R cells src) (\<lambda>v.
           Option.bind (set_slot_value R cells dst v) (\<lambda>cells'.
           copy_asc_loop R cells' (slot_next R dst) (slot_next R src) dst_end)))"

partial_function (option) copy_des_loop ::
  "'w::len word slot_repr \<Rightarrow> cell list \<Rightarrow> 'w word \<Rightarrow> 'w word \<Rightarrow> 'w word \<Rightarrow> cell list option" where
  "copy_des_loop R cells dst src dst_end =
     (if dst = dst_end then Some cells
      else let dst' = slot_prev R dst; src' = slot_prev R src in
           Option.bind (get_slot_value R cells src') (\<lambda>v.
           Option.bind (set_slot_value R cells dst' v) (\<lambda>cells'.
           copy_des_loop R cells' dst' src' dst_end)))"

definition exec_copy_span_asc ::
  "'w::len word slot_repr \<Rightarrow> cell list \<Rightarrow> 'w word slot_span \<Rightarrow> 'w word slot_span \<Rightarrow> u16 \<Rightarrow> cell list option" where
  "exec_copy_span_asc R cells dst src len = copy_asc_loop R cells dst src (next_n R dst len)"

definition exec_copy_span_des ::
  "'w::len word slot_repr \<Rightarrow> cell list \<Rightarrow> 'w word slot_span \<Rightarrow> 'w word slot_span \<Rightarrow> u16 \<Rightarrow> cell list option" where
  "exec_copy_span_des R cells dst src len =
     copy_des_loop R cells (next_n R dst len) (next_n R src len) dst"

definition exec_copy_span ::
  "'w::len word slot_repr \<Rightarrow> cell list \<Rightarrow> 'w word slot_span \<Rightarrow> 'w word slot_span \<Rightarrow> u16 \<Rightarrow> cell list option" where
  "exec_copy_span R cells dst src len =
     (if dst \<le> src then exec_copy_span_asc R cells dst src len else exec_copy_span_des R cells dst src len)"

subsection \<open>Element-wise copies\<close>

lemma copy_forward_add: "copy_forward xs d s (m + n) = copy_forward (copy_forward xs d s m) (d + m) (s + m) n"
  by (induction xs d s m rule: copy_forward.induct) simp_all

lemma nth_copy_forward_before: "i < d \<Longrightarrow> copy_forward xs d s n ! i = xs ! i"
  by (induction xs d s n rule: copy_forward.induct) simp_all

lemma nth_copy_forward_disjoint:
  assumes "s + n \<le> d" "d + n \<le> length xs" "i < length xs"
  shows "copy_forward xs d s n ! i = (if d \<le> i \<and> i < d + n then xs ! (s + (i - d)) else xs ! i)"
  using assms
proof (induction xs d s n rule: copy_forward.induct)
  case (2 xs d s n)
  then have "copy_forward xs d s (Suc n) ! i =
      (if Suc d \<le> i \<and> i < Suc d + n then xs[d := xs ! s] ! (Suc s + (i - Suc d)) else xs[d := xs ! s] ! i)"
    by simp
  with 2(2-) show ?case by (auto simp: nth_list_update Suc_diff_Suc)
qed auto

lemma copy_forward_disjoint:
  "s + n \<le> d \<Longrightarrow> d + n \<le> length xs \<Longrightarrow> copy_forward xs d s n = overwrite xs d (take n (drop s xs))"
  by (rule nth_equalityI) (auto simp: nth_copy_forward_disjoint nth_overwrite)

text \<open>If the destination starts inside the source, the first element of the source is read again.\<close>

lemma copy_forward_overlap:
  assumes "s < d" "d < s + n" "d + n \<le> length xs"
  shows "copy_forward xs d s n ! (d + (d - s)) = xs ! s"
proof -
  define k where "k = d - s"
  obtain m where m: "n = k + Suc m" using assms(1,2) less_iff_Suc_add [of k n] by (auto simp: k_def)
  have sk: "s + k = d" using assms(1) by (simp add: k_def)
  define ys where "ys = copy_forward xs d s k"
  have len: "length ys = length xs" by (simp add: ys_def)
  have "ys ! d = xs ! s"
    using assms sk m by (simp add: ys_def nth_copy_forward_disjoint)
  moreover have "copy_forward xs d s n = copy_forward (ys[d + k := ys ! d]) (Suc (d + k)) (Suc d) m"
    unfolding m copy_forward_add ys_def [symmetric] sk by simp
  moreover have "d + k < length ys" using assms(3) m len by simp
  ultimately show ?thesis by (simp add: nth_copy_forward_before flip: k_def)
qed

context slot_laws
begin

lemma cell_index_from: "cell_index R (slot_from_u16 R i) = Some (unat i)"
proof -
  have "unat (8 * ucast i :: usize) = 8 * unat i"
    using unsigned_less [of i, where ?'a = nat]
    by (simp add: unat_word_ariths unsigned_ucast_eq take_bit_nat_eq_self)
  then show ?thesis
    by (simp add: cell_index_def slot_byte_offset_def byte_offset_from)
qed

lemma get_slot_from [simp]:
  "unat i < length cells \<Longrightarrow> get_slot_value R cells (slot_from_u16 R i) = Some (cells ! unat i)"
  by (simp add: get_slot_value_def cell_index_from get_opt_def)

lemma set_slot_from [simp]:
  "unat i < length cells \<Longrightarrow> set_slot_value R cells (slot_from_u16 R i) v = Some (cells[unat i := v])"
  by (simp add: set_slot_value_def cell_index_from)

lemma slot_next_from: "unat i + 1 < 2 ^ 16 \<Longrightarrow> slot_next R (slot_from_u16 R i) = slot_from_u16 R (i + 1)"
  using next_n_from [of i 1] by (simp add: slot_next_def)

lemma slot_prev_from: "unat i + 1 < 2 ^ 16 \<Longrightarrow> slot_prev R (slot_from_u16 R (i + 1)) = slot_from_u16 R i"
  using next_n_from [of i 1] prev_n_next_n [of "slot_from_u16 R i" 1] by (simp add: slot_prev_def)

lemma copy_asc_loop_from:
  assumes "unat d + n < 2 ^ 16" "unat s + n < 2 ^ 16" "unat d + n \<le> length cells" "unat s + n \<le> length cells"
  shows "copy_asc_loop R cells (slot_from_u16 R d) (slot_from_u16 R s) (slot_from_u16 R (d + of_nat n))
    = Some (copy_forward cells (unat d) (unat s) n)"
  using assms
proof (induction n arbitrary: cells d s)
  case (Suc n)
  have next_d: "unat (d + 1) = Suc (unat d)" and next_s: "unat (s + 1) = Suc (unat s)"
    using Suc.prems by (simp_all add: unat_word_ariths)
  have "unat (d + of_nat (Suc n)) = unat d + Suc n"
    using Suc.prems by (simp add: unat_word_ariths unat_of_nat del: of_nat_Suc)
  then have "d \<noteq> d + of_nat (Suc n)" by auto
  moreover have shift: "d + of_nat (Suc n) = d + 1 + of_nat n" by simp
  ultimately show ?case
    using Suc.prems Suc.IH [of "d + 1" "s + 1" "cells[unat d := cells ! unat s]"]
    by (subst copy_asc_loop.simps) (simp add: next_d next_s slot_next_from shift del: of_nat_Suc)
qed (simp add: copy_asc_loop.simps)

lemma copy_des_loop_from:
  assumes "unat d + n < 2 ^ 16" "unat s + n < 2 ^ 16" "unat d + n \<le> length cells" "unat s + n \<le> length cells"
  shows "copy_des_loop R cells (slot_from_u16 R (d + of_nat n)) (slot_from_u16 R (s + of_nat n)) (slot_from_u16 R d)
    = Some (copy_backward cells (unat d) (unat s) n)"
  using assms
proof (induction n arbitrary: cells)
  case (Suc n)
  have idx: "unat (d + of_nat n) = unat d + n" "unat (s + of_nat n) = unat s + n"
    using Suc.prems by (simp_all add: unat_word_ariths unat_of_nat)
  have "unat (d + of_nat (Suc n)) = unat d + Suc n"
    using Suc.prems by (simp add: unat_word_ariths unat_of_nat del: of_nat_Suc)
  then have "d + of_nat (Suc n) \<noteq> d" by (metis add_cancel_right_right nat.distinct(1))
  moreover have "slot_prev R (slot_from_u16 R (d + of_nat (Suc n))) = slot_from_u16 R (d + of_nat n)"
    "slot_prev R (slot_from_u16 R (s + of_nat (Suc n))) = slot_from_u16 R (s + of_nat n)"
    using Suc.prems idx slot_prev_from [of "d + of_nat n"] slot_prev_from [of "s + of_nat n"]
    by (simp_all add: ac_simps)
  ultimately show ?case
    using Suc.prems Suc.IH [of "cells[unat d + n := cells ! (unat s + n)]"]
    by (subst copy_des_loop.simps) (simp add: idx Let_def del: of_nat_Suc)
qed (simp add: copy_des_loop.simps)

lemma exec_copy_span_asc_from:
  assumes "unat d + unat n < 2 ^ 16" "unat s + unat n < 2 ^ 16"
    "unat d + unat n \<le> length cells" "unat s + unat n \<le> length cells"
  shows "exec_copy_span_asc R cells (slot_from_u16 R d) (slot_from_u16 R s) n
    = Some (copy_forward cells (unat d) (unat s) (unat n))"
  using copy_asc_loop_from [of d "unat n" s cells] assms by (simp add: exec_copy_span_asc_def next_n_from)

lemma exec_copy_span_memmove:
  assumes "unat d + unat n < 2 ^ 16" "unat s + unat n < 2 ^ 16"
    "unat d + unat n \<le> length cells" "unat s + unat n \<le> length cells"
  shows "exec_copy_span R cells (slot_from_u16 R d) (slot_from_u16 R s) n
    = Some (overwrite cells (unat d) (take (unat n) (drop (unat s) cells)))"
proof (cases "d \<le> s")
  case True
  then have "unat d \<le> unat s" by (simp add: word_le_nat_alt)
  then show ?thesis
    using assms by (simp add: exec_copy_span_def from_le_unat exec_copy_span_asc_from copy_forward_overwrite)
next
  case False
  then have "unat s < unat d" by (simp add: word_le_nat_alt)
  then show ?thesis
    using assms copy_des_loop_from [of d "unat n" s cells]
    by (simp add: exec_copy_span_def from_le_unat exec_copy_span_des_def next_n_from copy_backward_overwrite)
qed

lemma overlap_check_exact:
  assumes "unat d + unat n < 2 ^ 16" "unat s + unat n < 2 ^ 16"
    "unat d + unat n \<le> length cells" "unat s + unat n \<le> length cells"
    and check: "has_overlapping_copies R (span_at d n) (span_at s n) = Some overlap"
  shows "\<not> overlap \<Longrightarrow> exec_copy_span_asc R cells (slot_from_u16 R d) (slot_from_u16 R s) n
      = Some (overwrite cells (unat d) (take (unat n) (drop (unat s) cells)))"
    and "overlap \<Longrightarrow> cells ! unat s \<noteq> cells ! unat d \<Longrightarrow>
      exec_copy_span_asc R cells (slot_from_u16 R d) (slot_from_u16 R s) n
      \<noteq> Some (overwrite cells (unat d) (take (unat n) (drop (unat s) cells)))"
proof -
  let ?d = "unat d" and ?s = "unat s" and ?n = "unat n"
  have overlap: "overlap \<longleftrightarrow> 2 \<le> ?n \<and> ?s < ?d \<and> ?d < ?s + ?n"
    using check overlapping_copies_from [of d n s] assms(1,2) by auto
  note asc = exec_copy_span_asc_from [OF assms(1-4)]
  show "exec_copy_span_asc R cells (slot_from_u16 R d) (slot_from_u16 R s) n
      = Some (overwrite cells ?d (take ?n (drop ?s cells)))" if "\<not> overlap"
  proof (cases "?d \<le> ?s")
    case False
    then have "?s + ?n \<le> ?d" using that overlap by auto
    then show ?thesis using asc assms(3) by (simp add: copy_forward_disjoint)
  qed (use asc assms(4) in \<open>simp add: copy_forward_overwrite\<close>)
  show "exec_copy_span_asc R cells (slot_from_u16 R d) (slot_from_u16 R s) n
      \<noteq> Some (overwrite cells ?d (take ?n (drop ?s cells)))" if "overlap" "cells ! ?s \<noteq> cells ! ?d"
  proof
    assume "exec_copy_span_asc R cells (slot_from_u16 R d) (slot_from_u16 R s) n
      = Some (overwrite cells ?d (take ?n (drop ?s cells)))"
    then have eq: "copy_forward cells ?d ?s ?n = overwrite cells ?d (take ?n (drop ?s cells))" using asc by simp
    have "overwrite cells ?d (take ?n (drop ?s cells)) ! (?d + (?d - ?s)) = cells ! ?d"
      using overlap that(1) assms(3,4) by (subst nth_overwrite) auto
    moreover have "copy_forward cells ?d ?s ?n ! (?d + (?d - ?s)) = cells ! ?s"
      using overlap that(1) assms(3) by (intro copy_forward_overlap) auto
    ultimately show False using that(2) eq by simp
  qed
qed

end

text \<open>
  C28: copying a span of slots to another one inside the frame, with the spans in bounds and
  overlapping in any way: the loops end, and afterwards the destination holds what the source held
  before, no other cell has changed; in both slot representations.
\<close>
theorem copy_span_moves_cells:
  assumes "unat d + unat n < 2 ^ 16" "unat s + unat n < 2 ^ 16"
    "unat d + unat n \<le> length cells" "unat s + unat n \<le> length cells"
  shows "exec_copy_span slot32 cells (slot_from_u16 slot32 d) (slot_from_u16 slot32 s) n
      = Some (overwrite cells (unat d) (take (unat n) (drop (unat s) cells)))
    \<and> exec_copy_span slot16 cells (slot_from_u16 slot16 d) (slot_from_u16 slot16 s) n
      = Some (overwrite cells (unat d) (take (unat n) (drop (unat s) cells)))"
  using slot32.exec_copy_span_memmove [OF assms] slot16.exec_copy_span_memmove [OF assms] by blast

theorem copy_span_moves_cells_witness:
  "exec_copy_span slot32 [1, 2, 3, 4, 5] (slot_from_u16 slot32 1) (slot_from_u16 slot32 0) 3 = Some [1, 1, 2, 3, 5]"
  using copy_span_moves_cells [of 1 3 0 "[1, 2, 3, 4, 5]"] by (simp add: overwrite_def)



end
