(* ===== verification/Exec_Args.thy ===== *)
theory Exec_Args
  imports Store Branch_Offsets Copy_Span
begin

section \<open>Running handlers (crates/wasmi/src/engine/executor/handler: dispatch, state.rs, args.rs, utils.rs)\<close>

text \<open>
  The state of a running execution, the arguments that a handler passes to the next one, the
  instruction pointer, operands, and the ways in which a handler ends. A handler ends by dispatching
  the next one with new arguments, or by breaking out of the execution. A panic is a separate outcome,
  and so are not returning and undefined behaviour, which stands for an unsafe operation whose precondition does not hold:
  decoding outside of the code, a slot outside of the cells, or an entity that does not exist.
\<close>

subsection \<open>Ends of an execution (dispatch/mod.rs, state.rs)\<close>

datatype break =
  BreakUnreachableCodeReached
| BreakMemoryOutOfBounds
| BreakTableOutOfBounds
| BreakIndirectCallToNull
| BreakIntegerDivisionByZero
| BreakIntegerOverflow
| BreakBadConversionToInteger
| BreakStackOverflow
| BreakBadSignature
| BreakOutOfFuel
| BreakGrowthOperationLimited
| BreakOutOfSystemMemory
| WithReason

fun break_of_trap_code :: "trap_code \<Rightarrow> break" where
  "break_of_trap_code TrapUnreachableCodeReached = BreakUnreachableCodeReached"
| "break_of_trap_code TrapMemoryOutOfBounds = BreakMemoryOutOfBounds"
| "break_of_trap_code TrapTableOutOfBounds = BreakTableOutOfBounds"
| "break_of_trap_code TrapIndirectCallToNull = BreakIndirectCallToNull"
| "break_of_trap_code TrapIntegerDivisionByZero = BreakIntegerDivisionByZero"
| "break_of_trap_code TrapIntegerOverflow = BreakIntegerOverflow"
| "break_of_trap_code TrapBadConversionToInteger = BreakBadConversionToInteger"
| "break_of_trap_code TrapStackOverflow = BreakStackOverflow"
| "break_of_trap_code TrapBadSignature = BreakBadSignature"
| "break_of_trap_code TrapOutOfFuel = BreakOutOfFuel"
| "break_of_trap_code TrapGrowthOperationLimited = BreakGrowthOperationLimited"
| "break_of_trap_code TrapOutOfSystemMemory = BreakOutOfSystemMemory"

fun break_trap_code :: "break \<Rightarrow> trap_code option" where
  "break_trap_code BreakUnreachableCodeReached = Some TrapUnreachableCodeReached"
| "break_trap_code BreakMemoryOutOfBounds = Some TrapMemoryOutOfBounds"
| "break_trap_code BreakTableOutOfBounds = Some TrapTableOutOfBounds"
| "break_trap_code BreakIndirectCallToNull = Some TrapIndirectCallToNull"
| "break_trap_code BreakIntegerDivisionByZero = Some TrapIntegerDivisionByZero"
| "break_trap_code BreakIntegerOverflow = Some TrapIntegerOverflow"
| "break_trap_code BreakBadConversionToInteger = Some TrapBadConversionToInteger"
| "break_trap_code BreakStackOverflow = Some TrapStackOverflow"
| "break_trap_code BreakBadSignature = Some TrapBadSignature"
| "break_trap_code BreakOutOfFuel = Some TrapOutOfFuel"
| "break_trap_code BreakGrowthOperationLimited = Some TrapGrowthOperationLimited"
| "break_trap_code BreakOutOfSystemMemory = Some TrapOutOfSystemMemory"
| "break_trap_code WithReason = None"

lemma break_trap_code_of [simp]: "break_trap_code (break_of_trap_code c) = Some c"
  by (cases c) simp_all

text \<open>\<open>'err\<close> is the error type of the crate, which a trap code can be converted to.\<close>

datatype ('err, 's) done_reason =
  DoneReturn sp
| DoneHost 'err handle "'s slot_span"
| DoneOutOfFuel u64
| DoneError 'err

datatype ('err, 's) execution_outcome =
  OutcomeHost 'err handle "'s slot_span"
| OutcomeOutOfFuel u64
| OutcomeError 'err

fun into_execution_outcome :: "('err, 's) done_reason \<Rightarrow> (('err, 's) execution_outcome, sp) res" where
  "into_execution_outcome (DoneReturn sp) = Ok sp"
| "into_execution_outcome (DoneHost e f results) = Err (OutcomeHost e f results)"
| "into_execution_outcome (DoneOutOfFuel required) = Err (OutcomeOutOfFuel required)"
| "into_execution_outcome (DoneError e) = Err (OutcomeError e)"

fun into_non_resumable :: "(trap_code \<Rightarrow> 'err) \<Rightarrow> ('err, 's) execution_outcome \<Rightarrow> 'err" where
  "into_non_resumable of_trap (OutcomeHost e f results) = e"
| "into_non_resumable of_trap (OutcomeOutOfFuel required) = of_trap TrapOutOfFuel"
| "into_non_resumable of_trap (OutcomeError e) = e"

subsection \<open>Instruction pointers (state.rs)\<close>

text \<open>
  A pointer into the encoded operators of a function. Moving it out of them, or decoding what is not a
  valid encoding there, is undefined: \<open>None\<close>. Aligning computes with addresses and never fails.
\<close>

record ip =
  ip_ops :: "u8 list"
  ip_pos :: nat

definition ip_from :: "u8 list \<Rightarrow> ip" where
  "ip_from ops = \<lparr>ip_ops = ops, ip_pos = 0\<rparr>"

definition ip_decode :: "'a decode \<Rightarrow> ip \<Rightarrow> (ip \<times> 'a) option" where
  "ip_decode dec ip =
     (case dec (drop (ip_pos ip) (ip_ops ip)) of
        (Ok x, rest) \<Rightarrow> Some (ip\<lparr>ip_pos := length (ip_ops ip) - length rest\<rparr>, x)
      | _ \<Rightarrow> None)"

definition ip_skip :: "'a decode \<Rightarrow> ip \<Rightarrow> ip option" where
  "ip_skip dec ip = map_option fst (ip_decode dec ip)"

definition ip_offset :: "ip \<Rightarrow> int \<Rightarrow> ip option" where
  "ip_offset ip delta =
     (let pos = int (ip_pos ip) + delta in
      if 0 \<le> pos \<and> pos \<le> int (length (ip_ops ip)) then Some (ip\<lparr>ip_pos := nat pos\<rparr>) else None)"

definition ip_add :: "ip \<Rightarrow> nat \<Rightarrow> ip option" where
  "ip_add ip delta =
     (if ip_pos ip + delta \<le> length (ip_ops ip) then Some (ip\<lparr>ip_pos := ip_pos ip + delta\<rparr>) else None)"

definition align_relative_to :: "bool \<Rightarrow> ip \<Rightarrow> ip \<Rightarrow> ip" where
  "align_relative_to indirect_dispatch ip base =
     (if indirect_dispatch then ip
      else ip\<lparr>ip_pos := ip_pos base + next_multiple_of (ip_pos ip - ip_pos base) ALIGN\<rparr>)"

subsection \<open>Arguments and state (args.rs, state.rs)\<close>

text \<open>
  The cached default memory is the address and the length of its bytes. An instance is named by its
  handle: instances are boxed, so that an instance has the same address for ever.
\<close>

record mem0 =
  m0_ptr :: usize
  m0_len :: usize

record args =
  a_ip :: ip
  a_sp :: sp
  a_mem0 :: mem0
  a_instance :: handle
  a_ireg :: u64
  a_freg32 :: u32
  a_freg64 :: u64

record ('l, 'err, 's) vm_state =
  vm_store :: "'l pruned_store"
  vm_stack :: "(ip, handle) exec_stack"
  vm_done :: "('err, 's) done_reason option"

abbreviation vm_inner :: "('l, 'err, 's, 'z) vm_state_scheme \<Rightarrow> store_inner" where
  "vm_inner vm \<equiv> ps_inner (vm_store vm)"

definition set_inner :: "store_inner \<Rightarrow> ('l, 'err, 's, 'z) vm_state_scheme \<Rightarrow> ('l, 'err, 's, 'z) vm_state_scheme" where
  "set_inner s vm = vm\<lparr>vm_store := (vm_store vm)\<lparr>ps_inner := s\<rparr>\<rparr>"

lemma set_inner_sel [simp]:
  "vm_inner (set_inner s vm) = s" "vm_stack (set_inner s vm) = vm_stack vm" "vm_done (set_inner s vm) = vm_done vm"
  "ps_limiter (vm_store (set_inner s vm)) = ps_limiter (vm_store vm)"
  by (simp_all add: set_inner_def)

subsection \<open>Actions\<close>

datatype ('b, 'c) control = ControlBreak 'b | ControlContinue 'c

datatype 'a exec = Runs 'a | Panics | Undefined | Diverges

text \<open>An action that may end early with a value of type \<open>'b\<close>: a break of a handler, or an error.\<close>

type_synonym ('vm, 'b, 'a) fallible = "'vm \<Rightarrow> (('b, 'a) control \<times> 'vm) exec"

type_synonym ('vm, 'a) action = "('vm, break, 'a) fallible"

definition act_return :: "'a \<Rightarrow> ('vm, 'e, 'a) fallible" where
  "act_return x vm = Runs (ControlContinue x, vm)"

definition act_bind :: "('vm, 'e, 'a) fallible \<Rightarrow> ('a \<Rightarrow> ('vm, 'e, 'b) fallible) \<Rightarrow> ('vm, 'e, 'b) fallible" where
  "act_bind m k vm =
     (case m vm of
        Runs (ControlContinue x, vm') \<Rightarrow> k x vm'
      | Runs (ControlBreak b, vm') \<Rightarrow> Runs (ControlBreak b, vm')
      | Panics \<Rightarrow> Panics
      | Undefined \<Rightarrow> Undefined
      | Diverges \<Rightarrow> Diverges)"

definition act_trap :: "trap_code \<Rightarrow> ('vm, 'a) action" where
  "act_trap c vm = Runs (ControlBreak (break_of_trap_code c), vm)"

definition act_undefined :: "('vm, 'e, 'a) fallible" where
  "act_undefined vm = Undefined"

definition act_panic :: "('vm, 'e, 'a) fallible" where
  "act_panic vm = Panics"

text \<open>A value that exists unless the behaviour is undefined.\<close>

definition act_assume :: "'a option \<Rightarrow> ('vm, 'e, 'a) fallible" where
  "act_assume x = (case x of Some v \<Rightarrow> act_return v | None \<Rightarrow> act_undefined)"

text \<open>\<open>into_control\<close> on the results of operations that trap.\<close>

definition into_control :: "(trap_code, 'a) res \<Rightarrow> ('vm, 'a) action" where
  "into_control r = (case r of Ok v \<Rightarrow> act_return v | Err c \<Rightarrow> act_trap c | Panic \<Rightarrow> act_panic)"

definition act_get :: "('vm \<Rightarrow> 'a) \<Rightarrow> ('vm, 'e, 'a) fallible" where
  "act_get f vm = Runs (ControlContinue (f vm), vm)"

definition act_modify :: "('vm \<Rightarrow> 'vm) \<Rightarrow> ('vm, 'e, unit) fallible" where
  "act_modify f vm = Runs (ControlContinue (), f vm)"

named_theorems act_simps

lemmas [act_simps] = act_return_def act_trap_def act_undefined_def act_panic_def act_get_def act_modify_def

lemma act_bind_simps [act_simps]:
  "m vm = Runs (ControlContinue x, vm') \<Longrightarrow> act_bind m k vm = k x vm'"
  "m vm = Runs (ControlBreak b, vm') \<Longrightarrow> act_bind m k vm = Runs (ControlBreak b, vm')"
  "m vm = Panics \<Longrightarrow> act_bind m k vm = Panics"
  "m vm = Undefined \<Longrightarrow> act_bind m k vm = Undefined"
  "m vm = Diverges \<Longrightarrow> act_bind m k vm = Diverges"
  by (simp_all add: act_bind_def)

lemma act_bind_return [simp]: "act_bind (act_return x) k = k x"
  by (simp add: act_bind_def act_return_def fun_eq_iff)

lemma act_bind_get [simp]: "act_bind (act_get f) k vm = k (f vm) vm"
  by (simp add: act_bind_def act_get_def)

lemma act_bind_modify [simp]: "act_bind (act_modify f) k vm = k () (f vm)"
  by (simp add: act_bind_def act_modify_def)

lemma act_bind_trap [simp]: "act_bind (act_trap c) k = act_trap c"
  by (simp add: act_bind_def act_trap_def fun_eq_iff)

lemma act_bind_panic [simp]: "act_bind act_panic k = act_panic"
  by (simp add: act_bind_def act_panic_def fun_eq_iff)

lemma act_bind_undefined [simp]: "act_bind act_undefined k = act_undefined"
  by (simp add: act_bind_def act_undefined_def fun_eq_iff)

lemma act_assume_simps [simp]: "act_assume (Some v) = act_return v" "act_assume None = act_undefined"
  by (simp_all add: act_assume_def)

lemma into_control_simps [simp]:
  "into_control (Ok v) = act_return v" "into_control (Err c) = act_trap c" "into_control Panic = act_panic"
  by (simp_all add: into_control_def)

text \<open>\<open>done_with\<close> panics if there is a reason already; \<open>done!\<close> sets the reason and breaks.\<close>

definition done_with :: "('err, 's) done_reason \<Rightarrow> (('l, 'err, 's, 'z) vm_state_scheme, 'a) action" where
  "done_with why vm =
     (if vm_done vm \<noteq> None then Panics else Runs (ControlBreak WithReason, vm\<lparr>vm_done := Some why\<rparr>))"

definition take_done_reason :: "('l, 'err, 's, 'z) vm_state_scheme \<Rightarrow> (('err, 's) done_reason \<times> ('l, 'err, 's, 'z) vm_state_scheme) exec" where
  "take_done_reason vm = (case vm_done vm of Some r \<Rightarrow> Runs (r, vm\<lparr>vm_done := None\<rparr>) | None \<Rightarrow> Panics)"

definition out_of_fuel :: "args \<Rightarrow> u64 \<Rightarrow> (('l, 'err, 's, 'z) vm_state_scheme, 'a) action" where
  "out_of_fuel args required_fuel vm =
     (case stack_sync_ip (a_ip args) (vm_stack vm) of
        None \<Rightarrow> Panics
      | Some st \<Rightarrow>
          done_with (DoneOutOfFuel required_fuel)
            (vm\<lparr>vm_stack := stack_sync_regs (a_ireg args) (a_freg32 args) (a_freg64 args) st\<rparr>))"

text \<open>The macro \<open>consume_fuel!\<close>: the instruction pointer of the operator itself is saved, so that it runs again.\<close>

definition consume_fuel_or_break ::
  "ip \<Rightarrow> args \<Rightarrow> (fuel_costs_provider \<Rightarrow> u64) \<Rightarrow> (('l, 'err, 's, 'z) vm_state_scheme, unit) action" where
  "consume_fuel_or_break ip args sel vm =
     (case consume_fuel_if (si_fuel (vm_inner vm)) sel of
        (r, fuel') \<Rightarrow>
          let vm' = set_inner ((vm_inner vm)\<lparr>si_fuel := fuel'\<rparr>) vm in
          case r of
            Err (OutOfFuel required_fuel) \<Rightarrow> out_of_fuel (args\<lparr>a_ip := ip\<rparr>) required_fuel vm'
          | _ \<Rightarrow> Runs (ControlContinue (), vm'))"

subsection \<open>Decoding and moving (args.rs)\<close>

text \<open>The feature \<open>indirect-dispatch\<close> and the number of generated operators.\<close>

record exec_config =
  xc_indirect_dispatch :: bool
  xc_len_ops :: nat

definition args_decode :: "exec_config \<Rightarrow> 'op decode \<Rightarrow> args \<Rightarrow> ('vm, 'op \<times> args) action" where
  "args_decode X dec args =
     act_bind (act_assume (if xc_indirect_dispatch X then ip_skip (decode_op_code (xc_len_ops X)) (a_ip args)
                           else ip_skip (decode_prim :: usize decode) (a_ip args))) (\<lambda>ip.
     act_bind (act_assume (ip_decode dec ip)) (\<lambda>(new_ip, op).
     act_return (op, args\<lparr>a_ip := new_ip\<rparr>)))"

definition args_decode_op :: "exec_config \<Rightarrow> 'op decode \<Rightarrow> args \<Rightarrow> ('vm, 'op \<times> args) action" where
  "args_decode_op X dec args =
     act_bind (args_decode X dec args) (\<lambda>(op, args').
     act_return (op, args'\<lparr>a_ip := align_relative_to (xc_indirect_dispatch X) (a_ip args') (a_ip args)\<rparr>))"

definition offset_ip :: "branch_offset \<Rightarrow> args \<Rightarrow> ('vm, args) action" where
  "offset_ip off args =
     act_bind (act_assume (ip_offset (a_ip args) (sint off))) (\<lambda>ip. act_return (args\<lparr>a_ip := ip\<rparr>))"

subsection \<open>Operands (utils.rs)\<close>

text \<open>
  Where the value of an operand comes from and where a result goes to. Floats are their bits; a
  narrower value is the truncation of the register or cell, and is zero extended into it.
\<close>

datatype ('s, 'a) operand = FromSlot 's | FromIreg | FromFreg32 | FromFreg64 | Immediate 'a

datatype 's destination = ToSlot 's | ToIreg | ToFreg32 | ToFreg64 | ToSlotAndIreg 's

definition sp_cells :: "sp \<Rightarrow> (ip, handle) exec_stack \<Rightarrow> cell list" where
  "sp_cells sp st = (case sp of SpDangling \<Rightarrow> [] | SpAt at \<Rightarrow> drop (unat at) (vs_cells (st_values st)))"

definition set_sp_cells :: "sp \<Rightarrow> cell list \<Rightarrow> (ip, handle) exec_stack \<Rightarrow> (ip, handle) exec_stack" where
  "set_sp_cells sp cells st =
     (case sp of
        SpDangling \<Rightarrow> st
      | SpAt at \<Rightarrow> st\<lparr>st_values := (st_values st)\<lparr>vs_cells := take (unat at) (vs_cells (st_values st)) @ cells\<rparr>\<rparr>)"

definition get_value ::
  "'w::len word slot_repr \<Rightarrow> args \<Rightarrow> ('w word, 'a::len word) operand \<Rightarrow> (('l, 'err, 's, 'z) vm_state_scheme, 'a word) action" where
  "get_value R args src =
     (case src of
        FromSlot s \<Rightarrow>
          act_bind (act_get (\<lambda>vm. get_slot_value R (sp_cells (a_sp args) (vm_stack vm)) s)) (\<lambda>c.
            act_assume (map_option word_of_cell c))
      | FromIreg \<Rightarrow> act_return (ucast (a_ireg args))
      | FromFreg32 \<Rightarrow> act_return (ucast (a_freg32 args))
      | FromFreg64 \<Rightarrow> act_return (ucast (a_freg64 args))
      | Immediate v \<Rightarrow> act_return v)"

definition set_slot ::
  "'w::len word slot_repr \<Rightarrow> 'w word \<Rightarrow> 'a::len word \<Rightarrow> args \<Rightarrow> (('l, 'err, 's, 'z) vm_state_scheme, unit) action" where
  "set_slot R s v args =
     act_bind (act_get (\<lambda>vm. set_slot_value R (sp_cells (a_sp args) (vm_stack vm)) s (cell_of_word v))) (\<lambda>r.
     act_bind (act_assume r) (\<lambda>cells.
     act_modify (\<lambda>vm. vm\<lparr>vm_stack := set_sp_cells (a_sp args) cells (vm_stack vm)\<rparr>)))"

definition set_value ::
  "'w::len word slot_repr \<Rightarrow> 'w word destination \<Rightarrow> 'a::len word \<Rightarrow> args \<Rightarrow> (('l, 'err, 's, 'z) vm_state_scheme, args) action" where
  "set_value R dst v args =
     (case dst of
        ToSlot s \<Rightarrow> act_bind (set_slot R s v args) (\<lambda>_. act_return args)
      | ToIreg \<Rightarrow> act_return (args\<lparr>a_ireg := ucast v\<rparr>)
      | ToFreg32 \<Rightarrow> act_return (args\<lparr>a_freg32 := ucast v\<rparr>)
      | ToFreg64 \<Rightarrow> act_return (args\<lparr>a_freg64 := ucast v\<rparr>)
      | ToSlotAndIreg s \<Rightarrow> act_bind (set_slot R s v args) (\<lambda>_. act_return (args\<lparr>a_ireg := ucast v\<rparr>)))"

subsection \<open>Entities of the current instance (utils.rs)\<close>

text \<open>
  \<open>instance.as_ref()\<close> on a pointer that is not an instance, and an index that the instance does not
  have, are undefined; the validator of Wasm excludes the second.
\<close>

definition fetch ::
  "(instance_entity \<Rightarrow> u32 \<Rightarrow> 'h option) \<Rightarrow> args \<Rightarrow> u32 \<Rightarrow> (('l, 'err, 's, 'z) vm_state_scheme, 'h) action" where
  "fetch getter args index =
     act_bind (act_get (\<lambda>vm. try_resolve_instance (vm_inner vm) (a_instance args))) (\<lambda>r.
       case r of Ok i \<Rightarrow> act_assume (getter i index) | _ \<Rightarrow> act_undefined)"

text \<open>\<open>resolve_*\<close> of the handlers assume that the handle resolves; those of the store panic.\<close>

definition resolve_unchecked ::
  "(store_inner \<Rightarrow> handle \<Rightarrow> (internal_store_error, 'a) res) \<Rightarrow> handle \<Rightarrow> (('l, 'err, 's, 'z) vm_state_scheme, 'a) action" where
  "resolve_unchecked f h =
     act_bind (act_get (\<lambda>vm. f (vm_inner vm) h)) (\<lambda>r. case r of Ok x \<Rightarrow> act_return x | Err _ \<Rightarrow> act_undefined | Panic \<Rightarrow> act_panic)"

definition resolve_or_panic ::
  "(store_inner \<Rightarrow> (internal_store_error, 'a) res) \<Rightarrow> (('l, 'err, 's, 'z) vm_state_scheme, 'a) action" where
  "resolve_or_panic f =
     act_bind (act_get (\<lambda>vm. f (vm_inner vm))) (\<lambda>r. case r of Ok x \<Rightarrow> act_return x | _ \<Rightarrow> act_panic)"

definition update_inner :: "(store_inner \<Rightarrow> store_inner) \<Rightarrow> (('l, 'err, 's, 'z) vm_state_scheme, unit) action" where
  "update_inner f = act_modify (\<lambda>vm. set_inner (f (vm_inner vm)) vm)"

text \<open>The address of the bytes of a memory is a parameter: it may change whenever the memory does.\<close>

definition mem0_of :: "(memory \<Rightarrow> usize) \<Rightarrow> memory \<Rightarrow> mem0" where
  "mem0_of ptr m = \<lparr>m0_ptr = ptr m, m0_len = data_size m\<rparr>"

definition extract_mem0 :: "(memory \<Rightarrow> usize) \<Rightarrow> usize \<Rightarrow> handle \<Rightarrow> (('l, 'err, 's, 'z) vm_state_scheme, mem0) action" where
  "extract_mem0 ptr dangling instance =
     act_bind (resolve_unchecked try_resolve_instance instance) (\<lambda>i.
       case get_memory i 0 of
         None \<Rightarrow> act_return \<lparr>m0_ptr = dangling, m0_len = 0\<rparr>
       | Some h \<Rightarrow> act_bind (resolve_unchecked try_resolve_memory h) (\<lambda>m. act_return (mem0_of ptr m)))"

definition reload_mem0 :: "(memory \<Rightarrow> usize) \<Rightarrow> usize \<Rightarrow> args \<Rightarrow> (('l, 'err, 's, 'z) vm_state_scheme, args) action" where
  "reload_mem0 ptr dangling args =
     act_bind (extract_mem0 ptr dangling (a_instance args)) (\<lambda>m. act_return (args\<lparr>a_mem0 := m\<rparr>))"

subsection \<open>Concrete arguments\<close>

definition sample_args :: "u8 list \<Rightarrow> nat \<Rightarrow> args" where
  "sample_args code pos =
     \<lparr>a_ip = \<lparr>ip_ops = code, ip_pos = pos\<rparr>, a_sp = SpDangling, a_mem0 = \<lparr>m0_ptr = 8, m0_len = 4\<rparr>,
      a_instance = stored_wrap 0 0, a_ireg = 0, a_freg32 = 0, a_freg64 = 0\<rparr>"

definition sample_config :: exec_config where
  "sample_config = \<lparr>xc_indirect_dispatch = True, xc_len_ops = 1\<rparr>"

lemma sample_decode:
  "args_decode_op sample_config (\<lambda>bs. (Ok op, bs)) (sample_args [0, 0] 0) vm = Runs (ControlContinue (op, sample_args [0, 0] 2), vm)"
  by (simp add: args_decode_op_def args_decode_def sample_config_def sample_args_def ip_skip_def ip_decode_def
      decode_op_code_def dec_fallible_def dec_bind_def dec_return_def decode_prim_def read_bytes_def
      align_relative_to_def act_simps)

end
