(* ===== verification/Exec_Bulk.thy ===== *)
theory Exec_Bulk
  imports Exec_Args
begin

section \<open>Handlers of memories, tables, segments and globals (executor/handler/exec.rs)\<close>

text \<open>
  The handlers that read and change the entities of the current instance: sizes, growth, the bulk
  operations, segments, references and global variables. The decoders of the operators are generated,
  and parameters here; a decoded operator is the tuple of its fields. The bulk operations on memories
  refine one abstract operation that writes bytes all at once or not at all.
\<close>

type_synonym ('l, 'err, 's, 'z) handler_result = "(('l, 'err, 's, 'z) vm_state_scheme, args) action"

subsection \<open>Memories\<close>

definition memory_slice :: "memory \<Rightarrow> usize \<Rightarrow> usize \<Rightarrow> (trap_code, u8 list) res" where
  "memory_slice m pos len =
     ok_or TrapMemoryOutOfBounds (Option.bind (slice_from (memory_data m) (unat pos)) (\<lambda>xs. slice_to xs (unat len)))"

text \<open>Writing through the slice that \<open>memory_slice_mut\<close> returns.\<close>

definition memory_slice_set :: "memory \<Rightarrow> usize \<Rightarrow> u8 list \<Rightarrow> memory" where
  "memory_slice_set m pos bytes =
     m\<lparr>mem_bytes := buffer_set_data (mem_bytes m) (overwrite (memory_data m) (unat pos) bytes)\<rparr>"

definition exec_memory_size ::
  "exec_config \<Rightarrow> 'w::len word slot_repr \<Rightarrow> (u32 \<times> 'w word destination) decode \<Rightarrow> args \<Rightarrow> ('l, 'err, 's, 'z) handler_result" where
  "exec_memory_size X R dec args =
     act_bind (args_decode_op X dec args) (\<lambda>((memory, result), args).
     act_bind (fetch get_memory args memory) (\<lambda>h.
     act_bind (resolve_unchecked try_resolve_memory h) (\<lambda>m.
       set_value R result (memory_size m) args)))"

text \<open>The cached default memory is reloaded only if the index of the grown memory is the default.\<close>

definition exec_memory_grow ::
  "exec_config \<Rightarrow> 'w::len word slot_repr \<Rightarrow> allocator \<Rightarrow> (memory \<Rightarrow> usize) \<Rightarrow> usize
   \<Rightarrow> (u32 \<times> 'w word destination \<times> ('w word, u64) operand) decode \<Rightarrow> args \<Rightarrow> ('l, 'err, 's, 'z) handler_result" where
  "exec_memory_grow X R alloc ptr dangling dec args0 =
     act_bind (args_decode_op X dec args0) (\<lambda>((memory, result, delta), args).
     act_bind (get_value R args delta) (\<lambda>delta.
     act_bind (fetch get_memory args memory) (\<lambda>memref.
     act_bind (act_get (\<lambda>vm. grow_memory alloc memref delta (vm_store vm))) (\<lambda>(r, store).
     act_bind (act_modify (\<lambda>vm. vm\<lparr>vm_store := store\<rparr>)) (\<lambda>_.
       case r of
         Ok return_value \<Rightarrow>
           act_bind (if memory = 0 then reload_mem0 ptr dangling args else act_return args) (\<lambda>args.
             set_value R result return_value args)
       | Err (External MemOutOfBoundsGrowth) \<Rightarrow>
           act_bind (resolve_unchecked try_resolve_memory memref) (\<lambda>m.
             set_value R result (if mt_is_64 (mem_type m) then - 1 else 2 ^ 32 - 1 :: u64) args)
       | Err (External MemOutOfSystemMemory) \<Rightarrow>
           act_bind (resolve_unchecked try_resolve_memory memref) (\<lambda>m.
             set_value R result (if mt_is_64 (mem_type m) then - 1 else 2 ^ 32 - 1 :: u64) args)
       | Err (External (MemOutOfFuel required_fuel)) \<Rightarrow> out_of_fuel (args\<lparr>a_ip := a_ip args0\<rparr>) required_fuel
       | Err (External MemResourceLimiterDeniedAllocation) \<Rightarrow> act_trap TrapGrowthOperationLimited
       | Err (Internal _) \<Rightarrow> act_undefined
       | _ \<Rightarrow> act_panic)))))"

definition to_usize :: "'a::len word \<Rightarrow> ('vm, usize) action" where
  "to_usize v = into_control (ok_or TrapMemoryOutOfBounds (try_from v))"

definition memory_copy_within ::
  "ip \<Rightarrow> args \<Rightarrow> u32 \<Rightarrow> usize \<Rightarrow> usize \<Rightarrow> usize \<Rightarrow> (('l, 'err, 's, 'z) vm_state_scheme, unit) action" where
  "memory_copy_within ip args dst_memory dst_index src_index len =
     act_bind (fetch get_memory args dst_memory) (\<lambda>h.
     act_bind (resolve_or_panic (\<lambda>s. try_resolve_memory s h)) (\<lambda>m.
     act_bind (into_control (memory_slice m src_index len)) (\<lambda>_.
     act_bind (into_control (memory_slice m dst_index len)) (\<lambda>_.
     act_bind (consume_fuel_or_break ip args (\<lambda>costs. fuel_for_copying_values costs 1 len)) (\<lambda>_.
       case slice_copy_within (memory_data m) (unat src_index) (unat (src_index + len)) (unat dst_index) of
         None \<Rightarrow> act_panic
       | Some bytes \<Rightarrow> update_inner (put_memory h (m\<lparr>mem_bytes := buffer_set_data (mem_bytes m) bytes\<rparr>)))))))"

definition exec_memory_copy ::
  "exec_config \<Rightarrow> 'w::len word slot_repr
   \<Rightarrow> (u32 \<times> u32 \<times> ('w word, u64) operand \<times> ('w word, u64) operand \<times> ('w word, u64) operand) decode
   \<Rightarrow> args \<Rightarrow> ('l, 'err, 's, 'z) handler_result" where
  "exec_memory_copy X R dec args0 =
     act_bind (args_decode_op X dec args0) (\<lambda>((dst_memory, src_memory, dst, src, len), args).
     act_bind (get_value R args dst) (\<lambda>dst.
     act_bind (get_value R args src) (\<lambda>src.
     act_bind (get_value R args len) (\<lambda>len.
     act_bind (to_usize dst) (\<lambda>dst_index.
     act_bind (to_usize src) (\<lambda>src_index.
     act_bind (to_usize len) (\<lambda>len.
       if dst_memory = src_memory then
         act_bind (memory_copy_within (a_ip args0) args dst_memory dst_index src_index len) (\<lambda>_. act_return args)
       else
         act_bind (fetch get_memory args dst_memory) (\<lambda>dst_h.
         act_bind (fetch get_memory args src_memory) (\<lambda>src_h.
         act_bind (resolve_or_panic (\<lambda>s. try_resolve_memory_pair s src_h dst_h)) (\<lambda>(src_m, dst_m).
         act_bind (into_control (memory_slice src_m src_index len)) (\<lambda>src_bytes.
         act_bind (into_control (memory_slice dst_m dst_index len)) (\<lambda>_.
         act_bind (consume_fuel_or_break (a_ip args0) args (\<lambda>costs. fuel_for_copying_values costs 1 len)) (\<lambda>_.
         act_bind (update_inner (put_memory dst_h (memory_slice_set dst_m dst_index src_bytes))) (\<lambda>_.
           act_return args))))))))))))))"

definition exec_memory_fill ::
  "exec_config \<Rightarrow> 'w::len word slot_repr
   \<Rightarrow> (u32 \<times> ('w word, u64) operand \<times> ('w word, u64) operand \<times> ('w word, u8) operand) decode
   \<Rightarrow> args \<Rightarrow> ('l, 'err, 's, 'z) handler_result" where
  "exec_memory_fill X R dec args0 =
     act_bind (args_decode_op X dec args0) (\<lambda>((memory, dst, len, value), args).
     act_bind (get_value R args dst) (\<lambda>dst.
     act_bind (get_value R args len) (\<lambda>len.
     act_bind (get_value R args value) (\<lambda>value.
     act_bind (to_usize dst) (\<lambda>dst.
     act_bind (to_usize len) (\<lambda>len.
     act_bind (fetch get_memory args memory) (\<lambda>h.
     act_bind (resolve_or_panic (\<lambda>s. try_resolve_memory s h)) (\<lambda>m.
     act_bind (into_control (memory_slice m dst len)) (\<lambda>slice.
     act_bind (consume_fuel_or_break (a_ip args0) args (\<lambda>costs. fuel_for_copying_values costs 1 len)) (\<lambda>_.
     act_bind (update_inner (put_memory h (memory_slice_set m dst (replicate (length slice) value)))) (\<lambda>_.
       act_return args)))))))))))"

definition exec_memory_init ::
  "exec_config \<Rightarrow> 'w::len word slot_repr
   \<Rightarrow> (u32 \<times> u32 \<times> ('w word, u64) operand \<times> ('w word, u32) operand \<times> ('w word, u32) operand) decode
   \<Rightarrow> args \<Rightarrow> ('l, 'err, 's, 'z) handler_result" where
  "exec_memory_init X R dec args0 =
     act_bind (args_decode_op X dec args0) (\<lambda>((memory, data, dst, src, len), args).
     act_bind (get_value R args dst) (\<lambda>dst.
     act_bind (get_value R args src) (\<lambda>src.
     act_bind (get_value R args len) (\<lambda>len.
     act_bind (to_usize dst) (\<lambda>dst_index.
     act_bind (to_usize src) (\<lambda>src_index.
     act_bind (to_usize len) (\<lambda>len.
     act_bind (fetch get_memory args memory) (\<lambda>h.
     act_bind (fetch get_data_segment args data) (\<lambda>d.
     act_bind (resolve_or_panic (\<lambda>s. try_resolve_memory_init_params s h d)) (\<lambda>(m, segment).
     act_bind (into_control (memory_slice m dst_index len)) (\<lambda>_.
     act_bind (into_control (ok_or TrapMemoryOutOfBounds
         (Option.bind (slice_from (data_bytes segment) (unat src_index)) (\<lambda>xs. slice_to xs (unat len))))) (\<lambda>bytes.
     act_bind (consume_fuel_or_break (a_ip args0) args (\<lambda>costs. fuel_for_copying_values costs 1 len)) (\<lambda>_.
     act_bind (update_inner (put_memory h (memory_slice_set m dst_index bytes))) (\<lambda>_.
       act_return args))))))))))))))"

definition exec_data_drop :: "exec_config \<Rightarrow> u32 decode \<Rightarrow> args \<Rightarrow> ('l, 'err, 's, 'z) handler_result" where
  "exec_data_drop X dec args =
     act_bind (args_decode_op X dec args) (\<lambda>(data, args).
     act_bind (fetch get_data_segment args data) (\<lambda>h.
     act_bind (resolve_unchecked try_resolve_data h) (\<lambda>d.
     act_bind (update_inner (put_data h (drop_bytes d))) (\<lambda>_. act_return args))))"

subsection \<open>Tables, references and globals\<close>

definition exec_table_size ::
  "exec_config \<Rightarrow> 'w::len word slot_repr \<Rightarrow> (u32 \<times> 'w word destination) decode \<Rightarrow> args \<Rightarrow> ('l, 'err, 's, 'z) handler_result" where
  "exec_table_size X R dec args =
     act_bind (args_decode_op X dec args) (\<lambda>((table, result), args).
     act_bind (fetch get_table args table) (\<lambda>h.
     act_bind (resolve_unchecked try_resolve_table h) (\<lambda>t.
       set_value R result (table_size t) args)))"

text \<open>Running out of fuel neither saves the instruction pointer nor the registers here.\<close>

definition exec_table_grow ::
  "exec_config \<Rightarrow> 'w::len word slot_repr \<Rightarrow> allocator
   \<Rightarrow> (u32 \<times> 'w word destination \<times> ('w word, u64) operand \<times> ('w word, raw_ref) operand) decode
   \<Rightarrow> args \<Rightarrow> ('l, 'err, 's, 'z) handler_result" where
  "exec_table_grow X R alloc dec args0 =
     act_bind (args_decode_op X dec args0) (\<lambda>((table, result, delta, value), args).
     act_bind (fetch get_table args table) (\<lambda>h.
     act_bind (get_value R args delta) (\<lambda>delta.
     act_bind (get_value R args value) (\<lambda>value.
     act_bind (act_get (\<lambda>vm. grow_table alloc h delta value (vm_store vm))) (\<lambda>(r, store).
     act_bind (act_modify (\<lambda>vm. vm\<lparr>vm_store := store\<rparr>)) (\<lambda>_.
       case r of
         Ok return_value \<Rightarrow> set_value R result return_value args
       | Err (External TabGrowOutOfBounds) \<Rightarrow>
           act_bind (resolve_unchecked try_resolve_table h) (\<lambda>t.
             set_value R result (if tt_is_64 (tb_ty t) then - 1 else 2 ^ 32 - 1 :: u64) args)
       | Err (External TabOutOfSystemMemory) \<Rightarrow>
           act_bind (resolve_unchecked try_resolve_table h) (\<lambda>t.
             set_value R result (if tt_is_64 (tb_ty t) then - 1 else 2 ^ 32 - 1 :: u64) args)
       | Err (External (TabOutOfFuel required_fuel)) \<Rightarrow> done_with (DoneOutOfFuel required_fuel)
       | Err (External TabResourceLimiterDeniedAllocation) \<Rightarrow> act_trap TrapGrowthOperationLimited
       | Err (Internal _) \<Rightarrow> act_undefined
       | _ \<Rightarrow> act_panic))))))"

text \<open>
  The result of a table operation: the table and the fuel are written back, errors are traps, run out
  of fuel, or panic. \<open>bounds\<close> is the error of the operation that means out of bounds.
\<close>

definition table_outcome ::
  "ip \<Rightarrow> args \<Rightarrow> handle \<Rightarrow> table_error \<Rightarrow> table_result \<Rightarrow> ('l, 'err, 's, 'z) handler_result" where
  "table_outcome ip args h bounds outcome =
     (case outcome of (r, t, fuel) \<Rightarrow>
        act_bind (update_inner (\<lambda>s. (put_table h t s)\<lparr>si_fuel := the fuel\<rparr>)) (\<lambda>_.
          case r of
            Ok _ \<Rightarrow> act_return args
          | Err TabOutOfSystemMemory \<Rightarrow> act_trap TrapOutOfSystemMemory
          | Err (TabOutOfFuel required_fuel) \<Rightarrow> out_of_fuel (args\<lparr>a_ip := ip\<rparr>) required_fuel
          | Err e \<Rightarrow> if e = bounds then act_trap TrapTableOutOfBounds else act_panic
          | Panic \<Rightarrow> act_panic))"

definition exec_table_copy ::
  "exec_config \<Rightarrow> 'w::len word slot_repr
   \<Rightarrow> (u32 \<times> u32 \<times> ('w word, u64) operand \<times> ('w word, u64) operand \<times> ('w word, u64) operand) decode
   \<Rightarrow> args \<Rightarrow> ('l, 'err, 's, 'z) handler_result" where
  "exec_table_copy X R dec args0 =
     act_bind (args_decode_op X dec args0) (\<lambda>((dst_table, src_table, dst, src, len), args).
     act_bind (get_value R args dst) (\<lambda>dst.
     act_bind (get_value R args src) (\<lambda>src.
     act_bind (get_value R args len) (\<lambda>len.
       if dst_table = src_table then
         act_bind (fetch get_table args dst_table) (\<lambda>h.
         act_bind (resolve_or_panic (\<lambda>s. try_resolve_table s h)) (\<lambda>t.
         act_bind (act_get (\<lambda>vm. table_copy_within t dst src len (Some (si_fuel (vm_inner vm))))) (\<lambda>outcome.
           table_outcome (a_ip args0) args h TabCopyOutOfBounds outcome)))
       else
         act_bind (fetch get_table args dst_table) (\<lambda>dst_h.
         act_bind (fetch get_table args src_table) (\<lambda>src_h.
         act_bind (resolve_or_panic (\<lambda>s. try_resolve_table_pair s dst_h src_h)) (\<lambda>(dst_t, src_t).
         act_bind (act_get (\<lambda>vm. table_copy dst_t dst src_t src len (Some (si_fuel (vm_inner vm))))) (\<lambda>outcome.
           table_outcome (a_ip args0) args dst_h TabCopyOutOfBounds outcome))))))))"

definition exec_table_fill ::
  "exec_config \<Rightarrow> 'w::len word slot_repr
   \<Rightarrow> (u32 \<times> ('w word, u64) operand \<times> ('w word, u64) operand \<times> ('w word, raw_ref) operand) decode
   \<Rightarrow> args \<Rightarrow> ('l, 'err, 's, 'z) handler_result" where
  "exec_table_fill X R dec args0 =
     act_bind (args_decode_op X dec args0) (\<lambda>((table, dst, len, value), args).
     act_bind (get_value R args dst) (\<lambda>dst.
     act_bind (get_value R args len) (\<lambda>len.
     act_bind (get_value R args value) (\<lambda>value.
     act_bind (fetch get_table args table) (\<lambda>h.
     act_bind (resolve_or_panic (\<lambda>s. try_resolve_table s h)) (\<lambda>t.
     act_bind (act_get (\<lambda>vm. fill_raw t dst value len (Some (si_fuel (vm_inner vm))))) (\<lambda>outcome.
       table_outcome (a_ip args0) args h TabFillOutOfBounds outcome)))))))"

definition exec_table_init ::
  "exec_config \<Rightarrow> 'w::len word slot_repr
   \<Rightarrow> (u32 \<times> u32 \<times> ('w word, u64) operand \<times> ('w word, u32) operand \<times> ('w word, u32) operand) decode
   \<Rightarrow> args \<Rightarrow> ('l, 'err, 's, 'z) handler_result" where
  "exec_table_init X R dec args0 =
     act_bind (args_decode_op X dec args0) (\<lambda>((table, elem, dst, src, len), args).
     act_bind (get_value R args dst) (\<lambda>dst.
     act_bind (get_value R args src) (\<lambda>src.
     act_bind (get_value R args len) (\<lambda>len.
     act_bind (fetch get_table args table) (\<lambda>h.
     act_bind (fetch get_element_segment args elem) (\<lambda>e.
     act_bind (resolve_or_panic (\<lambda>s. try_resolve_table_init_params s h e)) (\<lambda>(t, element).
     act_bind (act_get (\<lambda>vm. table_init t element dst src len (Some (si_fuel (vm_inner vm))))) (\<lambda>outcome.
       table_outcome (a_ip args0) args h TabInitOutOfBounds outcome))))))))"

definition exec_elem_drop :: "exec_config \<Rightarrow> u32 decode \<Rightarrow> args \<Rightarrow> ('l, 'err, 's, 'z) handler_result" where
  "exec_elem_drop X dec args =
     act_bind (args_decode_op X dec args) (\<lambda>(elem, args).
     act_bind (fetch get_element_segment args elem) (\<lambda>h.
     act_bind (resolve_unchecked try_resolve_element h) (\<lambda>e.
     act_bind (update_inner (put_element h (drop_items e))) (\<lambda>_. act_return args))))"

text \<open>The index is 64 bits wide, or a 32-bit immediate that is zero extended.\<close>

definition exec_table_get ::
  "exec_config \<Rightarrow> 'w::len word slot_repr \<Rightarrow> (u32 \<times> 'w word destination \<times> ('w word, 'i::len word) operand) decode
   \<Rightarrow> args \<Rightarrow> ('l, 'err, 's, 'z) handler_result" where
  "exec_table_get X R dec args =
     act_bind (args_decode_op X dec args) (\<lambda>((table, result, index), args).
     act_bind (fetch get_table args table) (\<lambda>h.
     act_bind (resolve_unchecked try_resolve_table h) (\<lambda>t.
     act_bind (get_value R args index) (\<lambda>index.
       case table_get t (ucast index) of
         None \<Rightarrow> act_trap TrapTableOutOfBounds
       | Some value \<Rightarrow> set_value R result (tr_raw value) args))))"

definition exec_table_set ::
  "exec_config \<Rightarrow> 'w::len word slot_repr \<Rightarrow> (u32 \<times> ('w word, 'i::len word) operand \<times> ('w word, u32) operand) decode
   \<Rightarrow> args \<Rightarrow> ('l, 'err, 's, 'z) handler_result" where
  "exec_table_set X R dec args =
     act_bind (args_decode_op X dec args) (\<lambda>((table, index, value), args).
     act_bind (fetch get_table args table) (\<lambda>h.
     act_bind (resolve_unchecked try_resolve_table h) (\<lambda>t.
     act_bind (get_value R args index) (\<lambda>index.
     act_bind (get_value R args value) (\<lambda>value.
       case set_raw t (ucast index) value of (r, t') \<Rightarrow>
         act_bind (update_inner (put_table h t')) (\<lambda>_.
           if r = Err TabSetOutOfBounds then act_trap TrapTableOutOfBounds else act_return args))))))"

definition exec_ref_func ::
  "exec_config \<Rightarrow> 'w::len word slot_repr \<Rightarrow> (u32 \<times> 'w word destination) decode \<Rightarrow> args \<Rightarrow> ('l, 'err, 's, 'z) handler_result" where
  "exec_ref_func X R dec args =
     act_bind (args_decode_op X dec args) (\<lambda>((func, result), args).
     act_bind (fetch get_func args func) (\<lambda>h.
     act_bind (act_get (\<lambda>vm. handle_unwrap_raw (si_id (vm_inner vm)) h)) (\<lambda>raw.
     act_bind (act_assume raw) (\<lambda>rawref. set_value R result rawref args))))"

text \<open>Globals of at most 64 bits; \<open>width\<close> is the width of the type that is read, floats by their bits.\<close>

definition exec_global_get ::
  "exec_config \<Rightarrow> 'w::len word slot_repr \<Rightarrow> 'a::len itself \<Rightarrow> (u32 \<times> 'w word destination) decode \<Rightarrow> args
   \<Rightarrow> ('l, 'err, 's, 'z) handler_result" where
  "exec_global_get X R width dec args =
     act_bind (args_decode_op X dec args) (\<lambda>((global, result), args).
     act_bind (fetch get_global args global) (\<lambda>h.
     act_bind (resolve_unchecked try_resolve_global h) (\<lambda>g.
       set_value R result (word_of_raw (gl_value g) :: 'a word) args)))"

definition exec_global_set ::
  "exec_config \<Rightarrow> 'w::len word slot_repr \<Rightarrow> (u32 \<times> ('w word, 'a::len word) operand) decode \<Rightarrow> args
   \<Rightarrow> ('l, 'err, 's, 'z) handler_result" where
  "exec_global_set X R dec args =
     act_bind (args_decode_op X dec args) (\<lambda>((global, value), args).
     act_bind (fetch get_global args global) (\<lambda>h.
     act_bind (resolve_unchecked try_resolve_global h) (\<lambda>g.
     act_bind (get_value R args value) (\<lambda>v.
     act_bind (update_inner (put_global h (g\<lparr>gl_value := write_as_word (gl_value g) v\<rparr>))) (\<lambda>_. act_return args)))))"

subsection \<open>What the bulk operations on memories do\<close>

text \<open>The operand \<open>src\<close> has the value \<open>v\<close>; index \<open>k\<close> of the current instance is the memory \<open>h\<close>.\<close>

definition reads ::
  "'w::len word slot_repr \<Rightarrow> args \<Rightarrow> ('l, 'err, 's, 'z) vm_state_scheme \<Rightarrow> ('w word, 'a::len word) operand \<Rightarrow> 'a word \<Rightarrow> bool" where
  "reads R args vm src v = (get_value R args src vm = Runs (ControlContinue v, vm))"

definition has_entity ::
  "(instance_entity \<Rightarrow> u32 \<Rightarrow> handle option) \<Rightarrow> (store_inner \<Rightarrow> handle \<Rightarrow> (internal_store_error, 'a) res) \<Rightarrow> args
   \<Rightarrow> ('l, 'err, 's, 'z) vm_state_scheme \<Rightarrow> u32 \<Rightarrow> handle \<Rightarrow> 'a \<Rightarrow> bool" where
  "has_entity getter resolver args vm k h x =
     (case try_resolve_instance (vm_inner vm) (a_instance args) of
        Ok i \<Rightarrow> getter i k = Some h \<and> resolver (vm_inner vm) h = Ok x
      | _ \<Rightarrow> False)"

abbreviation "has_memory \<equiv> has_entity get_memory try_resolve_memory"
abbreviation "has_table \<equiv> has_entity get_table try_resolve_table"
abbreviation "has_data \<equiv> has_entity get_data_segment try_resolve_data"

text \<open>Writing \<open>src\<close> to the bytes from \<open>dst\<close> on, all of them or none.\<close>

definition write_all ::
  "ip \<Rightarrow> args \<Rightarrow> handle \<Rightarrow> memory \<Rightarrow> usize \<Rightarrow> usize \<Rightarrow> u8 list option \<Rightarrow> ('l, 'err, 's, 'z) handler_result" where
  "write_all ip args h m dst len src =
     (case src of
        Some bytes \<Rightarrow>
          if unat dst + unat len \<le> length (memory_data m)
          then act_bind (consume_fuel_or_break ip args (\<lambda>costs. fuel_for_copying_values costs 1 len)) (\<lambda>_.
               act_bind (update_inner (put_memory h (memory_slice_set m dst bytes))) (\<lambda>_. act_return args))
          else act_trap TrapMemoryOutOfBounds
      | None \<Rightarrow> act_trap TrapMemoryOutOfBounds)"

definition slice_at :: "'a list \<Rightarrow> 'i::len word \<Rightarrow> 'n::len word \<Rightarrow> 'a list option" where
  "slice_at xs i n = (if unat i + unat n \<le> length xs then Some (take (unat n) (drop (unat i) xs)) else None)"

lemma act_bind_assoc: "act_bind (act_bind m f) g = act_bind m (\<lambda>x. act_bind (f x) g)"
  by (auto simp: act_bind_def fun_eq_iff split: exec.splits control.splits prod.splits)

lemma act_bind_reads: "reads R args vm src v \<Longrightarrow> act_bind (get_value R args src) k vm = k v vm"
  by (simp add: reads_def act_bind_def)

lemma act_bind_fetch:
  "has_entity getter resolver args vm j h x \<Longrightarrow> act_bind (fetch getter args j) k vm = k h vm"
  by (auto simp: has_entity_def fetch_def act_bind_def act_get_def act_assume_def act_return_def split: res.splits)

lemma act_bind_resolve_or_panic [act_simps]:
  "f (vm_inner vm) = Ok x \<Longrightarrow> act_bind (resolve_or_panic f) k vm = k x vm"
  by (simp add: resolve_or_panic_def act_bind_def act_get_def act_return_def)

lemma act_bind_resolve_unchecked [act_simps]:
  "f (vm_inner vm) h = Ok x \<Longrightarrow> act_bind (resolve_unchecked f h) k vm = k x vm"
  by (simp add: resolve_unchecked_def act_bind_def act_get_def act_return_def)

lemma has_entityD: "has_entity getter resolver args vm j h x \<Longrightarrow> resolver (vm_inner vm) h = Ok x"
  by (auto simp: has_entity_def split: res.splits)

lemma to_usize_64 [simp]: "to_usize (v :: u64) = act_return v"
  by (simp add: to_usize_def try_from_def)

lemma to_usize_32 [simp]: "to_usize (v :: u32) = act_return (ucast v)"
  using unsigned_less [of v, where ?'a = nat] by (simp add: to_usize_def try_from_def)

lemma memory_slice_at: "memory_slice m pos len = ok_or TrapMemoryOutOfBounds (slice_at (memory_data m) pos len)"
  by (simp add: memory_slice_def slice_at_def slice_simps)

lemma act_bind_slice:
  "act_bind (into_control (ok_or c (slice_at xs i n))) k
    = (case slice_at xs i n of Some ys \<Rightarrow> k ys | None \<Rightarrow> act_trap c)"
  by (simp split: option.splits)

lemma slice_at_Some: "slice_at xs i n = Some ys \<Longrightarrow> unat i + unat n \<le> length xs \<and> length ys = unat n"
  by (auto simp: slice_at_def split: if_splits)

lemma slice_at_None: "slice_at xs i n = None \<longleftrightarrow> length xs < unat i + unat n"
  by (auto simp: slice_at_def)

lemma data_length_small: "buffer_wf (mem_bytes m) \<Longrightarrow> length (memory_data m) \<le> isize_max"
  by (auto simp: buffer_wf_def memory_data_def buffer_data_def word_le_nat_alt)

lemma copy_within_write_all:
  assumes m: "has_memory args vm k h m" and wf: "buffer_wf (mem_bytes m)"
  shows "act_bind (memory_copy_within ip args k dst src len) (\<lambda>_. act_return args) vm
    = write_all ip args h m dst len (slice_at (memory_data m) src len) vm"
proof (cases "unat src + unat len \<le> length (memory_data m) \<and> unat dst + unat len \<le> length (memory_data m)")
  case True
  have "unat (src + len) = unat src + unat len"
    using True data_length_small [OF wf] by (simp add: unat_word_ariths isize_max_def)
  then have "slice_copy_within (memory_data m) (unat src) (unat (src + len)) (unat dst)
      = Some (overwrite (memory_data m) (unat dst) (take (unat len) (drop (unat src) (memory_data m))))"
    using True by (auto simp: slice_copy_within_def drop_take)
  then show ?thesis
    using True has_entityD [OF m]
    by (simp add: memory_copy_within_def act_bind_assoc act_simps act_bind_fetch [OF m] memory_slice_at slice_at_def write_all_def memory_slice_set_def)
next
  case False
  then show ?thesis
    using has_entityD [OF m]
    by (auto simp: memory_copy_within_def act_bind_assoc act_simps act_bind_fetch [OF m] memory_slice_at slice_at_def write_all_def)
qed

lemma resolve_position:
  "resolve u32_key s h arena = Ok x \<longleftrightarrow>
    sd_store h = si_id s \<and> unat (into_usize u32_key (sd_value h)) < length (ar_items arena)
    \<and> ar_items arena ! unat (into_usize u32_key (sd_value h)) = x"
  by (auto simp: resolve_def unwrap_stored_def stored_unwrap_def arena_get_def get_opt_def split: if_splits res.splits)

text \<open>Two different entities can be borrowed at the same time, one entity twice cannot.\<close>

lemma try_resolve_pair_eq:
  assumes "resolve u32_key s h1 arena = Ok x" "resolve u32_key s h2 arena = Ok y"
  shows "try_resolve_pair s h1 h2 arena = (if h1 = h2 then Panic else Ok (x, y))"
proof -
  have "sd_value h1 = sd_value h2 \<longleftrightarrow> h1 = h2" using assms by (metis resolve_position stored.equality unit.exhaust)
  then show ?thesis
    using assms by (simp add: try_resolve_pair_def get_pair_mut_outcome resolve_position unwrap_stored_def stored_unwrap_def)
qed

lemma has_entity_unique:
  "has_entity getter resolver args vm k h x \<Longrightarrow> has_entity getter resolver args vm k h' x' \<Longrightarrow> h' = h \<and> x' = x"
  by (auto simp: has_entity_def split: res.splits)

lemma memory_copy_write_all:
  assumes dec: "args_decode_op X dec args0 vm = Runs (ControlContinue ((k, j, dst, src, len), args), vm)"
    and ops: "reads R args vm dst d" "reads R args vm src s" "reads R args vm len n"
    and mems: "has_memory args vm k h m" "has_memory args vm j h' m'" and wf: "buffer_wf (mem_bytes m)"
    and apart: "k = j \<or> h \<noteq> h'"
  shows "exec_memory_copy X R dec args0 vm = write_all (a_ip args0) args h m d n (slice_at (memory_data m') s n) vm"
proof (cases "k = j")
  case True
  then have "h' = h" "m' = m" using has_entity_unique [OF mems(1)] mems(2) by blast+
  then show ?thesis
    using True copy_within_write_all [OF mems(1) wf]
    by (simp add: exec_memory_copy_def act_simps dec act_bind_reads [OF ops(1)] act_bind_reads [OF ops(2)] act_bind_reads [OF ops(3)])
next
  case False
  then have pair: "try_resolve_memory_pair (vm_inner vm) h' h = Ok (m', m)"
    using apart has_entityD [OF mems(1)] has_entityD [OF mems(2)]
    by (simp add: try_resolve_memory_pair_def try_resolve_pair_eq try_resolve_memory_def)
  show ?thesis
    using False pair
    by (simp add: exec_memory_copy_def act_simps dec act_bind_reads [OF ops(1)] act_bind_reads [OF ops(2)] act_bind_reads [OF ops(3)]
        act_bind_fetch [OF mems(1)] act_bind_fetch [OF mems(2)] memory_slice_at act_bind_slice write_all_def)
      (auto simp: slice_at_def act_simps split: option.splits)
qed

lemma memory_fill_write_all:
  assumes dec: "args_decode_op X dec args0 vm = Runs (ControlContinue ((k, dst, len, val), args), vm)"
    and ops: "reads R args vm dst d" "reads R args vm len n" "reads R args vm val v" and m: "has_memory args vm k h m"
  shows "exec_memory_fill X R dec args0 vm = write_all (a_ip args0) args h m d n (Some (replicate (unat n) v)) vm"
  using has_entityD [OF m]
  by (simp add: exec_memory_fill_def act_simps dec act_bind_reads [OF ops(1)] act_bind_reads [OF ops(2)] act_bind_reads [OF ops(3)]
      act_bind_fetch [OF m] memory_slice_at act_bind_slice write_all_def)
    (auto simp: slice_at_def act_simps split: option.splits)

lemma memory_init_write_all:
  assumes dec: "args_decode_op X dec args0 vm = Runs (ControlContinue ((k, j, dst, src, len), args), vm)"
    and ops: "reads R args vm dst d" "reads R args vm src s" "reads R args vm len n"
    and m: "has_memory args vm k h m" and seg: "has_data args vm j g segment"
  shows "exec_memory_init X R dec args0 vm
    = write_all (a_ip args0) args h m d (ucast n) (slice_at (data_bytes segment) s n) vm"
proof -
  have "unwrap_stored (vm_inner vm) h = Ok (sd_value h)"
    using has_entityD [OF m] by (simp add: try_resolve_memory_def resolve_position unwrap_stored_def stored_unwrap_def)
  then have "try_resolve_memory_init_params (vm_inner vm) h g = Ok (m, segment)"
    using has_entityD [OF m] has_entityD [OF seg]
    by (simp add: try_resolve_memory_init_params_def try_resolve_init_def try_resolve_memory_def try_resolve_data_def)
  moreover have "unat (ucast x :: usize) = unat x" for x :: u32 by (simp add: unsigned_ucast_eq take_bit_nat_eq_self unsigned_less)
  ultimately show ?thesis
    by (simp add: exec_memory_init_def act_simps dec act_bind_reads [OF ops(1)] act_bind_reads [OF ops(2)] act_bind_reads [OF ops(3)]
        act_bind_fetch [OF m] act_bind_fetch [OF seg] memory_slice_at act_bind_slice write_all_def)
      (auto simp: slice_at_def slice_simps act_simps split: option.splits)
qed

text \<open>
  The outcome of writing \<open>src\<close> to \<open>dst\<close> in the memory \<open>h\<close>: a trap that changes nothing if either range
  is out of bounds, the end of the execution at the operator itself with nothing else changed if the fuel
  does not suffice, and otherwise the charged fuel and exactly the written bytes.
\<close>

definition bulk_effect ::
  "ip \<Rightarrow> args \<Rightarrow> handle \<Rightarrow> memory \<Rightarrow> usize \<Rightarrow> usize \<Rightarrow> u8 list option \<Rightarrow> ('l, 'err, 's, 'z) vm_state_scheme
   \<Rightarrow> ((break, args) control \<times> ('l, 'err, 's, 'z) vm_state_scheme) exec \<Rightarrow> bool" where
  "bulk_effect ip args h m dst len src vm outcome =
     (case src of
        Some bytes \<Rightarrow>
          if unat dst + unat len \<le> length (memory_data m) then
            (case consume_fuel_if (si_fuel (vm_inner vm)) (\<lambda>costs. fuel_for_copying_values costs 1 len) of
               (Err (OutOfFuel required), _) \<Rightarrow> outcome = out_of_fuel (args\<lparr>a_ip := ip\<rparr>) required vm
             | (_, fuel') \<Rightarrow>
                 (\<exists>s m'. outcome = Runs (ControlContinue args, set_inner s vm) \<and> si_fuel s = fuel'
                    \<and> buffer_wf (mem_bytes m') \<and> mem_type m' = mem_type m \<and> data_size m' = data_size m
                    \<and> memory_data m' = overwrite (memory_data m) (unat dst) bytes
                    \<and> (\<forall>g. try_resolve_memory s g = (if g = h then Ok m' else try_resolve_memory (vm_inner vm) g))))
          else outcome = Runs (ControlBreak BreakMemoryOutOfBounds, vm)
      | None \<Rightarrow> outcome = Runs (ControlBreak BreakMemoryOutOfBounds, vm))"

lemma memory_slice_set_laws:
  assumes "buffer_wf (mem_bytes m)" "unat dst + length bytes \<le> length (memory_data m)"
  shows "buffer_wf (mem_bytes (memory_slice_set m dst bytes))" "mem_type (memory_slice_set m dst bytes) = mem_type m"
    "data_size (memory_slice_set m dst bytes) = data_size m"
    "memory_data (memory_slice_set m dst bytes) = overwrite (memory_data m) (unat dst) bytes"
proof -
  have "length (memory_data m) = unat (bb_len (mem_bytes m))"
    using assms(1) by (auto simp: memory_data_def buffer_data_def buffer_wf_def word_le_nat_alt split: if_splits)
  then show "buffer_wf (mem_bytes (memory_slice_set m dst bytes))" "mem_type (memory_slice_set m dst bytes) = mem_type m"
    "data_size (memory_slice_set m dst bytes) = data_size m"
    "memory_data (memory_slice_set m dst bytes) = overwrite (memory_data m) (unat dst) bytes"
    using assms by (simp_all add: memory_slice_set_def memory_data_def [of "m\<lparr>mem_bytes := _\<rparr>"] data_size_def)
qed

lemma consume_fuel_if_outcome:
  obtains fuel' where "consume_fuel_if f sel = (Ok (), fuel')" | required where "consume_fuel_if f sel = (Err (OutOfFuel required), f)"
  by (rule consume_fuel_if_cases [of f sel]) (use that in blast)+

lemma try_resolve_memory_fuel [simp]: "try_resolve_memory (s\<lparr>si_fuel := f\<rparr>) h = try_resolve_memory s h"
  by (simp add: try_resolve_memory_def resolve_def unwrap_stored_def)

lemma set_inner_same: "set_inner (vm_inner vm) vm = vm"
  by (simp add: set_inner_def)

lemma write_all_effect:
  assumes h: "try_resolve_memory (vm_inner vm) h = Ok m" and wf: "buffer_wf (mem_bytes m)"
    and len: "\<And>bytes. src = Some bytes \<Longrightarrow> length bytes = unat len"
  shows "bulk_effect ip args h m dst len src vm (write_all ip args h m dst len src vm)"
proof (cases "\<exists>bytes. src = Some bytes \<and> unat dst + unat len \<le> length (memory_data m)")
  case True
  then obtain bytes where src: "src = Some bytes" and bound: "unat dst + unat len \<le> length (memory_data m)" by blast
  note laws = memory_slice_set_laws [OF wf, of dst bytes]
  let ?f = "si_fuel (vm_inner vm)" and ?sel = "\<lambda>cs. fuel_for_copying_values cs 1 len"
  show ?thesis
  proof (rule consume_fuel_if_outcome [of ?f ?sel])
    fix fuel' assume f: "consume_fuel_if ?f ?sel = (Ok (), fuel')"
    let ?s = "(vm_inner vm)\<lparr>si_fuel := fuel'\<rparr>"
    have "try_resolve_memory (put_memory h (memory_slice_set m dst bytes) ?s) g
        = (if g = h then Ok (memory_slice_set m dst bytes) else try_resolve_memory (vm_inner vm) g)" for g
      using resolve_put_memory [of ?s h m] h by simp
    then show ?thesis
      using src bound f laws len [OF src]
      by (auto simp: bulk_effect_def write_all_def act_bind_def consume_fuel_or_break_def update_inner_def act_modify_def
          act_return_def set_inner_def put_memory_def Let_def intro!: exI)
  next
    fix required assume f: "consume_fuel_if ?f ?sel = (Err (OutOfFuel required), ?f)"
    then show ?thesis
      using src bound
      by (simp add: bulk_effect_def write_all_def act_bind_def consume_fuel_or_break_def set_inner_same)
        (simp add: out_of_fuel_def done_with_def split: option.splits)
  qed
next
  case False
  then show ?thesis by (auto simp: bulk_effect_def write_all_def act_trap_def split: option.splits)
qed

text \<open>
  C2: \<open>memory.copy\<close>, within one memory or between two different ones, for operands that can be read: a
  range out of bounds traps and changes nothing; too little fuel ends the execution at this operator with
  nothing changed; otherwise the fuel is charged and exactly the destination range gets the bytes that the
  source range had before, also if the ranges overlap.
\<close>

theorem memory_copy_effect:
  assumes dec: "args_decode_op X dec args0 vm = Runs (ControlContinue ((k, j, dst, src, len), args), vm)"
    and ops: "reads R args vm dst d" "reads R args vm src s" "reads R args vm len n"
    and mems: "has_memory args vm k h m" "has_memory args vm j h' m'" and wf: "buffer_wf (mem_bytes m)"
    and apart: "k = j \<or> h \<noteq> h'"
  shows "bulk_effect (a_ip args0) args h m d n (slice_at (memory_data m') s n) vm (exec_memory_copy X R dec args0 vm)"
  using memory_copy_write_all [OF assms] write_all_effect [OF has_entityD [OF mems(1)] wf] slice_at_Some by metis

text \<open>
  C38: \<open>memory.fill\<close> and \<open>memory.init\<close> in the same way: the destination range gets copies of the value,
  or the bytes of the data segment, all of them or none, and a dropped segment has no bytes.
\<close>

theorem memory_fill_init_effect:
  assumes wf: "buffer_wf (mem_bytes m)" and m: "has_memory args vm k h m" and dst: "reads R args vm dst d"
  shows "(args_decode_op X fill args0 vm = Runs (ControlContinue ((k, dst, len, val), args), vm)
        \<and> reads R args vm len n \<and> reads R args vm val v \<longrightarrow>
      bulk_effect (a_ip args0) args h m d n (Some (replicate (unat n) v)) vm (exec_memory_fill X R fill args0 vm))
    \<and> (args_decode_op X init args0 vm = Runs (ControlContinue ((k, j, dst, src, len'), args), vm)
        \<and> reads R args vm src s \<and> reads R args vm len' n' \<and> has_data args vm j g segment \<longrightarrow>
      bulk_effect (a_ip args0) args h m d (ucast n') (slice_at (data_bytes segment) s n') vm (exec_memory_init X R init args0 vm))"
proof (intro conjI impI; elim conjE)
  note effect = write_all_effect [OF has_entityD [OF m] wf]
  show "bulk_effect (a_ip args0) args h m d n (Some (replicate (unat n) v)) vm (exec_memory_fill X R fill args0 vm)"
    if "args_decode_op X fill args0 vm = Runs (ControlContinue ((k, dst, len, val), args), vm)" "reads R args vm len n" "reads R args vm val v"
    unfolding memory_fill_write_all [OF that(1) dst that(2,3) m] by (rule effect) simp
  show "bulk_effect (a_ip args0) args h m d (ucast n') (slice_at (data_bytes segment) s n') vm (exec_memory_init X R init args0 vm)"
    if "args_decode_op X init args0 vm = Runs (ControlContinue ((k, j, dst, src, len'), args), vm)"
      "reads R args vm src s" "reads R args vm len' n'" "has_data args vm j g segment"
    unfolding memory_init_write_all [OF that(1) dst that(2,3) m that(4)]
    by (rule effect) (use slice_at_Some in \<open>auto simp: unsigned_ucast_eq take_bit_nat_eq_self unsigned_less\<close>)
qed

text \<open>
  C39: \<open>memory.copy\<close> and \<open>table.copy\<close> compare the indices of the two memories or tables. If an instance has
  the same memory (table) at two indices, copying between the two indices panics although all accesses
  may be in bounds.
\<close>

theorem copy_between_aliases_panics:
  assumes "k \<noteq> j" and ops: "reads R args vm dst d" "reads R args vm src s" "reads R args vm len n"
    and dec: "args_decode_op X dec args0 vm = Runs (ControlContinue ((k, j, dst, src, len), args), vm)"
  shows "(has_memory args vm k h m \<and> has_memory args vm j h m \<longrightarrow> exec_memory_copy X R dec args0 vm = Panics)
    \<and> (has_table args vm k g t \<and> has_table args vm j g t \<longrightarrow> exec_table_copy X R dec args0 vm = Panics)"
proof (intro conjI impI; elim conjE)
  note read = act_bind_reads [OF ops(1)] act_bind_reads [OF ops(2)] act_bind_reads [OF ops(3)]
  show "exec_memory_copy X R dec args0 vm = Panics" if m: "has_memory args vm k h m" "has_memory args vm j h m"
    using assms(1) has_entityD [OF m(1)]
    by (simp add: exec_memory_copy_def act_simps dec read act_bind_fetch [OF m(1)] act_bind_fetch [OF m(2)])
      (simp add: resolve_or_panic_def act_simps try_resolve_memory_pair_def try_resolve_pair_eq try_resolve_memory_def)
  show "exec_table_copy X R dec args0 vm = Panics" if t: "has_table args vm k g t" "has_table args vm j g t"
    using assms(1) has_entityD [OF t(1)]
    by (simp add: exec_table_copy_def act_simps dec read act_bind_fetch [OF t(1)] act_bind_fetch [OF t(2)])
      (simp add: resolve_or_panic_def act_simps try_resolve_table_pair_def try_resolve_pair_eq try_resolve_table_def)
qed

subsection \<open>Growing memories\<close>

lemma grow_memory_Ok:
  assumes "grow_memory alloc h d ps = (Ok old, ps')" "try_resolve_memory (ps_inner ps) h = Ok m" "memory_wf feature m"
  obtains m' where "grown_by (unat d) m m'" "old = memory_size m"
    "\<And>g. try_resolve_memory (ps_inner ps') g = (if g = h then Ok m' else try_resolve_memory (ps_inner ps) g)"
    "\<And>g. try_resolve_instance (ps_inner ps') g = try_resolve_instance (ps_inner ps) g"
proof -
  obtain m' fuel' lim' where grow: "memory_grow alloc m d (Some (si_fuel (ps_inner ps))) (ps_limiter ps) = (Ok old, m', fuel', lim')"
    and ps': "ps' = ps\<lparr>ps_inner := (put_memory h m' (ps_inner ps))\<lparr>si_fuel := the fuel'\<rparr>, ps_limiter := lim'\<rparr>"
    using assms(1,2) by (auto simp: grow_memory_def restore_def split: if_splits prod.splits res.splits elim: map_err.elims)
  have "grown_by (unat d) m m' \<and> old = memory_size m"
    using grow by (rule_tac memory_grow_cases [OF assms(3), of alloc d "Some (si_fuel (ps_inner ps))" "ps_limiter ps"]) auto
  then show ?thesis
    using resolve_put_memory [OF assms(2), of m'] ps'
    by (intro that) (auto simp: try_resolve_instance_def put_memory_def resolve_def unwrap_stored_def)
qed

lemma grown_by_size:
  assumes "grown_by n m m'" "n \<noteq> 0"
  shows "data_size m < data_size m'"
  using assms by (auto simp: grown_by_def word_less_nat_alt page_bytes_def)

text \<open>
  C4: a successful \<open>memory.grow\<close> returns the old size, and reloads the cached default memory, which then has
  the address and the size of the memory at index 0, also if another memory grew. The exception is an
  instance that has its default memory also at another index: growing it at that index leaves the cache
  with the old address and a size that is too small.
\<close>

theorem memory_grow_reloads_mem0:
  assumes dec: "args_decode_op X dec args0 vm = Runs (ControlContinue ((k, ToIreg, delta), args), vm)"
    and d: "reads R args vm delta d" and m: "has_memory args vm k h m" "memory_wf feature m"
    and m0: "has_memory args vm 0 h0 m0" "a_mem0 args = mem0_of ptr m0"
    and grow: "grow_memory alloc h d (vm_store vm) = (Ok old, store')"
  shows "\<exists>args' m0'. exec_memory_grow X R alloc ptr dangling dec args0 vm = Runs (ControlContinue args', vm\<lparr>vm_store := store'\<rparr>)
    \<and> a_ireg args' = memory_size m \<and> try_resolve_memory (ps_inner store') h0 = Ok m0'
    \<and> (if k = 0 \<or> h \<noteq> h0 then a_mem0 args' = mem0_of ptr m0'
       else a_mem0 args' = mem0_of ptr m0 \<and> (d \<noteq> 0 \<longrightarrow> m0_len (a_mem0 args') < data_size m0'))"
proof -
  let ?vm = "vm\<lparr>vm_store := store'\<rparr>"
  obtain m' where m': "grown_by (unat d) m m'" "old = memory_size m"
    "\<And>g. try_resolve_memory (ps_inner store') g = (if g = h then Ok m' else try_resolve_memory (vm_inner vm) g)"
    "\<And>g. try_resolve_instance (ps_inner store') g = try_resolve_instance (vm_inner vm) g"
    using grow_memory_Ok [OF grow has_entityD [OF m(1)] m(2)] by blast
  define m0' where "m0' = (if h0 = h then m' else m0)"
  have r0: "try_resolve_memory (ps_inner store') h0 = Ok m0'" using m'(3) has_entityD [OF m0(1)] by (simp add: m0'_def)
  have "exec_memory_grow X R alloc ptr dangling dec args0 vm
      = act_bind (if k = 0 then reload_mem0 ptr dangling args else act_return args) (\<lambda>args. set_value R ToIreg old args) ?vm"
    using grow by (simp add: exec_memory_grow_def act_simps dec act_bind_reads [OF d] act_bind_fetch [OF m(1)])
  moreover have "reload_mem0 ptr dangling args ?vm = Runs (ControlContinue (args\<lparr>a_mem0 := mem0_of ptr m0'\<rparr>), ?vm)"
    using m0(1) r0 m'(4)
    by (auto simp: reload_mem0_def extract_mem0_def act_simps resolve_unchecked_def has_entity_def act_bind_def split: res.splits)
  moreover have "h0 = h \<and> m0 = m" if "k = 0 \<or> h0 = h"
    using that has_entity_unique [OF m(1)] m0(1) has_entityD [OF m(1)] has_entityD [OF m0(1)] by auto
  moreover have "data_size m < data_size m'" if "d \<noteq> 0" using grown_by_size [OF m'(1)] that by (simp add: unat_eq_0)
  ultimately show ?thesis
    using r0 m'(2) m0(2)
    by (cases "k = 0") (auto simp: act_simps set_value_def m0'_def mem0_of_def)
qed

subsection \<open>A concrete execution\<close>

text \<open>An instance that has one memory and one table, each at the indices 0 and 1.\<close>

definition sample_instance :: instance_entity where
  "sample_instance = instance_uninitialized\<lparr>in_initialized := True, in_memories := [stored_wrap 0 0, stored_wrap 0 0],
     in_tables := [stored_wrap 0 0, stored_wrap 0 0], in_data_segments := [stored_wrap 0 0]\<rparr>"

definition sample_vm :: "(store_limits, trap_code, u16) vm_state" where
  "sample_vm = \<lparr>vm_store = \<lparr>ps_inner = example_store\<lparr>
       si_memories := \<lparr>ar_items = [example_memory], ar_capacity = 4\<rparr>, si_tables := \<lparr>ar_items = [example_table], ar_capacity = 4\<rparr>,
       si_instances := \<lparr>ar_items = [sample_instance], ar_capacity = 4\<rparr>,
       si_datas := \<lparr>ar_items = [data_passive [9, 8, 6]], ar_capacity = 4\<rparr>\<rparr>,
       ps_type_id = 0, ps_restore_id = 0, ps_limiter = None\<rparr>, vm_stack = stack_new stack_config_default, vm_done = None\<rparr>"

lemma sample_reads: "reads R args vm (Immediate v) v"
  by (simp add: reads_def get_value_def act_return_def)

lemma u32_position: "unat (into_usize u32_key k) = unat k"
  by (simp add: u32_key_def unsigned_ucast_eq take_bit_nat_eq_self unsigned_less)

lemmas sample_vm_simps = sample_vm_def example_store_def store_inner_new_def store_id_new_def sample_args_def sample_instance_def
  instance_uninitialized_def resolve_position stored_wrap_def u32_position
  try_resolve_instance_def try_resolve_memory_def try_resolve_table_def try_resolve_data_def
  get_memory_def get_table_def get_data_segment_def

lemma sample_entities:
  assumes "k < 2"
  shows "has_memory (sample_args code pos) sample_vm k (stored_wrap 0 0) example_memory"
    "has_table (sample_args code pos) sample_vm k (stored_wrap 0 0) example_table"
    "has_data (sample_args code pos) sample_vm 0 (stored_wrap 0 0) (data_passive [9, 8, 6])"
proof -
  have inst: "try_resolve_instance (vm_inner sample_vm) (a_instance (sample_args code pos)) = Ok sample_instance"
    by (simp add: sample_vm_simps)
  have "unat k < 2" using assms by (simp add: word_less_nat_alt)
  then have "unat k = 0 \<or> unat k = 1" by linarith
  then have "get_memory sample_instance k = Some (stored_wrap 0 0)" "get_table sample_instance k = Some (stored_wrap 0 0)"
    by (auto simp: sample_instance_def get_memory_def get_table_def)
  then show "has_memory (sample_args code pos) sample_vm k (stored_wrap 0 0) example_memory"
    "has_table (sample_args code pos) sample_vm k (stored_wrap 0 0) example_table"
    "has_data (sample_args code pos) sample_vm 0 (stored_wrap 0 0) (data_passive [9, 8, 6])"
    unfolding has_entity_def inst by (simp_all add: sample_vm_simps)
qed

lemma example_buffer_wf: "buffer_wf (mem_bytes example_memory)"
  using example_memory_wf by (simp add: memory_wf_def)

theorem memory_copy_effect_witness:
  "bulk_effect (a_ip (sample_args [0, 0] 0)) (sample_args [0, 0] 2) (stored_wrap 0 0) example_memory 1 3 (Some (replicate 3 7)) sample_vm
     (exec_memory_copy sample_config slot16 (\<lambda>bs. (Ok (0, 0, Immediate 1, Immediate 0, Immediate 3), bs)) (sample_args [0, 0] 0) sample_vm)"
proof -
  have "slice_at (memory_data example_memory) (0 :: u64) (3 :: u64) = Some (replicate 3 7)"
    by (simp add: slice_at_def memory_data_def buffer_data_def example_memory_def)
  then show ?thesis
    using memory_copy_effect [OF sample_decode sample_reads sample_reads sample_reads sample_entities(1) sample_entities(1) example_buffer_wf,
        where k = 0 and j = 0 and s = 0 and n = 3 and d = 1 and R = slot16] by simp
qed

theorem memory_fill_init_effect_witness:
  "bulk_effect (a_ip (sample_args [0, 0] 0)) (sample_args [0, 0] 2) (stored_wrap 0 0) example_memory 1 3 (Some (replicate 3 5)) sample_vm
      (exec_memory_fill sample_config slot16 (\<lambda>bs. (Ok (1, Immediate 1, Immediate 3, Immediate 5), bs)) (sample_args [0, 0] 0) sample_vm)
    \<and> bulk_effect (a_ip (sample_args [0, 0] 0)) (sample_args [0, 0] 2) (stored_wrap 0 0) example_memory 1 2 (Some [8, 6]) sample_vm
      (exec_memory_init sample_config slot16 (\<lambda>bs. (Ok (1, 0, Immediate 1, Immediate 1, Immediate 2), bs)) (sample_args [0, 0] 0) sample_vm)"
proof -
  have "slice_at (data_bytes (data_passive [9, 8, 6])) (1 :: u32) (2 :: u32) = Some [8, 6]"
    by (simp add: slice_at_def data_bytes_def data_passive_def)
  then show ?thesis
    using memory_fill_init_effect [OF example_buffer_wf sample_entities(1) [of 1 "[0, 0]" 2] sample_reads,
        where d = 1 and R = slot16 and n = 3 and v = 5 and ?n' = 2 and s = 1
          and len = "Immediate 3" and val = "Immediate 5" and j = 0 and src = "Immediate 1" and ?len' = "Immediate 2"
          and X = sample_config and ?args0.0 = "sample_args [0, 0] 0"
          and fill = "\<lambda>bs. (Ok (1, Immediate 1, Immediate 3, Immediate 5), bs)"
          and init = "\<lambda>bs. (Ok (1, 0, Immediate 1, Immediate 1, Immediate 2), bs)"
          and g = "stored_wrap 0 0" and segment = "data_passive [9, 8, 6]"]
      sample_entities(3) [of 0]
    by (simp add: sample_decode sample_reads)
qed

theorem copy_between_aliases_panics_witness:
  "exec_memory_copy sample_config slot16 (\<lambda>bs. (Ok (0, 1, Immediate 1, Immediate 0, Immediate 2), bs)) (sample_args [0, 0] 0) sample_vm = Panics
    \<and> exec_table_copy sample_config slot16 (\<lambda>bs. (Ok (0, 1, Immediate 1, Immediate 0, Immediate 2), bs)) (sample_args [0, 0] 0) sample_vm = Panics"
  using copy_between_aliases_panics [OF _ sample_reads sample_reads sample_reads sample_decode,
      where k = 0 and j = 1 and d = 1 and s = 0 and n = 2 and R = slot16 and vm = sample_vm
      and h = "stored_wrap 0 0" and m = example_memory and g = "stored_wrap 0 0" and t = example_table]
    sample_entities [of 0] sample_entities [of 1] by simp

lemma example_memory_grows:
  "fst (memory_grow (\<lambda>_. True) example_memory 2 (Some (fuel_new False \<lparr>custom = None\<rparr>)) (None :: store_limits limiter_ref)) = Ok 4"
  by (simp add: memory_grow_def example_memory_def size_in_bytes_def max_size_in_bytes_def memory_size_def shr_def checked_add_def
        checked_mul_def page_size_def shl_def absolute_max_def max_size_based_on_index_type_def mt_is_64_def try_from_def ask_memory_growing_def as_resource_limiter_def
        memory_grow_allowed_def consume_fuel_if_def fuel_new_def is_fuel_metering_enabled_def memory_grow_charged_def buffer_grow_def
        get_vec_def grow_vec_def buffer_data_def try_reserve_def Let_def)

lemma grow_example_memory:
  assumes "try_resolve_memory (ps_inner ps) h = Ok example_memory" "restore ps = Ok ()" "ps_limiter ps = None"
    and "si_fuel (ps_inner ps) = fuel_new False \<lparr>custom = None\<rparr>"
  shows "fst (grow_memory (\<lambda>_. True) h 2 (ps :: store_limits pruned_store)) = Ok 4"
  using example_memory_grows assms by (auto simp: grow_memory_def split: prod.splits)

lemma sample_vm_grows: "\<exists>store'. grow_memory (\<lambda>_. True) (stored_wrap 0 0) 2 (vm_store sample_vm) = (Ok 4, store')"
  using grow_example_memory [OF has_entityD [OF sample_entities(1) [of 0 "[]" 0]]]
  by (cases "grow_memory (\<lambda>_. True) (stored_wrap 0 0) 2 (vm_store sample_vm)")
    (simp add: sample_vm_def restore_def example_store_def store_inner_new_def store_id_new_def)

theorem memory_grow_reloads_mem0_witness:
  "\<exists>args' store' m0'. exec_memory_grow sample_config slot16 (\<lambda>_. True) (\<lambda>m. bb_capacity (mem_bytes m)) 1
      (\<lambda>bs. (Ok (1, ToIreg, Immediate 2), bs)) (sample_args [0, 0] 0) sample_vm
      = Runs (ControlContinue args', sample_vm\<lparr>vm_store := store'\<rparr>)
    \<and> a_ireg args' = 4 \<and> try_resolve_memory (ps_inner store') (stored_wrap 0 0) = Ok m0' \<and> m0_len (a_mem0 args') < data_size m0'"
proof -
  show ?thesis
    using sample_vm_grows memory_grow_reloads_mem0 [OF sample_decode sample_reads sample_entities(1) example_memory_wf sample_entities(1),
        where k = 1 and d = 2 and R = slot16 and ptr = "\<lambda>m. bb_capacity (mem_bytes m)" and dangling = 1 and alloc = "\<lambda>_. True" and old = 4]
    by (fastforce simp: sample_args_def mem0_of_def example_memory_def data_size_def memory_size_def shr_def)
qed
end
