(* ===== verification/Exec_Calls.thy ===== *)
theory Exec_Calls
  imports Exec_Bulk Code_Map
begin

section \<open>Calls and returns (executor/handler/utils.rs, args.rs, exec.rs)\<close>

text \<open>
  The handlers that call and return, with lazy compilation, host functions and the cached default
  memory. A running execution also has the code map of the engine and its view of it. Parameters are
  the translator, the address of a function entry that a direct call holds, the trampolines of host
  functions, which may change the store and the code map in any way, and the call hook.
\<close>

record ('l, 'err, 's, 'm, 'v, 'f) call_state = "('l, 'err, 's) vm_state" +
  vm_code_map :: "('m, 'v, 'f) code_map"
  vm_view :: code_view

datatype call_hook = CallingWasm | ReturningFromWasm | CallingHost | ReturningFromHost

datatype call_hooks = HooksCall | HooksIgnore

record ('l, 'err, 's, 'm, 'v, 'f, 'e) call_env =
  cl_repr :: "'s slot_repr"
  cl_alloc :: allocator
  cl_stale :: "nat \<Rightarrow> cell"
  cl_compile :: "('m, 'v, 'f, 'e) compile_env"
  cl_error :: "'e compile_error \<Rightarrow> 'err"
  cl_entry_at :: "usize \<Rightarrow> engine_func"
  cl_mem_ptr :: "memory \<Rightarrow> usize"
  cl_dangling :: usize
  cl_hook :: "call_hook \<Rightarrow> 'l pruned_store \<times> ('m, 'v, 'f) code_map \<Rightarrow> ('err, unit) res \<times> 'l pruned_store \<times> ('m, 'v, 'f) code_map"
  cl_trampoline :: "usize stored \<Rightarrow> handle option \<Rightarrow> inout_params \<Rightarrow> 'l pruned_store \<times> ('m, 'v, 'f) code_map
    \<Rightarrow> ('err store_error, unit) res \<times> cell list \<times> 'l pruned_store \<times> ('m, 'v, 'f) code_map"

subsection \<open>Compilation on demand\<close>

definition update_fuel :: "fuel option \<Rightarrow> (('l, 'err, 's, 'z) vm_state_scheme, unit) action" where
  "update_fuel fuel = update_inner (\<lambda>s. s\<lparr>si_fuel := the fuel\<rparr>)"

definition compiled_parts :: "compiled_ref \<Rightarrow> ip \<times> u16 \<times> u16" where
  "compiled_parts c = (ip_from (cr_ops c), cr_len_local_slots c, cr_len_stack_slots c)"

text \<open>\<open>compile_or_get_func_entry\<close> on the entry of a function, which the view of the execution does not limit.\<close>

definition compile_or_get_func_entry ::
  "('l, 'err, 'w::len word, 'm, 'v, 'f, 'e, 'x) call_env_scheme \<Rightarrow> engine_func
   \<Rightarrow> (('l, 'err, 's, 'm, 'v, 'f, 'z) call_state_scheme, ip \<times> u16 \<times> u16) action" where
  "compile_or_get_func_entry E func vm =
     (let cm = vm_code_map vm in
      case funcs_get (cm_funcs cm) func of
        Ok (Some entry) \<Rightarrow>
          (case entry_get_or_compile ((cl_compile E)\<lparr>ce_features := cm_features cm\<rparr>) (Some (si_fuel (vm_inner vm))) entry of
             None \<Rightarrow> Diverges
           | Some (r, fuel', entry') \<Rightarrow>
               act_bind (update_fuel fuel') (\<lambda>_.
               act_bind (act_modify (\<lambda>vm. vm\<lparr>vm_code_map := cm\<lparr>cm_funcs := funcs_put (cm_funcs cm) func entry'\<rparr>\<rparr>)) (\<lambda>_.
                 case r of
                   Ok c \<Rightarrow> act_return (compiled_parts c)
                 | Err e \<Rightarrow> done_with (DoneError (cl_error E e))
                 | Panic \<Rightarrow> act_panic)) vm)
      | _ \<Rightarrow> Undefined)"

definition compile_or_get_func ::
  "('l, 'err, 'w::len word, 'm, 'v, 'f, 'e, 'x) call_env_scheme \<Rightarrow> engine_func
   \<Rightarrow> (('l, 'err, 's, 'm, 'v, 'f, 'z) call_state_scheme, ip \<times> u16 \<times> u16) action" where
  "compile_or_get_func E func vm =
     (case view_entry (vm_code_map vm) (vm_view vm) func of
        Ok (Some _) \<Rightarrow> compile_or_get_func_entry E func vm
      | _ \<Rightarrow> Panics)"

subsection \<open>Wasm functions\<close>

definition call_frame ::
  "('l, 'err, 'w::len word, 'm, 'v, 'f, 'e, 'x) call_env_scheme \<Rightarrow> ip \<Rightarrow> 'w word bounded_slot_span \<Rightarrow> handle option \<Rightarrow> ip \<times> u16 \<times> u16
   \<Rightarrow> (('l, 'err, 's, 'm, 'v, 'f, 'z) call_state_scheme, ip \<times> sp) action" where
  "call_frame E caller_ip params instance callee =
     (case callee of (callee_ip, len_local_slots, len_stack_slots) \<Rightarrow>
      act_bind (act_get (\<lambda>vm. push_frame (cl_repr E) (cl_alloc E) (cl_stale E) (Some caller_ip) callee_ip params
                               len_local_slots len_stack_slots instance (vm_stack vm))) (\<lambda>(r, st).
      act_bind (act_modify (\<lambda>vm. vm\<lparr>vm_stack := st\<rparr>)) (\<lambda>_.
      act_bind (into_control r) (\<lambda>callee_sp. act_return (callee_ip, callee_sp)))))"

definition call_func_entry ::
  "('l, 'err, 'w::len word, 'm, 'v, 'f, 'e, 'x) call_env_scheme \<Rightarrow> ip \<Rightarrow> 'w word bounded_slot_span \<Rightarrow> engine_func \<Rightarrow> handle option
   \<Rightarrow> (('l, 'err, 's, 'm, 'v, 'f, 'z) call_state_scheme, ip \<times> sp) action" where
  "call_func_entry E caller_ip params func instance =
     act_bind (compile_or_get_func_entry E func) (call_frame E caller_ip params instance)"

definition call_wasm ::
  "('l, 'err, 'w::len word, 'm, 'v, 'f, 'e, 'x) call_env_scheme \<Rightarrow> ip \<Rightarrow> 'w word bounded_slot_span \<Rightarrow> engine_func \<Rightarrow> handle option
   \<Rightarrow> (('l, 'err, 's, 'm, 'v, 'f, 'z) call_state_scheme, ip \<times> sp) action" where
  "call_wasm E caller_ip params func instance =
     act_bind (compile_or_get_func E func) (call_frame E caller_ip params instance)"

definition return_call_frame ::
  "('l, 'err, 'w::len word, 'm, 'v, 'f, 'e, 'x) call_env_scheme \<Rightarrow> 'w word bounded_slot_span \<Rightarrow> handle option \<Rightarrow> ip \<times> u16 \<times> u16
   \<Rightarrow> (('l, 'err, 's, 'm, 'v, 'f, 'z) call_state_scheme, ip \<times> sp) action" where
  "return_call_frame E params instance callee =
     (case callee of (callee_ip, len_local_slots, len_stack_slots) \<Rightarrow>
      act_bind (act_get (\<lambda>vm. replace_frame (cl_repr E) (cl_alloc E) (cl_stale E) callee_ip params
                               len_local_slots len_stack_slots instance (vm_stack vm))) (\<lambda>(r, st).
      act_bind (act_modify (\<lambda>vm. vm\<lparr>vm_stack := st\<rparr>)) (\<lambda>_.
      act_bind (into_control r) (\<lambda>callee_sp. act_return (callee_ip, callee_sp)))))"

definition return_call_func_entry ::
  "('l, 'err, 'w::len word, 'm, 'v, 'f, 'e, 'x) call_env_scheme \<Rightarrow> 'w word bounded_slot_span \<Rightarrow> engine_func \<Rightarrow> handle option
   \<Rightarrow> (('l, 'err, 's, 'm, 'v, 'f, 'z) call_state_scheme, ip \<times> sp) action" where
  "return_call_func_entry E params func instance =
     act_bind (compile_or_get_func_entry E func) (return_call_frame E params instance)"

definition return_call_wasm ::
  "('l, 'err, 'w::len word, 'm, 'v, 'f, 'e, 'x) call_env_scheme \<Rightarrow> 'w word bounded_slot_span \<Rightarrow> engine_func \<Rightarrow> handle option
   \<Rightarrow> (('l, 'err, 's, 'm, 'v, 'f, 'z) call_state_scheme, ip \<times> sp) action" where
  "return_call_wasm E params func instance =
     act_bind (compile_or_get_func E func) (return_call_frame E params instance)"

subsection \<open>Host functions (utils.rs, store/pruned.rs)\<close>

text \<open>The slice of cells that a host function gets keeps its length.\<close>

definition inout_cells :: "inout_params \<Rightarrow> cell list \<Rightarrow> cell list" where
  "inout_cells io cells = take (length (io_cells io)) cells @ drop (length cells) (io_cells io)"

definition call_host_func ::
  "('l, 'err, 's, 'm, 'v, 'f, 'e, 'x) call_env_scheme \<Rightarrow> usize stored \<Rightarrow> handle option \<Rightarrow> inout_params \<Rightarrow> call_hooks
   \<Rightarrow> 'l pruned_store \<times> ('m, 'v, 'f) code_map
   \<Rightarrow> ('err store_error, unit) res \<times> cell list \<times> 'l pruned_store \<times> ('m, 'v, 'f) code_map" where
  "call_host_func E trampoline instance inout hooks world =
     (case restore (fst world) of
        Err e \<Rightarrow> (Err (Internal e), io_cells inout, world)
      | Panic \<Rightarrow> (Panic, io_cells inout, world)
      | Ok _ \<Rightarrow>
          (case (if hooks = HooksCall then cl_hook E CallingHost world else (Ok (), world)) of
             (Err e, world1) \<Rightarrow> (Err (External e), io_cells inout, world1)
           | (Panic, world1) \<Rightarrow> (Panic, io_cells inout, world1)
           | (Ok _, world1) \<Rightarrow>
               (case cl_trampoline E trampoline instance inout world1 of
                  (Ok _, cells, world2) \<Rightarrow>
                    (case (if hooks = HooksCall then cl_hook E ReturningFromHost world2 else (Ok (), world2)) of
                       (r, world3) \<Rightarrow> (map_err External r, inout_cells inout cells, world3))
                | (r, cells, world2) \<Rightarrow> (r, inout_cells inout cells, world2))))"

definition set_world ::
  "inout_params \<Rightarrow> cell list \<Rightarrow> 'l pruned_store \<times> ('m, 'v, 'f) code_map
   \<Rightarrow> ('l, 'err, 's, 'm, 'v, 'f, 'z) call_state_scheme \<Rightarrow> ('l, 'err, 's, 'm, 'v, 'f, 'z) call_state_scheme" where
  "set_world inout cells world vm =
     (let vs = st_values (vm_stack vm) in
      vm\<lparr>vm_store := fst world, vm_code_map := snd world,
        vm_stack := (vm_stack vm)\<lparr>st_values := vs\<lparr>vs_cells := overwrite (vs_cells vs) (unat (io_start inout)) cells\<rparr>\<rparr>\<rparr>)"

definition refresh_view :: "(('l, 'err, 's, 'm, 'v, 'f, 'z) call_state_scheme, unit) action" where
  "refresh_view = act_modify (\<lambda>vm. vm\<lparr>vm_view := view_refresh (vm_code_map vm) (vm_view vm)\<rparr>)"

definition call_host ::
  "('l, 'err, 'w::len word, 'm, 'v, 'f, 'e, 'x) call_env_scheme \<Rightarrow> handle \<Rightarrow> ip option \<Rightarrow> host_func \<Rightarrow> 'w word bounded_slot_span \<Rightarrow> handle option \<Rightarrow> call_hooks
   \<Rightarrow> (('l, 'err, 'w word, 'm, 'v, 'f, 'z) call_state_scheme, sp) action" where
  "call_host E func caller_ip host params instance hooks =
     act_bind (act_get (\<lambda>vm. prepare_host_frame (cl_repr E) (cl_alloc E) (cl_stale E) caller_ip params
                              (hf_len_result_cells host) (vm_stack vm))) (\<lambda>(r, st).
     act_bind (act_modify (\<lambda>vm. vm\<lparr>vm_stack := st\<rparr>)) (\<lambda>_.
     act_bind (into_control r) (\<lambda>(sp, inout).
     act_bind (act_get (\<lambda>vm. call_host_func E (hf_trampoline host) instance inout hooks (vm_store vm, vm_code_map vm))) (\<lambda>(r, cells, world).
     act_bind (act_modify (set_world inout cells world)) (\<lambda>_.
       case r of
         Ok _ \<Rightarrow> act_bind refresh_view (\<lambda>_. act_return sp)
       | Err (External e) \<Rightarrow> done_with (DoneHost e func (bs_span params))
       | Err (Internal _) \<Rightarrow> act_undefined
       | Panic \<Rightarrow> act_panic)))))"

text \<open>A host function that is called in tail position of the outermost function cannot be resumed.\<close>

definition return_call_host_func ::
  "('l, 'err, 'w::len word, 'm, 'v, 'f, 'e, 'x) call_env_scheme \<Rightarrow> handle \<Rightarrow> host_func \<Rightarrow> 'w word bounded_slot_span \<Rightarrow> handle
   \<Rightarrow> (('l, 'err, 'w word, 'm, 'v, 'f, 'z) call_state_scheme, ip \<times> sp \<times> handle) action" where
  "return_call_host_func E func host params instance =
     act_bind (act_get (\<lambda>vm. return_prepare_host_frame (cl_repr E) (cl_alloc E) (cl_stale E) params
                              (hf_len_result_cells host) instance (vm_stack vm))) (\<lambda>(r, st).
     act_bind (act_modify (\<lambda>vm. vm\<lparr>vm_stack := st\<rparr>)) (\<lambda>_.
     act_bind (into_control r) (\<lambda>(control, inout).
     act_bind (act_get (\<lambda>vm. call_host_func E (hf_trampoline host) (Some instance) inout HooksCall (vm_store vm, vm_code_map vm))) (\<lambda>(r, cells, world).
     act_bind (act_modify (set_world inout cells world)) (\<lambda>_.
       case r of
         Ok _ \<Rightarrow>
           act_bind refresh_view (\<lambda>_.
             case control of
               Continue ip sp inst \<Rightarrow> act_return (ip, sp, inst)
             | Break sp \<Rightarrow> done_with (DoneReturn sp))
       | Err (External e) \<Rightarrow>
           (case control of
              Continue _ _ _ \<Rightarrow> done_with (DoneHost e func (bs_span params))
            | Break _ \<Rightarrow> done_with (DoneError e))
       | Err (Internal _) \<Rightarrow> act_undefined
       | Panic \<Rightarrow> act_panic)))))"

subsection \<open>Functions of either kind\<close>

definition resolve_indirect_func ::
  "'w::len word slot_repr \<Rightarrow> ('w word, u64) operand \<Rightarrow> u32 \<Rightarrow> u32 \<Rightarrow> args \<Rightarrow> (('l, 'err, 's, 'z) vm_state_scheme, handle) action" where
  "resolve_indirect_func R index table func_type args =
     act_bind (get_value R args index) (\<lambda>index.
     act_bind (fetch get_table args table) (\<lambda>h.
     act_bind (resolve_unchecked try_resolve_table h) (\<lambda>t.
     act_bind (into_control (ok_or TrapTableOutOfBounds (table_get t index))) (\<lambda>rawref.
     act_bind (act_get (\<lambda>vm. nullable_from_raw_parts (tr_raw rawref) (si_id (vm_inner vm)))) (\<lambda>funcref.
       case funcref of
         NNull \<Rightarrow> act_trap TrapIndirectCallToNull
       | NVal func \<Rightarrow>
           act_bind (resolve_unchecked try_resolve_func func) (\<lambda>entity.
           act_bind (fetch get_signature args func_type) (\<lambda>expected.
             if expected \<noteq> ty_dedup entity then act_trap TrapBadSignature else act_return func)))))))"

definition update_instance ::
  "('l, 'err, 's, 'm, 'v, 'f, 'e, 'x) call_env_scheme \<Rightarrow> handle \<Rightarrow> handle \<Rightarrow> mem0 \<Rightarrow> (('l, 'err, 's, 'z) vm_state_scheme, handle \<times> mem0) action" where
  "update_instance E instance new_instance mem0 =
     (if new_instance = instance then act_return (instance, mem0)
      else act_bind (extract_mem0 (cl_mem_ptr E) (cl_dangling E) new_instance) (\<lambda>mem0. act_return (new_instance, mem0)))"

text \<open>After a host function the default memory is extracted again: it may have grown.\<close>

definition call_wasm_or_host ::
  "('l, 'err, 'w::len word, 'm, 'v, 'f, 'e, 'x) call_env_scheme \<Rightarrow> handle \<Rightarrow> 'w word bounded_slot_span \<Rightarrow> args
   \<Rightarrow> (('l, 'err, 'w word, 'm, 'v, 'f, 'z) call_state_scheme, args) action" where
  "call_wasm_or_host E func params args =
     act_bind (resolve_unchecked try_resolve_func func) (\<lambda>entity.
       case entity of
         WasmFunc f \<Rightarrow>
           act_bind (resolve_unchecked try_resolve_instance (wf_instance f)) (\<lambda>_.
           act_bind (call_wasm E (a_ip args) params (wf_body f) (Some (wf_instance f))) (\<lambda>(callee_ip, callee_sp).
           act_bind (update_instance E (a_instance args) (wf_instance f) (a_mem0 args)) (\<lambda>(inst, mem0).
             act_return (args\<lparr>a_ip := callee_ip, a_sp := callee_sp, a_mem0 := mem0, a_instance := inst\<rparr>))))
       | HostFunc host \<Rightarrow>
           act_bind (call_host E func (Some (a_ip args)) host params (Some (a_instance args)) HooksCall) (\<lambda>sp.
           act_bind (extract_mem0 (cl_mem_ptr E) (cl_dangling E) (a_instance args)) (\<lambda>mem0.
             act_return (args\<lparr>a_sp := sp, a_mem0 := mem0\<rparr>))))"

definition return_call_wasm_or_host ::
  "('l, 'err, 'w::len word, 'm, 'v, 'f, 'e, 'x) call_env_scheme \<Rightarrow> handle \<Rightarrow> 'w word bounded_slot_span \<Rightarrow> args
   \<Rightarrow> (('l, 'err, 'w word, 'm, 'v, 'f, 'z) call_state_scheme, args) action" where
  "return_call_wasm_or_host E func params args =
     act_bind (resolve_unchecked try_resolve_func func) (\<lambda>entity.
     act_bind
       (case entity of
          WasmFunc f \<Rightarrow>
            act_bind (resolve_unchecked try_resolve_instance (wf_instance f)) (\<lambda>_.
            let changed_instance = (if wf_instance f \<noteq> a_instance args then Some (wf_instance f) else None) in
            act_bind (return_call_wasm E params (wf_body f) changed_instance) (\<lambda>(callee_ip, callee_sp).
              act_return (callee_ip, callee_sp, wf_instance f)))
        | HostFunc host \<Rightarrow> return_call_host_func E func host params (a_instance args)) (\<lambda>(callee_ip, sp, new_instance).
     act_bind (update_instance E (a_instance args) new_instance (a_mem0 args)) (\<lambda>(inst, mem0).
       act_return (args\<lparr>a_ip := callee_ip, a_sp := sp, a_mem0 := mem0, a_instance := inst\<rparr>))))"

subsection \<open>Handlers (exec.rs)\<close>

definition exec_call_internal ::
  "exec_config \<Rightarrow> ('l, 'err, 'w::len word, 'm, 'v, 'f, 'e, 'x) call_env_scheme \<Rightarrow> ('w word bounded_slot_span \<times> usize) decode \<Rightarrow> args
   \<Rightarrow> (('l, 'err, 'w word, 'm, 'v, 'f, 'z) call_state_scheme, args) action" where
  "exec_call_internal X E dec args =
     act_bind (args_decode_op X dec args) (\<lambda>((params, addr), args).
     act_bind (call_func_entry E (a_ip args) params (cl_entry_at E addr) None) (\<lambda>(ip, sp).
       act_return (args\<lparr>a_ip := ip, a_sp := sp\<rparr>)))"

definition exec_call_imported ::
  "exec_config \<Rightarrow> ('l, 'err, 'w::len word, 'm, 'v, 'f, 'e, 'x) call_env_scheme \<Rightarrow> ('w word bounded_slot_span \<times> u32) decode \<Rightarrow> args
   \<Rightarrow> (('l, 'err, 'w word, 'm, 'v, 'f, 'z) call_state_scheme, args) action" where
  "exec_call_imported X E dec args =
     act_bind (args_decode_op X dec args) (\<lambda>((params, index), args).
     act_bind (fetch get_func args index) (\<lambda>func.
       call_wasm_or_host E func params args))"

definition exec_call_indirect ::
  "exec_config \<Rightarrow> ('l, 'err, 'w::len word, 'm, 'v, 'f, 'e, 'x) call_env_scheme
   \<Rightarrow> (u32 \<times> u32 \<times> 'w word bounded_slot_span \<times> ('w word, u64) operand) decode \<Rightarrow> args
   \<Rightarrow> (('l, 'err, 'w word, 'm, 'v, 'f, 'z) call_state_scheme, args) action" where
  "exec_call_indirect X E dec args =
     act_bind (args_decode_op X dec args) (\<lambda>((table, func_type, params, index), args).
     act_bind (resolve_indirect_func (cl_repr E) index table func_type args) (\<lambda>func.
       call_wasm_or_host E func params args))"

definition exec_return_call_internal ::
  "exec_config \<Rightarrow> ('l, 'err, 'w::len word, 'm, 'v, 'f, 'e, 'x) call_env_scheme \<Rightarrow> ('w word bounded_slot_span \<times> usize) decode \<Rightarrow> args
   \<Rightarrow> (('l, 'err, 'w word, 'm, 'v, 'f, 'z) call_state_scheme, args) action" where
  "exec_return_call_internal X E dec args =
     act_bind (args_decode_op X dec args) (\<lambda>((params, addr), args).
     act_bind (return_call_func_entry E params (cl_entry_at E addr) None) (\<lambda>(ip, sp).
       act_return (args\<lparr>a_ip := ip, a_sp := sp\<rparr>)))"

definition exec_return_call_imported ::
  "exec_config \<Rightarrow> ('l, 'err, 'w::len word, 'm, 'v, 'f, 'e, 'x) call_env_scheme \<Rightarrow> ('w word bounded_slot_span \<times> u32) decode \<Rightarrow> args
   \<Rightarrow> (('l, 'err, 'w word, 'm, 'v, 'f, 'z) call_state_scheme, args) action" where
  "exec_return_call_imported X E dec args =
     act_bind (args_decode_op X dec args) (\<lambda>((params, index), args).
     act_bind (fetch get_func args index) (\<lambda>func.
       return_call_wasm_or_host E func params args))"

definition exec_return_call_indirect ::
  "exec_config \<Rightarrow> ('l, 'err, 'w::len word, 'm, 'v, 'f, 'e, 'x) call_env_scheme
   \<Rightarrow> (u32 \<times> u32 \<times> 'w word bounded_slot_span \<times> ('w word, u64) operand) decode \<Rightarrow> args
   \<Rightarrow> (('l, 'err, 'w word, 'm, 'v, 'f, 'z) call_state_scheme, args) action" where
  "exec_return_call_indirect X E dec args =
     act_bind (args_decode_op X dec args) (\<lambda>((table, func_type, params, index), args).
     act_bind (resolve_indirect_func (cl_repr E) index table func_type args) (\<lambda>func.
       return_call_wasm_or_host E func params args))"

text \<open>
  \<open>Args::pop_frame\<close>: the frame says whether the instance changes; only then the default memory is
  extracted again.
\<close>

definition exec_return ::
  "('l, 'err, 's, 'm, 'v, 'f, 'e, 'x) call_env_scheme \<Rightarrow> args \<Rightarrow> (('l, 'err, 's, 'm, 'v, 'f, 'z) call_state_scheme, args) action" where
  "exec_return E args =
     act_bind (act_get (\<lambda>vm. pop_frame Some None (a_instance args) (vm_stack vm))) (\<lambda>(r, st).
     act_bind (act_modify (\<lambda>vm. vm\<lparr>vm_stack := st\<rparr>)) (\<lambda>_.
     act_bind (into_control r) (\<lambda>popped.
       case popped of
         None \<Rightarrow> done_with (DoneReturn (a_sp args))
       | Some (ip, sp, changed_instance, inst) \<Rightarrow>
           act_bind (case changed_instance of
                       Some i \<Rightarrow> extract_mem0 (cl_mem_ptr E) (cl_dangling E) i
                     | None \<Rightarrow> act_return (a_mem0 args)) (\<lambda>mem0.
             act_return (args\<lparr>a_ip := ip, a_sp := sp, a_mem0 := mem0, a_instance := inst\<rparr>)))))"

subsection \<open>The invariant of a running function\<close>

text \<open>
  The cached default memory is the one of the current instance, and the current instance is the one
  of the running activation.
\<close>

definition acts :: "('l, 'err, 's, 'z) vm_state_scheme \<Rightarrow> (ip, handle) activation list" where
  "acts vm = activations (st_frames (vm_stack vm))"

definition mem0_coherent :: "('l, 'err, 's, 'm, 'v, 'f, 'e, 'x) call_env_scheme \<Rightarrow> args \<Rightarrow> ('l, 'err, 's, 'z) vm_state_scheme \<Rightarrow> bool" where
  "mem0_coherent E args vm =
     (extract_mem0 (cl_mem_ptr E) (cl_dangling E) (a_instance args) vm = Runs (ControlContinue (a_mem0 args), vm))"

definition running :: "('l, 'err, 's, 'm, 'v, 'f, 'e, 'x) call_env_scheme \<Rightarrow> args \<Rightarrow> ('l, 'err, 's, 'z) vm_state_scheme \<Rightarrow> bool" where
  "running E args vm = (mem0_coherent E args vm \<and> instance_of (acts vm) = Some (a_instance args))"

lemma act_bind_Continue:
  assumes "act_bind m k vm = Runs (ControlContinue y, vm2)"
  obtains x vm1 where "m vm = Runs (ControlContinue x, vm1)" "k x vm1 = Runs (ControlContinue y, vm2)"
  using assms by (auto simp: act_bind_def split: exec.splits prod.splits control.splits)

text \<open>What \<open>extract_mem0\<close> depends on.\<close>

definition memory_part :: "store_inner \<Rightarrow> store_id \<times> instance_entity arena \<times> memory arena" where
  "memory_part s = (si_id s, si_instances s, si_memories s)"

lemma memory_part_cong:
  "memory_part s = memory_part s' \<Longrightarrow> try_resolve_instance s = try_resolve_instance s' \<and> try_resolve_memory s = try_resolve_memory s'"
  by (simp add: memory_part_def try_resolve_instance_def try_resolve_memory_def resolve_def unwrap_stored_def fun_eq_iff)

lemma memory_part_fuel [simp]: "memory_part (s\<lparr>si_fuel := f\<rparr>) = memory_part s"
  by (simp add: memory_part_def)

lemma extract_mem0_Runs:
  assumes "extract_mem0 p d i vm = Runs (c, vm1)"
  shows "vm1 = vm" "memory_part (vm_inner vm') = memory_part (vm_inner vm) \<Longrightarrow> extract_mem0 p d i vm' = Runs (c, vm')"
proof -
  have "vm1 = vm \<and> (memory_part (vm_inner vm') = memory_part (vm_inner vm) \<longrightarrow> extract_mem0 p d i vm' = Runs (c, vm'))"
    using assms memory_part_cong [of "vm_inner vm'" "vm_inner vm"]
    by (auto simp: extract_mem0_def act_bind_def resolve_unchecked_def act_simps split: res.splits option.splits)
  then show "vm1 = vm" "memory_part (vm_inner vm') = memory_part (vm_inner vm) \<Longrightarrow> extract_mem0 p d i vm' = Runs (c, vm')"
    by blast+
qed

lemma coherent_cong:
  assumes "mem0_coherent E args vm" "memory_part (vm_inner vm') = memory_part (vm_inner vm)"
    and "a_instance args' = a_instance args" "a_mem0 args' = a_mem0 args"
  shows "mem0_coherent E args' vm'"
  using assms extract_mem0_Runs(2) [OF _ assms(2)] by (simp add: mem0_coherent_def)

lemma update_instance_coherent:
  assumes "update_instance E i new mem0 vm = Runs (ControlContinue (j, mem0'), vm')"
    and "mem0_coherent E (args\<lparr>a_instance := i, a_mem0 := mem0\<rparr>) vm"
  shows "vm' = vm \<and> j = new \<and> mem0_coherent E (args'\<lparr>a_instance := j, a_mem0 := mem0'\<rparr>) vm"
proof (cases "new = i")
  case True
  then show ?thesis using assms by (simp add: update_instance_def act_simps mem0_coherent_def)
next
  case False
  then obtain m vm1 where x: "extract_mem0 (cl_mem_ptr E) (cl_dangling E) new vm = Runs (ControlContinue m, vm1)"
    and "j = new" "mem0' = m" "vm' = vm1"
    using assms(1) by (auto simp: update_instance_def act_simps elim!: act_bind_Continue)
  then show ?thesis using extract_mem0_Runs(1) [OF x] by (simp add: mem0_coherent_def)
qed

lemma compile_entry_Runs:
  assumes "compile_or_get_func_entry E func vm = Runs (ControlContinue c, vm')"
  shows "memory_part (vm_inner vm') = memory_part (vm_inner vm)" "vm_stack vm' = vm_stack vm"
proof -
  have "memory_part (vm_inner vm') = memory_part (vm_inner vm) \<and> vm_stack vm' = vm_stack vm"
    using assms by (auto simp: compile_or_get_func_entry_def Let_def update_fuel_def update_inner_def act_simps done_with_def set_inner_def
        split: res.splits option.splits if_splits)
  then show "memory_part (vm_inner vm') = memory_part (vm_inner vm)" "vm_stack vm' = vm_stack vm" by blast+
qed

lemma compile_Runs:
  assumes "compile_or_get_func E func vm = Runs (ControlContinue c, vm')"
  shows "memory_part (vm_inner vm') = memory_part (vm_inner vm)" "vm_stack vm' = vm_stack vm"
  using assms compile_entry_Runs [of E func vm c vm'] by (auto simp: compile_or_get_func_def split: res.splits option.splits)

lemma call_frame_Runs:
  assumes run: "call_frame E caller params inst callee vm = Runs (ControlContinue (ip, sp), vm')"
    and "instance_of (acts vm) \<noteq> None"
  shows "vm_store vm' = vm_store vm \<and> ip = fst callee
    \<and> (\<exists>start. acts vm' = (ip, start, callee_instance inst (acts vm)) # resume_at (Some caller) (acts vm))"
proof -
  obtain callee_ip locals slots where callee: "callee = (callee_ip, locals, slots)" by (cases callee)
  obtain r st where push: "push_frame (cl_repr E) (cl_alloc E) (cl_stale E) (Some caller) callee_ip params locals slots inst (vm_stack vm) = (r, st)"
    by fastforce
  then have "r = Ok sp" "vm' = vm\<lparr>vm_stack := st\<rparr>" "ip = callee_ip"
    using run by (auto simp: callee call_frame_def act_simps into_control_def split: res.splits elim!: act_bind_Continue)
  moreover from this push obtain start cs where "cs_push (cl_repr E) (Some caller) callee_ip params inst (st_frames (vm_stack vm)) = (Ok start, cs)"
    "st_frames st = cs"
    by (auto simp: push_frame_def Let_def split: prod.splits res.splits)
  ultimately show ?thesis
    using call_stack.enter_acts [of "st_frames (vm_stack vm)" inst "cl_repr E" "Some caller" callee_ip params start cs] assms(2)
    by (auto simp: acts_def callee)
qed

lemma return_call_frame_Runs:
  assumes run: "return_call_frame E params inst callee vm = Runs (ControlContinue (ip, sp), vm')"
    and top: "acts vm = (ip0, start, Some i) # as"
  shows "vm_store vm' = vm_store vm \<and> ip = fst callee \<and> acts vm' = (ip, start, callee_instance inst (acts vm)) # as"
proof -
  obtain callee_ip locals slots where callee: "callee = (callee_ip, locals, slots)" by (cases callee)
  obtain r st where rep: "replace_frame (cl_repr E) (cl_alloc E) (cl_stale E) callee_ip params locals slots inst (vm_stack vm) = (r, st)"
    by fastforce
  obtain cs where cs: "cs_replace callee_ip inst (st_frames (vm_stack vm)) = (Ok start, cs)"
    "activations cs = (callee_ip, start, callee_instance inst (acts vm)) # as"
    using call_stack.tail_acts [OF top [unfolded acts_def], of callee_ip inst] by (auto simp: acts_def)
  have "r = Ok sp" "vm' = vm\<lparr>vm_stack := st\<rparr>" "ip = callee_ip"
    using run rep by (auto simp: callee return_call_frame_def act_simps into_control_def split: res.splits elim!: act_bind_Continue)
  moreover have "st_frames st = cs" using rep cs(1) by (auto simp: replace_frame_def Let_def split: prod.splits)
  ultimately show ?thesis using cs(2) by (simp add: acts_def callee)
qed

lemma call_host_Runs:
  assumes run: "call_host E func caller host params inst hooks vm = Runs (ControlContinue sp, vm')"
  shows "acts vm' = resume_at caller (acts vm)"
proof -
  obtain r st where prep: "prepare_host_frame (cl_repr E) (cl_alloc E) (cl_stale E) caller params (hf_len_result_cells host) (vm_stack vm) = (r, st)"
    by fastforce
  obtain x inout where r: "r = Ok (x, inout)"
    using run prep by (cases r) (auto simp: call_host_def act_simps into_control_def)
  let ?vm = "vm\<lparr>vm_stack := st\<rparr>"
  obtain r' cells world where host: "call_host_func E (hf_trampoline host) inst inout hooks (vm_store vm, vm_code_map vm) = (r', cells, world)"
    by (metis prod_cases3)
  have "st_frames (vm_stack vm') = st_frames st"
    using run prep host by (auto simp: r call_host_def act_simps set_world_def Let_def refresh_view_def done_with_def
        split: res.splits store_error.splits if_splits)
  moreover obtain cs where sync: "(case caller of None \<Rightarrow> Some (st_frames (vm_stack vm)) | Some ip \<Rightarrow> cs_sync_ip ip (st_frames (vm_stack vm))) = Some cs"
    "st_frames st = cs"
    using prep r by (auto simp: prepare_host_frame_def cs_prepare_host_frame_def Let_def split: prod.splits res.splits option.splits)
  ultimately show ?thesis using sync_caller(1) [OF sync(1)] sync(2) by (simp add: acts_def)
qed

lemma exec_return_Runs:
  assumes run: "exec_return E args vm = Runs (ControlContinue args', vm')" and inv: "running E args vm"
  shows "running E args' vm' \<and> acts vm' = tl (acts vm) \<and> fst (hd (acts vm')) = a_ip args' \<and> acts vm' \<noteq> []"
proof -
  obtain ip0 start0 as where top: "acts vm = (ip0, start0, Some (a_instance args)) # as"
    using inv by (cases "acts vm" rule: instance_of.cases) (auto simp: running_def)
  obtain r cs where pop: "cs_pop (st_frames (vm_stack vm)) = (Ok r, cs)" "activations cs = as"
    and ret: "returns_to (ip0, start0, Some (a_instance args)) as r"
    using call_stack.leave_acts [OF top [unfolded acts_def]] by blast
  let ?st = "(vm_stack vm)\<lparr>st_frames := cs\<rparr>"
  obtain ip start changed where r: "r = Some (ip, start, changed)"
    using run pop(1) by (cases r) (auto simp: exec_return_def pop_frame_def act_simps done_with_def split: if_splits)
  let ?inst = "case changed of None \<Rightarrow> a_instance args | Some i \<Rightarrow> i"
  have popf: "pop_frame Some None (a_instance args) (vm_stack vm)
      = (Ok (Some (ip, sp_or_dangling (st_values (vm_stack vm)) start, changed, ?inst)), ?st)"
    using pop(1) by (simp add: pop_frame_def r Let_def split: option.splits)
  obtain mem0 vm1 where mem0: "(case changed of Some i \<Rightarrow> extract_mem0 (cl_mem_ptr E) (cl_dangling E) i | None \<Rightarrow> act_return (a_mem0 args))
        (vm\<lparr>vm_stack := ?st\<rparr>) = Runs (ControlContinue mem0, vm1)"
    and args': "args' = args\<lparr>a_ip := ip, a_sp := sp_or_dangling (st_values (vm_stack vm)) start, a_mem0 := mem0, a_instance := ?inst\<rparr>" "vm' = vm1"
    using run by (auto simp: exec_return_def popf act_simps elim!: act_bind_Continue)
  have vm': "vm' = vm\<lparr>vm_stack := ?st\<rparr>"
    using mem0 args'(2) extract_mem0_Runs(1) by (fastforce simp: act_simps split: option.splits)
  have "mem0_coherent E args' vm'"
  proof (cases changed)
    case None
    then show ?thesis using inv mem0 args' vm' by (auto simp: running_def act_simps intro: coherent_cong)
  next
    case (Some i)
    then show ?thesis using mem0 args' vm' by (simp add: mem0_coherent_def)
  qed
  moreover have "acts vm' = as" using vm' pop(2) by (simp add: acts_def)
  moreover obtain i as' where "as = (ip, start, i) # as'" "i = Some ?inst"
    using ret by (cases as) (auto simp: returns_to_def r split: option.splits)
  ultimately show ?thesis using args' top by (simp add: running_def)
qed

lemma resolve_unchecked_Runs: "resolve_unchecked f h vm = Runs (ControlContinue x, vm') \<Longrightarrow> vm' = vm \<and> f (vm_inner vm) h = Ok x"
  by (auto simp: resolve_unchecked_def act_simps split: res.splits)

lemma fetch_Runs: "fetch getter args k vm = Runs (ControlContinue h, vm') \<Longrightarrow> vm' = vm"
  by (auto simp: fetch_def act_simps act_assume_def split: res.splits option.splits)

lemma get_value_Runs: "get_value R args src vm = Runs (ControlContinue v, vm') \<Longrightarrow> vm' = vm"
  by (auto simp: get_value_def act_simps act_assume_def split: operand.splits option.splits)

text \<open>The place behind the operator that is run.\<close>

definition next_op :: "exec_config \<Rightarrow> 'op decode \<Rightarrow> args \<Rightarrow> 'vm \<Rightarrow> ip \<Rightarrow> bool" where
  "next_op X dec args vm ip = (\<exists>op. args_decode_op X dec args vm = Runs (ControlContinue (op, args\<lparr>a_ip := ip\<rparr>), vm))"

lemma args_decode_op_Runs:
  assumes "args_decode_op X dec args vm = Runs (ControlContinue (op, args'), vm')"
  shows "vm' = vm \<and> (\<exists>ip. args' = args\<lparr>a_ip := ip\<rparr> \<and> next_op X dec args vm ip)"
proof -
  have "vm' = vm \<and> (\<exists>ip. args' = args\<lparr>a_ip := ip\<rparr>)"
    using assms by (auto simp: args_decode_op_def args_decode_def act_assume_def act_simps
        split: option.splits prod.splits if_splits elim!: act_bind_Continue)
  then show ?thesis using assms by (auto simp: next_op_def)
qed

lemma resolve_indirect_func_Runs:
  "resolve_indirect_func R index table ty args vm = Runs (ControlContinue h, vm') \<Longrightarrow> vm' = vm"
  unfolding resolve_indirect_func_def
  by (erule act_bind_Continue)+
    (auto simp: act_simps into_control_def dest!: get_value_Runs fetch_Runs resolve_unchecked_Runs
      split: res.splits nullable.splits if_splits elim!: act_bind_Continue)

lemma running_ip [simp]: "running E (args\<lparr>a_ip := ip\<rparr>) vm = running E args vm"
  by (simp add: running_def mem0_coherent_def)

lemma running_top: "running E args vm \<Longrightarrow> \<exists>ip start as. acts vm = (ip, start, Some (a_instance args)) # as"
  by (cases "acts vm" rule: instance_of.cases) (auto simp: running_def)

lemma call_func_entry_running:
  assumes run: "call_func_entry E caller params func None vm = Runs (ControlContinue (ip, sp), vm')" and inv: "running E args vm"
  shows "running E (args\<lparr>a_ip := ip, a_sp := sp\<rparr>) vm' \<and> tl (acts vm') = resume_at (Some caller) (acts vm)"
proof -
  obtain c vm1 where c: "compile_or_get_func_entry E func vm = Runs (ControlContinue c, vm1)"
    and f: "call_frame E caller params None c vm1 = Runs (ControlContinue (ip, sp), vm')"
    using run by (auto simp: call_func_entry_def elim: act_bind_Continue)
  have acts: "acts vm1 = acts vm" using compile_entry_Runs(2) [OF c] by (simp add: acts_def)
  have "instance_of (acts vm) = Some (a_instance args)" using inv by (simp add: running_def)
  then show ?thesis
    using call_frame_Runs [OF f] compile_entry_Runs(1) [OF c] inv
    by (auto simp: acts running_def callee_instance_def intro: coherent_cong)
qed

lemma return_call_func_entry_running:
  assumes run: "return_call_func_entry E params func None vm = Runs (ControlContinue (ip, sp), vm')" and inv: "running E args vm"
  shows "running E (args\<lparr>a_ip := ip, a_sp := sp\<rparr>) vm' \<and> tl (acts vm') = tl (acts vm)"
proof -
  obtain c vm1 where c: "compile_or_get_func_entry E func vm = Runs (ControlContinue c, vm1)"
    and f: "return_call_frame E params None c vm1 = Runs (ControlContinue (ip, sp), vm')"
    using run by (auto simp: return_call_func_entry_def elim: act_bind_Continue)
  have acts: "acts vm1 = acts vm" using compile_entry_Runs(2) [OF c] by (simp add: acts_def)
  obtain ip0 start as where top: "acts vm = (ip0, start, Some (a_instance args)) # as" using running_top [OF inv] by blast
  show ?thesis
    using return_call_frame_Runs [OF f, of ip0 start "a_instance args" as] compile_entry_Runs(1) [OF c] inv top
    by (auto simp: acts running_def callee_instance_def intro: coherent_cong)
qed

lemma call_wasm_or_host_running:
  assumes run: "call_wasm_or_host E func params args vm = Runs (ControlContinue args', vm')" and inv: "running E args vm"
  shows "running E args' vm' \<and> resume_at (Some (a_ip args)) (acts vm) \<in> {acts vm', tl (acts vm')}"
proof -
  obtain entity where entity: "try_resolve_func (vm_inner vm) func = Ok entity"
    and run: "(case entity of
         WasmFunc f \<Rightarrow>
           act_bind (resolve_unchecked try_resolve_instance (wf_instance f)) (\<lambda>_.
           act_bind (call_wasm E (a_ip args) params (wf_body f) (Some (wf_instance f))) (\<lambda>(callee_ip, callee_sp).
           act_bind (update_instance E (a_instance args) (wf_instance f) (a_mem0 args)) (\<lambda>(inst, mem0).
             act_return (args\<lparr>a_ip := callee_ip, a_sp := callee_sp, a_mem0 := mem0, a_instance := inst\<rparr>))))
       | HostFunc host \<Rightarrow>
           act_bind (call_host E func (Some (a_ip args)) host params (Some (a_instance args)) HooksCall) (\<lambda>sp.
           act_bind (extract_mem0 (cl_mem_ptr E) (cl_dangling E) (a_instance args)) (\<lambda>mem0.
             act_return (args\<lparr>a_sp := sp, a_mem0 := mem0\<rparr>)))) vm = Runs (ControlContinue args', vm')"
    using run unfolding call_wasm_or_host_def by (elim act_bind_Continue) (auto dest!: resolve_unchecked_Runs)
  have inst: "instance_of (acts vm) = Some (a_instance args)" using inv by (simp add: running_def)
  show ?thesis
  proof (cases entity)
    case (WasmFunc f)
    obtain ip sp vm1 j mem0 where call: "call_wasm E (a_ip args) params (wf_body f) (Some (wf_instance f)) vm = Runs (ControlContinue (ip, sp), vm1)"
      and upd: "update_instance E (a_instance args) (wf_instance f) (a_mem0 args) vm1 = Runs (ControlContinue (j, mem0), vm')"
      and args': "args' = args\<lparr>a_ip := ip, a_sp := sp, a_mem0 := mem0, a_instance := j\<rparr>"
      using run unfolding WasmFunc by (auto simp: act_simps dest!: resolve_unchecked_Runs elim!: act_bind_Continue split: prod.splits)
    obtain c vm0 where c: "compile_or_get_func E (wf_body f) vm = Runs (ControlContinue c, vm0)"
      and fr: "call_frame E (a_ip args) params (Some (wf_instance f)) c vm0 = Runs (ControlContinue (ip, sp), vm1)"
      using call by (auto simp: call_wasm_def elim: act_bind_Continue)
    have acts: "acts vm0 = acts vm" using compile_Runs(2) [OF c] by (simp add: acts_def)
    have "memory_part (vm_inner vm1) = memory_part (vm_inner vm)"
      using call_frame_Runs [OF fr] compile_Runs(1) [OF c] acts inst by simp
    then have "mem0_coherent E (args\<lparr>a_instance := a_instance args, a_mem0 := a_mem0 args\<rparr>) vm1"
      using inv by (auto simp: running_def intro: coherent_cong)
    note upd' = update_instance_coherent [OF upd this, of "args\<lparr>a_ip := ip, a_sp := sp\<rparr>"]
    then have "mem0_coherent E args' vm'" by (auto simp: args' mem0_coherent_def)
    moreover have "\<exists>start. acts vm' = (ip, start, Some (wf_instance f)) # resume_at (Some (a_ip args)) (acts vm)"
      using call_frame_Runs [OF fr] upd' acts inst by (auto simp: callee_instance_def)
    ultimately show ?thesis using upd' by (auto simp: running_def args')
  next
    case (HostFunc host)
    obtain sp vm1 mem0 vm2 where call: "call_host E func (Some (a_ip args)) host params (Some (a_instance args)) HooksCall vm = Runs (ControlContinue sp, vm1)"
      and x: "extract_mem0 (cl_mem_ptr E) (cl_dangling E) (a_instance args) vm1 = Runs (ControlContinue mem0, vm2)"
      and args': "args' = args\<lparr>a_sp := sp, a_mem0 := mem0\<rparr>" "vm' = vm2"
      using run unfolding HostFunc by (auto simp: act_simps elim!: act_bind_Continue)
    have "vm2 = vm1" using extract_mem0_Runs(1) [OF x] .
    moreover have "acts vm1 = resume_at (Some (a_ip args)) (acts vm)" using call_host_Runs [OF call] .
    ultimately show ?thesis
      using x args' inst running_top [OF inv] by (auto simp: running_def mem0_coherent_def)
  qed
qed

text \<open>
  C5: the invariant of calls and returns. The cached default memory belongs to the current instance, and
  the current instance is the one of the running activation; direct, imported and indirect calls of Wasm
  and host functions, direct tail calls and returns keep this whenever they continue, whatever a host
  function does to the store. A call keeps the activations of its callers and lets the caller continue
  behind the call, and a return continues exactly there.
\<close>

theorem calls_keep_running:
  assumes inv: "running E args vm"
  shows "(exec_call_internal X E dec args vm = Runs (ControlContinue args1, vm1) \<longrightarrow>
      running E args1 vm1 \<and> (\<exists>ip. next_op X dec args vm ip \<and> tl (acts vm1) = resume_at (Some ip) (acts vm)))
    \<and> (exec_call_imported X E dec' args vm = Runs (ControlContinue args2, vm2) \<longrightarrow>
      running E args2 vm2 \<and> (\<exists>ip. next_op X dec' args vm ip \<and> resume_at (Some ip) (acts vm) \<in> {acts vm2, tl (acts vm2)}))
    \<and> (exec_call_indirect X E dec'' args vm = Runs (ControlContinue args3, vm3) \<longrightarrow>
      running E args3 vm3 \<and> (\<exists>ip. next_op X dec'' args vm ip \<and> resume_at (Some ip) (acts vm) \<in> {acts vm3, tl (acts vm3)}))
    \<and> (exec_return_call_internal X E dec args vm = Runs (ControlContinue args4, vm4) \<longrightarrow>
      running E args4 vm4 \<and> tl (acts vm4) = tl (acts vm))
    \<and> (exec_return E args vm = Runs (ControlContinue args5, vm5) \<longrightarrow>
      running E args5 vm5 \<and> acts vm5 = tl (acts vm) \<and> a_ip args5 = fst (hd (tl (acts vm))))"
proof (intro conjI impI)
  assume "exec_return E args vm = Runs (ControlContinue args5, vm5)"
  then show "running E args5 vm5" "acts vm5 = tl (acts vm)" "a_ip args5 = fst (hd (tl (acts vm)))"
    using exec_return_Runs [OF _ inv] by auto
next
  assume "exec_call_internal X E dec args vm = Runs (ControlContinue args1, vm1)"
  then obtain ip1 params addr ip sp where f: "call_func_entry E ip1 params (cl_entry_at E addr) None vm = Runs (ControlContinue (ip, sp), vm1)"
    and a: "args1 = args\<lparr>a_ip := ip, a_sp := sp\<rparr>" "next_op X dec args vm ip1"
    by (auto simp: exec_call_internal_def act_simps dest!: args_decode_op_Runs elim!: act_bind_Continue split: prod.splits)
  show "running E args1 vm1" "\<exists>ip. next_op X dec args vm ip \<and> tl (acts vm1) = resume_at (Some ip) (acts vm)"
    using call_func_entry_running [OF f inv] a by auto
next
  assume "exec_return_call_internal X E dec args vm = Runs (ControlContinue args4, vm4)"
  then obtain params addr ip sp where f: "return_call_func_entry E params (cl_entry_at E addr) None vm = Runs (ControlContinue (ip, sp), vm4)"
    and a: "args4 = args\<lparr>a_ip := ip, a_sp := sp\<rparr>"
    by (auto simp: exec_return_call_internal_def act_simps dest!: args_decode_op_Runs elim!: act_bind_Continue split: prod.splits)
  show "running E args4 vm4" "tl (acts vm4) = tl (acts vm)"
    using return_call_func_entry_running [OF f inv] a by auto
next
  assume "exec_call_imported X E dec' args vm = Runs (ControlContinue args2, vm2)"
  then obtain ip params func where "call_wasm_or_host E func params (args\<lparr>a_ip := ip\<rparr>) vm = Runs (ControlContinue args2, vm2)" "next_op X dec' args vm ip"
    by (auto simp: exec_call_imported_def act_simps dest!: args_decode_op_Runs fetch_Runs elim!: act_bind_Continue split: prod.splits)
  from call_wasm_or_host_running [OF this(1)] this(2) inv
  show "running E args2 vm2" "\<exists>ip. next_op X dec' args vm ip \<and> resume_at (Some ip) (acts vm) \<in> {acts vm2, tl (acts vm2)}" by auto
next
  assume "exec_call_indirect X E dec'' args vm = Runs (ControlContinue args3, vm3)"
  then obtain ip params func where "call_wasm_or_host E func params (args\<lparr>a_ip := ip\<rparr>) vm = Runs (ControlContinue args3, vm3)" "next_op X dec'' args vm ip"
    by (auto simp: exec_call_indirect_def act_simps dest!: args_decode_op_Runs resolve_indirect_func_Runs elim!: act_bind_Continue split: prod.splits)
  from call_wasm_or_host_running [OF this(1)] this(2) inv
  show "running E args3 vm3" "\<exists>ip. next_op X dec'' args vm ip \<and> resume_at (Some ip) (acts vm) \<in> {acts vm3, tl (acts vm3)}" by auto
qed

lemma return_host_frame_acts:
  assumes "return_prepare_host_frame R alloc stale params n i st = (Ok (Continue ip sp inst, inout), st')"
    and top: "activations (st_frames st) = (ip0, start0, Some i) # as"
  shows "activations (st_frames st') = as \<and> instance_of as = Some inst"
proof -
  obtain r cs where pop: "cs_pop (st_frames st) = (Ok r, cs)" "activations cs = as" "returns_to (ip0, start0, Some i) as r"
    using call_stack.leave_acts [OF top] by blast
  obtain callee_start caller where prep: "cs_return_prepare_host_frame i (st_frames st) = (Ok (callee_start, caller), cs)"
    and caller: "caller = (case r of None \<Rightarrow> None | Some (ip, start, c) \<Rightarrow> Some (ip, start, case c of Some j \<Rightarrow> j | None \<Rightarrow> i))"
    using pop(1) by (cases r) (auto simp: cs_return_prepare_host_frame_def Let_def)
  obtain vs where vs: "value_stack_return_prepare_host_frame R alloc stale (st_values st) caller callee_start params n
      = (Ok (Continue ip sp inst, inout), vs)" "st_frames st' = cs"
    using assms(1) prep by (auto simp: return_prepare_host_frame_def Let_def split: prod.splits)
  have "return_control caller sp' = Continue ip sp inst \<Longrightarrow> \<exists>start. caller = Some (ip, start, inst)" for sp'
    by (cases caller) auto
  then have "\<exists>start. caller = Some (ip, start, inst)"
    using vs(1) by (auto simp: value_stack_return_prepare_host_frame_def Let_def split: res.splits prod.splits if_splits option.splits)
  then show ?thesis
    using pop(2,3) vs(2) caller by (cases as) (auto simp: returns_to_def split: option.splits)
qed

lemma return_call_host_Runs:
  assumes run: "return_call_host_func E func host params (a_instance args) vm = Runs (ControlContinue (ip, sp, inst), vm')"
    and inv: "running E args vm"
  shows "acts vm' = tl (acts vm) \<and> instance_of (acts vm') = Some inst"
proof -
  obtain ip0 start0 as where top: "acts vm = (ip0, start0, Some (a_instance args)) # as" using running_top [OF inv] by blast
  obtain r st where prep: "return_prepare_host_frame (cl_repr E) (cl_alloc E) (cl_stale E) params (hf_len_result_cells host) (a_instance args) (vm_stack vm) = (r, st)"
    by fastforce
  obtain control inout where r: "r = Ok (control, inout)"
    using run prep by (cases r) (auto simp: return_call_host_func_def act_simps into_control_def)
  obtain r' cells world where host: "call_host_func E (hf_trampoline host) (Some (a_instance args)) inout HooksCall (vm_store vm, vm_code_map vm) = (r', cells, world)"
    by (metis prod_cases3)
  have "control = Continue ip sp inst \<and> st_frames (vm_stack vm') = st_frames st"
    using run prep host by (auto simp: r return_call_host_func_def act_simps set_world_def Let_def refresh_view_def done_with_def
        split: res.splits store_error.splits return_call_host.splits if_splits)
  note control = this
  have "return_prepare_host_frame (cl_repr E) (cl_alloc E) (cl_stale E) params (hf_len_result_cells host) (a_instance args) (vm_stack vm)
      = (Ok (Continue ip sp inst, inout), st)" using prep r control by simp
  from return_host_frame_acts [OF this top [unfolded acts_def]] show ?thesis using control top by (simp add: acts_def)
qed

lemma return_call_wasm_or_host_Runs:
  assumes run: "return_call_wasm_or_host E func params args vm = Runs (ControlContinue args', vm')" and inv: "running E args vm"
    and entity: "try_resolve_func (vm_inner vm) func = Ok entity"
  shows "instance_of (acts vm') = Some (a_instance args')"
    and "case entity of
        WasmFunc _ \<Rightarrow> running E args' vm' \<and> tl (acts vm') = tl (acts vm)
      | HostFunc _ \<Rightarrow> acts vm' = tl (acts vm)
          \<and> (if a_instance args' \<noteq> a_instance args then running E args' vm' else a_mem0 args' = a_mem0 args)"
proof -
  obtain ip0 start as where top: "acts vm = (ip0, start, Some (a_instance args)) # as" using running_top [OF inv] by blast
  have "instance_of (acts vm') = Some (a_instance args')
    \<and> (case entity of
        WasmFunc _ \<Rightarrow> running E args' vm' \<and> tl (acts vm') = tl (acts vm)
      | HostFunc _ \<Rightarrow> acts vm' = tl (acts vm)
          \<and> (if a_instance args' \<noteq> a_instance args then running E args' vm' else a_mem0 args' = a_mem0 args))"
  proof (cases entity)
    case (WasmFunc f)
    let ?changed = "if wf_instance f \<noteq> a_instance args then Some (wf_instance f) else None"
    obtain ip sp vm1 j mem0 where call: "return_call_wasm E params (wf_body f) ?changed vm = Runs (ControlContinue (ip, sp), vm1)"
      and upd: "update_instance E (a_instance args) (wf_instance f) (a_mem0 args) vm1 = Runs (ControlContinue (j, mem0), vm')"
      and args': "args' = args\<lparr>a_ip := ip, a_sp := sp, a_mem0 := mem0, a_instance := j\<rparr>"
      using run entity unfolding return_call_wasm_or_host_def WasmFunc
      by (auto simp: act_simps Let_def dest!: resolve_unchecked_Runs elim!: act_bind_Continue split: prod.splits)
    obtain c vm0 where c: "compile_or_get_func E (wf_body f) vm = Runs (ControlContinue c, vm0)"
      and fr: "return_call_frame E params ?changed c vm0 = Runs (ControlContinue (ip, sp), vm1)"
      using call by (auto simp: return_call_wasm_def elim: act_bind_Continue)
    have "acts vm0 = (ip0, start, Some (a_instance args)) # as" using compile_Runs(2) [OF c] top by (simp add: acts_def)
    note frame = return_call_frame_Runs [OF fr this]
    have "memory_part (vm_inner vm1) = memory_part (vm_inner vm)" using frame compile_Runs(1) [OF c] by simp
    then have "mem0_coherent E (args\<lparr>a_instance := a_instance args, a_mem0 := a_mem0 args\<rparr>) vm1"
      using inv by (auto simp: running_def intro: coherent_cong)
    note upd' = update_instance_coherent [OF upd this, of "args\<lparr>a_ip := ip, a_sp := sp\<rparr>"]
    then have "mem0_coherent E args' vm'" by (auto simp: args' mem0_coherent_def)
    moreover have "acts vm' = (ip, start, Some (wf_instance f)) # as"
      using frame upd' \<open>acts vm0 = _\<close> by (auto simp: callee_instance_def)
    ultimately show ?thesis using upd' top by (auto simp: running_def args' WasmFunc)
  next
    case (HostFunc host)
    obtain ip sp inst vm1 j mem0 where call: "return_call_host_func E func host params (a_instance args) vm = Runs (ControlContinue (ip, sp, inst), vm1)"
      and upd: "update_instance E (a_instance args) inst (a_mem0 args) vm1 = Runs (ControlContinue (j, mem0), vm')"
      and args': "args' = args\<lparr>a_ip := ip, a_sp := sp, a_mem0 := mem0, a_instance := j\<rparr>"
      using run entity unfolding return_call_wasm_or_host_def HostFunc
      by (auto simp: act_simps dest!: resolve_unchecked_Runs elim!: act_bind_Continue split: prod.splits)
    note host = return_call_host_Runs [OF call inv]
    show ?thesis
    proof (cases "inst = a_instance args")
      case True
      then show ?thesis using host upd args' HostFunc by (auto simp: update_instance_def act_simps)
    next
      case False
      then obtain vm2 where x: "extract_mem0 (cl_mem_ptr E) (cl_dangling E) inst vm1 = Runs (ControlContinue mem0, vm2)" "vm' = vm2" "j = inst"
        using upd by (auto simp: update_instance_def act_simps elim!: act_bind_Continue)
      then have "vm' = vm1" using extract_mem0_Runs(1) by blast
      then show ?thesis using host x False args' HostFunc by (auto simp: running_def mem0_coherent_def)
    qed
  qed
  then show "instance_of (acts vm') = Some (a_instance args')"
    "case entity of
        WasmFunc _ \<Rightarrow> running E args' vm' \<and> tl (acts vm') = tl (acts vm)
      | HostFunc _ \<Rightarrow> acts vm' = tl (acts vm)
          \<and> (if a_instance args' \<noteq> a_instance args then running E args' vm' else a_mem0 args' = a_mem0 args)"
    by blast+
qed

text \<open>
  C6: tail calls of imported functions. A tail call of a Wasm function keeps the cached default memory and
  the instance of the running function right. After a tail call of a host function that continues in the
  same instance, the cached default memory is the one from before the call, whatever the host function has
  done: it is stale if the memory has changed its address or its size.
\<close>

theorem tail_call_mem0:
  assumes inv: "running E args vm"
    and dec: "args_decode_op X dec args vm = Runs (ControlContinue ((params, index), args0), vm)"
    and func: "has_entity get_func try_resolve_func args vm index func entity"
    and run: "exec_return_call_imported X E dec args vm = Runs (ControlContinue args', vm')"
  shows "instance_of (acts vm') = Some (a_instance args')
    \<and> (case entity of
        WasmFunc _ \<Rightarrow> running E args' vm' \<and> tl (acts vm') = tl (acts vm)
      | HostFunc _ \<Rightarrow> acts vm' = tl (acts vm)
          \<and> (if a_instance args' \<noteq> a_instance args then running E args' vm'
             else a_mem0 args' = a_mem0 args
               \<and> (\<forall>h m. has_memory args' vm' 0 h m \<longrightarrow> (mem0_coherent E args' vm' \<longleftrightarrow> a_mem0 args = mem0_of (cl_mem_ptr E) m))))"
proof -
  obtain ip where args0: "args0 = args\<lparr>a_ip := ip\<rparr>" using args_decode_op_Runs [OF dec] by blast
  have "has_entity get_func try_resolve_func args0 vm index func entity" using func by (simp add: args0 has_entity_def)
  then have run': "return_call_wasm_or_host E func params args0 vm = Runs (ControlContinue args', vm')"
    using run by (simp add: exec_return_call_imported_def act_simps dec act_bind_fetch)
  note tail = return_call_wasm_or_host_Runs [OF run' _ has_entityD [OF func]]
  have "mem0_coherent E args' vm' \<longleftrightarrow> a_mem0 args' = mem0_of (cl_mem_ptr E) m" if "has_memory args' vm' 0 h m" for h m
    using that by (auto simp: mem0_coherent_def extract_mem0_def has_entity_def resolve_unchecked_def act_simps split: res.splits)
  then show ?thesis
    using tail inv by (auto simp: args0 split: func_entity.splits if_splits)
qed

subsection \<open>A concrete call\<close>

text \<open>A host function that grows the memory, called by a function that was called by another one.\<close>

definition sample_env :: "(store_limits, trap_code, u16, unit, unit, unit, unit) call_env" where
  "sample_env = \<lparr>cl_repr = slot16, cl_alloc = (\<lambda>_. True), cl_stale = (\<lambda>_. 0), cl_compile = example_env,
     cl_error = (\<lambda>_. TrapOutOfFuel), cl_entry_at = ucast, cl_mem_ptr = (\<lambda>m. bb_capacity (mem_bytes m)), cl_dangling = 1,
     cl_hook = (\<lambda>_ w. (Ok (), w)),
     cl_trampoline = (\<lambda>_ _ io (ps, cm). (Ok (), io_cells io, snd (grow_memory (\<lambda>_. True) (stored_wrap 0 0) 2 ps), cm))\<rparr>"

definition sample_call_state :: "(store_limits, trap_code, u16, unit, unit, unit) call_state" where
  "sample_call_state = \<lparr>vm_store = (vm_store sample_vm)\<lparr>ps_inner := (vm_inner sample_vm)\<lparr>
       si_funcs := \<lparr>ar_items = [example_host_func], ar_capacity = 4\<rparr>,
       si_instances := \<lparr>ar_items = [sample_instance\<lparr>in_funcs := [stored_wrap 0 1]\<rparr>], ar_capacity = 4\<rparr>\<rparr>\<rparr>,
     vm_stack = \<lparr>st_values = \<lparr>vs_cells = [], vs_capacity = 0, vs_max_height = 100\<rparr>,
       st_frames = \<lparr>cs_frames = [\<lparr>fr_ip = ip_from [1, 2, 3], fr_start = 0, fr_instance = None\<rparr>,
           \<lparr>fr_ip = ip_from [0, 0], fr_start = 0, fr_instance = None\<rparr>],
         cs_instance = Some (stored_wrap 0 0), cs_max_height = 10\<rparr>,
       st_ireg = 0, st_freg32 = 0, st_freg64 = 0\<rparr>,
     vm_done = None, vm_code_map = code_map_new (), vm_view = 0\<rparr>"

abbreviation "sample_call_args \<equiv> sample_args [0, 0]"

lemma sample_instance_resolves:
  "try_resolve_instance (vm_inner sample_call_state) (stored_wrap 0 0) = Ok (sample_instance\<lparr>in_funcs := [stored_wrap 0 1]\<rparr>)"
  by (simp add: sample_call_state_def sample_vm_simps)

lemma sample_entities_resolve:
  "try_resolve_memory (vm_inner sample_call_state) (stored_wrap 0 0) = Ok example_memory"
  "try_resolve_func (vm_inner sample_call_state) (stored_wrap 0 1) = Ok example_host_func"
   apply (simp add: sample_call_state_def sample_vm_simps)
  apply (simp add: sample_call_state_def sample_vm_def example_store_def store_inner_new_def store_id_new_def try_resolve_func_def resolve_def
      unwrap_stored_def stored_unwrap_def stored_wrap_def arena_get_def nonzero_u32_key_def get_opt_def)
  done

lemma sample_args_instance [simp]: "a_instance (sample_args code pos) = stored_wrap 0 0"
  by (simp add: sample_args_def)

lemma sample_running: "running sample_env (sample_call_args 0) sample_call_state"
proof -
  have "get_memory (sample_instance\<lparr>in_funcs := [stored_wrap 0 1]\<rparr>) 0 = Some (stored_wrap 0 0)"
    by (simp add: get_memory_def sample_instance_def)
  then have "mem0_coherent sample_env (sample_call_args 0) sample_call_state"
    by (simp add: mem0_coherent_def extract_mem0_def resolve_unchecked_def act_simps sample_instance_resolves sample_entities_resolve)
      (simp add: sample_env_def mem0_of_def example_memory_def data_size_def sample_args_def)
  then show ?thesis by (simp add: running_def acts_def activations_def sample_call_state_def)
qed

lemma sample_return:
  "exec_return sample_env (sample_call_args 0) sample_call_state =
     Runs (ControlContinue ((sample_call_args 0)\<lparr>a_ip := ip_from [1, 2, 3]\<rparr>),
       sample_call_state\<lparr>vm_stack := (vm_stack sample_call_state)\<lparr>st_frames := (st_frames (vm_stack sample_call_state))\<lparr>
         cs_frames := [\<lparr>fr_ip = ip_from [1, 2, 3], fr_start = 0, fr_instance = None\<rparr>]\<rparr>\<rparr>\<rparr>)"
  by (simp add: exec_return_def pop_frame_def cs_pop_def cs_top_def sample_call_state_def act_simps sample_args_def sp_or_dangling_def)

theorem calls_keep_running_witness:
  "let vm = sample_call_state\<lparr>vm_stack := (vm_stack sample_call_state)\<lparr>st_frames := (st_frames (vm_stack sample_call_state))\<lparr>
      cs_frames := [\<lparr>fr_ip = ip_from [1, 2, 3], fr_start = 0, fr_instance = None\<rparr>]\<rparr>\<rparr>\<rparr> in
   exec_return sample_env (sample_call_args 0) sample_call_state
     = Runs (ControlContinue ((sample_call_args 0)\<lparr>a_ip := ip_from [1, 2, 3]\<rparr>), vm)
   \<and> running sample_env ((sample_call_args 0)\<lparr>a_ip := ip_from [1, 2, 3]\<rparr>) vm \<and> acts vm = tl (acts sample_call_state)"
  using calls_keep_running [OF sample_running, unfolded sample_return] unfolding Let_def sample_return by blast

lemma sample_has_func:
  "has_entity get_func try_resolve_func (sample_call_args pos) sample_call_state 0 (stored_wrap 0 1) example_host_func"
  by (simp add: has_entity_def sample_instance_resolves sample_entities_resolve get_func_def)

lemma sample_tail_host_call:
  "\<exists>args' vm'. exec_return_call_imported sample_config sample_env (\<lambda>bs. (Ok (bounded_span_new 0 0, 0), bs)) (sample_call_args 0) sample_call_state
     = Runs (ControlContinue args', vm') \<and> a_instance args' = stored_wrap 0 0
     \<and> vm_store vm' = snd (grow_memory (\<lambda>_. True) (stored_wrap 0 0) 2 (vm_store sample_call_state))"
proof -
  let ?st = "(vm_stack sample_call_state)\<lparr>st_frames := (st_frames (vm_stack sample_call_state))\<lparr>
         cs_frames := [\<lparr>fr_ip = ip_from [1, 2, 3], fr_start = 0, fr_instance = None\<rparr>]\<rparr>\<rparr>"
  let ?io = "\<lparr>io_start = 0, io_cells = [], io_len_params = 0, io_len_results = 0\<rparr>"
  have prep: "return_prepare_host_frame slot16 (\<lambda>_. True) (\<lambda>_. 0) (bounded_span_new 0 0) 0 (stored_wrap 0 0) (vm_stack sample_call_state)
      = (Ok (Continue (ip_from [1, 2, 3]) SpDangling (stored_wrap 0 0), ?io), ?st)"
    by (simp add: return_prepare_host_frame_def cs_return_prepare_host_frame_def cs_pop_def cs_top_def sample_call_state_def
        value_stack_return_prepare_host_frame_def bounded_span_new_def top_start_def)
  have host: "call_host_func sample_env t i ?io HooksCall w = (Ok (), [], snd (grow_memory (\<lambda>_. True) (stored_wrap 0 0) 2 (fst w)), snd w)"
    if "ps_restore_id (fst w) = ps_type_id (fst w)" for t i w
    using that by (simp add: call_host_func_def restore_def sample_env_def inout_cells_def split: prod.splits)
  have restores: "ps_restore_id (vm_store sample_call_state) = ps_type_id (vm_store sample_call_state)"
    by (simp add: sample_call_state_def sample_vm_def)
  have env: "cl_repr sample_env = slot16" "cl_alloc sample_env = (\<lambda>_. True)" "cl_stale sample_env = (\<lambda>_. 0)"
    by (simp_all add: sample_env_def)
  let ?host = "\<lparr>hf_len_param_cells = 0, hf_len_result_cells = 0, hf_ty = stored_wrap 0 0, hf_trampoline = stored_wrap 0 0\<rparr>"
  have "\<exists>vm'. return_call_host_func sample_env (stored_wrap 0 1) ?host (bounded_span_new 0 0) (stored_wrap 0 0) sample_call_state
      = Runs (ControlContinue (ip_from [1, 2, 3], SpDangling, stored_wrap 0 0), vm')
    \<and> vm_store vm' = snd (grow_memory (\<lambda>_. True) (stored_wrap 0 0) 2 (vm_store sample_call_state))"
    using prep host restores
    by (simp add: return_call_host_func_def act_simps env refresh_view_def set_world_def Let_def)
  then obtain vm' where "return_call_host_func sample_env (stored_wrap 0 1) ?host (bounded_span_new 0 0) (stored_wrap 0 0) sample_call_state
      = Runs (ControlContinue (ip_from [1, 2, 3], SpDangling, stored_wrap 0 0), vm')"
    "vm_store vm' = snd (grow_memory (\<lambda>_. True) (stored_wrap 0 0) 2 (vm_store sample_call_state))" by blast
  then show ?thesis
    by (simp add: exec_return_call_imported_def act_simps sample_decode act_bind_fetch [OF sample_has_func] return_call_wasm_or_host_def
        sample_entities_resolve example_host_func_def update_instance_def)
qed

theorem tail_call_mem0_witness:
  "\<exists>args' vm'. exec_return_call_imported sample_config sample_env (\<lambda>bs. (Ok (bounded_span_new 0 0, 0), bs)) (sample_call_args 0) sample_call_state
      = Runs (ControlContinue args', vm')
    \<and> instance_of (acts vm') = Some (a_instance args') \<and> mem0_coherent sample_env (sample_call_args 0) sample_call_state
    \<and> \<not> mem0_coherent sample_env args' vm'"
proof -
  let ?ps = "vm_store sample_call_state"
  obtain args' vm' where run: "exec_return_call_imported sample_config sample_env (\<lambda>bs. (Ok (bounded_span_new 0 0, 0), bs)) (sample_call_args 0) sample_call_state
      = Runs (ControlContinue args', vm')" "a_instance args' = stored_wrap 0 0"
    "vm_store vm' = snd (grow_memory (\<lambda>_. True) (stored_wrap 0 0) 2 ?ps)"
    using sample_tail_host_call by blast
  note tail = tail_call_mem0 [OF sample_running sample_decode sample_has_func run(1)]
  have "fst (grow_memory (\<lambda>_. True) (stored_wrap 0 0) 2 ?ps) = Ok 4"
    by (rule grow_example_memory [OF sample_entities_resolve(1)])
      (simp_all add: sample_call_state_def sample_vm_def restore_def example_store_def store_inner_new_def store_id_new_def)
  then have grow: "grow_memory (\<lambda>_. True) (stored_wrap 0 0) 2 ?ps = (Ok 4, vm_store vm')"
    unfolding run(3) by (intro prod_eqI) (simp_all only: fst_conv snd_conv)
  obtain m' where m': "grown_by (unat (2 :: u64)) example_memory m'" "4 = memory_size example_memory"
    "\<And>g. try_resolve_memory (vm_inner vm') g = (if g = stored_wrap 0 0 then Ok m' else try_resolve_memory (ps_inner ?ps) g)"
    "\<And>g. try_resolve_instance (vm_inner vm') g = try_resolve_instance (ps_inner ?ps) g"
    using that by (rule grow_memory_Ok [OF grow sample_entities_resolve(1) example_memory_wf])
  have "has_memory args' vm' 0 (stored_wrap 0 0) m'"
    using run(2) sample_instance_resolves by (simp add: has_entity_def get_memory_def sample_instance_def m'(3,4))
  moreover have "a_mem0 (sample_call_args 0) \<noteq> mem0_of (cl_mem_ptr sample_env) m'"
    using grown_by_size [OF m'(1)] by (auto simp: sample_args_def mem0_of_def data_size_def example_memory_def)
  moreover have "mem0_coherent sample_env (sample_call_args 0) sample_call_state" using sample_running by (simp add: running_def)
  ultimately show ?thesis using tail run(1,2) by (auto simp: example_host_func_def)
qed

end
