(* ===== verification/Exec_Branch.thy ===== *)
theory Exec_Branch
  imports Exec_Args
begin

section \<open>Branches: from the translator to the handlers (exec.rs, translator/func/mod.rs)\<close>

text \<open>
  The handlers that trap, consume the fuel of a block and branch, and the part of the translator that
  encodes branch tables. The decoders of the operators are generated, and parameters here.
\<close>

subsection \<open>Handlers (executor/handler/exec.rs)\<close>

definition exec_trap :: "exec_config \<Rightarrow> trap_code decode \<Rightarrow> args \<Rightarrow> (('l, 'err, 's, 'z) vm_state_scheme, args) action" where
  "exec_trap X dec args = act_bind (args_decode_op X dec args) (\<lambda>(trap_code, _). act_trap trap_code)"

definition exec_consume_fuel :: "exec_config \<Rightarrow> block_fuel decode \<Rightarrow> args \<Rightarrow> (('l, 'err, 's, 'z) vm_state_scheme, args) action" where
  "exec_consume_fuel X dec args =
     act_bind (args_decode_op X dec args) (\<lambda>(fuel, args').
     act_bind (act_get (\<lambda>vm. consume_fuel_unchecked (si_fuel (vm_inner vm)) fuel)) (\<lambda>(r, fuel').
     act_bind (update_inner (\<lambda>s. s\<lparr>si_fuel := fuel'\<rparr>)) (\<lambda>_.
       case r of
         Err (OutOfFuel required_fuel) \<Rightarrow> out_of_fuel (args'\<lparr>a_ip := a_ip args\<rparr>) required_fuel
       | _ \<Rightarrow> act_return args')))"

definition branch :: "exec_config \<Rightarrow> branch_offset decode \<Rightarrow> args \<Rightarrow> (('l, 'err, 's, 'z) vm_state_scheme, args) action" where
  "branch X dec args =
     act_bind (args_decode_op X dec args) (\<lambda>(off, args'). offset_ip off (args'\<lparr>a_ip := a_ip args\<rparr>))"

definition fetch_branch_table_target ::
  "'w::len word slot_repr \<Rightarrow> args \<Rightarrow> ('w word, u32) operand \<Rightarrow> u32 \<Rightarrow> (('l, 'err, 's, 'z) vm_state_scheme, nat) action" where
  "fetch_branch_table_target R args index len_targets =
     act_bind (get_value R args index) (\<lambda>i. act_return (unat (min i (len_targets - 1))))"

definition exec_branch_table ::
  "'w::len word slot_repr \<Rightarrow> args \<Rightarrow> ('w word, u32) operand \<Rightarrow> u32 \<Rightarrow> (('l, 'err, 's, 'z) vm_state_scheme, args) action" where
  "exec_branch_table R args index len_targets =
     act_bind (fetch_branch_table_target R args index len_targets) (\<lambda>chosen_target.
     act_bind (act_assume (ip_add (a_ip args) (4 * chosen_target))) (\<lambda>ip.
     act_bind (act_assume (ip_decode decode_branch_offset ip)) (\<lambda>(_, off).
       offset_ip off (args\<lparr>a_ip := ip\<rparr>))))"

definition exec_branch_table_with_copies ::
  "exec_config \<Rightarrow> 'w::len word slot_repr \<Rightarrow> args \<Rightarrow> ('w word, u32) operand \<Rightarrow> u32 \<Rightarrow> 'w word bounded_slot_span
   \<Rightarrow> (('l, 'err, 's, 'z) vm_state_scheme, args) action" where
  "exec_branch_table_with_copies X R args index len_targets vals =
     act_bind (fetch_branch_table_target R args index len_targets) (\<lambda>chosen_target.
     let len_encoded_target = (if xc_indirect_dispatch X then 6 else 8) in
     act_bind (act_assume (ip_add (a_ip args) (len_encoded_target * chosen_target))) (\<lambda>ip.
     act_bind (act_assume (ip_decode (decode_branch_table_target :: 'w word branch_table_target decode) ip)) (\<lambda>(_, target).
     act_bind
       (if bt_results target \<noteq> bs_span vals then
          act_bind (act_get (\<lambda>vm. exec_copy_span R (sp_cells (a_sp args) (vm_stack vm)) (bt_results target) (bs_span vals) (bs_len vals)))
            (\<lambda>r. act_bind (act_assume r) (\<lambda>cells.
              act_modify (\<lambda>vm. vm\<lparr>vm_stack := set_sp_cells (a_sp args) cells (vm_stack vm)\<rparr>)))
        else act_return ()) (\<lambda>_.
       offset_ip (bt_offset target) (args\<lparr>a_ip := ip\<rparr>)))))"

text \<open>The decoded operator is the number of targets, the operand of the index, and the values to copy.\<close>

definition branch_table ::
  "exec_config \<Rightarrow> 'w::len word slot_repr \<Rightarrow> (u32 \<times> ('w word, u32) operand) decode \<Rightarrow> args
   \<Rightarrow> (('l, 'err, 's, 'z) vm_state_scheme, args) action" where
  "branch_table X R dec args =
     act_bind (args_decode X dec args) (\<lambda>((len_targets, index), args'). exec_branch_table R args' index len_targets)"

definition branch_table_span ::
  "exec_config \<Rightarrow> 'w::len word slot_repr \<Rightarrow> (u32 \<times> ('w word, u32) operand \<times> 'w word bounded_slot_span) decode \<Rightarrow> args
   \<Rightarrow> (('l, 'err, 's, 'z) vm_state_scheme, args) action" where
  "branch_table_span X R dec args =
     act_bind (args_decode X dec args) (\<lambda>((len_targets, index, vals), args').
       exec_branch_table_with_copies X R args' index len_targets vals)"

subsection \<open>Encoding branch tables (translator/func/mod.rs)\<close>

text \<open>
  The labels of the targets, and for tables that copy values the slots they copy to, in the order of
  the table with the default target last. \<open>fuel_pos\<close> is the fuel operand of the current block.
\<close>

fun encode_br_targets ::
  "enc_config \<Rightarrow> (branch_offset \<Rightarrow> 't \<Rightarrow> op) \<Rightarrow> (label_ref \<times> 't) list \<Rightarrow> nat option \<Rightarrow> op_encoder
   \<Rightarrow> (translation_error, unit) res \<times> op_encoder" where
  "encode_br_targets cfg mkbr [] fuel_pos e = (Ok (), e)"
| "encode_br_targets cfg mkbr ((l, t) # targets) fuel_pos e =
     and_then (encode_branch cfg l (\<lambda>off. mkbr off t) fuel_pos (\<lambda>_. 0) e) (\<lambda>_ e.
       encode_br_targets cfg mkbr targets fuel_pos e)"

definition encode_br_table_0 ::
  "enc_config \<Rightarrow> op \<Rightarrow> label_ref list \<Rightarrow> nat option \<Rightarrow> op_encoder \<Rightarrow> (translation_error, unit) res \<times> op_encoder" where
  "encode_br_table_0 cfg op targets fuel_pos e =
     and_then (encode_op cfg op fuel_pos provider_base e) (\<lambda>_ e.
       encode_br_targets cfg (\<lambda>off _. [FieldBranch off]) (map (\<lambda>l. (l, ())) targets) fuel_pos e)"

definition encode_br_table_n ::
  "enc_config \<Rightarrow> op \<Rightarrow> (label_ref \<times> 'w::len word slot_span) list \<Rightarrow> nat option \<Rightarrow> op_encoder
   \<Rightarrow> (translation_error, unit) res \<times> op_encoder" where
  "encode_br_table_n cfg op targets fuel_pos e =
     and_then (encode_op cfg op fuel_pos provider_base e) (\<lambda>_ e.
       encode_br_targets cfg (\<lambda>off results. [FieldBytes (to_le_bytes results), FieldBranch off]) targets fuel_pos e)"

subsection \<open>The targets in the buffer\<close>

text \<open>Branch targets of \<open>w\<close> bytes each, the offset in the last four, from position \<open>tp\<close> on.\<close>

definition table_at :: "nat \<Rightarrow> nat \<Rightarrow> label_ref list \<Rightarrow> branch list" where
  "table_at w tp ls = map (\<lambda>i. \<lparr>br_dst = ls ! i, br_src = tp + w * i, br_pos = tp + w * i + (w - 4)\<rparr>) [0..<length ls]"

lemma table_at_Cons: "table_at w tp (l # ls) = \<lparr>br_dst = l, br_src = tp, br_pos = tp + (w - 4)\<rparr> # table_at w (tp + w) ls"
  by (simp add: table_at_def upt_conv_Cons flip: map_Suc_upt del: upt_Suc)

lemma encode_branch_positions:
  assumes enc: "encode_branch cfg l mkbr fp sel e = (Ok (src, pos), e')" and st: "oe_staged e = None"
    and sel: "\<And>cs. sel cs = 0" and mkbr: "\<And>off. mkbr off = pre @ [FieldBranch off]" "plain pre"
  shows "src = length (buf e)" "pos = length (buf e) + length (op_bytes cfg pre)" "oe_staged e' = None"
    "oe_fuel_costs e' = oe_fuel_costs e"
    "\<exists>off :: branch_offset. buf e' = buf e @ op_bytes cfg pre @ to_le_bytes off"
proof -
  have commit: "commit_staged_if_any cfg e = (Ok (), e)" using st by (simp add: commit_staged_if_any_def)
  have bump: "bump_fuel_consumption cfg fp sel e = (Ok (), e)"
    using sel by (simp add: bump_fuel_consumption_def split: option.splits)
  obtain off e3 where e3: "encode_impl cfg (mkbr off) e = (Ok src, e3)"
    and rep: "eo_temp (oe_ops e3) = Some (ReportBranchOffset pos)"
    and e': "oe_staged e' = oe_staged e3" "oe_ops e' = (oe_ops e3)\<lparr>eo_temp := None\<rparr>" "oe_fuel_costs e' = oe_fuel_costs e3"
    using enc unfolding encode_branch_def commit by (simp add: and_then_def bump)
      (auto simp: take_reporting_pos_def split: option.splits reporting_pos.splits bool.splits prod.splits res.splits)
  note enc3 = encode_impl_Ok [OF e3]
  show "src = length (buf e)" "oe_staged e' = None" "oe_fuel_costs e' = oe_fuel_costs e" using enc3 st e' by simp_all
  show "pos = length (buf e) + length (op_bytes cfg pre)"
    using encode_fields_reports [of pre "FieldBranch off" "[]" cfg "oe_ops e" "oe_ops e3"] enc3 mkbr rep by simp
  show "\<exists>off :: branch_offset. buf e' = buf e @ op_bytes cfg pre @ to_le_bytes off"
    using enc3(2) e' mkbr by (auto simp: op_bytes_def)
qed

lemma later_trans: "later cfg e1 F1 B1 e2 F2 B2 \<Longrightarrow> later cfg e F B e1 F1 B1 \<Longrightarrow> later cfg e F B e2 F2 B2"
  by (induction rule: later.induct) (auto intro: later_step)

lemma charge_op_zero: "fuel_in fp F \<Longrightarrow> (\<And>c. sel c = 0) \<Longrightarrow> charge_op F fp cs sel = F"
  by (cases cs) (simp_all add: charge_op_def fuel_in_def split: option.splits)

text \<open>The targets are encoded without gaps, and each one is a branch of the encoder.\<close>

lemma encode_br_targets_later:
  fixes pre :: "'t \<Rightarrow> op"
  assumes "encode_br_targets cfg mkbr targets fp e = (Ok (), e')" "oe_staged e = None" "fuel_in fp F"
    and mkbr: "\<And>off t. mkbr off t = pre t @ [FieldBranch off]" "\<And>t. plain (pre t)"
      "\<And>t. length (op_bytes cfg (pre t)) + 4 = w"
  shows "later cfg e F B e' F (B \<union> set (table_at w (length (buf e)) (map fst targets)))
    \<and> length (buf e') = length (buf e) + w * length targets \<and> take (length (buf e)) (buf e') = buf e
    \<and> (\<forall>i<length targets. take (w - 4) (drop (length (buf e) + w * i) (buf e')) = op_bytes cfg (pre (snd (targets ! i))))"
  using assms(1-3)
proof (induction targets arbitrary: e B)
  case Nil
  then show ?case by (simp add: table_at_def later_refl)
next
  case (Cons x targets)
  obtain l t where x: "x = (l, t)" by (cases x)
  obtain src pos e1 where enc: "encode_branch cfg l (\<lambda>off. mkbr off t) fp (\<lambda>_. 0) e = (Ok (src, pos), e1)"
    and rest: "encode_br_targets cfg mkbr targets fp e1 = (Ok (), e')"
    using Cons.prems(1) by (auto simp: x elim!: and_then_Ok)
  note at = encode_branch_positions [OF enc Cons.prems(2) _ mkbr(1) mkbr(2)]
  have pos: "src = length (buf e)" "pos = length (buf e) + (w - 4)" using at mkbr(3) [of t] by simp_all
  obtain off :: branch_offset where bytes: "buf e1 = buf e @ op_bytes cfg (pre t) @ to_le_bytes off" using at(5) by auto
  let ?b = "\<lparr>br_dst = l, br_src = src, br_pos = pos\<rparr>"
  have "enc_step cfg e F B e1 (charge_op (pending e F) fp (oe_fuel_costs e) (\<lambda>_. 0)) (insert ?b B)"
    by (rule step_branch [where pre = "pre t" and post = "[]"]) (use enc mkbr Cons.prems in auto)
  moreover have "pending e F = F" using Cons.prems(2) by (simp add: pending_def)
  ultimately have step: "later cfg e F B e1 F (insert ?b B)"
    using charge_op_zero [OF Cons.prems(3)] later_step [OF later_refl] by simp
  have len: "length (buf e1) = length (buf e) + w" using bytes mkbr(3) [of t] by simp
  note IH = Cons.IH [OF rest at(3) [simplified] Cons.prems(3), of "insert ?b B"]
  have "insert ?b B \<union> set (table_at w (length (buf e1)) (map fst targets))
      = B \<union> set (table_at w (length (buf e)) (map fst (x # targets)))"
    using len pos x by (simp add: table_at_Cons)
  then have "later cfg e F B e' F (B \<union> set (table_at w (length (buf e)) (map fst (x # targets))))"
    using later_trans [OF conjunct1 [OF IH] step] by simp
  moreover have prefix: "take (length (buf e1)) (buf e') = buf e1" using IH by blast
  moreover have first: "take (w - 4) (drop (length (buf e)) (buf e')) = op_bytes cfg (pre t)"
  proof -
    have "take (w - 4) (drop (length (buf e)) (take (length (buf e1)) (buf e'))) = take (w - 4) (drop (length (buf e)) (buf e'))"
      using len mkbr(3) [of t] by (simp add: drop_take min_def)
    then show ?thesis unfolding prefix unfolding bytes using mkbr(3) [of t] by simp
  qed
  moreover have "take (length (buf e)) (buf e') = buf e"
  proof -
    have "take (length (buf e)) (take (length (buf e1)) (buf e')) = take (length (buf e)) (buf e')" using len by (simp add: min_def)
    then show ?thesis unfolding prefix unfolding bytes by simp
  qed
  moreover have "take (w - 4) (drop (length (buf e) + w * i) (buf e')) = op_bytes cfg (pre (snd ((x # targets) ! i)))"
    if "i < length (x # targets)" for i
    using that IH first len x by (cases i) (simp_all add: algebra_simps)
  ultimately show ?case using IH len by simp
qed

subsection \<open>Where branches go\<close>

text \<open>A branch target of \<open>w\<close> bytes in the final code takes the instruction pointer to its label.\<close>

definition lands_at :: "op_encoder \<Rightarrow> u8 list \<Rightarrow> label_ref \<Rightarrow> ip \<Rightarrow> bool" where
  "lands_at e code l ip = (\<exists>dst. get_label (oe_labels e) l = Some (Pinned dst) \<and> ip = \<lparr>ip_ops = code, ip_pos = dst\<rparr>)"

lemma offset_ip_lands:
  assumes "get_label (oe_labels e) l = Some (Pinned dst)" "dst \<le> length code"
    and "sint off = int dst - int src" "a_ip args = \<lparr>ip_ops = code, ip_pos = src\<rparr>"
  shows "\<exists>ip. offset_ip off args vm = Runs (ControlContinue (args\<lparr>a_ip := ip\<rparr>), vm) \<and> lands_at e code l ip"
  using assms by (simp add: offset_ip_def ip_offset_def lands_at_def Let_def act_simps)

lemma encode_op_staged: "encode_op cfg op fp sel e = (Ok pos, e') \<Longrightarrow> plain op \<Longrightarrow> fuel_in fp F \<Longrightarrow> encoder_inv e F B \<Longrightarrow> oe_staged e' = None"
proof -
  assume enc: "encode_op cfg op fp sel e = (Ok pos, e')" and "plain op" and fp: "fuel_in fp F" and inv: "encoder_inv e F B"
  obtain e1 e2 e3 where e1: "commit_staged_if_any cfg e = (Ok (), e1)" and e2: "bump_fuel_consumption cfg fp sel e1 = (Ok (), e2)"
    and e3: "pad_to_op_alignment cfg e2 = (Ok (), e3)" and e': "encode_impl cfg op e3 = (Ok pos, e')"
    using enc unfolding encode_op_def by (elim and_then_Ok) auto
  note c = commit_inv [OF inv e1]
  have "fuel_in fp (pending e F)" using fp dom_pending [OF inv] by (simp add: fuel_in_def split: option.splits)
  note b = bump_consumption_inv [OF c(1) this e2]
  have "oe_staged e2 = None" using b(2) c(2) by simp
  then show ?thesis using pad_inv(2) [OF b(1) _ e3] encode_impl_Ok [OF e'] by simp
qed

text \<open>A branch table as the translator encodes it, until the end of the translation.\<close>

lemma encode_br_table_0_later:
  assumes enc: "encode_br_table_0 cfg op targets fp e = (Ok (), e')" and op: "plain op" and fp: "fuel_in fp F"
    and inv: "encoder_inv e F B"
  defines "F' \<equiv> charge_op (pending e F) fp (oe_fuel_costs e) provider_base"
  shows "later cfg e F B e' F' (B \<union> set (table_at 4 (length (buf e') - 4 * length targets) targets))
    \<and> 4 * length targets \<le> length (buf e')"
proof -
  obtain pos e1 where e1: "encode_op cfg op fp provider_base e = (Ok pos, e1)"
    and e': "encode_br_targets cfg (\<lambda>off _. [FieldBranch off]) (map (\<lambda>l. (l, ())) targets) fp e1 = (Ok (), e')"
    using enc unfolding encode_br_table_0_def by (elim and_then_Ok) auto
  have step: "enc_step cfg e F B e1 F' B" unfolding F'_def by (rule step_op [OF op fp e1])
  have fp': "fuel_in fp F'"
    using fp dom_pending [OF inv] unfolding F'_def charge_op_def fuel_in_def charge_def by (auto split: option.splits)
  note tab = encode_br_targets_later [OF e' encode_op_staged [OF e1 op fp inv] fp', where pre = "\<lambda>_. []" and w = 4 and B = B]
  have "length (buf e') = length (buf e1) + 4 * length targets"
    using tab by (simp add: op_bytes_def)
  moreover have "later cfg e1 F' B e' F' (B \<union> set (table_at 4 (length (buf e1)) targets))"
    using tab by (simp add: op_bytes_def comp_def)
  ultimately show ?thesis using later_trans [OF _ later_step [OF later_refl step]] by simp
qed

lemma table_target_lands:
  assumes built: "built cfg e F B" and pinned: "\<forall>b\<in>B. is_pinned (oe_labels e) (br_dst b) = Some True"
    and small: "length (buf e) < 2 ^ 31" and upd: "update_branch_offsets cfg e = (Ok (), e')"
    and tab: "set (table_at 4 tp targets) \<subseteq> B" and i: "i < length targets"
    and ip: "a_ip args = \<lparr>ip_ops = buf e', ip_pos = tp + 4 * i\<rparr>"
  shows "\<exists>off ip'. ip_decode decode_branch_offset (a_ip args) = Some (\<lparr>ip_ops = buf e', ip_pos = tp + 4 * i + 4\<rparr>, off)
    \<and> offset_ip off args vm = Runs (ControlContinue (args\<lparr>a_ip := ip'\<rparr>), vm) \<and> lands_at e (buf e') (targets ! i) ip'"
proof -
  let ?b = "\<lparr>br_dst = targets ! i, br_src = tp + 4 * i, br_pos = tp + 4 * i\<rparr>"
  have b: "?b \<in> B" using tab i by (auto simp: table_at_def)
  obtain dst where dst: "get_label (oe_labels e) (targets ! i) = Some (Pinned dst)" "dst \<le> length (buf e)"
    "sint (word_at (buf e') (tp + 4 * i) :: branch_offset) = int dst - int (tp + 4 * i)" "length (buf e') = length (buf e)"
    using update_branch_offsets_outcome [OF built pinned small] b unfolding upd by fastforce
  have "tp + 4 * i + 4 \<le> length (buf e)" using inv_branches(1) [OF built_inv [OF built] b] by simp
  then have "ip_decode decode_branch_offset (a_ip args)
      = Some (\<lparr>ip_ops = buf e', ip_pos = tp + 4 * i + 4\<rparr>, word_at (buf e') (tp + 4 * i))"
    using decode_prim_at [where 'a = 32, of "tp + 4 * i" "buf e'"] dst(4) ip
    by (simp add: ip_decode_def decode_branch_offset_def)
  then show ?thesis
    using offset_ip_lands [OF dst(1) _ dst(3) ip, of vm] dst(2,4) by auto
qed

text \<open>
  C3: a branch table without values that the translator encodes and that any later successful calls of
  the encoder are made after. Once all labels are pinned and their offsets updated, running the table
  with an index \<open>i\<close> moves the instruction pointer to the label of the target \<open>i\<close>, and to the label of
  the last target, which is the default, for every index that is too large; nothing else changes.
\<close>

theorem branch_table_reaches_label:
  assumes built: "built cfg e0 F0 B0" and enc: "encode_br_table_0 cfg op targets fp e0 = (Ok (), e1)"
    and op: "plain op" and fp: "fuel_in fp F0" and targets: "targets \<noteq> []" "length targets < 2 ^ 32"
    and lat: "later cfg e1 (charge_op (pending e0 F0) fp (oe_fuel_costs e0) provider_base)
      (B0 \<union> set (table_at 4 (length (buf e1) - 4 * length targets) targets)) e F B"
    and pin: "\<forall>b\<in>B. is_pinned (oe_labels e) (br_dst b) = Some True" and small: "length (buf e) < 2 ^ 31"
    and upd: "update_branch_offsets cfg e = (Ok (), e')"
    and ip: "a_ip args = \<lparr>ip_ops = buf e', ip_pos = length (buf e1) - 4 * length targets\<rparr>"
    and i: "get_value R args index vm = Runs (ControlContinue i, vm)"
  shows "\<exists>ip. exec_branch_table R args index (of_nat (length targets)) vm = Runs (ControlContinue (args\<lparr>a_ip := ip\<rparr>), vm)
    \<and> lands_at e (buf e') (targets ! min (unat i) (length targets - 1)) ip"
proof -
  let ?tp = "length (buf e1) - 4 * length targets" and ?n = "of_nat (length targets) :: u32"
  let ?i = "min (unat i) (length targets - 1)"
  note tab = encode_br_table_0_later [OF enc op fp built_inv [OF built]]
  have n: "unat (min i (?n - 1)) = ?i"
  proof -
    have len: "unat ?n = length targets" using targets(2) by (simp add: unat_of_nat take_bit_nat_eq_self)
    then have "unat (?n - 1) = length targets - 1" using targets(1) by (subst unat_minus_one) auto
    then show ?thesis by (simp add: min_def word_le_nat_alt)
  qed
  have built': "built cfg e F B" using later_built [OF lat later_built [OF conjunct1 [OF tab] built]] .
  have sub: "set (table_at 4 ?tp targets) \<subseteq> B" using later_branches [OF lat] by blast
  have i_less: "?i < length targets" using targets(1) by (cases targets) auto
  let ?args = "args\<lparr>a_ip := \<lparr>ip_ops = buf e', ip_pos = ?tp + 4 * ?i\<rparr>\<rparr>"
  obtain off ip' where off: "ip_decode decode_branch_offset (a_ip ?args) = Some (\<lparr>ip_ops = buf e', ip_pos = ?tp + 4 * ?i + 4\<rparr>, off)"
    "offset_ip off ?args vm = Runs (ControlContinue (?args\<lparr>a_ip := ip'\<rparr>), vm)" "lands_at e (buf e') (targets ! ?i) ip'"
    using table_target_lands [OF built' pin small upd sub i_less, of ?args vm] by auto
  have "\<lparr>br_dst = targets ! ?i, br_src = ?tp + 4 * ?i, br_pos = ?tp + 4 * ?i\<rparr> \<in> B"
    using sub i_less by (auto simp: table_at_def)
  then have "?tp + 4 * ?i \<le> length (buf e')"
    using inv_branches(1) [OF built_inv [OF built']] update_branch_offsets_outcome [OF built' pin small] upd by fastforce
  then have "exec_branch_table R args index ?n vm = Runs (ControlContinue (args\<lparr>a_ip := ip'\<rparr>), vm)"
    using off i ip n unfolding exec_branch_table_def fetch_branch_table_target_def
    by (simp add: act_bind_def act_return_def ip_add_def act_assume_def)
  then show ?thesis using off(3) by blast
qed

definition sample_table :: op where
  "sample_table = [FieldCode 9, FieldBytes [2, 0, 0, 0]]"

abbreviation sample_table_start :: op_encoder where
  "sample_table_start \<equiv> sample_encoder [] 0 [Pinned 0, Unpinned] []"

abbreviation sample_table_code :: "label list \<Rightarrow> op_encoder" where
  "sample_table_code labels \<equiv>
     sample_encoder [9, 0, 2, 0, 0, 0, 250, 255, 255, 255, 0, 0, 0, 0] 16 labels [\<lparr>lu_dst = 1, lu_src = 10, lu_pos = 10\<rparr>]"

lemma sample_table_built: "built sample_cfg sample_table_start Map.empty {}"
proof -
  have "built sample_cfg (sample_encoder [] 0 [] []) Map.empty {}"
    using built_new [of ops_default sample_cfg "Some \<lparr>custom = None\<rparr>" registry_default]
    by (simp add: sample_encoder_def op_encoder_new_def ops_reset_def ops_default_def registry_reset_def registry_default_def)
  then have "built sample_cfg (sample_encoder [] 0 [Unpinned] []) Map.empty {}"
    by (rule built_step [OF _ step_label [where l = 0]]) (simp add: sample_simps)
  then have "built sample_cfg (sample_encoder [] 0 [Unpinned, Unpinned] []) Map.empty {}"
    by (rule built_step [OF _ step_label [where l = 1]]) (simp add: sample_simps)
  moreover have "pin_label sample_cfg 0 (sample_encoder [] 0 [Unpinned, Unpinned] []) = (Ok (), sample_table_start)"
    by (simp add: sample_simps)
  ultimately show ?thesis using built_step [OF _ step_pin] by (fastforce simp: pending_def sample_encoder_def)
qed

lemma sample_table_encoded:
  "encode_br_table_0 sample_cfg sample_table [0, 1] None sample_table_start = (Ok (), sample_table_code [Pinned 0, Unpinned])"
  by (simp add: encode_br_table_0_def encode_op_def sample_table_def bump_fuel_consumption_by_def sample_simps upt_rec)

lemma sample_table_pinned:
  "pin_label sample_cfg 1 (sample_table_code [Pinned 0, Unpinned]) = (Ok (), sample_table_code [Pinned 0, Pinned 14])"
  by (simp add: sample_simps)

lemma sample_table_later:
  "later sample_cfg (sample_table_code [Pinned 0, Unpinned])
     (charge_op (pending sample_table_start Map.empty) None (oe_fuel_costs sample_table_start) provider_base)
     ({} \<union> set (table_at 4 (length (buf (sample_table_code [Pinned 0, Unpinned])) - 4 * length [0 :: label_ref, 1]) [0, 1]))
     (sample_table_code [Pinned 0, Pinned 14]) Map.empty
     {\<lparr>br_dst = 0, br_src = 6, br_pos = 6\<rparr>, \<lparr>br_dst = 1, br_src = 10, br_pos = 10\<rparr>}"
  using later_step [OF later_refl step_pin [OF sample_table_pinned, where F = Map.empty],
      of "{\<lparr>br_dst = 0, br_src = 6, br_pos = 6\<rparr>, \<lparr>br_dst = 1, br_src = 10, br_pos = 10\<rparr>}"]
  by (simp add: charge_op_def pending_def table_at_def sample_encoder_def upt_rec eval_nat_numeral)

theorem branch_table_reaches_label_witness:
  "\<exists>e'. update_branch_offsets sample_cfg (sample_table_code [Pinned 0, Pinned 14]) = (Ok (), e')
    \<and> (\<forall>vm :: (unit, trap_code, u16) vm_state.
        exec_branch_table slot16 (sample_args (buf e') 6) (Immediate 0) 2 vm = Runs (ControlContinue (sample_args (buf e') 0), vm)
      \<and> exec_branch_table slot16 (sample_args (buf e') 6) (Immediate 7) 2 vm = Runs (ControlContinue (sample_args (buf e') 14), vm))"
proof -
  have plain: "plain sample_table" and fuel: "fuel_in None Map.empty" by (simp_all add: sample_table_def fuel_in_def)
  have e': "update_branch_offsets sample_cfg (sample_table_code [Pinned 0, Pinned 14])
      = (Ok (), sample_encoder [9, 0, 2, 0, 0, 0, 250, 255, 255, 255, 4, 0, 0, 0] 16 [Pinned 0, Pinned 14] [\<lparr>lu_dst = 1, lu_src = 10, lu_pos = 10\<rparr>])"
    (is "_ = (_, ?e')")
    by (simp add: update_branch_offsets_def resolve_user_def sample_simps update_branch_offset_eq upt_rec)
  let ?args = "sample_args (buf ?e')"
  have "exec_branch_table slot16 (?args 6) (Immediate i) 2 vm
      = Runs (ControlContinue (?args (if i = 0 then 0 else 14)), vm)"
    for i and vm :: "(unit, trap_code, u16) vm_state"
  proof -
    have "get_value slot16 (?args 6) (Immediate i) vm = Runs (ControlContinue i, vm)" by (simp add: get_value_def act_return_def)
    moreover have "min (unat i) (Suc 0) = (if i = 0 then 0 else 1)" by (cases "unat i") (auto simp: unat_eq_zero)
    ultimately show ?thesis
      using branch_table_reaches_label [OF sample_table_built sample_table_encoded plain fuel _ _ sample_table_later _ _ e', of "?args 6" slot16 "Immediate i" vm i]
      by (simp add: sample_args_def sample_encoder_def is_pinned_def get_label_def get_opt_def lands_at_def) (auto split: if_splits)
  qed
  then show ?thesis using e' by (intro exI [of _ ?e']) simp
qed

end
