(* ===== verification/Func_Type.thy ===== *)
theory Func_Type
  imports Store
begin

section \<open>Function types (crates/core/src/func_type.rs, crates/wasmi/src/func/ty.rs, engine/func_types.rs)\<close>

text \<open>
  Function types with their two representations, the checks of values against them, and the registry
  of the engine that gives equal types equal keys. Access to the types inside a representation that is
  too short panics: \<open>None\<close>.
\<close>

datatype func_type_error = TooManyFunctionParams | TooManyFunctionResults

datatype func_type =
  Inline u8 u8 "val_type list"
| Big u16 "val_type list"

definition INLINE_SIZE :: nat where "INLINE_SIZE = 21"

definition MAX_LEN_PARAMS :: nat where "MAX_LEN_PARAMS = 1000"

definition MAX_LEN_RESULTS :: nat where "MAX_LEN_RESULTS = 1000"

text \<open>Conversion of the length of a slice to a smaller integer type.\<close>

definition try_from_len :: "nat \<Rightarrow> 'w::len word option" where
  "try_from_len n = (if n < 2 ^ LENGTH('w) then Some (of_nat n) else None)"

definition try_new_small :: "val_type list \<Rightarrow> val_type list \<Rightarrow> func_type option" where
  "try_new_small params results =
     (case try_from_len (length params) of
        None \<Rightarrow> None
      | Some (len_params :: u8) \<Rightarrow>
          (case try_from_len (length results) of
             None \<Rightarrow> None
           | Some (len_results :: u8) \<Rightarrow>
               (case checked_add len_params len_results of
                  None \<Rightarrow> None
                | Some len_inout \<Rightarrow>
                    if unat len_inout > INLINE_SIZE then None
                    else Some (Inline len_params len_results
                      (overwrite (overwrite (replicate INLINE_SIZE I32) 0 params) (unat len_params) results)))))"

definition func_type_new :: "val_type list \<Rightarrow> val_type list \<Rightarrow> (func_type_error, func_type) res" where
  "func_type_new params results =
     (if length params > MAX_LEN_PARAMS then Err TooManyFunctionParams
      else if length results > MAX_LEN_RESULTS then Err TooManyFunctionResults
      else case try_new_small params results of
        Some small \<Rightarrow> Ok small
      | None \<Rightarrow>
          (case try_from_len (length params) of
             None \<Rightarrow> Panic
           | Some len_params \<Rightarrow> Ok (Big len_params (params @ results))))"

fun func_type_params :: "func_type \<Rightarrow> val_type list option" where
  "func_type_params (Inline len_params len_results tys) = slice_to tys (unat len_params)"
| "func_type_params (Big len_params tys) = slice_to tys (unat len_params)"

fun func_type_results :: "func_type \<Rightarrow> val_type list option" where
  "func_type_results (Inline len_params len_results tys) = slice_range tys (unat len_params) (unat len_params + unat len_results)"
| "func_type_results (Big len_params tys) = slice_from tys (unat len_params)"

fun func_type_len_params :: "func_type \<Rightarrow> u16" where
  "func_type_len_params (Inline len_params _ _) = ucast len_params"
| "func_type_len_params (Big len_params _) = len_params"

fun func_type_len_results :: "func_type \<Rightarrow> u16 option" where
  "func_type_len_results (Inline _ len_results _) = Some (ucast len_results)"
| "func_type_len_results (Big len_params tys) =
     (case try_from_len (length tys) of None \<Rightarrow> None | Some len_buffer \<Rightarrow> Some (len_buffer - len_params))"

fun func_type_params_results :: "func_type \<Rightarrow> (val_type list \<times> val_type list) option" where
  "func_type_params_results (Inline len_params len_results tys) =
     map_option (\<lambda>s. (take (unat len_params) s, drop (unat len_params) s)) (slice_to tys (unat len_params + unat len_results))"
| "func_type_params_results (Big len_params tys) =
     (if unat len_params \<le> length tys then Some (take (unat len_params) tys, drop (unat len_params) tys) else None)"

subsection \<open>Values against types (crates/wasmi/src/func/ty.rs)\<close>

datatype func_error =
  ExportedFuncNotFound | MismatchingParameterType | MismatchingParameterLen | MismatchingResultType | MismatchingResultLen

definition match_params :: "func_type \<Rightarrow> val_type list \<Rightarrow> (func_error, unit) res" where
  "match_params ty params =
     (case func_type_params ty of
        None \<Rightarrow> Panic
      | Some expected \<Rightarrow>
          if length expected \<noteq> length params then Err MismatchingParameterLen
          else if expected \<noteq> params then Err MismatchingParameterType
          else Ok ())"

definition match_results :: "func_type \<Rightarrow> val_type list \<Rightarrow> (func_error, unit) res" where
  "match_results ty results =
     (case func_type_results ty of
        None \<Rightarrow> Panic
      | Some expected \<Rightarrow>
          if length expected \<noteq> length results then Err MismatchingResultLen
          else if expected \<noteq> results then Err MismatchingResultType
          else Ok ())"

definition prepare_outputs :: "func_type \<Rightarrow> val list \<Rightarrow> (func_error, unit) res \<times> val list" where
  "prepare_outputs ty outputs =
     (case func_type_results ty of
        None \<Rightarrow> (Panic, outputs)
      | Some expected \<Rightarrow>
          if length expected \<noteq> length outputs then (Err MismatchingResultLen, outputs)
          else (Ok (), map val_default_for_ty expected))"

subsection \<open>The registry of the engine (crates/wasmi/src/engine/func_types.rs)\<close>

record func_type_registry =
  fr_engine_id :: u32
  fr_func_types :: "(u32, func_type) dedup_arena"

definition registry_new :: "u32 \<Rightarrow> func_type_registry" where
  "registry_new engine_id = \<lparr>fr_engine_id = engine_id, fr_func_types = dedup_new\<rparr>"

text \<open>A function type has 24 bytes. A failed allocation is a panic.\<close>

definition alloc_func_type :: "allocator \<Rightarrow> func_type_registry \<Rightarrow> func_type \<Rightarrow> dedup_func_type option \<times> func_type_registry" where
  "alloc_func_type alloc reg ty =
     (case dedup_alloc u32_key alloc 24 (fr_func_types reg) ty of
        (Ok key, d) \<Rightarrow> (Some (stored_wrap (fr_engine_id reg) key), reg\<lparr>fr_func_types := d\<rparr>)
      | (_, d) \<Rightarrow> (None, reg\<lparr>fr_func_types := d\<rparr>))"

definition resolve_func_type :: "func_type_registry \<Rightarrow> dedup_func_type \<Rightarrow> func_type option" where
  "resolve_func_type reg key =
     (case stored_unwrap (fr_engine_id reg) key of
        None \<Rightarrow> None
      | Some raw_key \<Rightarrow>
          (case dedup_get u32_key (fr_func_types reg) raw_key of Ok ty \<Rightarrow> Some ty | _ \<Rightarrow> None))"

subsection \<open>Properties\<close>

lemma slice_to_append [simp]: "n = length xs \<Longrightarrow> slice_to (xs @ ys) n = Some xs"
  by (simp add: slice_to_def)

lemma slice_from_append [simp]: "n = length xs \<Longrightarrow> slice_from (xs @ ys) n = Some ys"
  by (simp add: slice_from_def)

lemma unat_ucast_u8_u16 [simp]: "unat (ucast (x :: u8) :: u16) = unat x"
  using unsigned_less [of x, where ?'a = nat] by (simp add: unsigned_ucast_eq take_bit_nat_eq_self)

text \<open>The types that are stored: those of the parameters, those of the results, and unspecified ones.\<close>

lemma try_new_small_Some:
  assumes "try_new_small params results = Some ty"
  shows "\<exists>rest. ty = Inline (of_nat (length params)) (of_nat (length results)) (params @ results @ rest)
    \<and> length params + length results < 256"
proof -
  have len: "length params < 256" "length results < 256"
    "unat (of_nat (length params) :: u8) + unat (of_nat (length results) :: u8) \<le> INLINE_SIZE"
    and ty: "ty = Inline (of_nat (length params)) (of_nat (length results))
      (overwrite (overwrite (replicate INLINE_SIZE I32) 0 params) (unat (of_nat (length params) :: u8)) results)"
    using assms by (auto simp: try_new_small_def try_from_len_def checked_add_Some split: option.splits if_splits)
  have unat: "unat (of_nat (length params) :: u8) = length params" "unat (of_nat (length results) :: u8) = length results"
    using len(1,2) by (simp_all add: unat_of_nat)
  then show ?thesis using ty len(3) by (simp add: overwrite_def INLINE_SIZE_def)
qed

lemma func_type_new_Ok:
  assumes "func_type_new params results = Ok ty"
  shows "func_type_params ty = Some params" "func_type_results ty = Some results"
    "func_type_params_results ty = Some (params, results)" "unat (func_type_len_params ty) = length params"
    "\<exists>n. func_type_len_results ty = Some n \<and> unat n = length results"
proof -
  have len: "length params \<le> 1000" "length results \<le> 1000"
    using assms by (auto simp: func_type_new_def MAX_LEN_PARAMS_def MAX_LEN_RESULTS_def split: if_splits)
  consider rest where "ty = Inline (of_nat (length params)) (of_nat (length results)) (params @ results @ rest)"
      "length params + length results < 256"
    | "ty = Big (of_nat (length params)) (params @ results)"
    using assms try_new_small_Some [of params results]
    by (auto simp: func_type_new_def try_from_len_def split: if_splits option.splits)
  then have "func_type_params ty = Some params \<and> func_type_results ty = Some results
    \<and> func_type_params_results ty = Some (params, results) \<and> unat (func_type_len_params ty) = length params
    \<and> (\<exists>n. func_type_len_results ty = Some n \<and> unat n = length results)"
  proof cases
    case 1
    then show ?thesis by (simp add: slice_to_def slice_range_def unat_of_nat)
  next
    case 2
    have "unat (of_nat (length params + length results) - of_nat (length params) :: u16) = length results"
      using len by (simp add: unat_of_nat)
    then show ?thesis using 2 len by (simp add: slice_to_def slice_from_def unat_of_nat try_from_len_def)
  qed
  then show "func_type_params ty = Some params" "func_type_results ty = Some results"
    "func_type_params_results ty = Some (params, results)" "unat (func_type_len_params ty) = length params"
    "\<exists>n. func_type_len_results ty = Some n \<and> unat n = length results"
    by blast+
qed

lemma func_type_new_inj:
  assumes "func_type_new params results = Ok ty" "func_type_new params' results' = Ok ty'"
  shows "ty = ty' \<longleftrightarrow> params = params' \<and> results = results'"
  using func_type_new_Ok(1,2) [OF assms(1)] func_type_new_Ok(1,2) [OF assms(2)] assms by auto

text \<open>
  A function type can be made exactly if there are at most 1000 parameters and 1000 results, whichever
  representation it gets. It then has these parameters and results, and their numbers are exact 16 bit
  integers. So the derived equality of function types, which compares the representations and what
  they have behind the types, is the equality of parameters and results.
\<close>

theorem func_type_canonical:
  "(case func_type_new params results of
      Ok ty \<Rightarrow> length params \<le> 1000 \<and> length results \<le> 1000
        \<and> func_type_params ty = Some params \<and> func_type_results ty = Some results
        \<and> func_type_params_results ty = Some (params, results)
        \<and> unat (func_type_len_params ty) = length params
        \<and> (\<exists>n. func_type_len_results ty = Some n \<and> unat n = length results)
        \<and> (\<forall>params' results'. func_type_new params' results' = Ok ty \<longleftrightarrow> params' = params \<and> results' = results)
    | Err TooManyFunctionParams \<Rightarrow> 1000 < length params
    | Err TooManyFunctionResults \<Rightarrow> length params \<le> 1000 \<and> 1000 < length results
    | Panic \<Rightarrow> False)"
proof (cases "func_type_new params results")
  case (Ok ty)
  then have "length params \<le> 1000 \<and> length results \<le> 1000"
    by (auto simp: func_type_new_def MAX_LEN_PARAMS_def MAX_LEN_RESULTS_def split: if_splits)
  moreover have "func_type_new params' results' = Ok ty \<longleftrightarrow> params' = params \<and> results' = results" for params' results'
    using Ok func_type_new_inj [OF Ok, of params' results' ty] by auto
  ultimately show ?thesis using func_type_new_Ok [OF Ok] unfolding Ok by simp
next
  case (Err e)
  then show ?thesis
    by (auto simp: func_type_new_def MAX_LEN_PARAMS_def MAX_LEN_RESULTS_def split: if_splits option.splits)
next
  case Panic
  then show ?thesis
    by (auto simp: func_type_new_def try_from_len_def MAX_LEN_PARAMS_def split: if_splits option.splits)
qed



subsection \<open>Keys of types\<close>

text \<open>The registry after any number of allocations, each of which succeeded.\<close>

definition registry_wf :: "func_type_registry \<Rightarrow> bool" where
  "registry_wf reg = dedup_wf u32_key 24 (fr_func_types reg)"

fun alloc_func_types :: "allocator \<Rightarrow> func_type_registry \<Rightarrow> func_type list \<Rightarrow> dedup_func_type list option \<times> func_type_registry" where
  "alloc_func_types alloc reg [] = (Some [], reg)"
| "alloc_func_types alloc reg (ty # tys) =
     (case alloc_func_type alloc reg ty of
        (Some key, reg') \<Rightarrow>
          (case alloc_func_types alloc reg' tys of
             (Some keys, reg'') \<Rightarrow> (Some (key # keys), reg'')
           | (None, reg'') \<Rightarrow> (None, reg''))
      | (None, reg') \<Rightarrow> (None, reg'))"

lemma registry_new_wf: "registry_wf (registry_new engine_id)"
  by (auto simp: registry_wf_def registry_new_def dedup_wf_def dedup_new_def arena_new_wf dedup_get_def
      arena_get_def arena_new_def arena_wf_def)

text \<open>In a registry the keys that resolve and the types that they resolve to correspond one to one.\<close>

lemma resolve_func_type_inj:
  assumes "registry_wf reg" "resolve_func_type reg k = Some ty" "resolve_func_type reg k' = Some ty'"
  shows "k = k' \<longleftrightarrow> ty = ty'"
proof
  assume "ty = ty'"
  have valid: "ak_valid u32_key k" for k by (simp add: u32_key_def)
  have "item2key (fr_func_types reg) ty = Some (sd_value k)" "item2key (fr_func_types reg) ty = Some (sd_value k')"
    using assms \<open>ty = ty'\<close> valid
    by (auto simp: registry_wf_def dedup_wf_def resolve_func_type_def stored_unwrap_def split: option.splits res.splits if_splits)
  then show "k = k'"
    using assms(2,3) by (auto simp: resolve_func_type_def stored_unwrap_def split: if_splits)
qed (use assms in simp)

lemma alloc_func_type_law:
  assumes wf: "registry_wf reg" and alloc: "alloc_func_type alloc reg ty = (Some key, reg')"
  shows "registry_wf reg'" "resolve_func_type reg' key = Some ty"
    "resolve_func_type reg k = Some t \<Longrightarrow> resolve_func_type reg' k = Some t"
proof -
  obtain raw d where d: "dedup_alloc u32_key alloc 24 (fr_func_types reg) ty = (Ok raw, d)"
    "key = stored_wrap (fr_engine_id reg) raw" "reg' = reg\<lparr>fr_func_types := d\<rparr>"
    using alloc by (auto simp: alloc_func_type_def split: prod.splits res.splits)
  note law = u32_key.dedup_alloc_law [OF wf [unfolded registry_wf_def], where alloc = alloc and x = ty, unfolded d(1)]
  show "registry_wf reg'" using law d(3) by (simp add: registry_wf_def)
  show "resolve_func_type reg' key = Some ty"
    using law d(2,3) by (simp add: resolve_func_type_def stored_unwrap_def stored_wrap_def)
  show "resolve_func_type reg' k = Some t" if "resolve_func_type reg k = Some t"
    using that law d(3)
    by (auto simp: resolve_func_type_def dedup_get_def arena_get_def nth_append get_opt_def split: option.splits res.splits if_splits)
qed

lemma alloc_func_types_law:
  assumes "registry_wf reg" "alloc_func_types alloc reg tys = (Some keys, reg')"
  shows "registry_wf reg' \<and> list_all2 (\<lambda>k ty. resolve_func_type reg' k = Some ty) keys tys
    \<and> (\<forall>k t. resolve_func_type reg k = Some t \<longrightarrow> resolve_func_type reg' k = Some t)"
  using assms
proof (induction tys arbitrary: reg keys)
  case (Cons ty tys)
  then obtain key reg1 keys1 where a: "alloc_func_type alloc reg ty = (Some key, reg1)"
    "alloc_func_types alloc reg1 tys = (Some keys1, reg')" "keys = key # keys1"
    by (auto split: prod.splits option.splits)
  note law = alloc_func_type_law [OF Cons.prems(1) a(1)]
  show ?case using Cons.IH [OF law(1) a(2)] law(2,3) a(3) by auto
qed simp

text \<open>
  C40: signatures at run time. Register any sequence of function types, given by their parameters and
  results, in the registry of an engine. Afterwards every key resolves to its type, the keys that were
  registered before still do, and two keys are equal exactly if parameters and results are: comparing
  keys, as indirect calls do, decides whether the signatures agree.
\<close>

theorem signature_keys:
  assumes wf: "registry_wf reg"
    and tys: "list_all2 (\<lambda>(params, results) ty. func_type_new params results = Ok ty) sigs tys"
    and alloc: "alloc_func_types alloc reg tys = (Some keys, reg')"
  shows "registry_wf reg' \<and> length keys = length sigs
    \<and> (\<forall>i < length sigs. \<exists>ty. resolve_func_type reg' (keys ! i) = Some ty
          \<and> func_type_params ty = Some (fst (sigs ! i)) \<and> func_type_results ty = Some (snd (sigs ! i)))
    \<and> (\<forall>i < length sigs. \<forall>j < length sigs. keys ! i = keys ! j \<longleftrightarrow> sigs ! i = sigs ! j)
    \<and> (\<forall>k ty. resolve_func_type reg k = Some ty \<longrightarrow> resolve_func_type reg' k = Some ty)"
proof -
  note law = alloc_func_types_law [OF wf alloc]
  have len: "length keys = length sigs" "length tys = length sigs"
    using law tys by (auto dest!: list_all2_lengthD)
  have ty: "func_type_new (fst (sigs ! i)) (snd (sigs ! i)) = Ok (tys ! i)" if "i < length sigs" for i
    using tys that by (auto simp: list_all2_conv_all_nth case_prod_beta)
  have key: "resolve_func_type reg' (keys ! i) = Some (tys ! i)" if "i < length sigs" for i
    using law len that by (auto simp: list_all2_conv_all_nth)
  have "keys ! i = keys ! j \<longleftrightarrow> sigs ! i = sigs ! j" if "i < length sigs" "j < length sigs" for i j
    using resolve_func_type_inj [of reg' "keys ! i" "tys ! i" "keys ! j" "tys ! j"] law key [OF that(1)] key [OF that(2)]
      func_type_new_inj [OF ty [OF that(1)] ty [OF that(2)]] by (simp add: prod_eq_iff)
  then show ?thesis
    using law len key func_type_new_Ok(1,2) [OF ty] by auto
qed

theorem signature_keys_witness:
  "\<exists>tys keys reg'. alloc_func_types (\<lambda>_. True) (registry_new 3) tys = (Some keys, reg')
    \<and> list_all2 (\<lambda>(params, results) ty. func_type_new params results = Ok ty) [([I32], []), ([], [I32]), ([I32], [])] tys
    \<and> keys ! 0 \<noteq> keys ! 1 \<and> keys ! 0 = keys ! 2"
proof -
  let ?sigs = "[([I32], []), ([], [I32]), ([I32], [])] :: (val_type list \<times> val_type list) list"
  let ?tys = "map (\<lambda>(params, results). case func_type_new params results of Ok ty \<Rightarrow> ty | _ \<Rightarrow> Big 0 []) ?sigs"
  have new: "func_type_new [I32] [] = Ok (Inline 1 0 (I32 # replicate 20 I32))"
    "func_type_new [] [I32] = Ok (Inline 0 1 (I32 # replicate 20 I32))"
    by (simp_all add: func_type_new_def MAX_LEN_PARAMS_def MAX_LEN_RESULTS_def try_new_small_def try_from_len_def
        checked_add_def INLINE_SIZE_def overwrite_def)
  then have tys: "list_all2 (\<lambda>(params, results) ty. func_type_new params results = Ok ty) ?sigs ?tys" by simp
  have "\<exists>keys reg'. alloc_func_types (\<lambda>_. True) (registry_new 3) ?tys = (Some keys, reg')"
    by (simp add: new alloc_func_type_def registry_new_def dedup_alloc_def dedup_new_def next_key_def arena_new_def
        arena_alloc_def u32_key_def try_reserve_def arena_len_def try_from_def isize_max_def min_non_zero_cap_def)
  then obtain keys reg' where alloc: "alloc_func_types (\<lambda>_. True) (registry_new 3) ?tys = (Some keys, reg')" by blast
  have "keys ! i = keys ! j \<longleftrightarrow> ?sigs ! i = ?sigs ! j" if "i < length ?sigs" "j < length ?sigs" for i j
    using signature_keys [OF registry_new_wf tys alloc] that by blast
  from this [of 0 1] this [of 0 2] have "keys ! 0 \<noteq> keys ! 1 \<and> keys ! 0 = keys ! 2" by simp
  with tys alloc show ?thesis by blast
qed

end
