(* ===== verification/Exec_Run.thy ===== *)
theory Exec_Run
  imports Exec_Calls Exec_Branch Func_Type
begin

section \<open>Dispatch, calls from the host and resumption (executor/handler/dispatch, func.rs, executor/mod.rs)\<close>

text \<open>
  The loop that runs handlers until one breaks, calls of Wasm and host functions by the embedder, and
  the resumption of calls that ended with an error of a host function or without fuel. The table of
  handlers and the addresses of handlers, which depend on generated code, are parameters. The
  optional feature \<open>majit-jit\<close> is off. A call gets the stack that it uses, new or from the cache of the
  engine, as part of its state.
\<close>

subsection \<open>Dispatch (dispatch/mod.rs, dispatch/backend)\<close>

type_synonym 'vm handler = "args \<Rightarrow> ('vm, args) action"

record 'vm dispatch_env =
  dp_config :: exec_config
  dp_handlers :: "'vm handler list"
  dp_handler_at :: "usize \<Rightarrow> 'vm handler option"

definition op_code_to_handler :: "'vm dispatch_env \<Rightarrow> u16 \<Rightarrow> 'vm handler option" where
  "op_code_to_handler D code = get_opt (dp_handlers D) (unat code)"

definition fetch_handler :: "'vm dispatch_env \<Rightarrow> ip \<Rightarrow> 'vm handler option" where
  "fetch_handler D ip =
     (if xc_indirect_dispatch (dp_config D)
      then Option.bind (ip_decode (decode_op_code (xc_len_ops (dp_config D))) ip) (\<lambda>(_, code). op_code_to_handler D code)
      else Option.bind (ip_decode (decode_prim :: usize decode) ip) (\<lambda>(_, addr). dp_handler_at D addr))"

text \<open>\<open>None\<close>: the loop does not end.\<close>

partial_function (option) execute_until_break :: "'vm dispatch_env \<Rightarrow> args \<Rightarrow> 'vm \<Rightarrow> (break \<times> 'vm) exec option" where
  "execute_until_break D args vm =
     (case fetch_handler D (a_ip args) of
        None \<Rightarrow> Some Undefined
      | Some handler \<Rightarrow>
          (case handler args vm of
             Runs (ControlContinue args', vm') \<Rightarrow> execute_until_break D args' vm'
           | Runs (ControlBreak b, vm') \<Rightarrow> Some (Runs (b, vm'))
           | Panics \<Rightarrow> Some Panics
           | Undefined \<Rightarrow> Some Undefined
           | Diverges \<Rightarrow> None))"

definition handle_break ::
  "(trap_code \<Rightarrow> 'err) \<Rightarrow> break \<Rightarrow> (('l, 'err, 's, 'z) vm_state_scheme, ('err, 's) execution_outcome, sp) fallible" where
  "handle_break of_trap b vm =
     (case break_trap_code b of
        Some trap_code \<Rightarrow> Runs (ControlBreak (OutcomeError (of_trap trap_code)), vm)
      | None \<Rightarrow>
          (case take_done_reason vm of
             Runs (why, vm') \<Rightarrow>
               (case into_execution_outcome why of
                  Ok sp \<Rightarrow> Runs (ControlContinue sp, vm')
                | Err outcome \<Rightarrow> Runs (ControlBreak outcome, vm')
                | Panic \<Rightarrow> Panics)
           | Panics \<Rightarrow> Panics
           | Undefined \<Rightarrow> Undefined
           | Diverges \<Rightarrow> Diverges))"

definition execute_until_done ::
  "(trap_code \<Rightarrow> 'err) \<Rightarrow> ('l, 'err, 's, 'z) vm_state_scheme dispatch_env \<Rightarrow> args
   \<Rightarrow> (('l, 'err, 's, 'z) vm_state_scheme, ('err, 's) execution_outcome, sp) fallible" where
  "execute_until_done of_trap D args vm =
     (case execute_until_break D args vm of
        None \<Rightarrow> Diverges
      | Some (Runs (b, vm')) \<Rightarrow> handle_break of_trap b vm'
      | Some Panics \<Rightarrow> Panics
      | Some Undefined \<Rightarrow> Undefined
      | Some Diverges \<Rightarrow> Diverges)"

subsection \<open>Calls of functions by the host (func.rs)\<close>

text \<open>The errors of the crate that traps and type errors are converted to.\<close>

record ('l, 'err, 's, 'm, 'v, 'f, 'e) host_env = "('l, 'err, 's, 'm, 'v, 'f, 'e) call_env" +
  he_of_trap :: "trap_code \<Rightarrow> 'err"
  he_of_func_error :: "func_error \<Rightarrow> 'err"

record wasm_func_call =
  wc_ip :: ip
  wc_sp :: sp
  wc_instance :: handle
  wc_ireg :: u64
  wc_freg32 :: u32
  wc_freg64 :: u64

definition act_error :: "'e \<Rightarrow> ('vm, 'e, 'a) fallible" where
  "act_error e vm = Runs (ControlBreak e, vm)"

text \<open>The operator \<open>?\<close> on a result, with the conversion of its error.\<close>

definition act_try :: "('x \<Rightarrow> 'e) \<Rightarrow> ('x, 'a) res \<Rightarrow> ('vm, 'e, 'a) fallible" where
  "act_try conv r = (case r of Ok x \<Rightarrow> act_return x | Err e \<Rightarrow> act_error (conv e) | Panic \<Rightarrow> act_panic)"

definition map_error :: "('x \<Rightarrow> 'e) \<Rightarrow> ('vm, 'x, 'a) fallible \<Rightarrow> ('vm, 'e, 'a) fallible" where
  "map_error conv m vm =
     (case m vm of
        Runs (ControlContinue x, vm') \<Rightarrow> Runs (ControlContinue x, vm')
      | Runs (ControlBreak e, vm') \<Rightarrow> Runs (ControlBreak (conv e), vm')
      | Panics \<Rightarrow> Panics
      | Undefined \<Rightarrow> Undefined
      | Diverges \<Rightarrow> Diverges)"

text \<open>
  Values are written to and read from the cells at a stack pointer without a check of bounds; a value
  that does not belong to the store makes the caller panic.
\<close>

definition write_vals :: "sp \<Rightarrow> val list \<Rightarrow> (('l, 'err, 's, 'z) vm_state_scheme, 'e, unit) fallible" where
  "write_vals sp vals vm =
     (case lower_vals (si_id (vm_inner vm)) vals \<lparr>cw_cells = sp_cells sp (vm_stack vm), cw_pos = 0\<rparr> of
        (Ok _, w) \<Rightarrow> Runs (ControlContinue (), vm\<lparr>vm_stack := set_sp_cells sp (cw_cells w) (vm_stack vm)\<rparr>)
      | (Err NotEnoughCells, _) \<Rightarrow> Undefined
      | _ \<Rightarrow> Panics)"

definition write_results :: "sp \<Rightarrow> val list \<Rightarrow> (('l, 'err, 's, 'z) vm_state_scheme, 'e, val list) fallible" where
  "write_results sp outputs vm =
     (case lift_vals (si_id (vm_inner vm)) outputs (sp_cells sp (vm_stack vm)) of
        (Ok _, outputs', _) \<Rightarrow> Runs (ControlContinue outputs', vm)
      | (Err NotEnoughCells, _) \<Rightarrow> Undefined
      | _ \<Rightarrow> Panics)"

definition init_wasm_func_call ::
  "('l, 'err, 'w::len word, 'm, 'v, 'f, 'e, 'x) host_env_scheme \<Rightarrow> engine_func \<Rightarrow> handle
   \<Rightarrow> (('l, 'err, 's, 'm, 'v, 'f, 'z) call_state_scheme, 'err, wasm_func_call) fallible" where
  "init_wasm_func_call E func instance vm =
     (case view_get_or_compile (cl_compile E) (vm_code_map vm) (vm_view vm) (Some (si_fuel (vm_inner vm))) func of
        None \<Rightarrow> Diverges
      | Some (r, fuel', cm) \<Rightarrow>
          act_bind (act_modify (\<lambda>vm. (set_inner ((vm_inner vm)\<lparr>si_fuel := the fuel'\<rparr>) vm)\<lparr>vm_code_map := cm\<rparr>)) (\<lambda>_.
          act_bind (act_try (cl_error E) r) (\<lambda>compiled.
            case compiled of
              None \<Rightarrow> act_panic
            | Some c \<Rightarrow>
                act_bind (act_get (\<lambda>vm. try_resolve_instance (vm_inner vm) instance)) (\<lambda>i.
                  case i of
                    Ok _ \<Rightarrow>
                      act_bind (act_get (\<lambda>vm. push_frame (cl_repr E) (cl_alloc E) (cl_stale E) None (ip_from (cr_ops c))
                          (bounded_span_new (slot_from_u16 (cl_repr E) 0) 0) (cr_len_local_slots c) (cr_len_stack_slots c)
                          (Some instance) (vm_stack vm))) (\<lambda>(r, st).
                      act_bind (act_modify (\<lambda>vm. vm\<lparr>vm_stack := st\<rparr>)) (\<lambda>_.
                      act_bind (act_try (he_of_trap E) r) (\<lambda>callee_sp.
                      act_bind (act_get (\<lambda>vm. stack_regs (vm_stack vm))) (\<lambda>(ireg, freg32, freg64).
                        act_return \<lparr>wc_ip = ip_from (cr_ops c), wc_sp = callee_sp, wc_instance = instance,
                          wc_ireg = ireg, wc_freg32 = freg32, wc_freg64 = freg64\<rparr>))))
                  | _ \<Rightarrow> act_undefined))) vm)"

definition resume_wasm_func_call ::
  "(('l, 'err, 's, 'm, 'v, 'f, 'z) call_state_scheme, 'e, wasm_func_call) fallible" where
  "resume_wasm_func_call vm =
     (case stack_restore_frame (vm_stack vm) of
        None \<Rightarrow> Panics
      | Some (ip, sp, instance, ireg, freg32, freg64) \<Rightarrow>
          Runs (ControlContinue \<lparr>wc_ip = ip, wc_sp = sp, wc_instance = instance,
            wc_ireg = ireg, wc_freg32 = freg32, wc_freg64 = freg64\<rparr>, vm))"

text \<open>Running an action for its outcome; an action that never breaks.\<close>

definition act_catch :: "('vm, 'b, 'a) fallible \<Rightarrow> ('vm, 'e, ('b, 'a) control) fallible" where
  "act_catch m vm =
     (case m vm of
        Runs (c, vm') \<Rightarrow> Runs (ControlContinue c, vm')
      | Panics \<Rightarrow> Panics
      | Undefined \<Rightarrow> Undefined
      | Diverges \<Rightarrow> Diverges)"

definition no_break :: "('vm, 'b, 'a) fallible \<Rightarrow> ('vm, 'e, 'a) fallible" where
  "no_break m = act_bind (act_catch m) (\<lambda>c. case c of ControlContinue x \<Rightarrow> act_return x | ControlBreak _ \<Rightarrow> act_panic)"

definition set_store_and_code ::
  "'l pruned_store \<times> ('m, 'v, 'f) code_map \<Rightarrow> (('l, 'err, 's, 'm, 'v, 'f, 'z) call_state_scheme, 'e, unit) fallible" where
  "set_store_and_code world = act_modify (\<lambda>vm. vm\<lparr>vm_store := fst world, vm_code_map := snd world\<rparr>)"

definition invoke_call_hook ::
  "('l, 'err, 'w, 'm, 'v, 'f, 'c, 'x) call_env_scheme \<Rightarrow> call_hook
   \<Rightarrow> (('l, 'err, 's, 'm, 'v, 'f, 'z) call_state_scheme, 'err, unit) fallible" where
  "invoke_call_hook E hook =
     act_bind (act_get (\<lambda>vm. cl_hook E hook (vm_store vm, vm_code_map vm))) (\<lambda>(r, world).
     act_bind (set_store_and_code world) (\<lambda>_. act_try (\<lambda>e. e) r))"

definition start_args :: "wasm_func_call \<Rightarrow> mem0 \<Rightarrow> args" where
  "start_args call mem0 =
     \<lparr>a_ip = wc_ip call, a_sp = wc_sp call, a_mem0 = mem0, a_instance = wc_instance call,
      a_ireg = wc_ireg call, a_freg32 = wc_freg32 call, a_freg64 = wc_freg64 call\<rparr>"

definition execute_stock ::
  "('l, 'err, 'w, 'm, 'v, 'f, 'c, 'x) host_env_scheme \<Rightarrow> ('l, 'err, 's, 'm, 'v, 'f, 'z) call_state_scheme dispatch_env \<Rightarrow> wasm_func_call
   \<Rightarrow> (('l, 'err, 's, 'm, 'v, 'f, 'z) call_state_scheme, ('err, 's) execution_outcome, sp) fallible" where
  "execute_stock E D call =
     act_bind (no_break (extract_mem0 (cl_mem_ptr E) (cl_dangling E) (wc_instance call))) (\<lambda>mem0.
     act_bind (act_modify (\<lambda>vm. vm\<lparr>vm_done := None\<rparr>)) (\<lambda>_.
       execute_until_done (he_of_trap E) D (start_args call mem0)))"

text \<open>The hook after the execution is called whatever its outcome; an error of the hook wins.\<close>

definition execute_call ::
  "('l, 'err, 'w, 'm, 'v, 'f, 'c, 'x) host_env_scheme \<Rightarrow> ('l, 'err, 's, 'm, 'v, 'f, 'z) call_state_scheme dispatch_env \<Rightarrow> wasm_func_call
   \<Rightarrow> (('l, 'err, 's, 'm, 'v, 'f, 'z) call_state_scheme, ('err, 's) execution_outcome, sp) fallible" where
  "execute_call E D call =
     act_bind (map_error OutcomeError (invoke_call_hook E CallingWasm)) (\<lambda>_.
     act_bind (act_catch (execute_stock E D call)) (\<lambda>outcome.
     act_bind (map_error OutcomeError (invoke_call_hook E ReturningFromWasm)) (\<lambda>_.
       case outcome of ControlContinue sp \<Rightarrow> act_return sp | ControlBreak e \<Rightarrow> act_error e)))"

definition init_host_func_call ::
  "('l, 'err, 'w::len word, 'm, 'v, 'f, 'c, 'x) host_env_scheme \<Rightarrow> host_func
   \<Rightarrow> (('l, 'err, 's, 'm, 'v, 'f, 'z) call_state_scheme, 'err, sp \<times> inout_params) fallible" where
  "init_host_func_call E host =
     act_bind (act_get (\<lambda>vm. prepare_host_frame (cl_repr E) (cl_alloc E) (cl_stale E) None
         (bounded_span_new (slot_from_u16 (cl_repr E) 0) (hf_len_param_cells host)) (hf_len_result_cells host) (vm_stack vm))) (\<lambda>(r, st).
     act_bind (act_modify (\<lambda>vm. vm\<lparr>vm_stack := st\<rparr>)) (\<lambda>_.
       act_try (he_of_trap E) r))"

text \<open>The cells of the host function are cells of the stack: it sees the parameters that were written meanwhile.\<close>

definition current_inout :: "inout_params \<Rightarrow> (ip, handle) exec_stack \<Rightarrow> inout_params" where
  "current_inout io st =
     io\<lparr>io_cells := take (length (io_cells io)) (drop (unat (io_start io)) (vs_cells (st_values st)))\<rparr>"

definition execute_host ::
  "('l, 'err, 's, 'm, 'v, 'f, 'c, 'x) host_env_scheme \<Rightarrow> host_func \<Rightarrow> inout_params
   \<Rightarrow> (('l, 'err, 's, 'm, 'v, 'f, 'z) call_state_scheme, 'err, unit) fallible" where
  "execute_host E host inout =
     act_bind (act_get (\<lambda>vm. current_inout inout (vm_stack vm))) (\<lambda>inout.
     act_bind (act_get (\<lambda>vm. call_host_func E (hf_trampoline host) None inout HooksIgnore (vm_store vm, vm_code_map vm))) (\<lambda>(r, cells, world).
     act_bind (act_modify (set_world inout cells world)) (\<lambda>_.
       case r of
         Ok _ \<Rightarrow> act_return ()
       | Err (External e) \<Rightarrow> act_error e
       | Err (Internal _) \<Rightarrow> act_panic
       | Panic \<Rightarrow> act_panic)))"

subsection \<open>The executor of the engine (executor/mod.rs)\<close>

definition resolve_func :: "handle \<Rightarrow> (('l, 'err, 's, 'z) vm_state_scheme, 'e, func_entity) fallible" where
  "resolve_func func =
     act_bind (act_get (\<lambda>vm. try_resolve_func (vm_inner vm) func)) (\<lambda>r. case r of Ok f \<Rightarrow> act_return f | _ \<Rightarrow> act_panic)"

definition execute_root_func ::
  "('l, 'err, 'w::len word, 'm, 'v, 'f, 'c, 'x) host_env_scheme \<Rightarrow> ('l, 'err, 'w word, 'm, 'v, 'f, 'z) call_state_scheme dispatch_env
   \<Rightarrow> handle \<Rightarrow> val list \<Rightarrow> val list
   \<Rightarrow> (('l, 'err, 'w word, 'm, 'v, 'f, 'z) call_state_scheme, ('err, 'w word) execution_outcome, val list) fallible" where
  "execute_root_func E D func params outputs =
     act_bind (act_modify (\<lambda>vm. vm\<lparr>vm_stack := stack_reset (vm_stack vm)\<rparr>)) (\<lambda>_.
     act_bind (resolve_func func) (\<lambda>entity.
       case entity of
         WasmFunc f \<Rightarrow>
           act_bind (map_error OutcomeError (init_wasm_func_call E (wf_body f) (wf_instance f))) (\<lambda>call.
           act_bind (write_vals (wc_sp call) params) (\<lambda>_.
           act_bind (execute_call E D call) (\<lambda>sp.
             write_results sp outputs)))
       | HostFunc host \<Rightarrow>
           act_bind (map_error OutcomeError (init_host_func_call E host)) (\<lambda>(sp, inout).
           act_bind (write_vals sp params) (\<lambda>_.
           act_bind (map_error OutcomeError (execute_host E host inout)) (\<lambda>_.
             write_results sp outputs)))))"

text \<open>A new executor has a new view of the code.\<close>

definition executor_new :: "(('l, 'err, 's, 'm, 'v, 'f, 'z) call_state_scheme, 'e, unit) fallible" where
  "executor_new = act_modify (\<lambda>vm. vm\<lparr>vm_view := code_map_view (vm_code_map vm)\<rparr>)"

definition execute_func ::
  "('l, 'err, 'w::len word, 'm, 'v, 'f, 'c, 'x) host_env_scheme \<Rightarrow> ('l, 'err, 'w word, 'm, 'v, 'f, 'z) call_state_scheme dispatch_env
   \<Rightarrow> handle \<Rightarrow> val list \<Rightarrow> val list \<Rightarrow> (('l, 'err, 'w word, 'm, 'v, 'f, 'z) call_state_scheme, 'err, val list) fallible" where
  "execute_func E D func params outputs =
     act_bind executor_new (\<lambda>_. map_error (into_non_resumable (he_of_trap E)) (execute_root_func E D func params outputs))"

subsection \<open>Resumable calls (executor/mod.rs, engine/resumable.rs)\<close>

record resumable_common =
  rc_func :: handle
  rc_stack :: "(ip, handle) exec_stack"

record ('err, 's) resumable_host_trap =
  ht_common :: resumable_common
  ht_host_func :: handle
  ht_host_error :: 'err
  ht_caller_results :: "'s slot_span"

record resumable_out_of_fuel =
  of_common :: resumable_common
  of_required_fuel :: u64

datatype ('err, 's) resumable_call =
  CallFinished "val list"
| CallHostTrap "('err, 's) resumable_host_trap"
| CallOutOfFuel resumable_out_of_fuel

text \<open>A call that can be resumed takes the stack with it.\<close>

definition into_resumable ::
  "handle \<Rightarrow> (('err, 's) execution_outcome, val list) control \<Rightarrow> (('l, 'err, 's, 'z) vm_state_scheme, 'err, ('err, 's) resumable_call) fallible" where
  "into_resumable func outcome =
     act_bind (act_get (\<lambda>vm. \<lparr>rc_func = func, rc_stack = vm_stack vm\<rparr>)) (\<lambda>common.
       case outcome of
         ControlContinue vals \<Rightarrow> act_return (CallFinished vals)
       | ControlBreak (OutcomeHost e host_func results) \<Rightarrow>
           act_return (CallHostTrap \<lparr>ht_common = common, ht_host_func = host_func, ht_host_error = e, ht_caller_results = results\<rparr>)
       | ControlBreak (OutcomeOutOfFuel required) \<Rightarrow>
           act_return (CallOutOfFuel \<lparr>of_common = common, of_required_fuel = required\<rparr>)
       | ControlBreak (OutcomeError e) \<Rightarrow> act_error e)"

definition execute_func_resumable ::
  "('l, 'err, 'w::len word, 'm, 'v, 'f, 'c, 'x) host_env_scheme \<Rightarrow> ('l, 'err, 'w word, 'm, 'v, 'f, 'z) call_state_scheme dispatch_env
   \<Rightarrow> handle \<Rightarrow> val list \<Rightarrow> val list
   \<Rightarrow> (('l, 'err, 'w word, 'm, 'v, 'f, 'z) call_state_scheme, 'err, ('err, 'w word) resumable_call) fallible" where
  "execute_func_resumable E D func params outputs =
     act_bind executor_new (\<lambda>_.
     act_bind (act_catch (execute_root_func E D func params outputs)) (into_resumable func))"

definition resume_stack :: "resumable_common \<Rightarrow> (('l, 'err, 's, 'm, 'v, 'f, 'z) call_state_scheme, 'e, unit) fallible" where
  "resume_stack common = act_bind executor_new (\<lambda>_. act_modify (\<lambda>vm. vm\<lparr>vm_stack := rc_stack common\<rparr>))"

definition sp_offset :: "'w::len word slot_repr \<Rightarrow> sp \<Rightarrow> 'w word \<Rightarrow> sp option" where
  "sp_offset R sp slot =
     (case sp of
        SpDangling \<Rightarrow> Some SpDangling
      | SpAt at \<Rightarrow> map_option (\<lambda>i. SpAt (at + of_nat i)) (cell_index R slot))"

definition provide_host_results ::
  "'w::len word slot_repr \<Rightarrow> wasm_func_call \<Rightarrow> val list \<Rightarrow> 'w word slot_span
   \<Rightarrow> (('l, 'err, 's, 'z) vm_state_scheme, 'e, unit) fallible" where
  "provide_host_results R call params slots =
     act_bind (act_assume (sp_offset R (wc_sp call) slots)) (\<lambda>sp. write_vals sp params)"

definition resume_func_host_trap ::
  "('l, 'err, 'w::len word, 'm, 'v, 'f, 'c, 'x) host_env_scheme \<Rightarrow> ('l, 'err, 'w word, 'm, 'v, 'f, 'z) call_state_scheme dispatch_env
   \<Rightarrow> ('err, 'w word) resumable_host_trap \<Rightarrow> val list \<Rightarrow> val list
   \<Rightarrow> (('l, 'err, 'w word, 'm, 'v, 'f, 'z) call_state_scheme, 'err, ('err, 'w word) resumable_call) fallible" where
  "resume_func_host_trap E D invocation params outputs =
     act_bind (resume_stack (ht_common invocation)) (\<lambda>_.
     act_bind (act_catch
       (act_bind resume_wasm_func_call (\<lambda>call.
        act_bind (provide_host_results (cl_repr E) call params (ht_caller_results invocation)) (\<lambda>_.
        act_bind (execute_call E D call) (\<lambda>sp. write_results sp outputs)))))
     (into_resumable (rc_func (ht_common invocation))))"

definition resume_func_out_of_fuel ::
  "('l, 'err, 'w::len word, 'm, 'v, 'f, 'c, 'x) host_env_scheme \<Rightarrow> ('l, 'err, 'w word, 'm, 'v, 'f, 'z) call_state_scheme dispatch_env
   \<Rightarrow> resumable_out_of_fuel \<Rightarrow> val list
   \<Rightarrow> (('l, 'err, 'w word, 'm, 'v, 'f, 'z) call_state_scheme, 'err, ('err, 'w word) resumable_call) fallible" where
  "resume_func_out_of_fuel E D invocation outputs =
     act_bind (resume_stack (of_common invocation)) (\<lambda>_.
     act_bind (act_catch
       (act_bind resume_wasm_func_call (\<lambda>call.
        act_bind (execute_call E D call) (\<lambda>sp. write_results sp outputs))))
     (into_resumable (rc_func (of_common invocation))))"

subsection \<open>The interface of functions (func/mod.rs, engine/resumable.rs)\<close>

definition func_ty :: "func_type_registry \<Rightarrow> handle \<Rightarrow> (('l, 'err, 's, 'z) vm_state_scheme, 'e, func_type) fallible" where
  "func_ty reg func =
     act_bind (resolve_func func) (\<lambda>entity.
       case resolve_func_type reg (ty_dedup entity) of Some ty \<Rightarrow> act_return ty | None \<Rightarrow> act_panic)"

definition prepare_outputs_of ::
  "('l, 'err, 'w, 'm, 'v, 'f, 'c, 'x) host_env_scheme \<Rightarrow> func_type_registry \<Rightarrow> handle \<Rightarrow> val list
   \<Rightarrow> (('l, 'err, 's, 'z) vm_state_scheme, 'err, val list) fallible" where
  "prepare_outputs_of E reg func outputs =
     act_bind (func_ty reg func) (\<lambda>ty.
       case prepare_outputs ty outputs of (r, outputs') \<Rightarrow>
         act_bind (act_try (he_of_func_error E) r) (\<lambda>_. act_return outputs'))"

definition verify_and_prepare_inputs_outputs ::
  "('l, 'err, 'w, 'm, 'v, 'f, 'c, 'x) host_env_scheme \<Rightarrow> func_type_registry \<Rightarrow> handle \<Rightarrow> val list \<Rightarrow> val list
   \<Rightarrow> (('l, 'err, 's, 'z) vm_state_scheme, 'err, val list) fallible" where
  "verify_and_prepare_inputs_outputs E reg func inputs outputs =
     act_bind (func_ty reg func) (\<lambda>ty.
     act_bind (act_try (he_of_func_error E) (match_params ty (map val_ty inputs))) (\<lambda>_.
       case prepare_outputs ty outputs of (r, outputs') \<Rightarrow>
         act_bind (act_try (he_of_func_error E) r) (\<lambda>_. act_return outputs')))"

definition func_call ::
  "('l, 'err, 'w::len word, 'm, 'v, 'f, 'c, 'x) host_env_scheme \<Rightarrow> ('l, 'err, 'w word, 'm, 'v, 'f, 'z) call_state_scheme dispatch_env
   \<Rightarrow> func_type_registry \<Rightarrow> handle \<Rightarrow> val list \<Rightarrow> val list \<Rightarrow> (('l, 'err, 'w word, 'm, 'v, 'f, 'z) call_state_scheme, 'err, val list) fallible" where
  "func_call E D reg func inputs outputs =
     act_bind (verify_and_prepare_inputs_outputs E reg func inputs outputs) (execute_func E D func inputs)"

definition func_call_resumable ::
  "('l, 'err, 'w::len word, 'm, 'v, 'f, 'c, 'x) host_env_scheme \<Rightarrow> ('l, 'err, 'w word, 'm, 'v, 'f, 'z) call_state_scheme dispatch_env
   \<Rightarrow> func_type_registry \<Rightarrow> handle \<Rightarrow> val list \<Rightarrow> val list
   \<Rightarrow> (('l, 'err, 'w word, 'm, 'v, 'f, 'z) call_state_scheme, 'err, ('err, 'w word) resumable_call) fallible" where
  "func_call_resumable E D reg func inputs outputs =
     act_bind (verify_and_prepare_inputs_outputs E reg func inputs outputs) (execute_func_resumable E D func inputs)"

definition resume_host_trap ::
  "('l, 'err, 'w::len word, 'm, 'v, 'f, 'c, 'x) host_env_scheme \<Rightarrow> ('l, 'err, 'w word, 'm, 'v, 'f, 'z) call_state_scheme dispatch_env
   \<Rightarrow> func_type_registry \<Rightarrow> ('err, 'w word) resumable_host_trap \<Rightarrow> val list \<Rightarrow> val list
   \<Rightarrow> (('l, 'err, 'w word, 'm, 'v, 'f, 'z) call_state_scheme, 'err, ('err, 'w word) resumable_call) fallible" where
  "resume_host_trap E D reg invocation inputs outputs =
     act_bind (func_ty reg (ht_host_func invocation)) (\<lambda>ty.
     act_bind (act_try (he_of_func_error E) (match_results ty (map val_ty inputs))) (\<lambda>_.
     act_bind (prepare_outputs_of E reg (rc_func (ht_common invocation)) outputs)
       (resume_func_host_trap E D invocation inputs)))"

definition resume_out_of_fuel ::
  "('l, 'err, 'w::len word, 'm, 'v, 'f, 'c, 'x) host_env_scheme \<Rightarrow> ('l, 'err, 'w word, 'm, 'v, 'f, 'z) call_state_scheme dispatch_env
   \<Rightarrow> func_type_registry \<Rightarrow> resumable_out_of_fuel \<Rightarrow> val list
   \<Rightarrow> (('l, 'err, 'w word, 'm, 'v, 'f, 'z) call_state_scheme, 'err, ('err, 'w word) resumable_call) fallible" where
  "resume_out_of_fuel E D reg invocation outputs =
     act_bind (prepare_outputs_of E reg (rc_func (of_common invocation)) outputs) (resume_func_out_of_fuel E D invocation)"

subsection \<open>The loop and the steps of handlers\<close>

inductive exec_step :: "'vm dispatch_env \<Rightarrow> args \<times> 'vm \<Rightarrow> args \<times> 'vm \<Rightarrow> bool" for D where
  run_handler: "fetch_handler D (a_ip args) = Some handler \<Longrightarrow> handler args vm = Runs (ControlContinue args', vm')
    \<Longrightarrow> exec_step D (args, vm) (args', vm')"

inductive_simps exec_step_simps: "exec_step D (args, vm) (args', vm')"

abbreviation exec_steps :: "'vm dispatch_env \<Rightarrow> args \<times> 'vm \<Rightarrow> args \<times> 'vm \<Rightarrow> bool" where
  "exec_steps D \<equiv> (exec_step D)\<^sup>*\<^sup>*"

text \<open>How a state ends the execution.\<close>

definition stops :: "'vm dispatch_env \<Rightarrow> args \<times> 'vm \<Rightarrow> (break \<times> 'vm) exec \<Rightarrow> bool" where
  "stops D = (\<lambda>(args, vm) r.
     case fetch_handler D (a_ip args) of
       None \<Rightarrow> r = Undefined
     | Some handler \<Rightarrow>
         (case handler args vm of
            Runs (ControlBreak b, vm') \<Rightarrow> r = Runs (b, vm')
          | Panics \<Rightarrow> r = Panics
          | Undefined \<Rightarrow> r = Undefined
          | _ \<Rightarrow> False))"

lemma execute_stops: "stops D (args, vm) r \<Longrightarrow> execute_until_break D args vm = Some r"
  by (subst execute_until_break.simps) (auto simp: stops_def split: option.splits exec.splits prod.splits control.splits)

lemma execute_step: "exec_step D (args, vm) (args', vm') \<Longrightarrow> execute_until_break D args vm = execute_until_break D args' vm'"
  by (subst execute_until_break.simps) (auto simp: exec_step_simps)

lemma execute_steps: "exec_steps D s s' \<Longrightarrow> execute_until_break D (fst s) (snd s) = execute_until_break D (fst s') (snd s')"
proof (induction rule: rtranclp_induct)
  case (step s1 s2)
  then show ?case using execute_step [of D "fst s1" "snd s1" "fst s2" "snd s2"] by simp
qed simp

lemma execute_until_break_stops:
  assumes "execute_until_break D args vm = Some r"
  shows "\<exists>s. exec_steps D (args, vm) s \<and> stops D s r"
  using assms
proof (rule execute_until_break.raw_induct [where P = "\<lambda>D args vm r. \<exists>s. exec_steps D (args, vm) s \<and> stops D s r", rotated])
  fix rec :: "'a dispatch_env \<Rightarrow> args \<Rightarrow> 'a \<Rightarrow> (break \<times> 'a) exec option" and D args vm r
  assume IH: "\<And>D args vm r. rec D args vm = Some r \<Longrightarrow> \<exists>s. exec_steps D (args, vm) s \<and> stops D s r"
    and run: "(case fetch_handler D (a_ip args) of
        None \<Rightarrow> Some Undefined
      | Some handler \<Rightarrow>
          (case handler args vm of
             Runs (ControlBreak b, vm') \<Rightarrow> Some (Runs (b, vm'))
           | Runs (ControlContinue args', vm') \<Rightarrow> rec D args' vm'
           | Panics \<Rightarrow> Some Panics
           | Undefined \<Rightarrow> Some Undefined
           | Diverges \<Rightarrow> None)) = Some r"
  show "\<exists>s. exec_steps D (args, vm) s \<and> stops D s r"
  proof (cases "\<exists>args' vm'. exec_step D (args, vm) (args', vm')")
    case True
    then obtain args' vm' where step: "exec_step D (args, vm) (args', vm')" by blast
    then have "rec D args' vm' = Some r" using run by (auto simp: exec_step_simps)
    then show ?thesis using IH [of D args' vm' r] step by (meson converse_rtranclp_into_rtranclp)
  next
    case False
    then have "stops D (args, vm) r"
      using run by (auto simp: stops_def exec_step_simps split: option.splits exec.splits prod.splits control.splits)
    then show ?thesis by blast
  qed
qed

lemma exec_cases:
  obtains args' vm' where "r = Runs (ControlContinue args', vm')" | b vm' where "r = Runs (ControlBreak b, vm')"
  | "r = Panics" | "r = Undefined" | "r = Diverges"
  by (metis control.exhaust exec.exhaust surj_pair)

lemma progress: "(\<exists>s'. exec_step D s s') \<or> (\<exists>handler. fetch_handler D (a_ip (fst s)) = Some handler \<and> handler (fst s) (snd s) = Diverges)
    \<longleftrightarrow> \<not> (\<exists>r. stops D s r)"
proof (cases s)
  case (Pair args vm)
  show ?thesis
  proof (cases "fetch_handler D (a_ip args)")
    case (Some handler)
    then show ?thesis
      unfolding Pair by (cases "handler args vm" rule: exec_cases) (auto simp: stops_def exec_step_simps)
  qed (simp add: Pair stops_def exec_step_simps)
qed

text \<open>Code whose only operator traps.\<close>

definition trap_dispatch :: "('l, 'err, 's, 'z) vm_state_scheme dispatch_env" where
  "trap_dispatch = \<lparr>dp_config = sample_config,
     dp_handlers = [exec_trap sample_config (\<lambda>bs. (Ok TrapUnreachableCodeReached, bs))], dp_handler_at = (\<lambda>_. None)\<rparr>"

lemma trap_dispatch_fetch:
  "fetch_handler trap_dispatch (a_ip (sample_args [0, 0] 0)) = Some (exec_trap sample_config (\<lambda>bs. (Ok TrapUnreachableCodeReached, bs)))"
  by (simp add: fetch_handler_def trap_dispatch_def sample_config_def sample_args_def ip_decode_def decode_op_code_def
      dec_fallible_def dec_bind_def dec_return_def decode_prim_def read_bytes_def op_code_to_handler_def get_opt_def)

lemma trap_dispatch_traps: "exec_trap sample_config (\<lambda>bs. (Ok TrapUnreachableCodeReached, bs)) (sample_args [0, 0] 0) vm = Runs (ControlBreak BreakUnreachableCodeReached, vm)"
  using sample_decode [of TrapUnreachableCodeReached vm] by (simp add: exec_trap_def act_simps)




subsection \<open>Resumption\<close>

lemma restore_frame_acts:
  "stack_restore_frame st =
     (case activations (st_frames st) of
        (ip, start, Some i) # _ \<Rightarrow> Some (ip, sp_or_dangling (st_values st) start, i, st_ireg st, st_freg32 st, st_freg64 st)
      | _ \<Rightarrow> None)"
  by (cases "cs_frames (st_frames st)" rule: rev_cases)
    (auto simp: stack_restore_frame_def cs_restore_frame_def cs_top_def activations_def split: option.splits)

text \<open>The stack pointer of the running activation.\<close>

definition sp_coherent :: "args \<Rightarrow> ('l, 'err, 's, 'z) vm_state_scheme \<Rightarrow> bool" where
  "sp_coherent args vm =
     (case acts vm of [] \<Rightarrow> False | (_, start, _) # _ \<Rightarrow> a_sp args = sp_or_dangling (st_values (vm_stack vm)) start)"

lemma out_of_fuel_Runs:
  assumes "out_of_fuel args required vm = Runs (c, vm')"
  shows "c = ControlBreak WithReason" "vm_done vm' = Some (DoneOutOfFuel required)" "vm_store vm' = vm_store vm"
    "acts vm' = resume_at (Some (a_ip args)) (acts vm)" "st_values (vm_stack vm') = st_values (vm_stack vm)"
    "stack_regs (vm_stack vm') = (a_ireg args, a_freg32 args, a_freg64 args)"
proof -
  obtain cs where cs: "cs_sync_ip (a_ip args) (st_frames (vm_stack vm)) = Some cs"
    and vm': "vm' = vm\<lparr>vm_stack := stack_sync_regs (a_ireg args) (a_freg32 args) (a_freg64 args) ((vm_stack vm)\<lparr>st_frames := cs\<rparr>),
        vm_done := Some (DoneOutOfFuel required)\<rparr>" "c = ControlBreak WithReason"
    using assms by (auto simp: out_of_fuel_def stack_sync_ip_def done_with_def split: option.splits if_splits)
  show "c = ControlBreak WithReason" "vm_done vm' = Some (DoneOutOfFuel required)" "vm_store vm' = vm_store vm"
    "st_values (vm_stack vm') = st_values (vm_stack vm)" "stack_regs (vm_stack vm') = (a_ireg args, a_freg32 args, a_freg64 args)"
    by (simp_all add: vm' stack_sync_regs_def stack_regs_def)
  show "acts vm' = resume_at (Some (a_ip args)) (acts vm)"
    using sync_caller(1) [where caller = "Some (a_ip args)" and cs = "st_frames (vm_stack vm)" and ?cs1.0 = cs] cs by (simp add: vm' acts_def stack_sync_regs_def)
qed

lemma restore_after_out_of_fuel:
  assumes inv: "running E args vm" and sp: "sp_coherent args vm" and out: "out_of_fuel args required vm = Runs (c, vm')"
  shows "stack_restore_frame (vm_stack vm') = Some (a_ip args, a_sp args, a_instance args, a_ireg args, a_freg32 args, a_freg64 args)"
proof -
  note o = out_of_fuel_Runs [OF out]
  obtain ip start as where top: "acts vm = (ip, start, Some (a_instance args)) # as" using running_top [OF inv] by blast
  have a: "activations (st_frames (vm_stack vm')) = (a_ip args, start, Some (a_instance args)) # as"
    using o(4) top by (simp add: acts_def)
  show ?thesis
    using o(5,6) sp top by (simp add: restore_frame_acts a sp_coherent_def stack_regs_def)
qed

lemma act_catch_rethrow:
  "act_bind (act_catch m) (\<lambda>c. case c of ControlContinue x \<Rightarrow> act_return x | ControlBreak e \<Rightarrow> act_error e) = m"
  by (auto simp: fun_eq_iff act_bind_def act_catch_def act_return_def act_error_def split: exec.splits prod.splits control.splits)

lemma execute_call_without_hook:
  assumes hook: "cl_hook E = (\<lambda>_ w. (Ok (), w))"
    and mem0: "extract_mem0 (cl_mem_ptr E) (cl_dangling E) (wc_instance call) vm = Runs (ControlContinue mem0, vm)"
  shows "execute_call E D call vm = execute_until_done (he_of_trap E) D (start_args call mem0) (vm\<lparr>vm_done := None\<rparr>)"
proof -
  have hook': "act_bind (map_error OutcomeError (invoke_call_hook E h)) k v = k () v" for h k v
    by (simp add: act_bind_def map_error_def invoke_call_hook_def hook set_store_and_code_def act_try_def act_simps)
  have "execute_call E D call vm = execute_stock E D call vm"
    unfolding execute_call_def hook' using act_catch_rethrow [of "execute_stock E D call"] by simp
  then show ?thesis
    using mem0 by (simp add: execute_stock_def no_break_def act_catch_def act_bind_def act_simps)
qed



definition sample_host_env :: "(store_limits, trap_code, u16, unit, unit, unit, unit) host_env" where
  "sample_host_env = call_env.extend sample_env (host_env.fields (\<lambda>c. c) (\<lambda>_. TrapBadSignature))"

lemma sample_host_env_sel [simp]:
  "cl_hook sample_host_env = (\<lambda>_ w. (Ok (), w))" "he_of_trap sample_host_env = (\<lambda>c. c)"
  "cl_mem_ptr sample_host_env = cl_mem_ptr sample_env" "cl_dangling sample_host_env = cl_dangling sample_env"
  by (simp_all add: sample_host_env_def call_env.defs host_env.defs sample_env_def)


text \<open>Where the results are written that the embedder provides after an error of a host function.\<close>

definition resumed_results :: "'w::len word slot_repr \<Rightarrow> ('l, 'err, 'w word, 'z) vm_state_scheme \<Rightarrow> sp option" where
  "resumed_results R vm =
     (case (vm_done vm, stack_restore_frame (vm_stack vm)) of
        (Some (DoneHost _ _ results), Some (_, sp, _)) \<Rightarrow> sp_offset R sp results
      | _ \<Rightarrow> None)"

lemma length_call_host_func: "call_host_func E t i inout hooks world = (r, cells, world') \<Longrightarrow> length cells = length (io_cells inout)"
  by (auto simp: call_host_func_def inout_cells_def split: prod.splits res.splits)

lemma resumed_results_acts:
  assumes "vm_done vm = Some (DoneHost e func (slot_from_u16 R h))" "acts vm = (ip, start, Some i) # as"
    and "vs_cells (st_values (vm_stack vm)) \<noteq> []" "slot_laws R"
  shows "resumed_results R vm = Some (SpAt (start + ucast h))"
  using assms slot_laws.cell_index_from [OF assms(4), of h]
  by (simp add: resumed_results_def restore_frame_acts acts_def sp_or_dangling_def value_stack_sp_def sp_offset_def)

lemma call_host_breaks:
  assumes run: "call_host E func (Some ip) host params inst hooks vm = Runs (ControlBreak WithReason, vm')"
    and wf: "exec_stack_wf (vm_stack vm)" and top: "acts vm \<noteq> []"
    and n: "0 < max (unat (bs_len params)) (unat (hf_len_result_cells host))"
  shows "\<exists>e. vm_done vm' = Some (DoneHost e func (bs_span params)) \<and> acts vm' = resume_at (Some ip) (acts vm)
    \<and> vs_cells (st_values (vm_stack vm')) \<noteq> []"
proof -
  let ?st = "vm_stack vm"
  have frames: "cs_frames (st_frames ?st) \<noteq> []" using top by (simp add: acts_def)
  note effect = prepare_host_frame_law [OF wf, of "Some ip" _ params "hf_len_result_cells host", OF disjI2 [OF frames] refl refl,
      where alloc = "cl_alloc E" and stale = "cl_stale E" and R = "cl_repr E"]
  obtain r st where prep: "prepare_host_frame (cl_repr E) (cl_alloc E) (cl_stale E) (Some ip) params (hf_len_result_cells host) ?st = (r, st)"
    by fastforce
  have not_trap: "break_of_trap_code c \<noteq> WithReason" for c by (cases c) simp_all
  obtain sp inout where r: "r = Ok (sp, inout)"
    using run prep not_trap by (cases r) (auto simp: call_host_def act_simps)
  obtain r' cells world where host: "call_host_func E (hf_trampoline host) inst inout hooks (vm_store vm, vm_code_map vm) = (r', cells, world)"
    by (metis prod_cases3)
  have eff: "activations (st_frames st) = resume_at (Some ip) (acts vm)" "length (io_cells inout) = max (unat (bs_len params)) (unat (hf_len_result_cells host))"
    using effect unfolding prep r by (auto simp: acts_def min_absorb2)
  obtain e where "vm' = set_world inout cells world (vm\<lparr>vm_stack := st\<rparr>)\<lparr>vm_done := Some (DoneHost e func (bs_span params))\<rparr>"
    using run prep host
    by (auto simp: r call_host_def act_simps refresh_view_def done_with_def split: res.splits store_error.splits if_splits)
  then show ?thesis
    using eff n length_call_host_func [OF host] by (auto simp: set_world_def Let_def acts_def overwrite_def)
qed

lemma return_call_host_breaks:
  assumes run: "return_call_host_func E func host params i vm = Runs (ControlBreak WithReason, vm')"
    and why: "vm_done vm' = Some (DoneHost e f results)"
    and wf: "exec_stack_wf (vm_stack vm)" and top: "acts vm = (ip0, start, Some i) # as"
    and fits: "unat start + unat (params_head (cl_repr E) params) + unat (bs_len params) \<le> length (vs_cells (st_values (vm_stack vm)))"
    and n: "0 < max (unat (bs_len params)) (unat (hf_len_result_cells host))"
  shows "results = bs_span params \<and> as \<noteq> [] \<and> acts vm' = as \<and> vs_cells (st_values (vm_stack vm')) \<noteq> []"
proof -
  note effect = return_prepare_host_frame_law [OF wf top [unfolded acts_def] fits refl refl,
      where alloc = "cl_alloc E" and stale = "cl_stale E" and r = "hf_len_result_cells host"]
  obtain r st where prep: "return_prepare_host_frame (cl_repr E) (cl_alloc E) (cl_stale E) params (hf_len_result_cells host) i (vm_stack vm) = (r, st)"
    by fastforce
  have not_trap: "break_of_trap_code c \<noteq> WithReason" for c by (cases c) simp_all
  obtain control inout where r: "r = Ok (control, inout)"
    using run prep not_trap by (cases r) (auto simp: return_call_host_func_def act_simps)
  obtain r' cells world where host: "call_host_func E (hf_trampoline host) (Some i) inout HooksCall (vm_store vm, vm_code_map vm) = (r', cells, world)"
    by (metis prod_cases3)
  let ?vm = "set_world inout cells world (vm\<lparr>vm_stack := st\<rparr>)"
  have "results = bs_span params \<and> vm_stack vm' = vm_stack ?vm \<and> (\<exists>ip sp j. control = Continue ip sp j)"
    using run prep host why
    by (auto simp: r return_call_host_func_def act_simps refresh_view_def done_with_def
        split: res.splits store_error.splits if_splits return_call_host.splits)
  moreover have "activations (st_frames st) = as" "(\<exists>ip sp j. control = Continue ip sp j) \<longrightarrow> as \<noteq> []"
    "length (io_cells inout) = max (unat (bs_len params)) (unat (hf_len_result_cells host))"
    using effect n unfolding prep r by (auto split: list.splits)
  ultimately show ?thesis
    using n length_call_host_func [OF host] by (auto simp: set_world_def Let_def acts_def overwrite_def)
qed

lemma activations_from_instances: "list_all (\<lambda>(_, _, j). j \<noteq> None) (activations_from (Some i) fs)"
  by (induction "Some i" fs arbitrary: i rule: activations_from.induct) (auto split: option.splits)

lemma acts_instances: "acts vm = (ip, start, Some i) # as \<Longrightarrow> list_all (\<lambda>(_, _, j). j \<noteq> None) as"
  using activations_from_instances
  by (cases "cs_frames (st_frames (vm_stack vm))" rule: rev_cases) (auto simp: acts_def activations_def split: option.splits)


text \<open>A host function that fails, called in tail position from a frame that starts behind four cells.\<close>

definition failing_env :: "(store_limits, trap_code, u16, unit, unit, unit, unit) call_env" where
  "failing_env = sample_env\<lparr>cl_trampoline := (\<lambda>_ _ io w. (Err (External TrapBadSignature), io_cells io, w))\<rparr>"

definition tail_state :: "(store_limits, trap_code, u16, unit, unit, unit) call_state" where
  "tail_state = sample_call_state\<lparr>vm_stack :=
     \<lparr>st_values = \<lparr>vs_cells = [10, 11, 12, 13, 14, 15], vs_capacity = 8, vs_max_height = 100\<rparr>,
      st_frames = \<lparr>cs_frames = [\<lparr>fr_ip = ip_from [1, 2, 3], fr_start = 0, fr_instance = None\<rparr>,
          \<lparr>fr_ip = ip_from [0, 0], fr_start = 4, fr_instance = None\<rparr>],
        cs_instance = Some (stored_wrap 0 0), cs_max_height = 10\<rparr>,
      st_ireg = 0, st_freg32 = 0, st_freg64 = 0\<rparr>\<rparr>"

abbreviation "failing_host \<equiv> \<lparr>hf_len_param_cells = 1, hf_len_result_cells = 1, hf_ty = stored_wrap 0 0, hf_trampoline = stored_wrap 0 0\<rparr>"


subsection \<open>Values through a call of a host function\<close>

lemma required_cells_vals:
  "required_cells_for_tys (map val_ty vals) = Ok n \<Longrightarrow> length (concat (map cells_of_val vals)) = unat n"
  unfolding required_cells_sum
  by (auto simp: required_cells_for_tys_def Let_def unat_of_nat take_bit_nat_eq_self split: if_splits)

lemma write_vals_Runs:
  assumes "list_all (val_owned (si_id (vm_inner vm))) vals"
    and "length (concat (map cells_of_val vals)) \<le> length (vs_cells (st_values (vm_stack vm)))"
  shows "write_vals (SpAt 0) vals vm = Runs (ControlContinue (), vm\<lparr>vm_stack := (vm_stack vm)\<lparr>st_values :=
      (st_values (vm_stack vm))\<lparr>vs_cells := overwrite (vs_cells (st_values (vm_stack vm))) 0 (concat (map cells_of_val vals))\<rparr>\<rparr>\<rparr>)"
  using write_cells_outcome [of "\<lparr>cw_cells = vs_cells (st_values (vm_stack vm)), cw_pos = 0\<rparr>" "concat (map cells_of_val vals)"] assms
  by (auto simp: write_vals_def lower_vals_cells [OF assms(1)] sp_cells_def set_sp_cells_def split: prod.splits res.splits)

lemma write_results_Runs:
  assumes "list_all (val_owned (si_id (vm_inner vm))) vals" "map val_ty outputs = map val_ty vals"
    and "take (length (concat (map cells_of_val vals))) (vs_cells (st_values (vm_stack vm))) = concat (map cells_of_val vals)"
  shows "write_results (SpAt 0) outputs vm = Runs (ControlContinue vals, vm)"
proof -
  let ?cs = "concat (map cells_of_val vals)" and ?cells = "vs_cells (st_values (vm_stack vm))"
  have "?cells = ?cs @ drop (length ?cs) ?cells" using assms(3) by (metis append_take_drop_id)
  then have "lift_vals (si_id (vm_inner vm)) outputs ?cells = (Ok (), vals, drop (length ?cs) ?cells)"
    using lift_vals_cells [OF assms(1,2), of "drop (length ?cs) ?cells"] by simp
  then show ?thesis by (simp add: write_results_def sp_cells_def)
qed

lemma val_ty_default [simp]: "val_ty (val_default_for_ty ty) = ty"
  by (cases ty) simp_all

lemma verify_outcome:
  assumes "try_resolve_func (vm_inner vm) func = Ok entity" "resolve_func_type reg (ty_dedup entity) = Some ty"
    and "func_type_params ty = Some params" "func_type_results ty = Some results"
  shows "verify_and_prepare_inputs_outputs E reg func inputs outputs vm =
    (if length inputs \<noteq> length params then Runs (ControlBreak (he_of_func_error E MismatchingParameterLen), vm)
     else if map val_ty inputs \<noteq> params then Runs (ControlBreak (he_of_func_error E MismatchingParameterType), vm)
     else if length outputs \<noteq> length results then Runs (ControlBreak (he_of_func_error E MismatchingResultLen), vm)
     else Runs (ControlContinue (map val_default_for_ty results), vm))"
  using assms
  by (auto simp: verify_and_prepare_inputs_outputs_def func_ty_def resolve_func_def match_params_def prepare_outputs_def
      act_try_def act_error_def act_simps)

lemma reset_wf: "exec_stack_wf st \<Longrightarrow> exec_stack_wf (stack_reset st)"
  by (simp add: exec_stack_wf_def stack_reset_def value_stack_reset_def call_stack_reset_def value_stack_wf_def call_stack_wf_def)

text \<open>
  A host function, seen through its trampoline: given the cells of \<open>inputs\<close>, it leaves the cells of
  \<open>vals\<close> and the store and the code map \<open>world'\<close>.
\<close>

definition host_returns ::
  "('l, 'err, 's, 'm, 'v, 'f, 'c, 'x) call_env_scheme \<Rightarrow> usize stored \<Rightarrow> val list \<Rightarrow> 'l pruned_store \<times> ('m, 'v, 'f) code_map
   \<Rightarrow> val list \<Rightarrow> 'l pruned_store \<times> ('m, 'v, 'f) code_map \<Rightarrow> bool" where
  "host_returns E trampoline inputs world vals world' =
     (\<forall>inout. let cs = concat (map cells_of_val inputs); ds = concat (map cells_of_val vals) in
        take (length cs) (io_cells inout) = cs \<longrightarrow>
        (\<exists>cells. cl_trampoline E trampoline None inout world = (Ok (), cells, world') \<and> take (length ds) cells = ds))"

lemma execute_host_Runs:
  assumes host: "host_returns E (hf_trampoline host) inputs (vm_store vm, vm_code_map vm) vals world'"
    and restores: "ps_restore_id (vm_store vm) = ps_type_id (vm_store vm)"
    and io: "io_start inout = 0" "length (io_cells inout) = n" "length (concat (map cells_of_val inputs)) \<le> n"
      "length (concat (map cells_of_val vals)) \<le> n" "n \<le> length (vs_cells (st_values (vm_stack vm)))"
    and inputs: "take (length (concat (map cells_of_val inputs))) (vs_cells (st_values (vm_stack vm))) = concat (map cells_of_val inputs)"
  obtains vm' where "execute_host E host inout vm = Runs (ControlContinue (), vm')" "(vm_store vm', vm_code_map vm') = world'"
    "take (length (concat (map cells_of_val vals))) (vs_cells (st_values (vm_stack vm'))) = concat (map cells_of_val vals)"
proof -
  let ?cs = "concat (map cells_of_val inputs)" and ?ds = "concat (map cells_of_val vals)"
  let ?io = "current_inout inout (vm_stack vm)"
  have cells: "io_cells ?io = take n (vs_cells (st_values (vm_stack vm)))" "io_start ?io = 0"
    by (simp_all add: current_inout_def io(1,2))
  have "take (length ?cs) (io_cells ?io) = ?cs" using inputs io(3) by (simp add: cells min_absorb1 take_take)
  then obtain out where out: "cl_trampoline E (hf_trampoline host) None ?io (vm_store vm, vm_code_map vm) = (Ok (), out, world')"
    "take (length ?ds) out = ?ds"
    using host by (auto simp: host_returns_def Let_def)
  have call: "call_host_func E (hf_trampoline host) None ?io HooksIgnore (vm_store vm, vm_code_map vm) = (Ok (), inout_cells ?io out, world')"
    using restores out(1) by (simp add: call_host_func_def restore_def)
  have "length ?ds \<le> length out" using out(2) by (metis length_take min.cobounded1 min_def nat_le_linear take_all)
  then have "take (length ?ds) (inout_cells ?io out) = ?ds" "length (inout_cells ?io out) = n"
    using out(2) io(4,5) by (auto simp: inout_cells_def cells take_take min_def)
  then have "take (length ?ds) (overwrite (vs_cells (st_values (vm_stack vm))) 0 (inout_cells ?io out)) = ?ds"
    using io(4) by (simp add: overwrite_def)
  then show ?thesis
    by (intro that [of "set_world ?io (inout_cells ?io out) world' vm"])
      (simp_all add: execute_host_def act_simps call set_world_def Let_def cells)
qed

lemma execute_root_host:
  assumes ent: "try_resolve_func (vm_inner vm) func = Ok (HostFunc host)"
    and laws: "slot_laws (cl_repr E)" and wf: "exec_stack_wf (vm_stack vm)"
    and restores: "ps_restore_id (vm_store vm) = ps_type_id (vm_store vm)"
    and p: "required_cells_for_tys (map val_ty inputs) = Ok (hf_len_param_cells host)"
    and q: "required_cells_for_tys (map val_ty vals) = Ok (hf_len_result_cells host)"
    and owned: "list_all (val_owned (si_id (vm_inner vm))) inputs"
    and owned': "list_all (val_owned (si_id (ps_inner (fst world')))) vals"
    and tys: "map val_ty outputs = map val_ty vals"
    and host: "host_returns E (hf_trampoline host) inputs (vm_store vm, vm_code_map vm) vals world'"
  shows "case execute_root_func E D func inputs outputs vm of
      Runs (ControlContinue r, vm') \<Rightarrow> r = vals \<and> (vm_store vm', vm_code_map vm') = world'
    | Runs (ControlBreak e, vm') \<Rightarrow> (vm_store vm', vm_code_map vm') = (vm_store vm, vm_code_map vm)
        \<and> e \<in> {OutcomeError (he_of_trap E TrapStackOverflow), OutcomeError (he_of_trap E TrapOutOfSystemMemory)}
    | _ \<Rightarrow> False"
proof -
  let ?cs = "concat (map cells_of_val inputs)" and ?ds = "concat (map cells_of_val vals)"
  let ?st = "stack_reset (vm_stack vm)" and ?params = "bounded_span_new (slot_from_u16 (cl_repr E) 0) (hf_len_param_cells host)"
  let ?n = "max (unat (hf_len_param_cells host)) (unat (hf_len_result_cells host))"
  have frames: "st_frames ?st = call_stack_reset (st_frames (vm_stack vm))" by (simp add: stack_reset_def)
  have zero: "params_head (cl_repr E) ?params = 0" "top_start (st_frames ?st) = 0"
    by (simp_all add: params_head_def bounded_span_new_def slot_laws.into_from [OF laws] frames call_stack_reset_def)
  note law = prepare_host_frame_law [OF reset_wf [OF wf], of None ?n ?params "hf_len_result_cells host" 0 "cl_repr E" "cl_alloc E" "cl_stale E"]
  obtain r st where prep: "prepare_host_frame (cl_repr E) (cl_alloc E) (cl_stale E) None ?params (hf_len_result_cells host) ?st = (r, st)"
    by fastforce
  note init = init_host_func_call_def [of E host] act_try_def act_error_def
  show ?thesis
  proof (cases r)
    case (Ok x)
    then obtain sp io where r: "r = Ok (sp, io)" by (cases x) simp
    have io: "sp = SpAt 0" "io_start io = 0" "length (io_cells io) = ?n" "?n \<le> length (vs_cells (st_values st))"
      using law zero unfolding prep r by (auto simp: bounded_span_new_def min_absorb2 unat_eq_0)
    let ?vm = "vm\<lparr>vm_stack := st\<rparr>"
    let ?vm1 = "?vm\<lparr>vm_stack := st\<lparr>st_values := (st_values st)\<lparr>vs_cells := overwrite (vs_cells (st_values st)) 0 ?cs\<rparr>\<rparr>\<rparr>"
    have len: "length ?cs \<le> ?n" "length ?ds \<le> ?n" using required_cells_vals [OF p] required_cells_vals [OF q] by simp_all
    then have fit: "length ?cs \<le> length (vs_cells (st_values st))" using io(4) by (rule_tac order_trans)
    have "list_all (val_owned (si_id (vm_inner ?vm))) inputs" using owned by simp
    note w = write_vals_Runs [OF this, simplified, OF fit]
    obtain vm2 where x: "execute_host E host io ?vm1 = Runs (ControlContinue (), vm2)" "(vm_store vm2, vm_code_map vm2) = world'"
      "take (length ?ds) (vs_cells (st_values (vm_stack vm2))) = ?ds"
      by (rule execute_host_Runs [of E host inputs ?vm1 vals world' io ?n]) (use host restores io len fit in \<open>simp_all add: overwrite_def\<close>)
    have "list_all (val_owned (si_id (vm_inner vm2))) vals" using owned' x(2) by auto
    note res = write_results_Runs [OF this tys x(3)]
    show ?thesis
      using ent prep r io(1) x(1,2)
      by (simp add: w res execute_root_func_def resolve_func_def act_simps init map_error_def act_bind_def)
  next
    case (Err e)
    then have "e \<in> {TrapStackOverflow, TrapOutOfSystemMemory}" using law zero unfolding prep by (auto simp: bounded_span_new_def)
    then show ?thesis
      using ent prep Err
      by (auto simp: execute_root_func_def resolve_func_def act_simps init map_error_def act_bind_def)
  next
    case Panic
    then show ?thesis using law zero unfolding prep by (simp add: bounded_span_new_def)
  qed
qed


text \<open>A host function of two parameters and one result, which adds.\<close>

definition adding_env :: "(store_limits, trap_code, u16, unit, unit, unit, unit) host_env" where
  "adding_env = sample_host_env\<lparr>cl_trampoline := (\<lambda>_ _ io w. (Ok (), [io_cells io ! 0 + io_cells io ! 1], w))\<rparr>"

definition adding_type :: func_type where "adding_type = Big 2 [I64, I64, I64]"

definition adding_state :: "(store_limits, trap_code, u16, unit, unit, unit) call_state" where
  "adding_state = sample_call_state\<lparr>vm_store := (vm_store sample_call_state)\<lparr>ps_inner := (vm_inner sample_call_state)\<lparr>
     si_funcs := \<lparr>ar_items = [HostFunc \<lparr>hf_len_param_cells = 2, hf_len_result_cells = 1, hf_ty = stored_wrap 3 0, hf_trampoline = stored_wrap 0 0\<rparr>],
       ar_capacity = 4\<rparr>\<rparr>\<rparr>\<rparr>"


end
