(* ===== verification/Func_Locals.thy ===== *)
theory Func_Locals
  imports Op_Encoder Values
begin

section \<open>Local variables of a translated function (crates/wasmi/src/engine/translator/func)\<close>

text \<open>
  The types of the local variables (\<open>locals.rs\<close>), with the first ones in a vector and the others as
  groups that are found by a binary search, and the cells of the local variables in the frame
  (\<open>layout.rs\<close>). Amounts and lengths are natural numbers below \<open>2 ^ 64\<close>; an amount comes from a
  \<open>u32\<close>.
\<close>

type_synonym local_idx = u32

subsection \<open>Binary search of the standard library\<close>

text \<open>The position of a match, or the position where the key would be inserted.\<close>

datatype search_result = Found nat | Insert nat

function binary_search_loop :: "'k::linorder \<Rightarrow> 'k list \<Rightarrow> nat \<Rightarrow> nat \<Rightarrow> nat" where
  "binary_search_loop key keys base len =
     (if len > 1
      then let half = len div 2; mid = base + half in
           binary_search_loop key keys (if keys ! mid > key then base else mid) (len - half)
      else base)"
  by pat_completeness auto
termination by (relation "measure (\<lambda>(_, _, _, len). len)") auto

declare binary_search_loop.simps [simp del]

definition binary_search :: "'k::linorder \<Rightarrow> 'k list \<Rightarrow> search_result" where
  "binary_search key keys =
     (if keys = [] then Insert 0
      else let base = binary_search_loop key keys 0 (length keys) in
           if keys ! base = key then Found base
           else Insert (if keys ! base < key then base + 1 else base))"

subsection \<open>Types of the local variables (locals.rs)\<close>

record local_group =
  lg_max_index :: u32
  lg_ty :: val_type

record locals_registry =
  tys_first :: "val_type list"
  tys_remaining :: "local_group list"
  locals_len :: nat

definition locals_registry_default :: locals_registry where
  "locals_registry_default = \<lparr>tys_first = [], tys_remaining = [], locals_len = 0\<rparr>"

definition LOCAL_VARIABLES_MAX :: nat where "LOCAL_VARIABLES_MAX = 30000"

definition FIRST_TYS_MAX :: nat where "FIRST_TYS_MAX = 100"

definition locals_register :: "locals_registry \<Rightarrow> nat \<Rightarrow> val_type \<Rightarrow> (translation_error, unit) res \<times> locals_registry" where
  "locals_register r amount ty =
     (if amount = 0 then (Ok (), r)
      else if locals_len r + amount > LOCAL_VARIABLES_MAX then (Err TooManyFunctionParams, r)
      else let vacant_first = FIRST_TYS_MAX - length (tys_first r);
               push_to_first = min vacant_first amount;
               first = tys_first r @ replicate push_to_first ty;
               remaining_amount = amount - push_to_first;
               remaining_index = of_nat (locals_len r + amount - 1) :: u32;
               remaining = (if remaining_amount > 0
                            then tys_remaining r @ [\<lparr>lg_max_index = remaining_index, lg_ty = ty\<rparr>] else tys_remaining r)
           in (Ok (), \<lparr>tys_first = first, tys_remaining = remaining, locals_len = locals_len r + amount\<rparr>))"

definition locals_ty_slow :: "locals_registry \<Rightarrow> local_idx \<Rightarrow> val_type option" where
  "locals_ty_slow r index =
     (if tys_remaining r = [] then None
      else case binary_search index (map lg_max_index (tys_remaining r)) of
             Insert i \<Rightarrow> if i = length (tys_remaining r) then None else Some (lg_ty (tys_remaining r ! i))
           | Found i \<Rightarrow> Some (lg_ty (tys_remaining r ! i)))"

text \<open>\<open>None\<close>: the function panics.\<close>

definition locals_ty :: "locals_registry \<Rightarrow> local_idx \<Rightarrow> val_type option" where
  "locals_ty r index =
     (case get_opt (tys_first r) (unat index) of
        Some ty \<Rightarrow> Some ty
      | None \<Rightarrow> locals_ty_slow r index)"

subsection \<open>Cells of the local variables (layout.rs)\<close>

record stack_layout =
  local_offsets :: "u16 list"
  min_temp_offset :: u16

definition stack_layout_default :: stack_layout where
  "stack_layout_default = \<lparr>local_offsets = [], min_temp_offset = 0\<rparr>"

fun layout_push :: "nat \<Rightarrow> u16 \<Rightarrow> stack_layout \<Rightarrow> stack_layout" where
  "layout_push 0 cells l = l"
| "layout_push (Suc n) cells l =
     layout_push n cells (l\<lparr>local_offsets := local_offsets l @ [min_temp_offset l], min_temp_offset := min_temp_offset l + cells\<rparr>)"

definition layout_register_locals :: "stack_layout \<Rightarrow> nat \<Rightarrow> val_type \<Rightarrow> (translation_error, unit) res \<times> stack_layout" where
  "layout_register_locals l amount ty =
     (let cells_per_local = required_cells_for_ty ty;
          delta_offset = amount * unat cells_per_local in
      if delta_offset \<ge> 2 ^ 64 then (Err AllocatedTooManySlots, l)
      else if unat (min_temp_offset l) + delta_offset > 65535 then (Err AllocatedTooManySlots, l)
      else (Ok (), layout_push amount cells_per_local l))"

datatype stack_space = SpaceLocal | SpaceTemp

definition layout_stack_space :: "'w::len word slot_repr \<Rightarrow> stack_layout \<Rightarrow> 'w word \<Rightarrow> stack_space" where
  "layout_stack_space R l slot = (if u16_from_slot R slot < min_temp_offset l then SpaceLocal else SpaceTemp)"

definition local_to_slot :: "'w::len word slot_repr \<Rightarrow> stack_layout \<Rightarrow> local_idx \<Rightarrow> (translation_error, 'w word) res" where
  "local_to_slot R l index =
     (case (try_from index :: u16 option) of
        None \<Rightarrow> Err AllocatedTooManySlots
      | Some i \<Rightarrow> (case get_opt (local_offsets l) (unat i) of Some offset \<Rightarrow> Ok (slot_from_u16 R offset) | None \<Rightarrow> Panic))"

subsection \<open>Binary search finds the first key that is not smaller\<close>

lemma binary_search_loop_bounds:
  fixes keys :: "'k::linorder list"
  assumes "0 < len" "base + len \<le> length keys" "base = 0 \<or> keys ! base \<le> key"
    "\<forall>j. base + len \<le> j \<and> j < length keys \<longrightarrow> key < keys ! j" "sorted keys"
  shows "binary_search_loop key keys base len < length keys
    \<and> (binary_search_loop key keys base len = 0 \<or> keys ! binary_search_loop key keys base len \<le> key)
    \<and> (\<forall>j. binary_search_loop key keys base len < j \<and> j < length keys \<longrightarrow> key < keys ! j)"
  using assms
proof (induction key keys base len rule: binary_search_loop.induct)
  case (1 key keys base len)
  let ?mid = "base + len div 2"
  show ?case
  proof (cases "len > 1")
    case True
    have step: "binary_search_loop key keys base len
        = binary_search_loop key keys (if keys ! ?mid > key then base else ?mid) (len - len div 2)"
      using True by (subst binary_search_loop.simps) (simp add: Let_def)
    have above: "key < keys ! j" if "keys ! ?mid > key" "?mid \<le> j" "j < length keys" for j
      using that "1.prems"(5) sorted_nth_mono [of keys ?mid j] by auto
    show ?thesis unfolding step
      by (rule "1.IH" [OF True refl refl]) (use True "1.prems" above in \<open>auto split: if_splits\<close>)
  next
    case False
    then have "binary_search_loop key keys base len = base" by (subst binary_search_loop.simps) simp
    then show ?thesis using "1.prems" False by auto
  qed
qed

lemma binary_search_start:
  fixes keys :: "'k::linorder list"
  assumes "keys \<noteq> []" "sorted keys"
  shows "binary_search_loop key keys 0 (length keys) < length keys"
    "binary_search_loop key keys 0 (length keys) = 0 \<or> keys ! binary_search_loop key keys 0 (length keys) \<le> key"
    "\<forall>j. binary_search_loop key keys 0 (length keys) < j \<and> j < length keys \<longrightarrow> key < keys ! j"
proof -
  have "\<forall>j. 0 + length keys \<le> j \<and> j < length keys \<longrightarrow> key < keys ! j" by auto
  from binary_search_loop_bounds [OF _ _ _ this \<open>sorted keys\<close>] \<open>keys \<noteq> []\<close> 
  show "binary_search_loop key keys 0 (length keys) < length keys"
    "binary_search_loop key keys 0 (length keys) = 0 \<or> keys ! binary_search_loop key keys 0 (length keys) \<le> key"
    "\<forall>j. binary_search_loop key keys 0 (length keys) < j \<and> j < length keys \<longrightarrow> key < keys ! j" by simp_all
qed

definition search_pos :: "search_result \<Rightarrow> nat" where
  "search_pos r = (case r of Found i \<Rightarrow> i | Insert i \<Rightarrow> i)"

lemma binary_search_pos:
  fixes keys :: "'k::linorder list"
  assumes "sorted_wrt (<) keys"
  shows "search_pos (binary_search key keys) \<le> length keys
    \<and> (\<forall>j < search_pos (binary_search key keys). keys ! j < key)
    \<and> (\<forall>j. search_pos (binary_search key keys) \<le> j \<and> j < length keys \<longrightarrow> key \<le> keys ! j)"
proof (cases "keys = []")
  case False
  define base where "base = binary_search_loop key keys 0 (length keys)"
  have sorted: "sorted keys" using assms strict_sorted_imp_sorted by blast
  have b: "base < length keys" "base = 0 \<or> keys ! base \<le> key" "\<forall>j. base < j \<and> j < length keys \<longrightarrow> key < keys ! j"
    unfolding base_def using binary_search_start [OF False sorted, of key] by simp_all
  have below: "keys ! j < keys ! base" if "j < base" for j
    using sorted_wrt_nth_less [OF assms that b(1)] .
  have above: "keys ! base \<le> keys ! j" if "base \<le> j" "j < length keys" for j
    using sorted_nth_mono [OF sorted that] .
  have "search_pos (binary_search key keys) = (if keys ! base < key then base + 1 else base)"
    using False by (auto simp: binary_search_def search_pos_def Let_def base_def)
  then show ?thesis
  proof (cases "keys ! base < key")
    case True
    then have "search_pos (binary_search key keys) = base + 1" using \<open>search_pos _ = _\<close> by simp
    then show ?thesis using b(1,3) below True by (auto simp: less_Suc_eq Suc_le_eq intro: less_trans less_imp_le)
  next
    case False
    then have "search_pos (binary_search key keys) = base" using \<open>search_pos _ = _\<close> by simp
    moreover have "keys ! j < key" if "j < base" for j using below [OF that] b(2) that by auto
    moreover have "key \<le> keys ! j" if "base \<le> j" "j < length keys" for j using above [OF that] False by simp
    ultimately show ?thesis using b(1) by auto
  qed
qed (simp add: binary_search_def search_pos_def)

lemma binary_search_Found: "sorted keys \<Longrightarrow> binary_search key keys = Found i \<Longrightarrow> i < length keys"
  using binary_search_start [of keys key]
  by (auto simp: binary_search_def Let_def split: if_splits)

lemma binary_search_group:
  assumes "sorted_wrt (<) (map f gs)"
  shows "find (\<lambda>g. key \<le> f g) gs = (if search_pos (binary_search key (map f gs)) = length gs then None
          else Some (gs ! search_pos (binary_search key (map f gs))))"
proof -
  let ?p = "search_pos (binary_search key (map f gs))"
  note pos = binary_search_pos [OF assms, of key]
  show ?thesis
  proof (cases "?p = length gs")
    case True
    then have "\<forall>g \<in> set gs. f g < key" using pos by (auto simp: in_set_conv_nth)
    then have "find (\<lambda>g. key \<le> f g) gs = None" by (auto simp: find_None_iff not_le)
    then show ?thesis using True by simp
  next
    case False
    then have "find (\<lambda>g. key \<le> f g) gs = Some (gs ! ?p)"
      unfolding find_Some_iff using pos by (intro exI [of _ ?p]) (auto simp: not_le)
    then show ?thesis using False by simp
  qed
qed

subsection \<open>The registry gives every local its type\<close>

definition registered_tys :: "(nat \<times> val_type) list \<Rightarrow> val_type list" where
  "registered_tys regs = concat (map (\<lambda>(amount, ty). replicate amount ty) regs)"

definition locals_inv :: "locals_registry \<Rightarrow> val_type list \<Rightarrow> bool" where
  "locals_inv r tys \<longleftrightarrow> locals_len r = length tys \<and> length tys \<le> LOCAL_VARIABLES_MAX \<and> tys_first r = take FIRST_TYS_MAX tys
    \<and> sorted_wrt (<) (map lg_max_index (tys_remaining r)) \<and> (\<forall>g \<in> set (tys_remaining r). unat (lg_max_index g) < length tys)
    \<and> (\<forall>i \<ge> FIRST_TYS_MAX. map_option lg_ty (find (\<lambda>g. i \<le> unat (lg_max_index g)) (tys_remaining r)) = get_opt tys i)"

lemma locals_inv_default: "locals_inv locals_registry_default []"
  by (simp add: locals_inv_def locals_registry_default_def get_opt_def)

lemma find_append: "find P (xs @ ys) = (case find P xs of None \<Rightarrow> find P ys | Some x \<Rightarrow> Some x)"
  by (induction xs) auto

lemma locals_inv_register:
  assumes inv: "locals_inv r tys"
  shows "case locals_register r amount ty of
      (Ok _, r') \<Rightarrow> length tys + amount \<le> LOCAL_VARIABLES_MAX \<and> locals_inv r' (tys @ replicate amount ty)
    | (e, r') \<Rightarrow> e = Err TooManyFunctionParams \<and> LOCAL_VARIABLES_MAX < length tys + amount \<and> r' = r"
proof (cases "amount = 0 \<or> LOCAL_VARIABLES_MAX < length tys + amount")
  case True
  then show ?thesis using inv by (auto simp: locals_register_def locals_inv_def)
next
  case False
  let ?new = "\<lparr>lg_max_index = of_nat (length tys + amount - 1) :: u32, lg_ty = ty\<rparr>"
  have inv': "locals_len r = length tys" "tys_first r = take FIRST_TYS_MAX tys" using inv by (simp_all add: locals_inv_def)
  have max: "unat (of_nat (length tys + amount - 1) :: u32) = length tys + amount - 1"
    unfolding unat_of_nat using False by (intro mod_less) (auto simp: LOCAL_VARIABLES_MAX_def)
  have first: "take FIRST_TYS_MAX tys @ replicate (min (FIRST_TYS_MAX - length (take FIRST_TYS_MAX tys)) amount) ty
      = take FIRST_TYS_MAX (tys @ replicate amount ty)"
    by (auto simp: min_def)
  have old: "find (\<lambda>g. i \<le> unat (lg_max_index g)) (tys_remaining r) = None \<longleftrightarrow> length tys \<le> i" if "FIRST_TYS_MAX \<le> i" for i
    using inv that unfolding locals_inv_def by (metis get_opt_def linorder_not_le option.distinct(1) option.map_disc_iff)
  show ?thesis
  proof (cases "FIRST_TYS_MAX < length tys + amount")
    case True
    have "sorted_wrt (<) (map lg_max_index (tys_remaining r @ [?new]))"
      using inv False max unfolding locals_inv_def by (auto simp: sorted_wrt_append word_less_nat_alt)
    moreover have "map_option lg_ty (find (\<lambda>g. i \<le> unat (lg_max_index g)) (tys_remaining r @ [?new]))
        = get_opt (tys @ replicate amount ty) i" if "FIRST_TYS_MAX \<le> i" for i
      using inv that old [OF that] max False unfolding locals_inv_def find_append
      by (auto simp: get_opt_def nth_append split: option.splits)
    ultimately show ?thesis
      using True False inv max by (auto simp: locals_register_def Let_def inv' first locals_inv_def nth_append)
  next
    case small: False
    have none: "find (\<lambda>g. i \<le> unat (lg_max_index g)) (tys_remaining r) = None" if "FIRST_TYS_MAX \<le> i" for i
      using small that old [OF that] by simp
    show ?thesis
      using small False inv none by (auto simp: locals_register_def Let_def inv' first locals_inv_def get_opt_def)
  qed
qed

lemma locals_ty_lookup:
  assumes inv: "locals_inv r tys"
  shows "locals_ty r index = get_opt tys (unat index)"
proof -
  have slow: "locals_ty_slow r index = map_option lg_ty (find (\<lambda>g. unat index \<le> unat (lg_max_index g)) (tys_remaining r))"
    using binary_search_group [of lg_max_index "tys_remaining r" index] inv
      binary_search_Found [OF strict_sorted_imp_sorted, of "map lg_max_index (tys_remaining r)" index]
    by (auto simp: locals_inv_def locals_ty_slow_def word_le_nat_alt search_pos_def split: search_result.splits if_splits)
  have "find (\<lambda>g. unat index \<le> unat (lg_max_index g)) (tys_remaining r) = None" if "length tys \<le> unat index"
    unfolding find_None_iff using inv that by (auto simp: locals_inv_def not_le intro: less_le_trans)
  then show ?thesis
    using inv slow by (auto simp: locals_ty_def locals_inv_def get_opt_def)
qed


subsection \<open>The layout gives every local its cells\<close>

definition cells_of_tys :: "val_type list \<Rightarrow> nat" where
  "cells_of_tys tys = sum_list (map (\<lambda>ty. unat (required_cells_for_ty ty)) tys)"

lemma cells_of_tys_simps [simp]:
  "cells_of_tys [] = 0" "cells_of_tys (ty # tys) = unat (required_cells_for_ty ty) + cells_of_tys tys"
  "cells_of_tys (tys @ tys') = cells_of_tys tys + cells_of_tys tys'"
  "cells_of_tys (replicate n ty) = n * unat (required_cells_for_ty ty)"
  by (simp_all add: cells_of_tys_def sum_list_replicate)

lemma required_cells_bounds: "1 \<le> unat (required_cells_for_ty ty)" "unat (required_cells_for_ty ty) \<le> 2"
  by (simp_all add: required_cells_for_ty_def)

lemma length_le_cells: "length tys \<le> cells_of_tys tys"
proof (induction tys)
  case (Cons ty tys)
  then show ?case using required_cells_bounds(1) [of ty] by simp
qed simp

definition layout_inv :: "stack_layout \<Rightarrow> val_type list \<Rightarrow> bool" where
  "layout_inv l tys \<longleftrightarrow> unat (min_temp_offset l) = cells_of_tys tys
    \<and> map unat (local_offsets l) = map (\<lambda>i. cells_of_tys (take i tys)) [0..<length tys]"

lemma layout_inv_default: "layout_inv stack_layout_default []"
  by (simp add: layout_inv_def stack_layout_default_def)

lemma layout_push_inv:
  assumes "layout_inv l tys" "cells_of_tys tys + n * unat (required_cells_for_ty ty) < 2 ^ 16"
  shows "layout_inv (layout_push n (required_cells_for_ty ty) l) (tys @ replicate n ty)"
  using assms
proof (induction n arbitrary: l tys)
  case (Suc n)
  let ?l = "l\<lparr>local_offsets := local_offsets l @ [min_temp_offset l], min_temp_offset := min_temp_offset l + required_cells_for_ty ty\<rparr>"
  have "unat (min_temp_offset l + required_cells_for_ty ty) = cells_of_tys (tys @ [ty])"
    using Suc.prems by (simp add: layout_inv_def unat_word_ariths)
  then have "layout_inv ?l (tys @ [ty])"
    using Suc.prems(1) by (simp add: layout_inv_def)
  from Suc.IH [OF this] Suc.prems(2) show ?case
    by (simp add: replicate_app_Cons_same)
qed simp

lemma layout_inv_register:
  assumes inv: "layout_inv l tys"
  shows "case layout_register_locals l amount ty of
      (Ok _, l') \<Rightarrow> cells_of_tys (tys @ replicate amount ty) < 2 ^ 16 \<and> layout_inv l' (tys @ replicate amount ty)
    | (e, l') \<Rightarrow> e = Err AllocatedTooManySlots \<and> 2 ^ 16 \<le> cells_of_tys (tys @ replicate amount ty) \<and> l' = l"
  using inv layout_push_inv [OF inv, of amount ty]
  by (auto simp: layout_register_locals_def Let_def layout_inv_def)

lemma cells_of_take_mono: "i \<le> j \<Longrightarrow> cells_of_tys (take i tys) \<le> cells_of_tys (take j tys)"
  by (metis cells_of_tys_simps(3) le_add1 le_add_diff_inverse take_add)

lemma cells_of_take_less:
  "i < j \<Longrightarrow> j \<le> length tys \<Longrightarrow> cells_of_tys (take i tys) + unat (required_cells_for_ty (tys ! i)) \<le> cells_of_tys (take j tys)"
  using cells_of_take_mono [of "Suc i" j tys] by (simp add: take_Suc_conv_app_nth)

lemma local_to_slot_cells:
  assumes inv: "layout_inv l tys" and i: "unat index < length tys"
  shows "local_to_slot R l index = Ok (slot_from_u16 R (of_nat (cells_of_tys (take (unat index) tys))))"
proof -
  have len: "length (local_offsets l) = length tys" using inv map_eq_imp_length_eq by (fastforce simp: layout_inv_def)
  have "length tys \<le> unat (min_temp_offset l)" using inv length_le_cells [of tys] by (simp add: layout_inv_def)
  moreover have "unat (min_temp_offset l) < 2 ^ LENGTH(16)" by (rule unsigned_less)
  ultimately have small: "unat index < 2 ^ 16" using i by simp
  then have "unat (ucast index :: u16) = unat index" by (simp add: unsigned_ucast_eq take_bit_nat_eq_self)
  moreover have off: "unat (local_offsets l ! unat index) = cells_of_tys (take (unat index) tys)"
    using inv i len by (metis (no_types, lifting) add_0 diff_zero layout_inv_def length_upt nth_map nth_upt)
  then have "local_offsets l ! unat index = of_nat (cells_of_tys (take (unat index) tys))"
    by (simp flip: off)
  ultimately show ?thesis
    using small i len by (simp add: local_to_slot_def try_from_def get_opt_def)
qed

end
