(* ===== verification/Operand_Stack.thy ===== *)
theory Operand_Stack
  imports Func_Locals
begin

section \<open>The operand stack of the translator (crates/wasmi/src/engine/translator/func/stack)\<close>

text \<open>
  While it translates a function, the translator keeps the operands of the Wasm value stack: local
  variables that were not read yet, temporaries with their cells or a register, and immediates
  (\<open>operands.rs\<close>, \<open>operand.rs\<close>). The operands that stand for the same local variable form a doubly linked
  list through the stack, whose head is kept per local variable (\<open>stack/locals.rs\<close>), so that they can be
  copied to their temporary cells before the variable changes. A position on the stack
  (\<open>StackPos\<close>, a nonzero number) is the index it stands for. \<open>None\<close> is the result of an operation without
  an error that panics.
\<close>

subsection \<open>Operands (stack/operands.rs, stack/operand.rs)\<close>

type_synonym stack_pos = nat

datatype 's stack_operand =
  StackLocal (so_temp_slots: "'s slot_span") (so_ty: val_type) local_idx "stack_pos option" "stack_pos option"
| StackTemp (so_temp_slots: "'s slot_span") (so_ty: val_type) bool
| StackImmediate (so_temp_slots: "'s slot_span") (so_ty: val_type) raw_val

record 's local_operand =
  lo_temp_slots :: "'s slot_span"
  lo_ty :: val_type
  lo_local_index :: local_idx
  lo_in_reg :: bool

record 's temp_operand =
  tm_temp_slots :: "'s slot_span"
  tm_ty :: val_type
  tm_stack_pos :: stack_pos
  tm_in_reg :: bool

record 's immediate_operand =
  im_temp_slots :: "'s slot_span"
  im_ty :: val_type
  im_val :: raw_val

datatype 's opd = OpdLocal "'s local_operand" | OpdTemp "'s temp_operand" | OpdImmediate "'s immediate_operand"

fun opd_new :: "stack_pos \<Rightarrow> 's stack_operand \<Rightarrow> bool \<Rightarrow> 's opd" where
  "opd_new pos (StackTemp slots ty in_reg) _ =
     OpdTemp \<lparr>tm_temp_slots = slots, tm_ty = ty, tm_stack_pos = pos, tm_in_reg = in_reg\<rparr>"
| "opd_new pos (StackLocal slots ty index _ _) in_reg =
     OpdLocal \<lparr>lo_temp_slots = slots, lo_ty = ty, lo_local_index = index, lo_in_reg = in_reg\<rparr>"
| "opd_new pos (StackImmediate slots ty v) _ = OpdImmediate \<lparr>im_temp_slots = slots, im_ty = ty, im_val = v\<rparr>"

fun opd_ty :: "'s opd \<Rightarrow> val_type" where
  "opd_ty (OpdLocal x) = lo_ty x"
| "opd_ty (OpdTemp x) = tm_ty x"
| "opd_ty (OpdImmediate x) = im_ty x"

fun opd_temp_slots :: "'s opd \<Rightarrow> 's bounded_slot_span" where
  "opd_temp_slots (OpdLocal x) = bounded_span_new (lo_temp_slots x) (required_cells_for_ty (lo_ty x))"
| "opd_temp_slots (OpdTemp x) = bounded_span_new (tm_temp_slots x) (required_cells_for_ty (tm_ty x))"
| "opd_temp_slots (OpdImmediate x) = bounded_span_new (im_temp_slots x) (required_cells_for_ty (im_ty x))"

fun opd_in_reg :: "'s opd \<Rightarrow> bool" where
  "opd_in_reg (OpdLocal x) = lo_in_reg x"
| "opd_in_reg (OpdTemp x) = tm_in_reg x"
| "opd_in_reg (OpdImmediate _) = False"

fun opd_is_same :: "'s opd \<Rightarrow> 's opd \<Rightarrow> bool" where
  "opd_is_same (OpdLocal a) (OpdLocal b) \<longleftrightarrow> lo_local_index a = lo_local_index b"
| "opd_is_same (OpdTemp a) (OpdTemp b) \<longleftrightarrow> tm_stack_pos a = tm_stack_pos b"
| "opd_is_same (OpdImmediate a) (OpdImmediate b) \<longleftrightarrow> im_ty a = im_ty b \<and> im_val a = im_val b"
| "opd_is_same _ _ \<longleftrightarrow> False"

datatype ('s, 'a) resolved_operand = ResolvedReg val_type | ResolvedSlot 's | ResolvedImmediate 'a

definition opd_resolve ::
  "'w::len word slot_repr \<Rightarrow> stack_layout \<Rightarrow> 'w word opd \<Rightarrow> (translation_error, ('w word, val_type \<times> raw_val) resolved_operand) res" where
  "opd_resolve R layout operand =
     (case operand of
        OpdLocal x \<Rightarrow>
          if lo_in_reg x then Ok (ResolvedReg (lo_ty x))
          else (case local_to_slot R layout (lo_local_index x) of
                  Ok slot \<Rightarrow> Ok (ResolvedSlot slot) | Err e \<Rightarrow> Err e | Panic \<Rightarrow> Panic)
      | OpdTemp x \<Rightarrow> if tm_in_reg x then Ok (ResolvedReg (tm_ty x)) else Ok (ResolvedSlot (tm_temp_slots x))
      | OpdImmediate x \<Rightarrow> Ok (ResolvedImmediate (im_ty x, im_val x)))"

fun resolved_sort :: "('s, 'a) resolved_operand \<Rightarrow> ('s, 'a) resolved_operand \<Rightarrow> ('s, 'a) resolved_operand \<times> ('s, 'a) resolved_operand" where
  "resolved_sort (ResolvedSlot s) (ResolvedReg t) = (ResolvedReg t, ResolvedSlot s)"
| "resolved_sort (ResolvedImmediate v) (ResolvedReg t) = (ResolvedReg t, ResolvedImmediate v)"
| "resolved_sort (ResolvedImmediate v) (ResolvedSlot s) = (ResolvedSlot s, ResolvedImmediate v)"
| "resolved_sort a b = (a, b)"

datatype allocation = AllocNone | AllocReg

subsection \<open>Registers (stack/operands.rs, stack/control.rs)\<close>

datatype reg_kind = Ireg | Freg32 | Freg64

fun reg_kind_new :: "val_type \<Rightarrow> reg_kind option" where
  "reg_kind_new F32 = Some Freg32"
| "reg_kind_new F64 = Some Freg64"
| "reg_kind_new V128 = None"
| "reg_kind_new _ = Some Ireg"

datatype register_link = LinkTemp stack_pos | LinkLocal local_idx

record register_map =
  rm_ireg :: "register_link option"
  rm_freg32 :: "register_link option"
  rm_freg64 :: "register_link option"

definition regs_default :: register_map where
  "regs_default = \<lparr>rm_ireg = None, rm_freg32 = None, rm_freg64 = None\<rparr>"

fun regs_get :: "register_map \<Rightarrow> val_type \<Rightarrow> register_link option" where
  "regs_get m F32 = rm_freg32 m"
| "regs_get m F64 = rm_freg64 m"
| "regs_get m V128 = None"
| "regs_get m _ = rm_ireg m"

fun regs_put :: "register_map \<Rightarrow> val_type \<Rightarrow> register_link option \<Rightarrow> register_map option" where
  "regs_put m F32 link = Some (m\<lparr>rm_freg32 := link\<rparr>)"
| "regs_put m F64 link = Some (m\<lparr>rm_freg64 := link\<rparr>)"
| "regs_put m V128 link = None"
| "regs_put m _ link = Some (m\<lparr>rm_ireg := link\<rparr>)"

definition regs_alloc :: "register_map \<Rightarrow> val_type \<Rightarrow> register_link \<Rightarrow> (register_link option \<times> register_map) option" where
  "regs_alloc m ty link = map_option (\<lambda>m'. (regs_get m ty, m')) (regs_put m ty (Some link))"

definition regs_dealloc :: "register_map \<Rightarrow> val_type \<Rightarrow> (register_link option \<times> register_map) option" where
  "regs_dealloc m ty = map_option (\<lambda>m'. (regs_get m ty, m')) (regs_put m ty None)"

definition regs_dealloc_temp :: "register_map \<Rightarrow> val_type \<Rightarrow> nat \<Rightarrow> (stack_pos option \<times> register_map) option" where
  "regs_dealloc_temp m ty skip_threshold =
     (if ty = V128 then None
      else case regs_get m ty of
             Some (LinkTemp pos) \<Rightarrow>
               if pos \<ge> skip_threshold then Some (None, m)
               else map_option (\<lambda>m'. (Some pos, m')) (regs_put m ty None)
           | _ \<Rightarrow> Some (None, m))"

definition is_local_in_reg :: "register_map \<Rightarrow> val_type \<Rightarrow> local_idx \<Rightarrow> bool" where
  "is_local_in_reg m ty index \<longleftrightarrow> regs_get m ty = Some (LinkLocal index)"

definition is_local_in_any_reg :: "register_map \<Rightarrow> local_idx \<Rightarrow> bool" where
  "is_local_in_any_reg m index \<longleftrightarrow> is_local_in_reg m I64 index \<or> is_local_in_reg m F32 index \<or> is_local_in_reg m F64 index"

definition wrap_operand :: "register_map \<Rightarrow> stack_pos \<Rightarrow> 's stack_operand \<Rightarrow> 's opd" where
  "wrap_operand m pos operand =
     opd_new pos operand (case operand of StackLocal _ ty index _ _ \<Rightarrow> is_local_in_reg m ty index | _ \<Rightarrow> False)"

definition discard_local_link :: "register_link option \<Rightarrow> register_link option" where
  "discard_local_link link = (case link of Some (LinkLocal _) \<Rightarrow> None | _ \<Rightarrow> link)"

definition regs_discard_local :: "register_map \<Rightarrow> register_map" where
  "regs_discard_local m =
     \<lparr>rm_ireg = discard_local_link (rm_ireg m), rm_freg32 = discard_local_link (rm_freg32 m), rm_freg64 = discard_local_link (rm_freg64 m)\<rparr>"

subsection \<open>The stack (stack/operands.rs, stack/locals.rs)\<close>

record 's operand_stack =
  os_operands :: "'s stack_operand list"
  os_local_heads :: "stack_pos option list"
  os_len_locals :: usize
  os_local_slots :: u16
  os_temp_offset :: u16
  os_max_offset :: u16
  os_regs :: register_map

definition opds_default :: "'s operand_stack" where
  "opds_default = \<lparr>os_operands = [], os_local_heads = [], os_len_locals = 0, os_local_slots = 0, os_temp_offset = 0,
     os_max_offset = 0, os_regs = regs_default\<rparr>"

definition replace_first :: "stack_pos option list \<Rightarrow> local_idx \<Rightarrow> stack_pos option \<Rightarrow> (stack_pos option \<times> stack_pos option list) option" where
  "replace_first heads index first =
     (if unat index < length heads then Some (heads ! unat index, heads[unat index := first]) else None)"

definition push_local_slots :: "'s operand_stack \<Rightarrow> u16 \<Rightarrow> (translation_error, unit) res \<times> 's operand_stack" where
  "push_local_slots s delta =
     (case checked_add (os_local_slots s) delta of
        None \<Rightarrow> (Err AllocatedTooManySlots, s)
      | Some v \<Rightarrow> (Ok (), s\<lparr>os_local_slots := v, os_temp_offset := v, os_max_offset := max (os_max_offset s) v\<rparr>))"

definition opds_register_locals :: "'s operand_stack \<Rightarrow> nat \<Rightarrow> val_type \<Rightarrow> (translation_error, unit) res \<times> 's operand_stack" where
  "opds_register_locals s amount ty =
     (let s = s\<lparr>os_local_heads := os_local_heads s @ replicate amount None\<rparr> in
      if amount \<ge> 2 ^ 16 then (Err TooManyLocalVariables, s)
      else case checked_mul (of_nat amount) (required_cells_for_ty ty) of
             None \<Rightarrow> (Err AllocatedTooManySlots, s)
           | Some required_cells \<Rightarrow> push_local_slots s required_cells)"

definition push_temp_offset :: "'w::len word slot_repr \<Rightarrow> 'w word operand_stack \<Rightarrow> u16 \<Rightarrow> (translation_error, 'w word slot_span) res \<times> 'w word operand_stack" where
  "push_temp_offset R s delta =
     (case checked_add (os_temp_offset s) delta of
        None \<Rightarrow> (Err AllocatedTooManySlots, s)
      | Some v \<Rightarrow> (Ok (slot_from_u16 R (os_temp_offset s)), s\<lparr>os_temp_offset := v, os_max_offset := max (os_max_offset s) v\<rparr>))"

definition pop_temp_offset :: "'s operand_stack \<Rightarrow> u16 \<Rightarrow> 's operand_stack option" where
  "pop_temp_offset s delta = map_option (\<lambda>v. s\<lparr>os_temp_offset := v\<rparr>) (checked_sub (os_temp_offset s) delta)"

definition next_temp_slots :: "'w::len word slot_repr \<Rightarrow> 'w word operand_stack \<Rightarrow> 'w word slot_span" where
  "next_temp_slots R s = slot_from_u16 R (os_temp_offset s)"

definition opds_height :: "'s operand_stack \<Rightarrow> nat" where
  "opds_height s = length (os_operands s)"

text \<open>A depth that is not below the height makes the index wrap around, which panics.\<close>

definition depth_to_stack_pos :: "'s operand_stack \<Rightarrow> nat \<Rightarrow> stack_pos option" where
  "depth_to_stack_pos s depth = (if depth < opds_height s then Some (opds_height s - depth - 1) else None)"

definition update_prev_local :: "'s operand_stack \<Rightarrow> stack_pos \<Rightarrow> stack_pos option \<Rightarrow> 's operand_stack option" where
  "update_prev_local s pos new_prev =
     (case get_opt (os_operands s) pos of
        Some (StackLocal slots ty index _ nx) \<Rightarrow> Some (s\<lparr>os_operands := (os_operands s)[pos := StackLocal slots ty index new_prev nx]\<rparr>)
      | _ \<Rightarrow> None)"

definition update_next_local :: "'s operand_stack \<Rightarrow> stack_pos \<Rightarrow> stack_pos option \<Rightarrow> 's operand_stack option" where
  "update_next_local s pos new_next =
     (case get_opt (os_operands s) pos of
        Some (StackLocal slots ty index pv _) \<Rightarrow> Some (s\<lparr>os_operands := (os_operands s)[pos := StackLocal slots ty index pv new_next]\<rparr>)
      | _ \<Rightarrow> None)"

definition unlink_local :: "'s operand_stack \<Rightarrow> local_idx \<Rightarrow> stack_pos option \<Rightarrow> stack_pos option \<Rightarrow> 's operand_stack option" where
  "unlink_local s index prev_local next_local =
     Option.bind
       (case prev_local of
          Some pv \<Rightarrow> update_next_local s pv next_local
        | None \<Rightarrow> map_option (\<lambda>(_, heads). s\<lparr>os_local_heads := heads\<rparr>) (replace_first (os_local_heads s) index next_local)) (\<lambda>s.
     Option.bind
       (case next_local of Some nx \<Rightarrow> update_prev_local s nx prev_local | None \<Rightarrow> Some s) (\<lambda>s.
     Some (s\<lparr>os_len_locals := os_len_locals s - 1\<rparr>)))"

definition try_unlink_local :: "'s operand_stack \<Rightarrow> 's stack_operand \<Rightarrow> 's operand_stack option" where
  "try_unlink_local s operand =
     (case operand of StackLocal _ _ index pv nx \<Rightarrow> unlink_local s index pv nx | _ \<Rightarrow> Some s)"

definition try_unlink_reg :: "'s operand_stack \<Rightarrow> 's stack_operand \<Rightarrow> (stack_pos option \<times> 's operand_stack) option" where
  "try_unlink_reg s operand =
     (case operand of
        StackTemp _ ty True \<Rightarrow>
          map_option (\<lambda>(link, regs). (case link of Some (LinkTemp pos) \<Rightarrow> Some pos | _ \<Rightarrow> None, s\<lparr>os_regs := regs\<rparr>)) (regs_dealloc (os_regs s) ty)
      | _ \<Rightarrow> Some (None, s))"

definition push_local :: "'w::len word slot_repr \<Rightarrow> 'w word operand_stack \<Rightarrow> local_idx \<Rightarrow> val_type
   \<Rightarrow> (translation_error, 'w word local_operand) res \<times> 'w word operand_stack" where
  "push_local R s index ty =
     (let stack_pos = length (os_operands s) in
      case replace_first (os_local_heads s) index (Some stack_pos) of
        None \<Rightarrow> (Panic, s)
      | Some (next_local, heads) \<Rightarrow>
          (case (case next_local of
                   Some nx \<Rightarrow> update_prev_local (s\<lparr>os_local_heads := heads\<rparr>) nx (Some stack_pos)
                 | None \<Rightarrow> Some (s\<lparr>os_local_heads := heads\<rparr>)) of
             None \<Rightarrow> (Panic, s)
           | Some s \<Rightarrow>
               (case push_temp_offset R s (required_cells_for_ty ty) of
                  (Ok temp_slots, s) \<Rightarrow>
                    (Ok \<lparr>lo_temp_slots = temp_slots, lo_ty = ty, lo_local_index = index, lo_in_reg = is_local_in_reg (os_regs s) ty index\<rparr>,
                     s\<lparr>os_operands := os_operands s @ [StackLocal temp_slots ty index None next_local], os_len_locals := os_len_locals s + 1\<rparr>)
                | (Err e, s) \<Rightarrow> (Err e, s)
                | (Panic, s) \<Rightarrow> (Panic, s))))"

definition push_temp :: "'w::len word slot_repr \<Rightarrow> 'w word operand_stack \<Rightarrow> val_type \<Rightarrow> allocation
   \<Rightarrow> (translation_error, 'w word temp_operand) res \<times> 'w word operand_stack" where
  "push_temp R s ty alloc =
     (let stack_pos = length (os_operands s); in_reg = (alloc = AllocReg) in
      case (if in_reg then map_option (\<lambda>(_, regs). s\<lparr>os_regs := regs\<rparr>) (regs_alloc (os_regs s) ty (LinkTemp stack_pos)) else Some s) of
        None \<Rightarrow> (Panic, s)
      | Some s \<Rightarrow>
          (case push_temp_offset R s (required_cells_for_ty ty) of
             (Ok temp_slots, s) \<Rightarrow>
               (Ok \<lparr>tm_temp_slots = temp_slots, tm_ty = ty, tm_stack_pos = stack_pos, tm_in_reg = in_reg\<rparr>,
                s\<lparr>os_operands := os_operands s @ [StackTemp temp_slots ty in_reg]\<rparr>)
           | (Err e, s) \<Rightarrow> (Err e, s)
           | (Panic, s) \<Rightarrow> (Panic, s)))"

definition push_immediate :: "'w::len word slot_repr \<Rightarrow> 'w word operand_stack \<Rightarrow> val_type \<Rightarrow> raw_val
   \<Rightarrow> (translation_error, 'w word immediate_operand) res \<times> 'w word operand_stack" where
  "push_immediate R s ty v =
     (case push_temp_offset R s (required_cells_for_ty ty) of
        (Ok temp_slots, s) \<Rightarrow>
          (Ok \<lparr>im_temp_slots = temp_slots, im_ty = ty, im_val = v\<rparr>, s\<lparr>os_operands := os_operands s @ [StackImmediate temp_slots ty v]\<rparr>)
      | (Err e, s) \<Rightarrow> (Err e, s)
      | (Panic, s) \<Rightarrow> (Panic, s))"

fun map_ok :: "('a \<Rightarrow> 'b) \<Rightarrow> ('e, 'a) res \<times> 'x \<Rightarrow> ('e, 'b) res \<times> 'x" where
  "map_ok f (Ok x, s) = (Ok (f x), s)"
| "map_ok f (Err e, s) = (Err e, s)"
| "map_ok f (Panic, s) = (Panic, s)"

definition push_operand :: "'w::len word slot_repr \<Rightarrow> 'w word operand_stack \<Rightarrow> 'w word opd
   \<Rightarrow> (translation_error, 'w word opd) res \<times> 'w word operand_stack" where
  "push_operand R s operand =
     (case operand of
        OpdLocal x \<Rightarrow> map_ok OpdLocal (push_local R s (lo_local_index x) (lo_ty x))
      | OpdTemp x \<Rightarrow> map_ok OpdTemp (push_temp R s (tm_ty x) (if tm_in_reg x then AllocReg else AllocNone))
      | OpdImmediate x \<Rightarrow> map_ok OpdImmediate (push_immediate R s (im_ty x) (im_val x)))"

definition opds_peek :: "'s operand_stack \<Rightarrow> nat \<Rightarrow> 's opd list" where
  "opds_peek s n =
     (if n \<le> opds_height s
      then map (\<lambda>pos. wrap_operand (os_regs s) pos (os_operands s ! pos)) [opds_height s - n..<opds_height s]
      else [])"

definition opds_pop :: "'s operand_stack \<Rightarrow> ('s opd \<times> 's operand_stack) option" where
  "opds_pop s =
     (if os_operands s = [] then None
      else let operand = last (os_operands s) in
        Option.bind (pop_temp_offset (s\<lparr>os_operands := butlast (os_operands s)\<rparr>) (required_cells_for_ty (so_ty operand))) (\<lambda>s.
        Option.bind (try_unlink_local s operand) (\<lambda>s.
        Option.bind (try_unlink_reg s operand) (\<lambda>(_, s).
        Some (wrap_operand (os_regs s) (length (os_operands s)) operand, s)))))"

definition opds_get :: "'s operand_stack \<Rightarrow> nat \<Rightarrow> 's opd option" where
  "opds_get s depth =
     Option.bind (depth_to_stack_pos s depth) (\<lambda>pos.
       map_option (wrap_operand (os_regs s) pos) (get_opt (os_operands s) pos))"

definition operand_to_temp_at :: "'s operand_stack \<Rightarrow> stack_pos \<Rightarrow> ('s stack_operand \<times> 's operand_stack) option" where
  "operand_to_temp_at s pos =
     Option.bind (get_opt (os_operands s) pos) (\<lambda>operand.
     Option.bind (try_unlink_local s operand) (\<lambda>s.
     Option.bind (try_unlink_reg s operand) (\<lambda>(_, s).
     Some (operand, s\<lparr>os_operands := (os_operands s)[pos := StackTemp (so_temp_slots operand) (so_ty operand) False]\<rparr>))))"

definition operand_to_temp :: "'s operand_stack \<Rightarrow> nat \<Rightarrow> ('s opd \<times> 's operand_stack) option" where
  "operand_to_temp s depth =
     Option.bind (depth_to_stack_pos s depth) (\<lambda>pos.
       map_option (\<lambda>(operand, s). (opd_new pos operand False, s)) (operand_to_temp_at s pos))"

definition preserve_local_at :: "'s operand_stack \<Rightarrow> stack_pos \<Rightarrow> ('s stack_operand \<times> 's operand_stack) option" where
  "preserve_local_at s pos =
     (case get_opt (os_operands s) pos of
        Some (StackLocal slots ty index pv nx) \<Rightarrow>
          map_option (\<lambda>s. (StackLocal slots ty index pv nx, s\<lparr>os_operands := (os_operands s)[pos := StackTemp slots ty False]\<rparr>))
            (unlink_local s index pv nx)
      | _ \<Rightarrow> None)"

subsection \<open>Preservation of local variables (stack/operands.rs)\<close>

text \<open>
  The iterator over the operands of one local variable: its next element, and all elements, which its
  users take in a loop. Every element removes an operand from the lists of local variables.
\<close>

definition preserved_locals_next ::
  "bool \<Rightarrow> 's operand_stack \<Rightarrow> stack_pos option \<Rightarrow> (('s local_operand \<times> stack_pos option) option \<times> 's operand_stack) option" where
  "preserved_locals_next in_reg s stack_pos =
     (case stack_pos of
        None \<Rightarrow> Some (None, s)
      | Some pos \<Rightarrow>
          (case preserve_local_at s pos of
             Some (StackLocal slots ty index _ nx, s) \<Rightarrow>
               Some (Some (\<lparr>lo_temp_slots = slots, lo_ty = ty, lo_local_index = index, lo_in_reg = in_reg\<rparr>, nx), s)
           | _ \<Rightarrow> None))"

definition local_of :: "'s stack_operand \<Rightarrow> local_idx option" where
  "local_of operand = (case operand of StackLocal _ _ index _ _ \<Rightarrow> Some index | _ \<Rightarrow> None)"

definition count_locals :: "'s stack_operand list \<Rightarrow> nat" where
  "count_locals ops = length (filter (\<lambda>operand. local_of operand \<noteq> None) ops)"

lemma local_of_simps [simp]:
  "local_of (StackLocal slots ty index pv nx) = Some index" "local_of (StackTemp slots ty r) = None"
  "local_of (StackImmediate slots ty v) = None"
  by (simp_all add: local_of_def)

lemma local_of_None: "local_of operand \<noteq> None \<longleftrightarrow> (\<exists>slots ty index pv nx. operand = StackLocal slots ty index pv nx)"
  by (cases operand) simp_all

lemma update_shape:
  "update_prev_local s pos x = Some s' \<Longrightarrow> map local_of (os_operands s') = map local_of (os_operands s)"
  "update_next_local s pos x = Some s' \<Longrightarrow> map local_of (os_operands s') = map local_of (os_operands s)"
  by (auto simp: update_prev_local_def update_next_local_def map_update get_opt_def split: option.splits stack_operand.splits if_splits
      intro!: nth_equalityI simp: nth_list_update)

lemma unlink_shape: "unlink_local s index pv nx = Some s' \<Longrightarrow> map local_of (os_operands s') = map local_of (os_operands s)"
  by (auto simp: unlink_local_def split: Option.bind_splits option.splits dest!: update_shape)

lemma count_locals_shape: "count_locals ops = length (filter (\<lambda>l. l \<noteq> None) (map local_of ops))"
  by (simp add: count_locals_def filter_map o_def)

lemma preserve_local_at_shape:
  assumes "preserve_local_at s pos = Some (operand, s')"
  shows "pos < length (os_operands s) \<and> local_of (os_operands s ! pos) \<noteq> None
    \<and> map local_of (os_operands s') = (map local_of (os_operands s))[pos := None]"
  using assms unlink_shape
  by (fastforce simp: preserve_local_at_def get_opt_def map_update split: option.splits stack_operand.splits if_splits)

lemma length_filter_update:
  "i < length xs \<Longrightarrow> P (xs ! i) \<Longrightarrow> \<not> P x \<Longrightarrow> length (filter P (xs[i := x])) < length (filter P xs)"
  by (induction xs arbitrary: i) (auto split: nat.splits)

lemma preserve_local_at_decreases:
  assumes "preserve_local_at s pos = Some (operand, s')"
  shows "count_locals (os_operands s') < count_locals (os_operands s)"
  unfolding count_locals_shape
  using preserve_local_at_shape [OF assms] length_filter_update [of pos "map local_of (os_operands s)" "\<lambda>l. l \<noteq> None" None] by simp

function preserved_locals_collect ::
  "bool \<Rightarrow> 's operand_stack \<Rightarrow> stack_pos option \<Rightarrow> ('s local_operand list \<times> 's operand_stack) option" where
  "preserved_locals_collect in_reg s stack_pos =
     (case preserved_locals_next in_reg s stack_pos of
        None \<Rightarrow> None
      | Some (None, s) \<Rightarrow> Some ([], s)
      | Some (Some (operand, stack_pos), s) \<Rightarrow>
          map_option (\<lambda>(operands, s). (operand # operands, s)) (preserved_locals_collect in_reg s stack_pos))"
  by pat_completeness auto
termination
  by (relation "measure (\<lambda>(_, s, _). count_locals (os_operands s))")
    (auto simp: preserved_locals_next_def dest!: preserve_local_at_decreases split: option.splits stack_operand.splits)

declare preserved_locals_collect.simps [simp del]

definition preserve_locals :: "'s operand_stack \<Rightarrow> local_idx \<Rightarrow> ('s local_operand list \<times> 's operand_stack) option" where
  "preserve_locals s index =
     Option.bind (replace_first (os_local_heads s) index None) (\<lambda>(stack_pos, heads).
       preserved_locals_collect (is_local_in_any_reg (os_regs s) index) (s\<lparr>os_local_heads := heads\<rparr>) stack_pos)"

text \<open>
  The iterator over all local variables: the position, the number of operands to skip and the number of
  local operands that were not found yet. A position below zero wraps around and is not on the stack.
\<close>

fun find_next_local :: "'s stack_operand list \<Rightarrow> nat \<Rightarrow> nat \<Rightarrow> nat \<Rightarrow> (nat \<times> nat \<times> nat) option" where
  "find_next_local ops 0 skip left = None"
| "find_next_local ops (Suc pos) skip left =
     (if left = 0 then None
      else case get_opt ops pos of
             None \<Rightarrow> None
           | Some operand \<Rightarrow>
               if local_of operand = None then find_next_local ops pos skip left
               else if skip > 0 then find_next_local ops pos (skip - 1) (left - 1)
               else Some (pos, skip, left - 1))"

lemma find_next_local_less: "find_next_local ops pos skip left = Some (pos', skip', left') \<Longrightarrow> pos' < pos"
  by (induction ops pos skip left rule: find_next_local.induct) (auto split: if_splits option.splits)

function preserved_all_collect ::
  "'s operand_stack \<Rightarrow> nat \<Rightarrow> nat \<Rightarrow> nat \<Rightarrow> ('s local_operand list \<times> 's operand_stack) option" where
  "preserved_all_collect s stack_pos skip left =
     (case find_next_local (os_operands s) stack_pos skip left of
        None \<Rightarrow> Some ([], s)
      | Some (pos, skip, left) \<Rightarrow>
          (case preserve_local_at s pos of
             Some (StackLocal slots ty index _ _, s) \<Rightarrow>
               map_option (\<lambda>(operands, s'). (\<lparr>lo_temp_slots = slots, lo_ty = ty, lo_local_index = index,
                   lo_in_reg = is_local_in_reg (os_regs s) ty index\<rparr> # operands, s'))
                 (preserved_all_collect s pos skip left)
           | _ \<Rightarrow> None))"
  by pat_completeness auto
termination by (relation "measure (\<lambda>(_, pos, _, _). pos)") (auto dest: find_next_local_less)

declare preserved_all_collect.simps [simp del]

definition preserve_all_locals :: "'s operand_stack \<Rightarrow> nat \<Rightarrow> ('s local_operand list \<times> 's operand_stack) option" where
  "preserve_all_locals s skip = preserved_all_collect s (length (os_operands s)) skip (unat (os_len_locals s))"

subsection \<open>Registers of the operands (stack/operands.rs)\<close>

definition register_local_for_reg :: "'s operand_stack \<Rightarrow> val_type \<Rightarrow> local_idx \<Rightarrow> 's operand_stack option" where
  "register_local_for_reg s ty index =
     (if ty = V128 then Some s
      else map_option (\<lambda>(_, regs). s\<lparr>os_regs := regs\<rparr>) (regs_alloc (os_regs s) ty (LinkLocal index)))"

definition dealloc_local_for_reg :: "'s operand_stack \<Rightarrow> val_type \<Rightarrow> local_idx \<Rightarrow> 's operand_stack option" where
  "dealloc_local_for_reg s ty index =
     (if ty = V128 then Some s
      else if is_local_in_any_reg (os_regs s) index
      then map_option (\<lambda>(_, regs). s\<lparr>os_regs := regs\<rparr>) (regs_dealloc (os_regs s) ty)
      else Some s)"

definition dealloc_reg :: "'s operand_stack \<Rightarrow> val_type \<Rightarrow> ('s temp_operand option \<times> 's operand_stack) option" where
  "dealloc_reg s ty =
     Option.bind (regs_dealloc (os_regs s) ty) (\<lambda>(link, regs).
       let s = s\<lparr>os_regs := regs\<rparr> in
       case link of
         Some (LinkTemp pos) \<Rightarrow>
           (case get_opt (os_operands s) pos of
              Some (StackTemp slots ty in_reg) \<Rightarrow>
                Some (Some \<lparr>tm_temp_slots = slots, tm_ty = ty, tm_stack_pos = pos, tm_in_reg = in_reg\<rparr>,
                      s\<lparr>os_operands := (os_operands s)[pos := StackTemp slots ty False]\<rparr>)
            | _ \<Rightarrow> None)
       | _ \<Rightarrow> Some (None, s))"

definition discard_local_regs :: "'s operand_stack \<Rightarrow> 's operand_stack" where
  "discard_local_regs s = s\<lparr>os_regs := regs_discard_local (os_regs s)\<rparr>"

definition preserve_reg :: "'s operand_stack \<Rightarrow> val_type \<Rightarrow> ('s option \<times> 's operand_stack) option" where
  "preserve_reg s ty =
     Option.bind (regs_dealloc (os_regs s) ty) (\<lambda>(link, regs).
       let s = s\<lparr>os_regs := regs\<rparr> in
       case link of
         Some (LinkTemp pos) \<Rightarrow> map_option (\<lambda>(operand, s). (Some (so_temp_slots operand), s)) (operand_to_temp_at s pos)
       | _ \<Rightarrow> Some (None, s))"

definition preserve_temp_reg :: "'s operand_stack \<Rightarrow> nat \<Rightarrow> val_type \<Rightarrow> ('s option \<times> 's operand_stack) option" where
  "preserve_temp_reg s skip_threshold ty =
     Option.bind (regs_dealloc_temp (os_regs s) ty skip_threshold) (\<lambda>(pos, regs).
       let s = s\<lparr>os_regs := regs\<rparr> in
       case pos of
         Some pos \<Rightarrow> map_option (\<lambda>(operand, s). (Some (so_temp_slots operand), s)) (operand_to_temp_at s pos)
       | None \<Rightarrow> Some (None, s))"

record 's preserved_regs =
  pr_ireg :: "'s option"
  pr_freg32 :: "'s option"
  pr_freg64 :: "'s option"

definition for_each_reg :: "('s operand_stack \<Rightarrow> val_type \<Rightarrow> ('s option \<times> 's operand_stack) option)
   \<Rightarrow> 's operand_stack \<Rightarrow> ('s preserved_regs \<times> 's operand_stack) option" where
  "for_each_reg f s =
     Option.bind (f s I64) (\<lambda>(ireg, s).
     Option.bind (f s F32) (\<lambda>(freg32, s).
     Option.bind (f s F64) (\<lambda>(freg64, s).
     Some (\<lparr>pr_ireg = ireg, pr_freg32 = freg32, pr_freg64 = freg64\<rparr>, s))))"

definition preserve_all_regs :: "'s operand_stack \<Rightarrow> ('s preserved_regs \<times> 's operand_stack) option" where
  "preserve_all_regs s = for_each_reg preserve_reg s"

text \<open>More operands to skip than there are wrap around to a threshold above every position.\<close>

definition preserve_all_temp_regs :: "'s operand_stack \<Rightarrow> nat \<Rightarrow> ('s preserved_regs \<times> 's operand_stack) option" where
  "preserve_all_temp_regs s skip =
     (let n = length (os_operands s); skip_threshold = (if skip \<le> n then n - skip else 2 ^ 64 + n - skip) in
      for_each_reg (\<lambda>s. preserve_temp_reg s skip_threshold) s)"

subsection \<open>The stack as the translator uses it (stack/mod.rs, mod.rs)\<close>

lemma unlink_length:
  "try_unlink_local s operand = Some s' \<Longrightarrow> length (os_operands s') = length (os_operands s)"
  "try_unlink_reg s operand = Some (pos, s') \<Longrightarrow> os_operands s' = os_operands s"
  by (auto simp: try_unlink_local_def try_unlink_reg_def split: stack_operand.splits bool.splits
      dest!: unlink_shape arg_cong [of _ _ length])

lemma opds_pop_height: "opds_pop s = Some (operand, s') \<Longrightarrow> opds_height s = Suc (opds_height s')"
  by (auto simp: opds_pop_def Let_def opds_height_def pop_temp_offset_def split: if_splits Option.bind_splits
      dest!: unlink_length)

function opds_trunc :: "'s operand_stack \<Rightarrow> nat \<Rightarrow> 's operand_stack option" where
  "opds_trunc s height =
     (if opds_height s > height
      then case opds_pop s of None \<Rightarrow> None | Some (_, s) \<Rightarrow> opds_trunc s height
      else Some s)"
  by pat_completeness auto
termination by (relation "measure (\<lambda>(s, _). opds_height s)") (auto dest: opds_pop_height)

declare opds_trunc.simps [simp del]

record 's func_locals =
  fl_locals :: locals_registry
  fl_stack :: "'s operand_stack"
  fl_layout :: stack_layout

definition register_locals :: "'s func_locals \<Rightarrow> u32 \<Rightarrow> val_type \<Rightarrow> (translation_error, unit) res \<times> 's func_locals" where
  "register_locals f amount ty =
     (case locals_register (fl_locals f) (unat amount) ty of
        (Ok _, locals) \<Rightarrow>
          (case opds_register_locals (fl_stack f) (unat amount) ty of
             (Ok _, stack) \<Rightarrow>
               (case layout_register_locals (fl_layout f) (unat amount) ty of
                  (r, layout) \<Rightarrow> (r, f\<lparr>fl_locals := locals, fl_stack := stack, fl_layout := layout\<rparr>))
           | (e, stack) \<Rightarrow> (e, f\<lparr>fl_locals := locals, fl_stack := stack\<rparr>))
      | (e, locals) \<Rightarrow> (e, f\<lparr>fl_locals := locals\<rparr>))"

end
