(* ===== verification/Operand_Links.thy ===== *)
theory Operand_Links
  imports Operand_Stack
begin

section \<open>Correctness of the operand stack\<close>

text \<open>
  The invariant of the operand stack: the linked lists go through all operands of the same local
  variable from top to bottom, the temporary cells of the operands follow each other behind the cells
  of the local variables, and a register is linked to at most one operand. Every operation keeps it, and
  its effect is described on a plain list of operands.
\<close>

subsection \<open>Lists of operands of the same local variable\<close>

text \<open>
  The shape of the stack says which positions stand for which local variable. The link from a position
  goes to the nearest position of the same variable below it, or above it.
\<close>

definition link_below :: "'i option list \<Rightarrow> 'i \<Rightarrow> nat \<Rightarrow> nat option \<Rightarrow> bool" where
  "link_below ls i p r \<longleftrightarrow>
     (case r of None \<Rightarrow> \<forall>q < p. ls ! q \<noteq> Some i
      | Some q \<Rightarrow> q < p \<and> ls ! q = Some i \<and> (\<forall>k. q < k \<and> k < p \<longrightarrow> ls ! k \<noteq> Some i))"

definition link_above :: "'i option list \<Rightarrow> 'i \<Rightarrow> nat \<Rightarrow> nat option \<Rightarrow> bool" where
  "link_above ls i p r \<longleftrightarrow>
     (case r of None \<Rightarrow> \<forall>q. p < q \<and> q < length ls \<longrightarrow> ls ! q \<noteq> Some i
      | Some q \<Rightarrow> p < q \<and> q < length ls \<and> ls ! q = Some i \<and> (\<forall>k. p < k \<and> k < q \<longrightarrow> ls ! k \<noteq> Some i))"

lemma link_below_unique: "link_below ls i p r \<Longrightarrow> link_below ls i p r' \<Longrightarrow> r = r'"
  by (auto simp: link_below_def split: option.splits) (metis linorder_neqE_nat)

lemma link_above_unique: "link_above ls i p r \<Longrightarrow> link_above ls i p r' \<Longrightarrow> r = r'"
  by (auto simp: link_above_def split: option.splits) (metis linorder_neqE_nat)

lemma link_above_below:
  "link_above ls i p (Some q) \<Longrightarrow> ls ! p = Some i \<Longrightarrow> link_below ls i q (Some p)"
  by (auto simp: link_below_def link_above_def)

lemma link_below_above:
  "link_below ls i q (Some p) \<Longrightarrow> q < length ls \<Longrightarrow> ls ! q = Some i \<Longrightarrow> link_above ls i p (Some q)"
  by (auto simp: link_below_def link_above_def)

lemma link_below_append: "p \<le> length ls \<Longrightarrow> link_below (ls @ ls') i p r \<longleftrightarrow> link_below ls i p r"
  by (auto simp: link_below_def nth_append split: option.splits)

lemma link_below_snoc:
  "link_below ls i (length ls) r \<Longrightarrow> link_below (ls @ [x]) i (Suc (length ls)) (if x = Some i then Some (length ls) else r)"
  by (auto simp: link_below_def nth_append less_Suc_eq split: option.splits if_splits)

lemma link_above_snoc:
  "p < length ls \<Longrightarrow> link_above ls i p r
    \<Longrightarrow> link_above (ls @ [x]) i p (if r = None \<and> x = Some i then Some (length ls) else r)"
  by (auto simp: link_above_def nth_append less_Suc_eq split: option.splits if_splits)

lemma link_above_butlast:
  "p < length ls \<Longrightarrow> link_above (ls @ [x]) i p r \<Longrightarrow> link_above ls i p (if r = Some (length ls) then None else r)"
  by (auto simp: link_above_def nth_append less_Suc_eq split: option.splits if_splits)

lemma update_None_iff: "k < length ls \<Longrightarrow> ls[p := None] ! k = Some j \<longleftrightarrow> ls ! k = Some j \<and> k \<noteq> p"
  by (cases "k = p") auto

lemma link_below_remove:
  assumes "link_below ls j r x" "r \<le> length ls" "x = Some p \<Longrightarrow> link_below ls j p nx"
  shows "link_below (ls[p := None]) j r (if x = Some p then nx else x)"
proof -
  have "ls[p := None] ! k = Some j \<longleftrightarrow> ls ! k = Some j \<and> k \<noteq> p" if "k < r" for k
    using that assms(2) by (intro update_None_iff) simp
  then show ?thesis
    using assms(1,3) by (auto simp: link_below_def split: option.splits if_splits) (metis linorder_neqE_nat less_trans)+
qed

lemma link_above_remove:
  assumes "link_above ls j r x" "x = Some p \<Longrightarrow> link_above ls j p pv"
  shows "link_above (ls[p := None]) j r (if x = Some p then pv else x)"
proof -
  have "ls[p := None] ! k = Some j \<longleftrightarrow> ls ! k = Some j \<and> k \<noteq> p" if "k < length ls" for k
    using that by (rule update_None_iff)
  then show ?thesis
    using assms by (auto simp: link_above_def split: option.splits if_splits) (metis linorder_neqE_nat less_trans)+
qed


fun so_prev :: "'s stack_operand \<Rightarrow> stack_pos option" where
  "so_prev (StackLocal _ _ _ pv _) = pv"
| "so_prev _ = None"

fun so_next :: "'s stack_operand \<Rightarrow> stack_pos option" where
  "so_next (StackLocal _ _ _ _ nx) = nx"
| "so_next _ = None"

fun set_prev :: "stack_pos option \<Rightarrow> 's stack_operand \<Rightarrow> 's stack_operand" where
  "set_prev pv (StackLocal slots ty i _ nx) = StackLocal slots ty i pv nx"
| "set_prev pv operand = operand"

fun set_next :: "stack_pos option \<Rightarrow> 's stack_operand \<Rightarrow> 's stack_operand" where
  "set_next nx (StackLocal slots ty i pv _) = StackLocal slots ty i pv nx"
| "set_next nx operand = operand"

lemma set_link_simps [simp]:
  "local_of (set_prev x operand) = local_of operand" "local_of (set_next x operand) = local_of operand"
  "so_ty (set_prev x operand) = so_ty operand" "so_ty (set_next x operand) = so_ty operand"
  "so_temp_slots (set_prev x operand) = so_temp_slots operand" "so_temp_slots (set_next x operand) = so_temp_slots operand"
  "so_next (set_prev x operand) = so_next operand" "so_prev (set_next x operand) = so_prev operand"
  by (cases operand; simp)+

lemma set_link_same [simp]: "set_prev (so_prev operand) operand = operand" "set_next (so_next operand) operand = operand"
  "set_prev (so_prev operand) (set_next x operand) = set_next x operand"
  by (cases operand; simp)+

lemma so_link_local [simp]:
  "local_of operand \<noteq> None \<Longrightarrow> so_prev (set_prev x operand) = x" "local_of operand \<noteq> None \<Longrightarrow> so_next (set_next x operand) = x"
  "local_of operand = None \<Longrightarrow> so_prev operand = None" "local_of operand = None \<Longrightarrow> so_next operand = None"
  "local_of operand = None \<Longrightarrow> set_prev x operand = operand" "local_of operand = None \<Longrightarrow> set_next x operand = operand"
  by (cases operand; simp)+

lemma update_prev_local_Some:
  "pos < length (os_operands s) \<Longrightarrow> local_of (os_operands s ! pos) \<noteq> None
    \<Longrightarrow> update_prev_local s pos x = Some (s\<lparr>os_operands := (os_operands s)[pos := set_prev x (os_operands s ! pos)]\<rparr>)"
  by (cases "os_operands s ! pos") (simp_all add: update_prev_local_def get_opt_def)

lemma update_next_local_Some:
  "pos < length (os_operands s) \<Longrightarrow> local_of (os_operands s ! pos) \<noteq> None
    \<Longrightarrow> update_next_local s pos x = Some (s\<lparr>os_operands := (os_operands s)[pos := set_next x (os_operands s ! pos)]\<rparr>)"
  by (cases "os_operands s ! pos") (simp_all add: update_next_local_def get_opt_def)

definition links_ok :: "'s stack_operand list \<Rightarrow> stack_pos option list \<Rightarrow> bool" where
  "links_ok ops heads \<longleftrightarrow> length heads < 2 ^ 32
     \<and> (\<forall>i. unat i < length heads \<longrightarrow> link_below (map local_of ops) i (length ops) (heads ! unat i))
     \<and> (\<forall>p i. p < length ops \<and> local_of (ops ! p) = Some i \<longrightarrow> unat i < length heads
          \<and> link_above (map local_of ops) i p (so_prev (ops ! p)) \<and> link_below (map local_of ops) i p (so_next (ops ! p)))"

definition relink :: "stack_pos \<Rightarrow> stack_pos option \<Rightarrow> stack_pos option \<Rightarrow> 's stack_operand \<Rightarrow> 's stack_operand" where
  "relink p pv nx operand =
     set_prev (if so_prev operand = Some p then pv else so_prev operand)
       (set_next (if so_next operand = Some p then nx else so_next operand) operand)"

lemma relink_simps [simp]:
  "local_of (relink p pv nx operand) = local_of operand" "so_ty (relink p pv nx operand) = so_ty operand"
  "so_temp_slots (relink p pv nx operand) = so_temp_slots operand"
  by (simp_all add: relink_def)

lemma relink_nonlocal [simp]: "local_of operand = None \<Longrightarrow> relink p pv nx operand = operand"
  by (simp add: relink_def)

lemma relink_links:
  assumes "local_of operand = Some i"
  shows "so_prev (relink p pv nx operand) = (if so_prev operand = Some p then pv else so_prev operand)"
    "so_next (relink p pv nx operand) = (if so_next operand = Some p then nx else so_next operand)"
  using assms by (simp_all add: relink_def)

text \<open>Removing an operand from its list updates its two neighbours and the head, and nothing else.\<close>

lemma nth_list_update': "xs[i := x] ! j = (if i = j \<and> j < length xs then x else xs ! j)"
  by (cases "i < length xs") (auto simp: nth_list_update list_update_beyond)

lemma unlink_local_relinks:
  assumes ops: "os_operands s = ops"
    and pv: "\<And>q. pv = Some q \<Longrightarrow> q < length ops \<and> local_of (ops ! q) \<noteq> None"
    and nx: "\<And>q. nx = Some q \<Longrightarrow> q < length ops \<and> local_of (ops ! q) \<noteq> None"
    and next_p: "\<And>q. q < length ops \<Longrightarrow> so_next (ops ! q) = Some p \<longleftrightarrow> pv = Some q"
    and prev_p: "\<And>q. q < length ops \<Longrightarrow> so_prev (ops ! q) = Some p \<longleftrightarrow> nx = Some q"
    and neq: "pv \<noteq> None \<Longrightarrow> pv \<noteq> nx"
    and i: "unat i < length (os_local_heads s)"
    and head: "\<And>j. j < length (os_local_heads s) \<Longrightarrow> os_local_heads s ! j = Some p \<longleftrightarrow> pv = None \<and> j = unat i"
  shows "unlink_local s i pv nx = Some (s\<lparr>os_operands := map (relink p pv nx) ops,
    os_local_heads := map (\<lambda>h. if h = Some p then nx else h) (os_local_heads s), os_len_locals := os_len_locals s - 1\<rparr>)"
proof -
  define ops1 where "ops1 = (case pv of None \<Rightarrow> ops | Some q \<Rightarrow> ops[q := set_next nx (ops ! q)])"
  define ops2 where "ops2 = (case nx of None \<Rightarrow> ops1 | Some q \<Rightarrow> ops1[q := set_prev pv (ops1 ! q)])"
  have heads: "map (\<lambda>h. if h = Some p then nx else h) (os_local_heads s)
      = (if pv = None then (os_local_heads s)[unat i := nx] else os_local_heads s)"
    using head by (intro nth_equalityI) (auto simp: nth_list_update)
  have "ops1 ! q = set_next (if so_next (ops ! q) = Some p then nx else so_next (ops ! q)) (ops ! q)" if "q < length ops" for q
    using next_p [OF that] that by (auto simp: ops1_def nth_list_update split: option.splits)
  then have "ops2 ! q = relink p pv nx (ops ! q)" if "q < length ops" for q
    using prev_p [OF that] that nx by (auto simp: ops2_def ops1_def nth_list_update relink_def split: option.splits)
  moreover have len: "length ops1 = length ops" by (simp add: ops1_def split: option.splits)
  ultimately have rel: "ops2 = map (relink p pv nx) ops"
    by (intro nth_equalityI) (auto simp: ops2_def split: option.splits)
  have "local_of (ops1 ! q) = local_of (ops ! q)" if "q < length ops" for q
    using that by (cases pv) (auto simp: ops1_def nth_list_update')
  then show ?thesis
    unfolding unlink_local_def rel [symmetric] heads using pv nx i len
    by (auto simp: ops update_next_local_Some update_prev_local_Some replace_first_def ops1_def ops2_def split: option.splits)
qed


lemma links_ok_fields:
  assumes "links_ok ops heads" "p < length ops" "local_of (ops ! p) = Some i"
  shows "unat i < length heads" "link_above (map local_of ops) i p (so_prev (ops ! p))"
    "link_below (map local_of ops) i p (so_next (ops ! p))"
  using assms by (simp_all add: links_ok_def)

text \<open>A position that is linked is a position of the same variable, and links back.\<close>

lemma links_ok_prev:
  assumes ok: "links_ok ops heads" and p: "p < length ops" and l: "local_of (ops ! p) = Some i" and q: "so_prev (ops ! p) = Some q"
  shows "p < q \<and> q < length ops \<and> local_of (ops ! q) = Some i \<and> so_next (ops ! q) = Some p"
proof -
  have a: "link_above (map local_of ops) i p (Some q)" using links_ok_fields(2) [OF ok p l] q by simp
  then have bounds: "p < q" "q < length ops" "local_of (ops ! q) = Some i" by (auto simp: link_above_def)
  have "link_below (map local_of ops) i q (Some p)" using link_above_below [OF a] p l by simp
  with bounds show ?thesis using link_below_unique links_ok_fields(3) [OF ok bounds(2,3)] by metis
qed

lemma links_ok_next:
  assumes ok: "links_ok ops heads" and p: "p < length ops" and l: "local_of (ops ! p) = Some i" and q: "so_next (ops ! p) = Some q"
  shows "q < p \<and> local_of (ops ! q) = Some i \<and> so_prev (ops ! q) = Some p"
proof -
  have a: "link_below (map local_of ops) i p (Some q)" using links_ok_fields(3) [OF ok p l] q by simp
  then have bounds: "q < p" "local_of (ops ! q) = Some i" using p by (auto simp: link_below_def)
  have "link_above (map local_of ops) i q (Some p)" using link_below_above [OF a] p l by simp
  with bounds p show ?thesis using link_above_unique links_ok_fields(2) [OF ok _ bounds(2)] by (metis less_trans)
qed

lemma links_ok_head:
  assumes ok: "links_ok ops heads" and i: "unat i < length heads" and h: "heads ! unat i = Some q"
  shows "q < length ops \<and> local_of (ops ! q) = Some i \<and> so_prev (ops ! q) = None"
proof -
  have a: "link_below (map local_of ops) i (length ops) (Some q)" using ok i h unfolding links_ok_def by metis
  then have bounds: "q < length ops" "local_of (ops ! q) = Some i" by (auto simp: link_below_def)
  have "link_above (map local_of ops) i q None" using a by (auto simp: link_below_def link_above_def)
  with bounds show ?thesis using link_above_unique links_ok_fields(2) [OF ok bounds] by metis
qed

lemma links_ok_is_head:
  assumes ok: "links_ok ops heads" and p: "p < length ops" and l: "local_of (ops ! p) = Some i" and pv: "so_prev (ops ! p) = None"
  shows "heads ! unat i = Some p"
proof -
  have "link_above (map local_of ops) i p None" using links_ok_fields(2) [OF ok p l] pv by simp
  then have "link_below (map local_of ops) i (length ops) (Some p)" using p l by (auto simp: link_below_def link_above_def)
  with ok links_ok_fields(1) [OF ok p l] show ?thesis using link_below_unique by (metis links_ok_def)
qed

lemma unlink_local_effect:
  assumes ok: "links_ok (os_operands s) (os_local_heads s)" and p: "p < length (os_operands s)"
    and l: "local_of (os_operands s ! p) = Some i" "so_prev (os_operands s ! p) = pv" "so_next (os_operands s ! p) = nx"
  shows "unlink_local s i pv nx = Some (s\<lparr>os_operands := map (relink p pv nx) (os_operands s),
    os_local_heads := map (\<lambda>h. if h = Some p then nx else h) (os_local_heads s), os_len_locals := os_len_locals s - 1\<rparr>)"
proof (rule unlink_local_relinks [OF refl])
  let ?ops = "os_operands s" and ?heads = "os_local_heads s"
  have to_next: "so_next (?ops ! q) = Some p \<Longrightarrow> q < length ?ops \<Longrightarrow> pv = Some q" for q
    using links_ok_next [OF ok, of q _ p] l(2) by (cases "local_of (?ops ! q)") simp_all
  have to_prev: "so_prev (?ops ! q) = Some p \<Longrightarrow> q < length ?ops \<Longrightarrow> nx = Some q" for q
    using links_ok_prev [OF ok, of q _ p] l(3) by (cases "local_of (?ops ! q)") simp_all
  show "q < length ?ops \<and> local_of (?ops ! q) \<noteq> None" if "pv = Some q" for q
    using links_ok_prev [OF ok p l(1), of q] l(2) that by simp
  show "q < length ?ops \<and> local_of (?ops ! q) \<noteq> None" if "nx = Some q" for q
    using links_ok_next [OF ok p l(1), of q] l(3) that p by simp
  show "so_next (?ops ! q) = Some p \<longleftrightarrow> pv = Some q" if "q < length ?ops" for q
    using links_ok_prev [OF ok p l(1), of q] l(2) to_next [OF _ that] by blast
  show "so_prev (?ops ! q) = Some p \<longleftrightarrow> nx = Some q" if "q < length ?ops" for q
    using links_ok_next [OF ok p l(1), of q] l(3) to_prev [OF _ that] by blast
  show "pv \<noteq> nx" if "pv \<noteq> None"
  proof
    assume "pv = nx"
    with that obtain q where "pv = Some q" "nx = Some q" by auto
    then show False using links_ok_prev [OF ok p l(1), of q] links_ok_next [OF ok p l(1), of q] l(2,3) by simp
  qed
  show "unat i < length ?heads" using links_ok_fields(1) [OF ok p l(1)] .
  show "?heads ! j = Some p \<longleftrightarrow> pv = None \<and> j = unat i" if "j < length ?heads" for j
  proof
    assume h: "?heads ! j = Some p"
    have j: "unat (of_nat j :: u32) = j"
      using ok that by (simp add: links_ok_def unat_of_nat take_bit_nat_eq_self)
    then have "local_of (?ops ! p) = Some (of_nat j) \<and> so_prev (?ops ! p) = None"
      using links_ok_head [OF ok, of "of_nat j" p] h that by simp
    then show "pv = None \<and> j = unat i" using l j by auto
  next
    assume "pv = None \<and> j = unat i"
    then show "?heads ! j = Some p" using links_ok_is_head [OF ok p l(1)] l(2) by simp
  qed
qed


lemma links_ok_remove:
  assumes ok: "links_ok ops heads" and p: "p < length ops" and l: "local_of (ops ! p) = Some i" "so_prev (ops ! p) = pv" "so_next (ops ! p) = nx"
    and x: "local_of x = None"
  shows "links_ok ((map (relink p pv nx) ops)[p := x]) (map (\<lambda>h. if h = Some p then nx else h) heads)"
proof -
  let ?ops = "(map (relink p pv nx) ops)[p := x]" and ?ls = "map local_of ops"
  note links = links_ok_fields [OF ok p l(1), unfolded l(2,3)]
  have shape: "map local_of ?ops = ?ls[p := None]" by (simp add: map_update x o_def)
  have index: "j = i" if "link_below ls j r (Some p)" "ls = ?ls" for ls j r
    using that p l(1) by (auto simp: link_below_def)
  have index': "j = i" if "link_above ls j r (Some p)" "ls = ?ls" for ls j r
    using that p l(1) by (auto simp: link_above_def)
  have below: "link_below (?ls[p := None]) j r (if y = Some p then nx else y)" if "link_below ?ls j r y" "r \<le> length ops" for j r y
    using link_below_remove [OF that(1), of p nx] that links(3) index by (cases "y = Some p") auto
  have above: "link_above (?ls[p := None]) j r (if y = Some p then pv else y)" if "link_above ?ls j r y" for j r y
    using link_above_remove [OF that, of p pv] that links(2) index' by (cases "y = Some p") auto
  have old: "local_of (ops ! q) = Some j \<and> ?ops ! q = relink p pv nx (ops ! q)" if "q < length ops" "local_of (?ops ! q) = Some j" for q j
    using that x by (cases "q = p") auto
  show ?thesis unfolding links_ok_def shape
  proof (intro conjI allI impI; (elim conjE)?)
    show "length (map (\<lambda>h. if h = Some p then nx else h) heads) < 2 ^ 32" using ok by (simp add: links_ok_def)
  next
    fix j :: local_idx
    assume "unat j < length (map (\<lambda>h. if h = Some p then nx else h) heads)"
    then show "link_below (?ls[p := None]) j (length ?ops) (map (\<lambda>h. if h = Some p then nx else h) heads ! unat j)"
      using below [of j "length ops"] ok by (simp add: links_ok_def)
  next
    fix q j assume q: "q < length ?ops" "local_of (?ops ! q) = Some j"
    with old have o: "q < length ops" "local_of (ops ! q) = Some j" "?ops ! q = relink p pv nx (ops ! q)" by auto
    note f = links_ok_fields [OF ok o(1,2)]
    show "unat j < length (map (\<lambda>h. if h = Some p then nx else h) heads)" using f(1) by simp
    show "link_above (?ls[p := None]) j q (so_prev (?ops ! q))" using above [OF f(2)] by (simp add: o(3) relink_links(1) [OF o(2)])
    show "link_below (?ls[p := None]) j q (so_next (?ops ! q))"
      using below [OF f(3)] o(1) by (simp add: o(3) relink_links(2) [OF o(2)])
  qed
qed

lemma links_ok_snoc:
  assumes x: "local_of x = None"
  shows "links_ok (ops @ [x]) heads \<longleftrightarrow> links_ok ops heads"
proof -
  let ?ls = "map local_of ops"
  have below: "link_below (?ls @ [None]) i (Suc (length ops)) r \<longleftrightarrow> link_below ?ls i (length ops) r" for i r
    by (auto simp: link_below_def nth_append less_Suc_eq split: option.splits)
  have above: "link_above (?ls @ [None]) i p r \<longleftrightarrow> link_above ?ls i p r" for i p r
    by (auto simp: link_above_def nth_append less_Suc_eq split: option.splits)
  have "link_below (?ls @ [None]) i p r \<longleftrightarrow> link_below ?ls i p r" if "p < length ops" for i p r
    using that by (simp add: link_below_append)
  then show ?thesis
    unfolding links_ok_def by (auto simp: x below above nth_append less_Suc_eq)
qed

lemma links_ok_nonlocal:
  assumes "local_of (ops ! p) = None" "local_of x = None"
  shows "links_ok (ops[p := x]) heads \<longleftrightarrow> links_ok ops heads"
proof (cases "p < length ops")
  case True
  have shape: "map local_of (ops[p := x]) = map local_of ops"
    using assms True by (simp add: map_update list_update_same_conv)
  have "local_of (ops[p := x] ! q) = Some i \<longleftrightarrow> local_of (ops ! q) = Some i"
    "local_of (ops ! q) = Some i \<Longrightarrow> ops[p := x] ! q = ops ! q" for q i
    using assms by (auto simp: nth_list_update')
  then show ?thesis unfolding links_ok_def shape by (simp cong: conj_cong)
qed (simp add: list_update_beyond)

lemma links_ok_pop:
  assumes "links_ok (ops @ [x]) heads" "local_of x = Some i"
  shows "links_ok (map (relink (length ops) (so_prev x) (so_next x)) ops) (map (\<lambda>h. if h = Some (length ops) then so_next x else h) heads)"
  using links_ok_remove [OF assms(1), of "length ops" i "so_prev x" "so_next x" "StackTemp undefined I32 False"] assms
  by (simp add: links_ok_snoc list_update_append)

lemma links_ok_push:
  assumes ok: "links_ok ops heads" and i: "unat i < length heads"
  shows "links_ok ((case heads ! unat i of None \<Rightarrow> ops | Some q \<Rightarrow> ops[q := set_prev (Some (length ops)) (ops ! q)])
      @ [StackLocal slots ty i None (heads ! unat i)]) (heads[unat i := Some (length ops)])"
proof -
  define ops' where "ops' = (case heads ! unat i of None \<Rightarrow> ops | Some q \<Rightarrow> ops[q := set_prev (Some (length ops)) (ops ! q)])"
  let ?x = "StackLocal slots ty i None (heads ! unat i)" and ?ls = "map local_of ops"
  have len: "length ops' = length ops" by (simp add: ops'_def split: option.splits)
  have at: "ops' ! q = (if heads ! unat i = Some q then set_prev (Some (length ops)) (ops ! q) else ops ! q)" if "q < length ops" for q
    using that by (cases "heads ! unat i") (auto simp: ops'_def nth_list_update')
  have shape: "map local_of ops' = ?ls" using at len by (intro nth_equalityI) auto
  have head: "link_below ?ls i (length ops) (heads ! unat i)" using ok i by (simp add: links_ok_def)
  have ls: "map local_of (ops' @ [?x]) = ?ls @ [Some i]" by (simp add: shape)
  have prev: "link_above (?ls @ [Some i]) j q (so_prev (ops' ! q))" if q: "q < length ops" "local_of (ops ! q) = Some j" for q j
  proof -
    have "heads ! unat i = Some q \<longleftrightarrow> so_prev (ops ! q) = None \<and> j = i"
      using links_ok_head [OF ok i, of q] links_ok_is_head [OF ok q] q by auto
    then have "so_prev (ops' ! q) = (if so_prev (ops ! q) = None \<and> j = i then Some (length ?ls) else so_prev (ops ! q))"
      using at [OF q(1)] q(2) by auto
    moreover have "q < length ?ls" using q(1) by simp
    note link_above_snoc [OF this links_ok_fields(2) [OF ok q], of "Some i"]
    ultimately show ?thesis by (cases "j = i") simp_all
  qed
  show ?thesis unfolding ops'_def [symmetric] links_ok_def ls
  proof (intro conjI allI impI; (elim conjE)?)
    show "length (heads[unat i := Some (length ops)]) < 2 ^ 32" using ok by (simp add: links_ok_def)
  next
    fix j :: local_idx assume j: "unat j < length (heads[unat i := Some (length ops)])"
    then have "link_below ?ls j (length ?ls) (heads ! unat j)" using ok by (simp add: links_ok_def)
    from link_below_snoc [OF this, of "Some i"]
    show "link_below (?ls @ [Some i]) j (length (ops' @ [?x])) (heads[unat i := Some (length ops)] ! unat j)"
      using j by (auto simp: len nth_list_update word_unat_eq_iff split: if_splits)
  next
    fix q j assume q: "q < length (ops' @ [?x])" "local_of ((ops' @ [?x]) ! q) = Some j"
    then consider "q = length ops" "j = i" | "q < length ops" "local_of (ops ! q) = Some j" "(ops' @ [?x]) ! q = ops' ! q"
      using at by (auto simp: len nth_append less_Suc_eq split: if_splits)
    then have "unat j < length heads \<and> link_above (?ls @ [Some i]) j q (so_prev ((ops' @ [?x]) ! q))
        \<and> link_below (?ls @ [Some i]) j q (so_next ((ops' @ [?x]) ! q))"
    proof cases
      case 1
      then show ?thesis using head i len by (auto simp: link_above_def nth_append link_below_append)
    next
      case 2
      have "so_next (ops' ! q) = so_next (ops ! q)" using at [OF 2(1)] by simp
      then show ?thesis
        using links_ok_fields(1,3) [OF ok 2(1,2)] prev [OF 2(1,2)] 2 by (simp add: link_below_append)
    qed
    then show "unat j < length (heads[unat i := Some (length ops)])" "link_above (?ls @ [Some i]) j q (so_prev ((ops' @ [?x]) ! q))"
      "link_below (?ls @ [Some i]) j q (so_next ((ops' @ [?x]) ! q))" by simp_all
  qed
qed

subsection \<open>Registers\<close>

definition so_reg :: "'s stack_operand \<Rightarrow> val_type option" where
  "so_reg operand = (case operand of StackTemp _ ty True \<Rightarrow> Some ty | _ \<Rightarrow> None)"

lemma so_reg_simps [simp]:
  "so_reg (StackLocal slots ty i pv nx) = None" "so_reg (StackTemp slots ty b) = (if b then Some ty else None)"
  "so_reg (StackImmediate slots ty v) = None" "so_reg (relink p pv nx operand) = so_reg operand"
  "so_reg (set_prev x operand) = so_reg operand" "so_reg (set_next x operand) = so_reg operand"
  by (cases operand; simp add: so_reg_def relink_def split: bool.splits)+

lemma so_reg_local: "local_of operand \<noteq> None \<Longrightarrow> so_reg operand = None"
  by (cases operand) simp_all

definition regs_ok :: "val_type option list \<Rightarrow> register_map \<Rightarrow> bool" where
  "regs_ok rs regs \<longleftrightarrow>
     (\<forall>p ty. p < length rs \<and> rs ! p = Some ty \<longrightarrow> ty \<noteq> V128 \<and> regs_get regs ty = Some (LinkTemp p))
     \<and> (\<forall>p ty. regs_get regs ty = Some (LinkTemp p) \<longrightarrow>
          p < length rs \<and> (\<exists>ty'. rs ! p = Some ty' \<and> reg_kind_new ty' = reg_kind_new ty))"

lemma reg_kind_None [simp]: "reg_kind_new ty = None \<longleftrightarrow> ty = V128"
  by (cases ty) simp_all

lemma regs_get_V128 [simp]: "regs_get m V128 = None" by simp

lemma regs_get_kind: "reg_kind_new ty = reg_kind_new ty' \<Longrightarrow> regs_get m ty = regs_get m ty'"
  by (cases ty; cases ty') simp_all

lemma regs_put_None [simp]: "regs_put m ty link = None \<longleftrightarrow> ty = V128"
  by (cases ty) simp_all

lemma regs_get_put:
  "regs_put m ty link = Some m' \<Longrightarrow> regs_get m' ty' = (if reg_kind_new ty' = reg_kind_new ty then link else regs_get m ty')"
  by (cases ty; cases ty') auto

lemma regs_okI:
  assumes "\<And>p ty. p < length rs \<Longrightarrow> rs ! p = Some ty \<Longrightarrow> ty \<noteq> V128 \<and> regs_get regs ty = Some (LinkTemp p)"
    and "\<And>p ty. regs_get regs ty = Some (LinkTemp p) \<Longrightarrow> p < length rs \<and> (\<exists>ty'. rs ! p = Some ty' \<and> reg_kind_new ty' = reg_kind_new ty)"
  shows "regs_ok rs regs"
  unfolding regs_ok_def using assms by blast

lemma regs_okD:
  assumes "regs_ok rs regs" "p < length rs" "rs ! p = Some ty"
  shows "ty \<noteq> V128" "regs_get regs ty = Some (LinkTemp p)"
  using assms unfolding regs_ok_def by blast+

lemma regs_okE:
  assumes "regs_ok rs regs" "regs_get regs ty = Some (LinkTemp p)"
  obtains ty' where "p < length rs" "rs ! p = Some ty'" "reg_kind_new ty' = reg_kind_new ty"
  using assms unfolding regs_ok_def by blast

lemma regs_ok_snoc [simp]: "regs_ok (rs @ [None]) regs \<longleftrightarrow> regs_ok rs regs"
proof
  assume ok: "regs_ok (rs @ [None]) regs"
  show "regs_ok rs regs"
  proof (rule regs_okI)
    show "ty \<noteq> V128 \<and> regs_get regs ty = Some (LinkTemp p)" if "p < length rs" "rs ! p = Some ty" for p ty
      using regs_okD [OF ok, of p ty] that by (simp add: nth_append)
    show "p < length rs \<and> (\<exists>ty'. rs ! p = Some ty' \<and> reg_kind_new ty' = reg_kind_new ty)" if "regs_get regs ty = Some (LinkTemp p)" for p ty
      by (rule regs_okE [OF ok that]) (auto simp: nth_append less_Suc_eq split: if_splits)
  qed
next
  assume ok: "regs_ok rs regs"
  show "regs_ok (rs @ [None]) regs"
  proof (rule regs_okI)
    show "ty \<noteq> V128 \<and> regs_get regs ty = Some (LinkTemp p)" if "p < length (rs @ [None])" "(rs @ [None]) ! p = Some ty" for p ty
      using regs_okD [OF ok, of p ty] that by (simp add: nth_append split: if_splits)
    show "p < length (rs @ [None]) \<and> (\<exists>ty'. (rs @ [None]) ! p = Some ty' \<and> reg_kind_new ty' = reg_kind_new ty)"
      if "regs_get regs ty = Some (LinkTemp p)" for p ty
      by (rule regs_okE [OF ok that]) (simp add: nth_append)
  qed
qed

lemma regs_ok_alloc:
  assumes ok: "regs_ok rs regs" and put: "regs_put regs ty (Some (LinkTemp (length rs))) = Some regs'"
    and free: "\<And>p. regs_get regs ty \<noteq> Some (LinkTemp p)"
  shows "regs_ok (rs @ [Some ty]) regs'"
proof (rule regs_okI)
  fix p ty' assume p: "p < length (rs @ [Some ty])" "(rs @ [Some ty]) ! p = Some ty'"
  show "ty' \<noteq> V128 \<and> regs_get regs' ty' = Some (LinkTemp p)"
  proof (cases "p < length rs")
    case True
    then have "rs ! p = Some ty'" using p by (simp add: nth_append)
    note old = regs_okD [OF ok True this]
    have "reg_kind_new ty' \<noteq> reg_kind_new ty" using old(2) free [of p] regs_get_kind [of ty' ty regs] by metis
    then show ?thesis using old regs_get_put [OF put, of ty'] by simp
  next
    case False
    then have "p = length rs" "ty' = ty" using p by (auto simp: nth_append)
    moreover have "ty \<noteq> V128" using put by auto
    ultimately show ?thesis using regs_get_put [OF put, of ty] by simp
  qed
next
  fix p ty' assume get: "regs_get regs' ty' = Some (LinkTemp p)"
  show "p < length (rs @ [Some ty]) \<and> (\<exists>ty2. (rs @ [Some ty]) ! p = Some ty2 \<and> reg_kind_new ty2 = reg_kind_new ty')"
  proof (cases "reg_kind_new ty' = reg_kind_new ty")
    case True
    then show ?thesis using get regs_get_put [OF put, of ty'] by auto
  next
    case False
    then have "regs_get regs ty' = Some (LinkTemp p)" using get regs_get_put [OF put, of ty'] by simp
    then show ?thesis by (rule regs_okE [OF ok]) (simp add: nth_append)
  qed
qed

lemma regs_ok_free:
  assumes ok: "regs_ok rs regs" and p: "p < length rs" "rs ! p = Some ty" and put: "regs_put regs ty None = Some regs'"
  shows "regs_ok (rs[p := None]) regs'"
proof (rule regs_okI)
  fix q ty' assume q: "q < length (rs[p := None])" "rs[p := None] ! q = Some ty'"
  then have q': "q < length rs" "q \<noteq> p" "rs ! q = Some ty'" by (simp_all add: update_None_iff)
  note old = regs_okD [OF ok q'(1,3)]
  have "reg_kind_new ty' \<noteq> reg_kind_new ty"
    using old(2) regs_okD(2) [OF ok p] q'(2) regs_get_kind [of ty' ty regs] by auto
  then show "ty' \<noteq> V128 \<and> regs_get regs' ty' = Some (LinkTemp q)" using old regs_get_put [OF put, of ty'] by simp
next
  fix q ty' assume get: "regs_get regs' ty' = Some (LinkTemp q)"
  then have old: "regs_get regs ty' = Some (LinkTemp q)" and kind: "reg_kind_new ty' \<noteq> reg_kind_new ty"
    using regs_get_put [OF put, of ty'] by (auto split: if_splits)
  from regs_okE [OF ok old] obtain ty2 where "q < length rs" "rs ! q = Some ty2" "reg_kind_new ty2 = reg_kind_new ty'" .
  moreover from this have "q \<noteq> p" using p(2) kind by auto
  ultimately show "q < length (rs[p := None]) \<and> (\<exists>ty2. rs[p := None] ! q = Some ty2 \<and> reg_kind_new ty2 = reg_kind_new ty')" by simp
qed

definition free_reg :: "register_map \<Rightarrow> 's stack_operand \<Rightarrow> register_map" where
  "free_reg regs operand = (case so_reg operand of None \<Rightarrow> regs | Some ty \<Rightarrow> the (regs_put regs ty None))"

lemma try_unlink_reg_effect:
  assumes "so_reg operand \<noteq> Some V128"
  shows "\<exists>pos. try_unlink_reg s operand = Some (pos, s\<lparr>os_regs := free_reg (os_regs s) operand\<rparr>)"
proof (cases "so_reg operand")
  case None
  then show ?thesis by (cases operand) (auto simp: try_unlink_reg_def free_reg_def split: bool.splits if_splits)
next
  case (Some ty)
  then obtain slots where operand: "operand = StackTemp slots ty True" by (cases operand) (auto split: if_splits)
  obtain regs' where "regs_put (os_regs s) ty None = Some regs'" using assms Some by (cases "regs_put (os_regs s) ty None") auto
  then show ?thesis using operand by (simp add: try_unlink_reg_def free_reg_def regs_dealloc_def)
qed

lemma regs_ok_free_reg:
  assumes "regs_ok rs regs" "p < length rs" "rs ! p = so_reg operand"
  shows "regs_ok (rs[p := None]) (free_reg regs operand)"
proof (cases "so_reg operand")
  case None
  then show ?thesis using assms list_update_id [of rs p] by (simp add: free_reg_def)
next
  case (Some ty)
  then have "ty \<noteq> V128" using regs_okD(1) [OF assms(1,2)] assms(3) by simp
  then obtain regs' where "regs_put regs ty None = Some regs'" using regs_put_None by (cases "regs_put regs ty None") auto
  then show ?thesis using regs_ok_free [OF assms(1,2)] assms(3) Some by (simp add: free_reg_def)
qed

lemma regs_ok_not_V128: "regs_ok rs regs \<Longrightarrow> p < length rs \<Longrightarrow> rs ! p \<noteq> Some V128"
  using regs_okD(1) by blast

subsection \<open>The invariant\<close>

definition placed_ok :: "'w::len word slot_repr \<Rightarrow> nat \<Rightarrow> 'w word stack_operand list \<Rightarrow> bool" where
  "placed_ok R start ops \<longleftrightarrow>
     map so_temp_slots ops = map (\<lambda>p. slot_from_u16 R (of_nat (start + cells_of_tys (map so_ty (take p ops))))) [0..<length ops]"

definition opds_wf :: "'w::len word slot_repr \<Rightarrow> 'w word operand_stack \<Rightarrow> bool" where
  "opds_wf R s \<longleftrightarrow> links_ok (os_operands s) (os_local_heads s)
     \<and> unat (os_len_locals s) = count_locals (os_operands s)
     \<and> length (os_local_heads s) \<le> unat (os_local_slots s)
     \<and> unat (os_temp_offset s) = unat (os_local_slots s) + cells_of_tys (map so_ty (os_operands s))
     \<and> os_temp_offset s \<le> os_max_offset s
     \<and> placed_ok R (unat (os_local_slots s)) (os_operands s)
     \<and> regs_ok (map so_reg (os_operands s)) (os_regs s)"

lemma placed_ok_cong:
  "map so_temp_slots ops = map so_temp_slots ops' \<Longrightarrow> map so_ty ops = map so_ty ops' \<Longrightarrow> placed_ok R start ops \<longleftrightarrow> placed_ok R start ops'"
  using map_eq_imp_length_eq [of so_ty ops so_ty ops'] by (simp add: placed_ok_def take_map [symmetric])

lemma placed_ok_snoc:
  "placed_ok R start (ops @ [x]) \<longleftrightarrow> placed_ok R start ops \<and> so_temp_slots x = slot_from_u16 R (of_nat (start + cells_of_tys (map so_ty ops)))"
  by (auto simp: placed_ok_def cong: map_cong)


text \<open>The stack without its links.\<close>

definition unlinked :: "'s stack_operand \<Rightarrow> 's stack_operand" where
  "unlinked operand = set_prev None (set_next None operand)"

definition opds_view :: "'s operand_stack \<Rightarrow> 's stack_operand list" where
  "opds_view s = map unlinked (os_operands s)"

lemma unlinked_simps [simp]:
  "unlinked (StackLocal slots ty i pv nx) = StackLocal slots ty i None None" "unlinked (StackTemp slots ty b) = StackTemp slots ty b"
  "unlinked (StackImmediate slots ty v) = StackImmediate slots ty v" "unlinked (relink p pv nx operand) = unlinked operand"
  "unlinked (set_prev x operand) = unlinked operand" "local_of (unlinked operand) = local_of operand"
  "so_ty (unlinked operand) = so_ty operand" "so_temp_slots (unlinked operand) = so_temp_slots operand" "so_reg (unlinked operand) = so_reg operand"
  by (cases operand; simp add: unlinked_def relink_def)+

lemma unlinked_projections:
  "map so_ty (map unlinked ops) = map so_ty ops" "map so_temp_slots (map unlinked ops) = map so_temp_slots ops"
  "map so_reg (map unlinked ops) = map so_reg ops" "map local_of (map unlinked ops) = map local_of ops"
  by (simp_all add: o_def)

lemma count_locals_unlinked: "count_locals (map unlinked ops) = count_locals ops"
  by (simp add: count_locals_def filter_map o_def)

text \<open>What the invariant says beside the links depends on the view only.\<close>

lemma opds_wf_view:
  "opds_wf R s \<longleftrightarrow> links_ok (os_operands s) (os_local_heads s)
     \<and> unat (os_len_locals s) = count_locals (opds_view s)
     \<and> length (os_local_heads s) \<le> unat (os_local_slots s)
     \<and> unat (os_temp_offset s) = unat (os_local_slots s) + cells_of_tys (map so_ty (opds_view s))
     \<and> os_temp_offset s \<le> os_max_offset s
     \<and> placed_ok R (unat (os_local_slots s)) (opds_view s)
     \<and> regs_ok (map so_reg (opds_view s)) (os_regs s)"
  using placed_ok_cong [of "os_operands s" "opds_view s"]
  by (simp add: opds_wf_def opds_view_def unlinked_projections count_locals_unlinked del: map_map)

definition detach :: "stack_pos \<Rightarrow> 's operand_stack \<Rightarrow> 's operand_stack" where
  "detach p s =
     (let operand = os_operands s ! p in
      if local_of operand = None then s
      else s\<lparr>os_operands := map (relink p (so_prev operand) (so_next operand)) (os_operands s),
             os_local_heads := map (\<lambda>h. if h = Some p then so_next operand else h) (os_local_heads s),
             os_len_locals := os_len_locals s - 1\<rparr>)"

lemma try_unlink_local_effect:
  assumes "links_ok (os_operands s) (os_local_heads s)" "p < length (os_operands s)"
  shows "try_unlink_local s (os_operands s ! p) = Some (detach p s)"
  using unlink_local_effect [OF assms] by (cases "os_operands s ! p") (simp_all add: try_unlink_local_def detach_def)

definition to_temp :: "stack_pos \<Rightarrow> 's operand_stack \<Rightarrow> 's operand_stack" where
  "to_temp p s =
     (let operand = os_operands s ! p; s' = detach p s in
      s'\<lparr>os_regs := free_reg (os_regs s') operand,
         os_operands := (os_operands s')[p := StackTemp (so_temp_slots operand) (so_ty operand) False]\<rparr>)"

lemma detach_simps [simp]:
  "length (os_operands (detach p s)) = length (os_operands s)" "os_regs (detach p s) = os_regs s"
  "os_local_slots (detach p s) = os_local_slots s" "os_temp_offset (detach p s) = os_temp_offset s"
  "os_max_offset (detach p s) = os_max_offset s" "length (os_local_heads (detach p s)) = length (os_local_heads s)"
  by (simp_all add: detach_def Let_def)

lemma detach_view: "opds_view (detach p s) = opds_view s"
  by (simp add: detach_def Let_def opds_view_def o_def)

lemma operand_to_temp_at_effect:
  assumes wf: "opds_wf R s" and p: "p < length (os_operands s)"
  shows "operand_to_temp_at s p = Some (os_operands s ! p, to_temp p s)"
proof -
  have "so_reg (os_operands s ! p) \<noteq> Some V128"
    using regs_ok_not_V128 [of "map so_reg (os_operands s)" "os_regs s" p] wf p by (simp add: opds_wf_def)
  from try_unlink_reg_effect [OF this, of "detach p s"]
  show ?thesis
    using try_unlink_local_effect [of s p] wf p
    by (auto simp: operand_to_temp_at_def opds_wf_def get_opt_def to_temp_def Let_def)
qed

lemma count_locals_pos: "p < length ops \<Longrightarrow> local_of (ops ! p) \<noteq> None \<Longrightarrow> 0 < count_locals ops"
  by (auto simp: count_locals_def filter_empty_conv dest: nth_mem)

lemma count_locals_simps [simp]:
  "count_locals [] = 0" "count_locals (x # ops) = (if local_of x = None then 0 else 1) + count_locals ops"
  "count_locals (ops @ ops') = count_locals ops + count_locals ops'"
  by (simp_all add: count_locals_def)

lemma count_locals_update:
  "p < length ops \<Longrightarrow> local_of x = None
    \<Longrightarrow> count_locals (ops[p := x]) = count_locals ops - (if local_of (ops ! p) = None then 0 else 1)"
proof (induction ops arbitrary: p)
  case (Cons y ops)
  then show ?case using count_locals_pos [of "p - 1" ops] by (cases p) (auto split: if_splits)
qed simp

lemma to_temp_view: "opds_view (to_temp p s) = (opds_view s)[p := StackTemp (so_temp_slots (os_operands s ! p)) (so_ty (os_operands s ! p)) False]"
  using detach_view [of p s] by (simp add: to_temp_def Let_def opds_view_def map_update)

lemma to_temp_simps [simp]:
  "length (os_operands (to_temp p s)) = length (os_operands s)" "os_regs (to_temp p s) = free_reg (os_regs s) (os_operands s ! p)"
  "os_local_slots (to_temp p s) = os_local_slots s" "os_temp_offset (to_temp p s) = os_temp_offset s"
  "os_max_offset (to_temp p s) = os_max_offset s" "length (os_local_heads (to_temp p s)) = length (os_local_heads s)"
  "os_len_locals (to_temp p s) = os_len_locals s - (if local_of (os_operands s ! p) = None then 0 else 1)"
  by (simp_all add: to_temp_def Let_def) (simp add: detach_def Let_def)

lemma unat_minus_1: "0 < unat (x :: 'a::len word) \<Longrightarrow> unat (x - 1) = unat x - 1"
  by (simp add: unat_sub_if' Suc_le_eq)

lemma to_temp_wf:
  assumes wf: "opds_wf R s" and p: "p < length (os_operands s)"
  shows "opds_wf R (to_temp p s)"
proof -
  let ?x = "os_operands s ! p"
  let ?t = "StackTemp (so_temp_slots ?x) (so_ty ?x) False"
  have pv: "p < length (opds_view s)" and at: "local_of (opds_view s ! p) = local_of ?x" "so_ty (opds_view s ! p) = so_ty ?x"
    "so_temp_slots (opds_view s ! p) = so_temp_slots ?x" "so_reg (opds_view s ! p) = so_reg ?x"
    using p by (simp_all add: opds_view_def)
  have same: "map so_ty ((opds_view s)[p := ?t]) = map so_ty (opds_view s)"
    "map so_temp_slots ((opds_view s)[p := ?t]) = map so_temp_slots (opds_view s)"
    using pv at by (simp_all add: map_update list_update_same_conv)
  have links: "links_ok (os_operands (to_temp p s)) (os_local_heads (to_temp p s))"
  proof (cases "local_of ?x")
    case None
    then show ?thesis using wf links_ok_nonlocal [of "os_operands s" p ?t] by (simp add: to_temp_def detach_def Let_def opds_wf_def)
  next
    case (Some i)
    then show ?thesis using wf links_ok_remove [of "os_operands s" _ p i _ _ ?t] p by (simp add: to_temp_def detach_def Let_def opds_wf_def)
  qed
  have "unat (os_len_locals (to_temp p s)) = count_locals (opds_view (to_temp p s))"
    using wf count_locals_update [OF pv, of ?t] count_locals_pos [OF pv] at unat_minus_1 [of "os_len_locals s"]
    by (auto simp: to_temp_view opds_wf_view)
  moreover have "regs_ok (map so_reg (opds_view (to_temp p s))) (os_regs (to_temp p s))"
    using wf regs_ok_free_reg [of "map so_reg (opds_view s)" "os_regs s" p ?x] pv at
    by (simp add: to_temp_view opds_wf_view map_update)
  moreover have "placed_ok R (unat (os_local_slots s)) (opds_view (to_temp p s))"
    using wf placed_ok_cong [OF same(2,1)] by (simp add: to_temp_view opds_wf_view)
  ultimately show ?thesis
    unfolding opds_wf_view using wf links same(1) by (simp add: to_temp_view opds_wf_view)
qed


subsection \<open>Pushing operands\<close>

definition has_room :: "'s operand_stack \<Rightarrow> val_type \<Rightarrow> bool" where
  "has_room s ty \<longleftrightarrow> unat (os_temp_offset s) + unat (required_cells_for_ty ty) < 2 ^ 16"

definition advance :: "val_type \<Rightarrow> 's operand_stack \<Rightarrow> 's operand_stack" where
  "advance ty s = (let v = os_temp_offset s + required_cells_for_ty ty in s\<lparr>os_temp_offset := v, os_max_offset := max (os_max_offset s) v\<rparr>)"

lemma push_temp_offset_effect:
  "push_temp_offset R s (required_cells_for_ty ty) =
     (if has_room s ty then (Ok (slot_from_u16 R (os_temp_offset s)), advance ty s) else (Err AllocatedTooManySlots, s))"
  by (simp add: push_temp_offset_def checked_add_def has_room_def advance_def Let_def)

lemma advance_simps [simp]:
  "os_operands (advance ty s) = os_operands s" "os_local_heads (advance ty s) = os_local_heads s" "os_len_locals (advance ty s) = os_len_locals s"
  "os_local_slots (advance ty s) = os_local_slots s" "os_regs (advance ty s) = os_regs s"
  "os_temp_offset (advance ty s) = os_temp_offset s + required_cells_for_ty ty"
  "os_max_offset (advance ty s) = max (os_max_offset s) (os_temp_offset s + required_cells_for_ty ty)"
  by (simp_all add: advance_def Let_def)

lemma opds_wf_small:
  assumes "opds_wf R s" shows "count_locals (opds_view s) < 2 ^ 16" "length (os_operands s) < 2 ^ 16"
proof -
  have "count_locals (opds_view s) \<le> length (opds_view s)" by (simp add: count_locals_def)
  moreover have "length (opds_view s) \<le> cells_of_tys (map so_ty (opds_view s))" using length_le_cells [of "map so_ty (opds_view s)"] by simp
  moreover have "cells_of_tys (map so_ty (opds_view s)) \<le> unat (os_temp_offset s)" using assms by (simp add: opds_wf_view)
  moreover have "unat (os_temp_offset s) < 2 ^ LENGTH(16)" by (rule unsigned_less)
  ultimately show "count_locals (opds_view s) < 2 ^ 16" "length (os_operands s) < 2 ^ 16" by (simp_all add: opds_view_def)
qed

lemma opds_wf_append:
  assumes wf: "opds_wf R s" and room: "has_room s (so_ty x)"
    and view: "opds_view s' = opds_view s @ [x]" and x: "so_temp_slots x = slot_from_u16 R (os_temp_offset s)"
    and links: "links_ok (os_operands s') (os_local_heads s')" and heads: "length (os_local_heads s') = length (os_local_heads s)"
    and len: "os_len_locals s' = os_len_locals s + (if local_of x = None then 0 else 1)"
    and regs: "regs_ok (map so_reg (opds_view s) @ [so_reg x]) (os_regs s')"
    and offsets: "os_local_slots s' = os_local_slots s" "os_temp_offset s' = os_temp_offset (advance (so_ty x) s)"
      "os_max_offset s' = os_max_offset (advance (so_ty x) s)"
  shows "opds_wf R s'"
proof -
  have off: "unat (os_temp_offset s') = unat (os_temp_offset s) + unat (required_cells_for_ty (so_ty x))"
    using room by (simp add: offsets has_room_def unat_word_ariths)
  have "unat (os_len_locals s') = count_locals (opds_view s')"
    using wf opds_wf_small(1) [OF wf] by (auto simp: len view opds_wf_view unat_word_ariths)
  moreover have "so_temp_slots x = slot_from_u16 R (of_nat (unat (os_local_slots s) + cells_of_tys (map so_ty (opds_view s))))"
    using wf by (simp add: x opds_wf_view flip: of_nat_add) (metis of_nat_unat ucast_id)
  ultimately show ?thesis
    unfolding opds_wf_view using wf links heads regs off
    by (auto simp: opds_wf_view view offsets(1,3) placed_ok_snoc) (simp add: offsets)
qed

lemma push_local_effect:
  assumes wf: "opds_wf R s" and i: "unat i < length (os_local_heads s)"
  shows "if has_room s ty
    then \<exists>s'. push_local R s i ty = (Ok \<lparr>lo_temp_slots = slot_from_u16 R (os_temp_offset s), lo_ty = ty, lo_local_index = i,
           lo_in_reg = is_local_in_reg (os_regs s) ty i\<rparr>, s')
         \<and> opds_wf R s' \<and> opds_view s' = opds_view s @ [StackLocal (slot_from_u16 R (os_temp_offset s)) ty i None None]
         \<and> length (os_local_heads s') = length (os_local_heads s) \<and> os_regs s' = os_regs s
    else fst (push_local R s i ty) = Err AllocatedTooManySlots"
proof -
  let ?h = "os_local_heads s ! unat i" and ?n = "length (os_operands s)"
  let ?ops = "case ?h of None \<Rightarrow> os_operands s | Some q \<Rightarrow> (os_operands s)[q := set_prev (Some ?n) (os_operands s ! q)]"
  let ?s = "s\<lparr>os_local_heads := (os_local_heads s)[unat i := Some ?n], os_operands := ?ops\<rparr>"
  let ?x = "StackLocal (slot_from_u16 R (os_temp_offset s)) ty i None ?h"
  let ?s' = "(advance ty ?s)\<lparr>os_operands := ?ops @ [?x], os_len_locals := os_len_locals s + 1\<rparr>"
  have ok: "links_ok (os_operands s) (os_local_heads s)" using wf by (simp add: opds_wf_def)
  have mark: "(case ?h of Some nx \<Rightarrow> update_prev_local (s\<lparr>os_local_heads := (os_local_heads s)[unat i := Some ?n]\<rparr>) nx (Some ?n)
      | None \<Rightarrow> Some (s\<lparr>os_local_heads := (os_local_heads s)[unat i := Some ?n]\<rparr>)) = Some ?s"
    using links_ok_head [OF ok i] by (cases ?h) (auto simp: update_prev_local_Some)
  have run: "push_local R s i ty = (if has_room s ty then (Ok \<lparr>lo_temp_slots = slot_from_u16 R (os_temp_offset s), lo_ty = ty, lo_local_index = i,
           lo_in_reg = is_local_in_reg (os_regs s) ty i\<rparr>, ?s') else (Err AllocatedTooManySlots, ?s))"
    unfolding push_local_def Let_def replace_first_def using i mark
    by (simp add: push_temp_offset_effect) (simp add: has_room_def)
  have view: "opds_view ?s' = opds_view s @ [StackLocal (slot_from_u16 R (os_temp_offset s)) ty i None None]"
    by (cases ?h) (auto simp: opds_view_def map_update list_update_same_conv intro!: nth_equalityI simp: nth_list_update')
  have "opds_wf R ?s'" if "has_room s ty"
    using wf that links_ok_push [OF ok i, of "slot_from_u16 R (os_temp_offset s)" ty]
    by (intro opds_wf_append [OF wf _ view]) (auto simp: advance_def Let_def opds_wf_view)
  then show ?thesis using run view by simp
qed


lemma push_temp_effect:
  assumes wf: "opds_wf R s" and alloc: "alloc = AllocReg \<Longrightarrow> ty \<noteq> V128 \<and> (\<forall>p. regs_get (os_regs s) ty \<noteq> Some (LinkTemp p))"
  shows "if has_room s ty
    then \<exists>s'. push_temp R s ty alloc = (Ok \<lparr>tm_temp_slots = slot_from_u16 R (os_temp_offset s), tm_ty = ty,
           tm_stack_pos = length (os_operands s), tm_in_reg = (alloc = AllocReg)\<rparr>, s')
         \<and> opds_wf R s' \<and> opds_view s' = opds_view s @ [StackTemp (slot_from_u16 R (os_temp_offset s)) ty (alloc = AllocReg)]
         \<and> os_local_heads s' = os_local_heads s
    else fst (push_temp R s ty alloc) = Err AllocatedTooManySlots"
proof -
  let ?x = "StackTemp (slot_from_u16 R (os_temp_offset s)) ty (alloc = AllocReg)" and ?n = "length (os_operands s)"
  obtain regs where regs: "(if alloc = AllocReg then regs_put (os_regs s) ty (Some (LinkTemp ?n)) else Some (os_regs s)) = Some regs"
    using alloc by (cases alloc; cases "regs_put (os_regs s) ty (Some (LinkTemp ?n))") simp_all
  let ?s' = "(advance ty (s\<lparr>os_regs := regs\<rparr>))\<lparr>os_operands := os_operands s @ [?x]\<rparr>"
  have run: "push_temp R s ty alloc = (if has_room s ty then (Ok \<lparr>tm_temp_slots = slot_from_u16 R (os_temp_offset s), tm_ty = ty,
      tm_stack_pos = ?n, tm_in_reg = (alloc = AllocReg)\<rparr>, ?s') else (Err AllocatedTooManySlots, s\<lparr>os_regs := regs\<rparr>))"
    unfolding push_temp_def Let_def regs_alloc_def using regs
    by (auto simp: push_temp_offset_effect has_room_def split: if_splits)
  have view: "opds_view ?s' = opds_view s @ [?x]" by (simp add: opds_view_def)
  have "regs_ok (map so_reg (opds_view s) @ [so_reg ?x]) regs"
    using wf regs alloc regs_ok_alloc [of "map so_reg (opds_view s)" "os_regs s" ty regs]
    by (auto simp: opds_wf_view opds_view_def split: if_splits)
  then have "opds_wf R ?s'" if "has_room s ty"
    using wf that by (intro opds_wf_append [OF wf _ view]) (auto simp: links_ok_snoc opds_wf_view)
  then show ?thesis using run view by simp
qed

lemma push_immediate_effect:
  assumes wf: "opds_wf R s"
  shows "if has_room s ty
    then \<exists>s'. push_immediate R s ty v = (Ok \<lparr>im_temp_slots = slot_from_u16 R (os_temp_offset s), im_ty = ty, im_val = v\<rparr>, s')
         \<and> opds_wf R s' \<and> opds_view s' = opds_view s @ [StackImmediate (slot_from_u16 R (os_temp_offset s)) ty v]
         \<and> os_local_heads s' = os_local_heads s \<and> os_regs s' = os_regs s
    else push_immediate R s ty v = (Err AllocatedTooManySlots, s)"
proof -
  let ?x = "StackImmediate (slot_from_u16 R (os_temp_offset s)) ty v"
  let ?s' = "(advance ty s)\<lparr>os_operands := os_operands s @ [?x]\<rparr>"
  have view: "opds_view ?s' = opds_view s @ [?x]" by (simp add: opds_view_def)
  have "opds_wf R ?s'" if "has_room s ty"
    using wf that by (intro opds_wf_append [OF wf _ view]) (auto simp: links_ok_snoc opds_wf_view)
  then show ?thesis using view by (simp add: push_immediate_def push_temp_offset_effect)
qed

subsection \<open>Popping operands\<close>

lemma links_ok_last:
  assumes ok: "links_ok (ops @ [x]) heads" and l: "local_of x = Some i"
  shows "so_prev x = None" "heads ! unat i = Some (length ops)"
proof -
  have at: "(ops @ [x]) ! length ops = x" by simp
  show prev: "so_prev x = None"
  proof (cases "so_prev x")
    case (Some q)
    then show ?thesis using links_ok_prev [OF ok, of "length ops" i q] l by auto
  qed simp
  show "heads ! unat i = Some (length ops)" using links_ok_is_head [OF ok, of "length ops" i] l prev by (simp add: at)
qed

lemma unlink_last:
  assumes ok: "links_ok (ops @ [x]) heads" and l: "local_of x = Some i"
    and s: "os_operands s = ops" "os_local_heads s = heads"
  shows "unlink_local s i (so_prev x) (so_next x) = Some (s\<lparr>os_operands := map (relink (length ops) (so_prev x) (so_next x)) ops,
    os_local_heads := map (\<lambda>h. if h = Some (length ops) then so_next x else h) heads, os_len_locals := os_len_locals s - 1\<rparr>)"
  unfolding s(2) [symmetric]
proof (rule unlink_local_relinks [OF s(1)])
  let ?p = "length ops"
  have p: "?p < length (ops @ [x])" and at: "(ops @ [x]) ! ?p = x" by simp_all
  note last = links_ok_last [OF ok l]
  have nx: "q < ?p \<and> local_of (ops ! q) = Some i \<and> so_prev (ops ! q) = Some ?p" if "so_next x = Some q" for q
    using links_ok_next [OF ok p, of i q] l that by (auto simp: at nth_append)
  show "q < ?p \<and> local_of (ops ! q) \<noteq> None" if "so_prev x = Some q" for q using that last(1) by simp
  show "q < ?p \<and> local_of (ops ! q) \<noteq> None" if "so_next x = Some q" for q using nx [OF that] by simp
  show "so_prev x \<noteq> so_next x" if "so_prev x \<noteq> None" using that last(1) by simp
  show "unat i < length (os_local_heads s)" using links_ok_fields(1) [OF ok p] l s(2) by (simp add: at)
  have at': "q < ?p \<Longrightarrow> (ops @ [x]) ! q = ops ! q" for q by (simp add: nth_append)
  show "so_next (ops ! q) = Some ?p \<longleftrightarrow> so_prev x = Some q" if "q < ?p" for q
  proof (cases "local_of (ops ! q)")
    case (Some j)
    then show ?thesis using links_ok_next [OF ok, of q j ?p] that last(1) by (auto simp: at')
  qed (use last(1) in simp)
  show "so_prev (ops ! q) = Some ?p \<longleftrightarrow> so_next x = Some q" if "q < ?p" for q
  proof (cases "local_of (ops ! q)")
    case None
    then show ?thesis using nx [of q] by auto
  next
    case (Some j)
    then have "so_next x = Some q" if "so_prev (ops ! q) = Some ?p"
      using links_ok_prev [OF ok, of q j ?p] that \<open>q < ?p\<close> by (simp add: at' at)
    then show ?thesis using nx [of q] by blast
  qed
  show "os_local_heads s ! j = Some ?p \<longleftrightarrow> so_prev x = None \<and> j = unat i" if "j < length (os_local_heads s)" for j
  proof
    have j: "unat (of_nat j :: u32) = j"
      using ok that s(2) by (simp add: links_ok_def unat_of_nat take_bit_nat_eq_self)
    assume "os_local_heads s ! j = Some ?p"
    then have "local_of x = Some (of_nat j)" using links_ok_head [OF ok, of "of_nat j" ?p] j that s(2) by (simp add: at)
    then show "so_prev x = None \<and> j = unat i" using l j last(1) by simp
  next
    assume "so_prev x = None \<and> j = unat i"
    then show "os_local_heads s ! j = Some ?p" using last(2) s(2) by simp
  qed
qed

lemma opds_pop_effect:
  assumes wf: "opds_wf R s" and ops: "os_operands s = ops @ [x]"
  shows "\<exists>s'. opds_pop s = Some (wrap_operand (os_regs s') (length ops) x, s') \<and> opds_wf R s' \<and> opds_view s' = butlast (opds_view s)
    \<and> os_regs s' = free_reg (os_regs s) x \<and> length (os_local_heads s') = length (os_local_heads s)
    \<and> unat (os_temp_offset s) = unat (os_temp_offset s') + unat (required_cells_for_ty (so_ty x))
    \<and> os_local_slots s' = os_local_slots s \<and> os_max_offset s' = os_max_offset s"
proof -
  have ok: "links_ok (ops @ [x]) (os_local_heads s)" using wf ops by (simp add: opds_wf_def)
  have off: "unat (os_temp_offset s) = unat (os_local_slots s) + cells_of_tys (map so_ty ops) + unat (required_cells_for_ty (so_ty x))"
    using wf ops by (simp add: opds_wf_def)
  then obtain v where v: "checked_sub (os_temp_offset s) (required_cells_for_ty (so_ty x)) = Some v"
    by (cases "checked_sub (os_temp_offset s) (required_cells_for_ty (so_ty x))") (auto simp: checked_sub_None)
  then have uv: "unat v = unat (os_local_slots s) + cells_of_tys (map so_ty ops)" using off by (simp add: checked_sub_Some)
  let ?s1 = "s\<lparr>os_operands := ops, os_temp_offset := v\<rparr>"
  let ?s2 = "if local_of x = None then ?s1 else ?s1\<lparr>os_operands := map (relink (length ops) (so_prev x) (so_next x)) ops,
      os_local_heads := map (\<lambda>h. if h = Some (length ops) then so_next x else h) (os_local_heads s), os_len_locals := os_len_locals s - 1\<rparr>"
  let ?s3 = "?s2\<lparr>os_regs := free_reg (os_regs s) x\<rparr>"
  have "try_unlink_local ?s1 x = Some ?s2"
    using unlink_last [OF ok, of _ ?s1] by (cases x) (simp_all add: try_unlink_local_def)
  moreover have "so_reg x \<noteq> Some V128"
    using regs_ok_not_V128 [of "map so_reg (ops @ [x])" "os_regs s" "length ops"] wf ops by (simp add: opds_wf_def nth_append)
  then obtain pos where "try_unlink_reg ?s2 x = Some (pos, ?s3)" using try_unlink_reg_effect [of x ?s2] by auto
  ultimately have run: "opds_pop s = Some (wrap_operand (os_regs ?s3) (length ops) x, ?s3)"
    using v ops by (simp add: opds_pop_def Let_def pop_temp_offset_def)
  have view: "opds_view ?s3 = map unlinked ops" by (simp add: opds_view_def o_def)
  have old: "opds_view s = map unlinked ops @ [unlinked x]" by (simp add: opds_view_def ops)
  have links: "links_ok (os_operands ?s3) (os_local_heads ?s3)"
    using links_ok_pop [OF ok] ok links_ok_snoc [of x ops] by (cases "local_of x") simp_all
  have regs: "regs_ok (map so_reg (map unlinked ops)) (free_reg (os_regs s) x)"
    using regs_ok_free_reg [of "map so_reg ops @ [so_reg x]" "os_regs s" "length ops" x] wf
    by (simp add: opds_wf_def ops o_def nth_append list_update_append)
  have len: "unat (os_len_locals ?s3) = count_locals (map unlinked ops)"
    using wf unat_minus_1 [of "os_len_locals s"] by (auto simp: opds_wf_view old)
  have max: "v \<le> os_max_offset s"
  proof -
    have "v \<le> os_temp_offset s" using uv off by (simp add: word_le_nat_alt)
    then show ?thesis using wf by (auto simp: opds_wf_def)
  qed
  have "opds_wf R ?s3"
    unfolding opds_wf_view view using wf links regs len uv max by (auto simp: opds_wf_view old placed_ok_snoc o_def)
  then show ?thesis using run view old uv off by (intro exI [of _ ?s3]) simp
qed


subsection \<open>Preserving the operands of one local variable\<close>

lemma to_temp_local:
  assumes "local_of (os_operands s ! p) = Some i"
  shows "to_temp p s = s\<lparr>os_operands := (map (relink p (so_prev (os_operands s ! p)) (so_next (os_operands s ! p))) (os_operands s))
        [p := StackTemp (so_temp_slots (os_operands s ! p)) (so_ty (os_operands s ! p)) False],
      os_local_heads := map (\<lambda>h. if h = Some p then so_next (os_operands s ! p) else h) (os_local_heads s), os_len_locals := os_len_locals s - 1\<rparr>"
  using assms so_reg_local [of "os_operands s ! p"]
  by (intro operand_stack.equality) (simp_all add: to_temp_def detach_def Let_def free_reg_def)

lemma preserve_local_at_effect:
  assumes wf: "opds_wf R s" and p: "p < length (os_operands s)" and l: "local_of (os_operands s ! p) = Some i"
  shows "preserve_local_at s p = Some (os_operands s ! p, to_temp p s)"
proof -
  obtain slots ty pv nx where x: "os_operands s ! p = StackLocal slots ty i pv nx" using l by (cases "os_operands s ! p") auto
  have "links_ok (os_operands s) (os_local_heads s)" using wf by (simp add: opds_wf_def)
  note unlink = unlink_local_effect [OF this p l, of pv nx]
  show ?thesis using unlink to_temp_local [OF l] p by (simp add: preserve_local_at_def get_opt_def x)
qed

lemma unlink_local_new_head:
  "unlink_local (s\<lparr>os_local_heads := (os_local_heads s)[unat i := h]\<rparr>) i None nx = unlink_local s i None nx"
  by (simp add: unlink_local_def replace_first_def)

lemma preserve_local_at_new_head:
  assumes "local_of (os_operands s ! p) = Some i" "so_prev (os_operands s ! p) = None"
  shows "preserve_local_at (s\<lparr>os_local_heads := (os_local_heads s)[unat i := h]\<rparr>) p = preserve_local_at s p"
  using assms by (cases "os_operands s ! p") (auto simp: preserve_local_at_def get_opt_def unlink_local_new_head)

definition yielded :: "bool \<Rightarrow> 's stack_operand \<Rightarrow> 's local_operand" where
  "yielded in_reg x = \<lparr>lo_temp_slots = so_temp_slots x, lo_ty = so_ty x, lo_local_index = the (local_of x), lo_in_reg = in_reg\<rparr>"

definition as_temp :: "'s stack_operand \<Rightarrow> 's stack_operand" where
  "as_temp x = StackTemp (so_temp_slots x) (so_ty x) False"

definition preserve_view :: "local_idx \<Rightarrow> 's stack_operand list \<Rightarrow> 's stack_operand list" where
  "preserve_view i v = map (\<lambda>x. if local_of x = Some i then as_temp x else x) v"

lemma preserved_locals_next_effect:
  assumes "preserve_local_at s p = Some (x, s')" "local_of x = Some i"
  shows "preserved_locals_next b s (Some p) = Some (Some (yielded b x, so_next x), s')"
  using assms by (cases x) (simp_all add: preserved_locals_next_def yielded_def)

lemma head_view:
  assumes wf: "opds_wf R s" and i: "unat i < length (os_local_heads s)"
  shows "case os_local_heads s ! unat i of
      None \<Rightarrow> \<forall>x \<in> set (opds_view s). local_of x \<noteq> Some i
    | Some p \<Rightarrow> p < length (opds_view s) \<and> local_of (opds_view s ! p) = Some i \<and> (\<forall>x \<in> set (drop (Suc p) (opds_view s)). local_of x \<noteq> Some i)"
proof -
  have "link_below (map local_of (opds_view s)) i (length (opds_view s)) (os_local_heads s ! unat i)"
    using wf i by (simp add: opds_wf_def links_ok_def opds_view_def o_def)
  then show ?thesis by (auto simp: link_below_def in_set_conv_nth split: option.splits)
qed

lemma opds_view_nth: "p < length (os_operands s) \<Longrightarrow> opds_view s ! p = unlinked (os_operands s ! p)"
  "length (opds_view s) = length (os_operands s)"
  by (simp_all add: opds_view_def)

lemma yielded_unlinked [simp]: "yielded b (unlinked x) = yielded b x" "as_temp (unlinked x) = as_temp x"
  by (simp_all add: yielded_def as_temp_def)

definition same_frame :: "'s operand_stack \<Rightarrow> 's operand_stack \<Rightarrow> bool" where
  "same_frame s s' \<longleftrightarrow> length (os_local_heads s') = length (os_local_heads s) \<and> os_local_slots s' = os_local_slots s
     \<and> os_temp_offset s' = os_temp_offset s \<and> os_max_offset s' = os_max_offset s \<and> os_regs s' = os_regs s"

lemma same_frame_trans: "same_frame s s' \<Longrightarrow> same_frame s' s'' \<Longrightarrow> same_frame s s''" by (simp add: same_frame_def)

lemma to_temp_same_frame: "local_of (os_operands s ! p) = Some i \<Longrightarrow> same_frame s (to_temp p s)"
  using so_reg_local [of "os_operands s ! p"] by (simp add: same_frame_def free_reg_def)

lemma preserved_locals_collect_effect:
  assumes "opds_wf R s" "unat i < length (os_local_heads s)"
  shows "\<exists>s'. preserved_locals_collect b s (os_local_heads s ! unat i)
      = Some (map (yielded b) (rev (filter (\<lambda>x. local_of x = Some i) (opds_view s))), s')
    \<and> opds_wf R s' \<and> opds_view s' = preserve_view i (opds_view s) \<and> same_frame s s'"
  using assms
proof (induction "count_locals (os_operands s)" arbitrary: s rule: less_induct)
  case less
  note wf = less.prems(1) and i = less.prems(2)
  show ?case
  proof (cases "os_local_heads s ! unat i")
    case None
    then have "filter (\<lambda>x. local_of x = Some i) (opds_view s) = []" "preserve_view i (opds_view s) = opds_view s"
      using head_view [OF wf i] by (auto simp: filter_empty_conv preserve_view_def intro: map_idI)
    then show ?thesis using None wf
      by (subst preserved_locals_collect.simps) (simp add: preserved_locals_next_def same_frame_def)
  next
    case (Some p)
    let ?x = "os_operands s ! p" and ?s1 = "to_temp p s" and ?v = "opds_view s"
    have p: "p < length (os_operands s)" and l: "local_of ?x = Some i" and above: "\<forall>x \<in> set (drop (Suc p) ?v). local_of x \<noteq> Some i"
      using head_view [OF wf i] Some by (auto simp: opds_view_nth)
    have pv: "p < length ?v" "?v ! p = unlinked ?x" using p by (simp_all add: opds_view_nth)
    note step = preserve_local_at_effect [OF wf p l]
    have head: "os_local_heads ?s1 ! unat i = so_next ?x" using Some i by (simp add: to_temp_local [OF l])
    have v1: "opds_view ?s1 = ?v[p := as_temp ?x]" by (simp add: to_temp_view as_temp_def)
    have split: "?v = take p ?v @ unlinked ?x # drop (Suc p) ?v" using pv by (metis id_take_nth_drop)
    have v1': "opds_view ?s1 = take p ?v @ as_temp ?x # drop (Suc p) ?v" using pv(1) by (simp add: v1 upd_conv_take_nth_drop)
    have filter: "filter (\<lambda>x. local_of x = Some i) ?v = filter (\<lambda>x. local_of x = Some i) (opds_view ?s1) @ [unlinked ?x]"
      using above l by (subst split) (simp add: v1' as_temp_def filter_empty_conv)
    have view: "preserve_view i (opds_view ?s1) = preserve_view i ?v"
      using l by (subst split) (simp add: v1' preserve_view_def as_temp_def)
    have "count_locals (os_operands ?s1) < count_locals (os_operands s)" using preserve_local_at_decreases [OF step] .
    from less.hyps [OF this to_temp_wf [OF wf p]] obtain s' where
      s': "preserved_locals_collect b ?s1 (so_next ?x)
          = Some (map (yielded b) (rev (filter (\<lambda>x. local_of x = Some i) (opds_view ?s1))), s')"
        "opds_wf R s'" "opds_view s' = preserve_view i (opds_view ?s1)" "same_frame ?s1 s'"
      using i head by auto
    have "preserved_locals_collect b s (Some p) = Some (map (yielded b) (rev (filter (\<lambda>x. local_of x = Some i) ?v)), s')"
      using preserved_locals_next_effect [OF step l] s'(1)
      by (subst preserved_locals_collect.simps) (simp add: filter)
    then show ?thesis using Some s' view same_frame_trans [OF to_temp_same_frame [OF l] s'(4)] by auto
  qed
qed

lemma preserve_locals_collects:
  assumes wf: "opds_wf R s" and i: "unat i < length (os_local_heads s)"
  shows "\<exists>s'. preserve_locals s i = Some (map (yielded (is_local_in_any_reg (os_regs s) i)) (rev (filter (\<lambda>x. local_of x = Some i) (opds_view s))), s')
    \<and> opds_wf R s' \<and> opds_view s' = preserve_view i (opds_view s) \<and> same_frame s s'"
proof -
  let ?b = "is_local_in_any_reg (os_regs s) i" and ?s0 = "s\<lparr>os_local_heads := (os_local_heads s)[unat i := None]\<rparr>"
  have start: "preserve_locals s i = preserved_locals_collect ?b ?s0 (os_local_heads s ! unat i)"
    using i by (simp add: preserve_locals_def replace_first_def)
  have same: "preserved_locals_collect ?b ?s0 (os_local_heads s ! unat i) = preserved_locals_collect ?b s (os_local_heads s ! unat i)"
  proof (cases "os_local_heads s ! unat i")
    case None
    then have "?s0 = s" by (intro operand_stack.equality) (simp_all add: list_update_same_conv i)
    then show ?thesis by simp
  next
    case (Some p)
    have ok: "links_ok (os_operands s) (os_local_heads s)" using wf by (simp add: opds_wf_def)
    from links_ok_head [OF ok i Some]
    have "preserve_local_at ?s0 p = preserve_local_at s p" by (intro preserve_local_at_new_head) simp_all
    then have "preserved_locals_next ?b ?s0 (Some p) = preserved_locals_next ?b s (Some p)" by (simp add: preserved_locals_next_def)
    then show ?thesis unfolding Some by (subst (1 2) preserved_locals_collect.simps) (simp only:)
  qed
  show ?thesis unfolding start same by (rule preserved_locals_collect_effect [OF wf i])
qed

subsection \<open>Preserving all local variables\<close>

lemma find_next_local_0 [simp]: "find_next_local ops q skip 0 = None"
  by (cases q) simp_all

lemma find_next_local_spec:
  assumes "q \<le> length ops"
  shows "if count_locals (take q ops) \<le> skip then find_next_local ops q skip (count_locals (take q ops)) = None
    else \<exists>p < q. find_next_local ops q skip (count_locals (take q ops)) = Some (p, 0, count_locals (take p ops))
      \<and> local_of (ops ! p) \<noteq> None \<and> count_locals (drop (Suc p) (take q ops)) = skip"
  using assms
proof (induction q arbitrary: skip)
  case (Suc q)
  note IH = Suc.IH
  have take: "take (Suc q) ops = take q ops @ [ops ! q]" using Suc.prems by (simp add: take_Suc_conv_app_nth)
  have get: "get_opt ops q = Some (ops ! q)" using Suc.prems by (simp add: get_opt_def)
  have drop: "drop (Suc p) (take (Suc q) ops) = drop (Suc p) (take q ops) @ [ops ! q]" if "p < q" for p
    using that Suc.prems by (simp add: take)
  show ?case
  proof (cases "local_of (ops ! q) = None")
    case True
    then have "find_next_local ops (Suc q) skip (count_locals (take (Suc q) ops)) = find_next_local ops q skip (count_locals (take q ops))"
      by (simp add: take get)
    then show ?thesis
      using Suc.IH [of skip] Suc.prems True drop by (auto simp: take split: if_splits)
  next
    case local: False
    show ?thesis
    proof (cases skip)
      case 0
      then show ?thesis using local Suc.prems by (auto simp: take get intro!: exI [of _ q])
    next
      case (Suc n)
      then have "find_next_local ops (Suc q) skip (count_locals (take (Suc q) ops)) = find_next_local ops q n (count_locals (take q ops))"
        using local by (auto simp: take get)
      moreover have count: "count_locals (take (Suc q) ops) = Suc (count_locals (take q ops))" using local by (auto simp: take)
      moreover have q: "q \<le> length ops" using Suc.prems by simp
      ultimately show ?thesis
      proof (cases "count_locals (take q ops) \<le> n")
        case True
        then show ?thesis using \<open>find_next_local ops (Suc q) _ _ = _\<close> count \<open>skip = Suc n\<close> IH [OF q, of n] by simp
      next
        case False
        with IH [OF q, of n] obtain p where "p < q" "find_next_local ops q n (count_locals (take q ops)) = Some (p, 0, count_locals (take p ops))"
          "local_of (ops ! p) \<noteq> None" "count_locals (drop (Suc p) (take q ops)) = n" by auto
        with False show ?thesis
          using \<open>find_next_local ops (Suc q) _ _ = _\<close> count \<open>skip = Suc n\<close> local drop by (auto intro!: exI [of _ p])
      qed
    qed
  qed
qed (simp add: count_locals_def)

definition all_temp :: "'s stack_operand list \<Rightarrow> 's stack_operand list" where
  "all_temp v = map (\<lambda>x. if local_of x = None then x else as_temp x) v"

definition yielded_all :: "register_map \<Rightarrow> 's stack_operand list \<Rightarrow> 's local_operand list" where
  "yielded_all regs v = map (\<lambda>x. yielded (is_local_in_reg regs (so_ty x) (the (local_of x))) x) (rev (filter (\<lambda>x. local_of x \<noteq> None) v))"

lemma count_locals_view: "count_locals (take q (opds_view s)) = count_locals (take q (os_operands s))"
  by (simp add: opds_view_def count_locals_unlinked take_map)

lemma preserved_all_step:
  assumes wf: "opds_wf R s" and p: "p < length (os_operands s)" and l: "local_of (os_operands s ! p) = Some i"
    and find: "find_next_local (os_operands s) q skip left = Some (p, skip', left')"
  shows "preserved_all_collect s q skip left =
    map_option (\<lambda>(ys, s'). (yielded (is_local_in_reg (os_regs s) (so_ty (os_operands s ! p)) i) (os_operands s ! p) # ys, s'))
      (preserved_all_collect (to_temp p s) p skip' left')"
  using preserve_local_at_effect [OF wf p l] find l so_reg_local [of "os_operands s ! p"]
  by (subst preserved_all_collect.simps) (cases "os_operands s ! p", simp_all add: yielded_def free_reg_def)

lemma preserved_all_collect_effect:
  assumes "opds_wf R s" "q \<le> length (os_operands s)"
  shows "\<exists>s'. preserved_all_collect s q 0 (count_locals (take q (opds_view s))) = Some (yielded_all (os_regs s) (take q (opds_view s)), s')
    \<and> opds_wf R s' \<and> opds_view s' = all_temp (take q (opds_view s)) @ drop q (opds_view s) \<and> same_frame s s'"
  using assms
proof (induction q arbitrary: s rule: less_induct)
  case (less q)
  note wf = less.prems(1) and q = less.prems(2)
  let ?v = "opds_view s" and ?ops = "os_operands s"
  show ?case
  proof (cases "count_locals (take q ?v) = 0")
    case True
    then have "find_next_local ?ops q 0 (count_locals (take q ?v)) = None" using find_next_local_spec [OF q, of 0] by (simp add: count_locals_view)
    moreover have none: "filter (\<lambda>x. local_of x \<noteq> None) (take q ?v) = []" using True by (simp add: count_locals_def)
    then have "all_temp (take q ?v) = take q ?v" by (auto simp: all_temp_def filter_empty_conv intro: map_idI)
    moreover have "yielded_all (os_regs s) (take q ?v) = []" using none by (simp only: yielded_all_def rev.simps list.map)
    ultimately show ?thesis using wf by (subst preserved_all_collect.simps) (simp add: same_frame_def)
  next
    case False
    then obtain p where p: "p < q" "find_next_local ?ops q 0 (count_locals (take q ?v)) = Some (p, 0, count_locals (take p ?v))"
        "local_of (?ops ! p) \<noteq> None" "count_locals (drop (Suc p) (take q ?ops)) = 0"
      using find_next_local_spec [OF q, of 0] by (auto simp: count_locals_view)
    then obtain i where l: "local_of (?ops ! p) = Some i" by auto
    have pl: "p < length ?ops" using p(1) q by simp
    let ?s1 = "to_temp p s" and ?x = "?ops ! p"
    have v1: "opds_view ?s1 = ?v[p := as_temp ?x]" by (simp add: to_temp_view as_temp_def)
    have before: "take p (opds_view ?s1) = take p ?v" by (simp add: v1)
    from less.IH [OF p(1) to_temp_wf [OF wf pl]] pl obtain s' where
      s': "preserved_all_collect ?s1 p 0 (count_locals (take p ?v)) = Some (yielded_all (os_regs s) (take p ?v), s')"
        "opds_wf R s'" "opds_view s' = all_temp (take p ?v) @ drop p (opds_view ?s1)" "same_frame ?s1 s'"
      using to_temp_same_frame [OF l] by (auto simp: before same_frame_def)
    have mid: "\<forall>x \<in> set (drop (Suc p) (take q ?v)). local_of x = None"
      using p(4) count_locals_unlinked [of "drop (Suc p) (take q ?ops)"]
      by (auto simp: opds_view_def count_locals_def filter_empty_conv take_map drop_map)
    have split: "take q ?v = take p ?v @ unlinked ?x # drop (Suc p) (take q ?v)"
      using id_take_nth_drop [of p "take q ?v"] p(1) q pl by (simp add: opds_view_nth min_def)
    have yields: "yielded_all (os_regs s) (take q ?v)
        = yielded (is_local_in_reg (os_regs s) (so_ty ?x) i) ?x # yielded_all (os_regs s) (take p ?v)"
      using mid l by (subst split) (simp add: yielded_all_def filter_empty_conv)
    have "all_temp (drop (Suc p) (take q ?v)) = drop (Suc p) (take q ?v)"
      using mid unfolding all_temp_def by (intro map_idI) auto
    then have "all_temp (take q ?v) = all_temp (take p ?v) @ as_temp ?x # drop (Suc p) (take q ?v)"
      using l by (subst split) (simp add: all_temp_def)
    moreover have "drop p (opds_view ?s1) = as_temp ?x # drop (Suc p) (take q ?v) @ drop q ?v"
    proof -
      have "drop p (opds_view ?s1) = as_temp ?x # drop (Suc p) ?v"
        using pl by (simp add: v1 opds_view_nth upd_conv_take_nth_drop)
      also have "drop (Suc p) ?v = drop (Suc p) (take q ?v @ drop q ?v)" by simp
      also have "\<dots> = drop (Suc p) (take q ?v) @ drop q ?v" using p(1) q by (subst drop_append) (simp add: opds_view_nth)
      finally show ?thesis .
    qed
    ultimately have "opds_view s' = all_temp (take q ?v) @ drop q ?v" using s'(3) by simp
    then show ?thesis
      using preserved_all_step [OF wf pl l p(2)] s' yields same_frame_trans [OF to_temp_same_frame [OF l] s'(4)] by auto
  qed
qed

lemma preserve_all_collects:
  assumes wf: "opds_wf R s"
  shows "\<exists>k s'. k \<le> length (opds_view s) \<and> count_locals (drop k (opds_view s)) = min skip (count_locals (opds_view s))
    \<and> preserve_all_locals s skip = Some (yielded_all (os_regs s) (take k (opds_view s)), s')
    \<and> opds_wf R s' \<and> opds_view s' = all_temp (take k (opds_view s)) @ drop k (opds_view s) \<and> same_frame s s'"
proof -
  let ?v = "opds_view s" and ?ops = "os_operands s"
  have len: "unat (os_len_locals s) = count_locals (take (length ?ops) ?ops)" using wf by (simp add: opds_wf_def)
  note spec = find_next_local_spec [OF order_refl, of ?ops skip]
  show ?thesis
  proof (cases "count_locals ?v \<le> skip")
    case True
    then have "find_next_local ?ops (length ?ops) skip (count_locals ?ops) = None" using spec by (simp add: opds_view_def count_locals_unlinked)
    then have "preserve_all_locals s skip = Some ([], s)"
      unfolding preserve_all_locals_def len by (subst preserved_all_collect.simps) simp
    then show ?thesis using wf True
      by (intro exI [of _ 0] exI [of _ s]) (simp add: yielded_all_def all_temp_def same_frame_def)
  next
    case False
    then obtain p where p: "p < length ?ops" "find_next_local ?ops (length ?ops) skip (count_locals ?ops) = Some (p, 0, count_locals (take p ?ops))"
        "local_of (?ops ! p) \<noteq> None" "count_locals (drop (Suc p) ?ops) = skip"
      using spec by (auto simp: opds_view_def count_locals_unlinked)
    then obtain i where l: "local_of (?ops ! p) = Some i" by auto
    have q: "Suc p \<le> length ?ops" using p(1) by simp
    have "find_next_local ?ops (Suc p) 0 (count_locals (take (Suc p) ?ops)) = Some (p, 0, count_locals (take p ?ops))"
      using p(1) l by (simp add: take_Suc_conv_app_nth get_opt_def)
    then have "preserve_all_locals s skip = preserved_all_collect s (Suc p) 0 (count_locals (take (Suc p) ?v))"
      unfolding preserve_all_locals_def len count_locals_view
      using preserved_all_step [OF wf p(1) l p(2)] preserved_all_step [OF wf p(1) l] by simp
    moreover have "count_locals (drop (Suc p) ?v) = skip"
      using p(4) count_locals_unlinked [of "drop (Suc p) ?ops"] by (simp add: opds_view_def drop_map)
    ultimately show ?thesis
      using preserved_all_collect_effect [OF wf q] False q by (auto simp: opds_view_nth)
  qed
qed

subsection \<open>Freeing registers\<close>

lemma regs_put_kind: "reg_kind_new ty = reg_kind_new ty' \<Longrightarrow> regs_put m ty link = regs_put m ty' link"
  by (cases ty; cases ty') simp_all

lemma regs_put_twice: "regs_put m ty x = Some m' \<Longrightarrow> regs_put m' ty y = regs_put m ty y"
  by (cases ty) auto

lemma regs_ok_unlink:
  assumes ok: "regs_ok rs regs" and put: "regs_put regs ty link = Some regs'"
    and free: "\<And>p. regs_get regs ty \<noteq> Some (LinkTemp p)" "\<And>p. link \<noteq> Some (LinkTemp p)"
  shows "regs_ok rs regs'"
proof (rule regs_okI)
  fix p ty' assume p: "p < length rs" "rs ! p = Some ty'"
  note old = regs_okD [OF ok p]
  have "reg_kind_new ty' \<noteq> reg_kind_new ty" using old(2) free(1) [of p] regs_get_kind [of ty' ty regs] by metis
  then show "ty' \<noteq> V128 \<and> regs_get regs' ty' = Some (LinkTemp p)" using old regs_get_put [OF put, of ty'] by simp
next
  fix p ty' assume "regs_get regs' ty' = Some (LinkTemp p)"
  then have "regs_get regs ty' = Some (LinkTemp p)" using regs_get_put [OF put, of ty'] free(2) [of p] by (simp split: if_splits)
  then show "p < length rs \<and> (\<exists>ty2. rs ! p = Some ty2 \<and> reg_kind_new ty2 = reg_kind_new ty')" by (rule regs_okE [OF ok]) blast
qed

lemma opds_wf_regs:
  assumes "opds_wf R s" "regs_ok (map so_reg (os_operands s)) regs'"
  shows "opds_wf R (s\<lparr>os_regs := regs'\<rparr>)"
  using assms by (simp add: opds_wf_def)

text \<open>The operand that a register is linked to.\<close>

lemma linked_operand:
  assumes wf: "opds_wf R s" and link: "regs_get (os_regs s) ty = Some (LinkTemp p)"
  obtains slots ty' where "p < length (os_operands s)" "os_operands s ! p = StackTemp slots ty' True" "reg_kind_new ty' = reg_kind_new ty"
proof -
  have "regs_ok (map so_reg (os_operands s)) (os_regs s)" using wf by (simp add: opds_wf_def)
  from regs_okE [OF this link] obtain ty' where p: "p < length (os_operands s)" "so_reg (os_operands s ! p) = Some ty'"
    "reg_kind_new ty' = reg_kind_new ty" by auto
  then show ?thesis using that by (cases "os_operands s ! p") (auto split: if_splits)
qed

lemma to_temp_reg:
  assumes x: "os_operands s ! p = StackTemp slots ty' True" and kind: "reg_kind_new ty' = reg_kind_new ty"
    and put: "regs_put (os_regs s) ty None = Some regs'"
  shows "to_temp p s = s\<lparr>os_regs := regs', os_operands := (os_operands s)[p := StackTemp slots ty' False]\<rparr>"
  using put regs_put_kind [OF kind] by (simp add: to_temp_def detach_def Let_def x free_reg_def)

lemma dealloc_reg_effect:
  assumes wf: "opds_wf R s" and ty: "ty \<noteq> V128"
  shows "case regs_get (os_regs s) ty of
      Some (LinkTemp p) \<Rightarrow> dealloc_reg s ty = Some (Some \<lparr>tm_temp_slots = so_temp_slots (os_operands s ! p), tm_ty = so_ty (os_operands s ! p),
          tm_stack_pos = p, tm_in_reg = True\<rparr>, to_temp p s) \<and> p < length (os_operands s)
    | _ \<Rightarrow> \<exists>regs'. dealloc_reg s ty = Some (None, s\<lparr>os_regs := regs'\<rparr>) \<and> opds_wf R (s\<lparr>os_regs := regs'\<rparr>)"
proof -
  obtain regs' where put: "regs_put (os_regs s) ty None = Some regs'" using ty by (cases "regs_put (os_regs s) ty None") auto
  show ?thesis
  proof (cases "\<exists>p. regs_get (os_regs s) ty = Some (LinkTemp p)")
    case True
    then obtain p where link: "regs_get (os_regs s) ty = Some (LinkTemp p)" by blast
    from linked_operand [OF wf link] obtain slots ty' where
      p: "p < length (os_operands s)" "os_operands s ! p = StackTemp slots ty' True" "reg_kind_new ty' = reg_kind_new ty" .
    then show ?thesis using link put to_temp_reg [OF p(2,3) put] by (simp add: dealloc_reg_def regs_dealloc_def get_opt_def)
  next
    case False
    have "opds_wf R (s\<lparr>os_regs := regs'\<rparr>)"
      using wf regs_ok_unlink [OF _ put] False by (intro opds_wf_regs) (auto simp: opds_wf_def)
    then show ?thesis using False put
      by (auto simp: dealloc_reg_def regs_dealloc_def split: option.splits register_link.splits)
  qed
qed

lemma operand_to_temp_unlinked:
  assumes wf: "opds_wf R s" and link: "regs_get (os_regs s) ty = Some (LinkTemp p)" and put: "regs_put (os_regs s) ty None = Some regs'"
  shows "operand_to_temp_at (s\<lparr>os_regs := regs'\<rparr>) p = Some (os_operands s ! p, to_temp p s)"
proof -
  from linked_operand [OF wf link] obtain slots ty' where
    p: "p < length (os_operands s)" "os_operands s ! p = StackTemp slots ty' True" "reg_kind_new ty' = reg_kind_new ty" .
  have "regs_put regs' ty' None = Some regs'"
    using regs_put_twice [OF put, of None] put regs_put_kind [OF p(3), of regs' None] by simp
  then show ?thesis
    using p to_temp_reg [OF p(2,3) put]
    by (simp add: operand_to_temp_at_def get_opt_def try_unlink_local_def try_unlink_reg_def regs_dealloc_def)
qed

lemma preserve_reg_effect:
  assumes wf: "opds_wf R s" and ty: "ty \<noteq> V128"
  shows "\<exists>r s'. preserve_reg s ty = Some (r, s') \<and> opds_wf R s' \<and> length (os_local_heads s') = length (os_local_heads s)
    \<and> regs_get (os_regs s') ty = None \<and> (\<forall>ty'. regs_get (os_regs s) ty' = None \<longrightarrow> regs_get (os_regs s') ty' = None)"
proof -
  obtain regs' where put: "regs_put (os_regs s) ty None = Some regs'" using ty by (cases "regs_put (os_regs s) ty None") auto
  have none: "regs_get regs' ty = None" "regs_get (os_regs s) ty' = None \<Longrightarrow> regs_get regs' ty' = None" for ty'
    using regs_get_put [OF put] by auto
  show ?thesis
  proof (cases "\<exists>p. regs_get (os_regs s) ty = Some (LinkTemp p)")
    case True
    then obtain p where link: "regs_get (os_regs s) ty = Some (LinkTemp p)" by blast
    from linked_operand [OF wf link] obtain slots ty' where
      p: "p < length (os_operands s)" "os_operands s ! p = StackTemp slots ty' True" "reg_kind_new ty' = reg_kind_new ty" .
    have "os_regs (to_temp p s) = regs'" using to_temp_reg [OF p(2,3) put] by simp
    then show ?thesis
      using operand_to_temp_unlinked [OF wf link put] link put to_temp_wf [OF wf p(1)] none
      by (auto simp: preserve_reg_def regs_dealloc_def Let_def)
  next
    case False
    have "opds_wf R (s\<lparr>os_regs := regs'\<rparr>)"
      using wf regs_ok_unlink [OF _ put] False by (intro opds_wf_regs) (auto simp: opds_wf_def)
    then show ?thesis using False put none
      by (auto simp: preserve_reg_def regs_dealloc_def Let_def split: option.splits register_link.splits)
  qed
qed

lemma preserve_temp_reg_effect:
  assumes wf: "opds_wf R s" and ty: "ty \<noteq> V128"
  shows "\<exists>r s'. preserve_temp_reg s n ty = Some (r, s') \<and> opds_wf R s' \<and> length (os_local_heads s') = length (os_local_heads s)"
proof -
  obtain regs' where put: "regs_put (os_regs s) ty None = Some regs'" using ty by (cases "regs_put (os_regs s) ty None") auto
  show ?thesis
  proof (cases "\<exists>p < n. regs_get (os_regs s) ty = Some (LinkTemp p)")
    case True
    then obtain p where link: "regs_get (os_regs s) ty = Some (LinkTemp p)" "p < n" by blast
    from linked_operand [OF wf link(1)] obtain slots ty' where "p < length (os_operands s)" .
    then show ?thesis
      using operand_to_temp_unlinked [OF wf link(1) put] link put to_temp_wf [OF wf] ty
      by (auto simp: preserve_temp_reg_def regs_dealloc_temp_def Let_def)
  next
    case False
    then have "regs_dealloc_temp (os_regs s) ty n = Some (None, os_regs s)"
      using ty by (auto simp: regs_dealloc_temp_def split: option.splits register_link.splits)
    then show ?thesis using wf by (simp add: preserve_temp_reg_def Let_def)
  qed
qed


lemma for_each_reg_wf:
  assumes wf: "opds_wf R s"
    and f: "\<And>s ty. opds_wf R s \<Longrightarrow> ty \<noteq> V128 \<Longrightarrow> \<exists>r s'. f s ty = Some (r, s') \<and> opds_wf R s'"
  shows "\<exists>r s'. for_each_reg f s = Some (r, s') \<and> opds_wf R s'"
proof -
  from f [OF wf, of I64] obtain r1 s1 where 1: "f s I64 = Some (r1, s1)" "opds_wf R s1" by auto
  from f [OF 1(2), of F32] obtain r2 s2 where 2: "f s1 F32 = Some (r2, s2)" "opds_wf R s2" by auto
  from f [OF 2(2), of F64] obtain r3 s3 where 3: "f s2 F64 = Some (r3, s3)" "opds_wf R s3" by auto
  from 1 2 3 show ?thesis by (auto simp: for_each_reg_def)
qed

subsection \<open>Every operation keeps the invariant\<close>

datatype opds_action =
  ActPushLocal local_idx val_type | ActPushTemp val_type allocation | ActPushImmediate val_type raw_val | ActPop | ActToTemp nat
| ActPreserveLocals local_idx | ActPreserveAllLocals nat | ActDeallocReg val_type | ActPreserveRegs | ActPreserveTempRegs nat
| ActRegisterLocal val_type local_idx | ActDeallocLocal val_type local_idx | ActDiscardLocals

definition of_panic :: "'s operand_stack \<Rightarrow> ('a \<times> 's operand_stack) option \<Rightarrow> (translation_error, unit) res \<times> 's operand_stack" where
  "of_panic s r = (case r of None \<Rightarrow> (Panic, s) | Some (_, s') \<Rightarrow> (Ok (), s'))"

fun opds_act :: "'w::len word slot_repr \<Rightarrow> opds_action \<Rightarrow> 'w word operand_stack \<Rightarrow> (translation_error, unit) res \<times> 'w word operand_stack" where
  "opds_act R (ActPushLocal i ty) s = map_ok (\<lambda>_. ()) (push_local R s i ty)"
| "opds_act R (ActPushTemp ty alloc) s = map_ok (\<lambda>_. ()) (push_temp R s ty alloc)"
| "opds_act R (ActPushImmediate ty v) s = map_ok (\<lambda>_. ()) (push_immediate R s ty v)"
| "opds_act R ActPop s = of_panic s (opds_pop s)"
| "opds_act R (ActToTemp depth) s = of_panic s (operand_to_temp s depth)"
| "opds_act R (ActPreserveLocals i) s = of_panic s (preserve_locals s i)"
| "opds_act R (ActPreserveAllLocals skip) s = of_panic s (preserve_all_locals s skip)"
| "opds_act R (ActDeallocReg ty) s = of_panic s (dealloc_reg s ty)"
| "opds_act R ActPreserveRegs s = of_panic s (preserve_all_regs s)"
| "opds_act R (ActPreserveTempRegs skip) s = of_panic s (preserve_all_temp_regs s skip)"
| "opds_act R (ActRegisterLocal ty i) s = of_panic s (map_option (Pair ()) (register_local_for_reg s ty i))"
| "opds_act R (ActDeallocLocal ty i) s = of_panic s (map_option (Pair ()) (dealloc_local_for_reg s ty i))"
| "opds_act R ActDiscardLocals s = (Ok (), discard_local_regs s)"

text \<open>
  What the translator guarantees when it uses the stack: local variables exist, depths are below the
  height, and a register that is allocated does not hold a temporary.
\<close>

definition no_temp :: "'s operand_stack \<Rightarrow> val_type \<Rightarrow> bool" where
  "no_temp s ty \<longleftrightarrow> (case regs_get (os_regs s) ty of Some (LinkTemp _) \<Rightarrow> False | _ \<Rightarrow> True)"

fun opds_allowed :: "opds_action \<Rightarrow> 's operand_stack \<Rightarrow> bool" where
  "opds_allowed (ActPushLocal i ty) s \<longleftrightarrow> unat i < length (os_local_heads s)"
| "opds_allowed (ActPushTemp ty alloc) s \<longleftrightarrow> alloc = AllocNone \<or> ty \<noteq> V128 \<and> no_temp s ty"
| "opds_allowed ActPop s \<longleftrightarrow> os_operands s \<noteq> []"
| "opds_allowed (ActToTemp depth) s \<longleftrightarrow> depth < length (os_operands s)"
| "opds_allowed (ActPreserveLocals i) s \<longleftrightarrow> unat i < length (os_local_heads s)"
| "opds_allowed (ActDeallocReg ty) s \<longleftrightarrow> ty \<noteq> V128"
| "opds_allowed (ActRegisterLocal ty i) s \<longleftrightarrow> no_temp s ty"
| "opds_allowed (ActDeallocLocal ty i) s \<longleftrightarrow> is_local_in_any_reg (os_regs s) i \<longrightarrow> no_temp s ty"
| "opds_allowed _ s \<longleftrightarrow> True"

lemma no_tempD: "no_temp s ty \<Longrightarrow> regs_get (os_regs s) ty \<noteq> Some (LinkTemp p)"
  by (auto simp: no_temp_def)

lemma regs_change_wf:
  assumes wf: "opds_wf R s" and free: "no_temp s ty" and put: "regs_put (os_regs s) ty link = Some regs'" and link: "\<And>p. link \<noteq> Some (LinkTemp p)"
  shows "opds_wf R (s\<lparr>os_regs := regs'\<rparr>)"
  using wf regs_ok_unlink [OF _ put no_tempD [OF free] link] by (intro opds_wf_regs) (auto simp: opds_wf_def)

lemma discard_local_regs_wf:
  assumes wf: "opds_wf R s" shows "opds_wf R (discard_local_regs s)"
proof -
  have get: "regs_get (regs_discard_local m) ty = Some (LinkTemp p) \<longleftrightarrow> regs_get m ty = Some (LinkTemp p)" for m ty p
    by (cases ty) (auto simp: regs_discard_local_def discard_local_link_def split: option.splits register_link.splits)
  have "regs_ok (map so_reg (os_operands s)) (os_regs s)" using wf by (simp add: opds_wf_def)
  then have "regs_ok (map so_reg (os_operands s)) (regs_discard_local (os_regs s))" unfolding regs_ok_def get .
  then show ?thesis unfolding discard_local_regs_def by (rule opds_wf_regs [OF wf])
qed

text \<open>The two operations on the registers of local variables.\<close>

lemma local_regs_effect:
  assumes wf: "opds_wf R s"
  shows "no_temp s ty \<Longrightarrow> \<exists>s'. register_local_for_reg s ty i = Some s' \<and> opds_wf R s'"
    "(is_local_in_any_reg (os_regs s) i \<Longrightarrow> no_temp s ty) \<Longrightarrow> \<exists>s'. dealloc_local_for_reg s ty i = Some s' \<and> opds_wf R s'"
proof -
  have "\<exists>regs'. regs_put (os_regs s) ty link = Some regs'" if "ty \<noteq> V128" for link
    using that by (cases "regs_put (os_regs s) ty link") auto
  then have change: "\<exists>regs'. regs_put (os_regs s) ty link = Some regs' \<and> opds_wf R (s\<lparr>os_regs := regs'\<rparr>)"
    if "ty \<noteq> V128" "no_temp s ty" "\<And>p. link \<noteq> Some (LinkTemp p)" for link
    using regs_change_wf [OF wf that(2) _ that(3)] that(1) by blast
  show "\<exists>s'. register_local_for_reg s ty i = Some s' \<and> opds_wf R s'" if "no_temp s ty"
    using wf change [of "Some (LinkLocal i)"] that by (cases "ty = V128") (auto simp: register_local_for_reg_def regs_alloc_def)
  show "\<exists>s'. dealloc_local_for_reg s ty i = Some s' \<and> opds_wf R s'" if "is_local_in_any_reg (os_regs s) i \<Longrightarrow> no_temp s ty"
    using wf change [of None] that by (cases "ty = V128 \<or> \<not> is_local_in_any_reg (os_regs s) i") (auto simp: dealloc_local_for_reg_def regs_dealloc_def)
qed

lemma opds_act_wf:
  assumes wf: "opds_wf R s" and allowed: "opds_allowed act s"
  shows "case opds_act R act s of (Ok _, s') \<Rightarrow> opds_wf R s'
    | (Err e, _) \<Rightarrow> e = AllocatedTooManySlots \<and> (\<exists>ty. \<not> has_room s ty \<and> act \<in> range (\<lambda>i. ActPushLocal i ty) \<union> range (ActPushTemp ty) \<union> range (ActPushImmediate ty))
    | (Panic, _) \<Rightarrow> False"
proof (cases act)
  case (ActPushLocal i ty)
  obtain r s' where "push_local R s i ty = (r, s')" by fastforce
  then show ?thesis using push_local_effect [OF wf, of i ty] allowed ActPushLocal
    by (cases r) (auto split: if_splits)
next
  case (ActPushTemp ty alloc)
  have "alloc = AllocReg \<Longrightarrow> ty \<noteq> V128 \<and> (\<forall>p. regs_get (os_regs s) ty \<noteq> Some (LinkTemp p))"
    using allowed ActPushTemp no_tempD [of s ty] by auto
  note effect = push_temp_effect [OF wf, of alloc ty, OF this]
  obtain r s' where "push_temp R s ty alloc = (r, s')" by fastforce
  with effect show ?thesis
    by (cases r) (auto simp: ActPushTemp split: if_splits)
next
  case (ActPushImmediate ty v)
  then show ?thesis using push_immediate_effect [OF wf, of ty v] by (auto split: if_splits)
next
  case ActPop
  then obtain ops x where "os_operands s = ops @ [x]" using allowed by (cases "os_operands s" rule: rev_cases) auto
  from opds_pop_effect [OF wf this] show ?thesis by (auto simp: ActPop of_panic_def)
next
  case (ActToTemp depth)
  then show ?thesis using allowed operand_to_temp_at_effect [OF wf] to_temp_wf [OF wf]
    by (simp add: of_panic_def operand_to_temp_def depth_to_stack_pos_def opds_height_def)
next
  case (ActPreserveLocals i)
  then show ?thesis using allowed preserve_locals_collects [OF wf, of i] by (auto simp: of_panic_def)
next
  case (ActPreserveAllLocals skip)
  then show ?thesis using preserve_all_collects [OF wf, of skip] by (auto simp: of_panic_def)
next
  case (ActDeallocReg ty)
  then show ?thesis using allowed dealloc_reg_effect [OF wf, of ty] to_temp_wf [OF wf]
    by (auto simp: of_panic_def split: option.splits register_link.splits)
next
  case ActPreserveRegs
  have "\<exists>r s'. for_each_reg preserve_reg s = Some (r, s') \<and> opds_wf R s'"
    by (rule for_each_reg_wf [OF wf]) (use preserve_reg_effect in blast)
  then show ?thesis by (auto simp: ActPreserveRegs of_panic_def preserve_all_regs_def)
next
  case (ActPreserveTempRegs skip)
  have "\<exists>r s'. for_each_reg (\<lambda>s. preserve_temp_reg s n) s = Some (r, s') \<and> opds_wf R s'" for n
    by (rule for_each_reg_wf [OF wf]) (use preserve_temp_reg_effect in blast)
  then have "\<exists>r s'. preserve_all_temp_regs s skip = Some (r, s') \<and> opds_wf R s'"
    unfolding preserve_all_temp_regs_def Let_def by blast
  then show ?thesis by (auto simp: ActPreserveTempRegs of_panic_def)
next
  case (ActRegisterLocal ty i)
  then show ?thesis using allowed local_regs_effect(1) [OF wf, of ty i] by (auto simp: of_panic_def)
next
  case (ActDeallocLocal ty i)
  then show ?thesis using allowed local_regs_effect(2) [OF wf, of i ty] by (auto simp: of_panic_def)
next
  case ActDiscardLocals
  then show ?thesis using discard_local_regs_wf [OF wf] by simp
qed

subsection \<open>Registering local variables\<close>

lemma links_ok_empty: "links_ok [] heads \<longleftrightarrow> length heads < 2 ^ 32 \<and> set heads \<subseteq> {None}"
proof
  assume ok: "links_ok [] heads"
  have "heads ! j = None" if "j < length heads" for j
  proof -
    have "unat (of_nat j :: u32) = j" using ok that by (simp add: links_ok_def unat_of_nat take_bit_nat_eq_self)
    then show ?thesis using ok that by (auto simp: links_ok_def link_below_def split: option.splits dest!: spec [of _ "of_nat j"])
  qed
  then show "length heads < 2 ^ 32 \<and> set heads \<subseteq> {None}" using ok by (auto simp: links_ok_def in_set_conv_nth)
next
  assume "length heads < 2 ^ 32 \<and> set heads \<subseteq> {None}"
  moreover from this have "heads ! j = None" if "j < length heads" for j using that nth_mem [OF that] by blast
  ultimately show "links_ok [] heads" by (simp add: links_ok_def link_below_def)
qed

lemma opds_wf_default: "opds_wf R opds_default"
proof -
  have "regs_get regs_default ty = None" for ty by (cases ty) (simp_all add: regs_default_def)
  then show ?thesis by (simp add: opds_wf_def opds_default_def links_ok_empty placed_ok_def regs_ok_def)
qed

lemma opds_register_locals_wf:
  assumes wf: "opds_wf R s" and empty: "os_operands s = []"
  shows "case opds_register_locals s amount ty of
      (Ok _, s') \<Rightarrow> opds_wf R s' \<and> os_operands s' = [] \<and> length (os_local_heads s') = length (os_local_heads s) + amount
        \<and> unat (os_local_slots s') = unat (os_local_slots s) + amount * unat (required_cells_for_ty ty)
    | (Err e, _) \<Rightarrow> 2 ^ 16 \<le> unat (os_local_slots s) + amount * unat (required_cells_for_ty ty)
        \<and> e = (if amount < 2 ^ 16 then AllocatedTooManySlots else TooManyLocalVariables)
    | (Panic, _) \<Rightarrow> False"
proof -
  let ?c = "unat (required_cells_for_ty ty)"
  have le: "amount \<le> amount * ?c" using required_cells_bounds(1) [of ty] by simp
  show ?thesis
  proof (cases "unat (os_local_slots s) + amount * ?c < 2 ^ 16")
    case True
    then have small: "amount < 2 ^ 16" "amount * ?c < 2 ^ 16" using le by linarith+
    then have "unat (of_nat amount :: u16) = amount" by (simp add: unat_of_nat take_bit_nat_eq_self)
    then obtain m where m: "checked_mul (of_nat amount :: u16) (required_cells_for_ty ty) = Some m" "unat m = amount * ?c"
      using small by (cases "checked_mul (of_nat amount :: u16) (required_cells_for_ty ty)") (auto simp: checked_mul_None checked_mul_Some)
    then obtain v where v: "checked_add (os_local_slots s) m = Some v" "unat v = unat (os_local_slots s) + amount * ?c"
      using True by (cases "checked_add (os_local_slots s) m") (auto simp: checked_add_None checked_add_Some)
    let ?s' = "s\<lparr>os_local_heads := os_local_heads s @ replicate amount None, os_local_slots := v, os_temp_offset := v,
      os_max_offset := max (os_max_offset s) v\<rparr>"
    have run: "opds_register_locals s amount ty = (Ok (), ?s')"
      using small(1) m(1) v(1) by (simp add: opds_register_locals_def push_local_slots_def Let_def)
    have "unat v < 2 ^ LENGTH(16)" by (rule unsigned_less)
    moreover have "length (os_local_heads s) \<le> unat (os_local_slots s)" using wf by (simp add: opds_wf_def)
    then have "length (os_local_heads s) + amount \<le> unat v" using le v(2) by linarith
    ultimately have "opds_wf R ?s'"
      using wf by (auto simp: opds_wf_def empty links_ok_empty placed_ok_def word_le_nat_alt max_def)
    then show ?thesis using run empty v(2) by simp
  next
    case False
    show ?thesis
    proof (cases "amount < 2 ^ 16")
      case True
      then have u: "unat (of_nat amount :: u16) = amount" by (simp add: unat_of_nat take_bit_nat_eq_self)
      show ?thesis
      proof (cases "checked_mul (of_nat amount :: u16) (required_cells_for_ty ty)")
        case (Some m)
        then have "unat m = amount * ?c" by (simp add: checked_mul_Some u)
        then have "checked_add (os_local_slots s) m = None" using False by (simp add: checked_add_None)
        then show ?thesis using False True Some by (simp add: opds_register_locals_def push_local_slots_def Let_def)
      qed (use False True in \<open>simp add: opds_register_locals_def Let_def\<close>)
    qed (use False in \<open>simp add: opds_register_locals_def Let_def\<close>)
  qed
qed

fun register_all :: "(u32 \<times> val_type) list \<Rightarrow> 's func_locals \<Rightarrow> (translation_error, unit) res \<times> 's func_locals" where
  "register_all [] f = (Ok (), f)"
| "register_all ((amount, ty) # regs) f =
     (case register_locals f amount ty of (Ok _, f') \<Rightarrow> register_all regs f' | (e, f') \<Rightarrow> (e, f'))"

definition declared_tys :: "(u32 \<times> val_type) list \<Rightarrow> val_type list" where
  "declared_tys regs = concat (map (\<lambda>(amount, ty). replicate (unat amount) ty) regs)"

definition func_locals_inv :: "'w::len word slot_repr \<Rightarrow> val_type list \<Rightarrow> 'w word func_locals \<Rightarrow> bool" where
  "func_locals_inv R tys f \<longleftrightarrow> locals_inv (fl_locals f) tys \<and> layout_inv (fl_layout f) tys \<and> opds_wf R (fl_stack f)
     \<and> os_operands (fl_stack f) = [] \<and> unat (os_local_slots (fl_stack f)) = cells_of_tys tys
     \<and> length (os_local_heads (fl_stack f)) = length tys"

definition func_locals_default :: "'s func_locals" where
  "func_locals_default = \<lparr>fl_locals = locals_registry_default, fl_stack = opds_default, fl_layout = stack_layout_default\<rparr>"

lemma func_locals_inv_default: "func_locals_inv R [] func_locals_default"
  by (simp add: func_locals_inv_def func_locals_default_def locals_inv_default layout_inv_default opds_wf_default)
    (simp add: opds_default_def)

lemma func_locals_inv_register:
  assumes inv: "func_locals_inv R tys f"
  shows "case register_locals f amount ty of
      (Ok _, f') \<Rightarrow> func_locals_inv R (tys @ replicate (unat amount) ty) f'
    | (Err e, _) \<Rightarrow> (e = TooManyFunctionParams \<and> LOCAL_VARIABLES_MAX < length tys + unat amount)
        \<or> (e = AllocatedTooManySlots \<and> length tys + unat amount \<le> LOCAL_VARIABLES_MAX \<and> 2 ^ 16 \<le> cells_of_tys (tys @ replicate (unat amount) ty))
    | (Panic, _) \<Rightarrow> False"
proof -
  have l: "locals_inv (fl_locals f) tys" and y: "layout_inv (fl_layout f) tys" and s: "opds_wf R (fl_stack f)" "os_operands (fl_stack f) = []"
    using inv by (simp_all add: func_locals_inv_def)
  obtain r1 locals where r1: "locals_register (fl_locals f) (unat amount) ty = (r1, locals)" by fastforce
  obtain r2 stack where r2: "opds_register_locals (fl_stack f) (unat amount) ty = (r2, stack)" by fastforce
  obtain r3 layout where r3: "layout_register_locals (fl_layout f) (unat amount) ty = (r3, layout)" by fastforce
  note e1 = locals_inv_register [OF l, of "unat amount" ty, unfolded r1]
  note e2 = opds_register_locals_wf [OF s, of "unat amount" ty, unfolded r2]
  note e3 = layout_inv_register [OF y, of "unat amount" ty, unfolded r3]
  show ?thesis
  proof (cases r1)
    case (Ok x)
    then have "unat amount \<le> 30000" using e1 by (simp add: LOCAL_VARIABLES_MAX_def)
    then show ?thesis using Ok e1 e2 e3 inv
      by (cases r2; cases r3) (auto simp: register_locals_def r1 r2 r3 func_locals_inv_def)
  qed (use e1 in \<open>auto simp: register_locals_def r1\<close>)
qed

lemma register_all_inv:
  assumes "func_locals_inv R tys f"
  shows "case register_all regs f of
      (Ok _, f') \<Rightarrow> func_locals_inv R (tys @ declared_tys regs) f'
    | (Err e, _) \<Rightarrow> (e = TooManyFunctionParams \<and> LOCAL_VARIABLES_MAX < length (tys @ declared_tys regs))
        \<or> (e = AllocatedTooManySlots \<and> 2 ^ 16 \<le> cells_of_tys (tys @ declared_tys regs))
    | (Panic, _) \<Rightarrow> False"
  using assms
proof (induction regs arbitrary: tys f)
  case (Cons reg regs)
  obtain amount ty where reg: "reg = (amount, ty)" by fastforce
  obtain r f' where run: "register_locals f amount ty = (r, f')" by fastforce
  note step = func_locals_inv_register [OF Cons.prems, of amount ty, unfolded run]
  show ?case
  proof (cases r)
    case (Ok x)
    then have "func_locals_inv R (tys @ replicate (unat amount) ty) f'" using step by simp
    moreover have "tys @ declared_tys (reg # regs) = (tys @ replicate (unat amount) ty) @ declared_tys regs" by (simp add: reg declared_tys_def)
    ultimately show ?thesis using Cons.IH [of "tys @ replicate (unat amount) ty" f'] by (simp only: reg run Ok register_all.simps prod.case res.case)
  qed (use step in \<open>auto simp: reg run declared_tys_def\<close>)
qed (simp add: declared_tys_def)

subsection \<open>Properties\<close>

inductive opds_reachable :: "'w::len word slot_repr \<Rightarrow> 'w word operand_stack \<Rightarrow> bool" for R where
  empty: "opds_reachable R opds_default"
| locals: "opds_reachable R s \<Longrightarrow> os_operands s = [] \<Longrightarrow> opds_register_locals s amount ty = (Ok (), s') \<Longrightarrow> opds_reachable R s'"
| act: "opds_reachable R s \<Longrightarrow> opds_allowed act s \<Longrightarrow> opds_act R act s = (Ok (), s') \<Longrightarrow> opds_reachable R s'"

lemma opds_reachable_wf: "opds_reachable R s \<Longrightarrow> opds_wf R s"
proof (induction rule: opds_reachable.induct)
  case (locals s amount ty s')
  then show ?case using opds_register_locals_wf [of R s amount ty] by simp
next
  case (act s act s')
  then show ?case using opds_act_wf [of R s act] by simp
qed (rule opds_wf_default)


definition one_local :: "u16 operand_stack" where
  "one_local = snd (opds_register_locals opds_default 1 I32)"

definition local_and_constant :: "u16 operand_stack" where
  "local_and_constant = snd (opds_act slot16 (ActPushImmediate I32 (from_bits64 7)) (snd (opds_act slot16 (ActPushLocal 0 I32) one_local)))"

lemma local_and_constant_eq:
  "local_and_constant = \<lparr>os_operands = [StackLocal 1 I32 0 None None, StackImmediate 2 I32 (from_bits64 7)], os_local_heads = [Some 0],
     os_len_locals = 1, os_local_slots = 1, os_temp_offset = 3, os_max_offset = 3, os_regs = regs_default\<rparr>"
  by (simp add: local_and_constant_def one_local_def opds_register_locals_def opds_default_def push_local_slots_def checked_mul_def checked_add_def
      required_cells_for_ty_def push_local_def replace_first_def push_temp_offset_def slot16_def push_immediate_def Let_def max_def)

lemma local_and_constant_reachable: "opds_reachable slot16 local_and_constant"
proof -
  have "opds_reachable slot16 one_local"
    by (rule opds_reachable.locals [OF opds_reachable.empty, of 1 I32])
      (simp_all add: one_local_def opds_register_locals_def opds_default_def push_local_slots_def checked_mul_def checked_add_def required_cells_for_ty_def)
  then have "opds_reachable slot16 (snd (opds_act slot16 (ActPushLocal 0 I32) one_local))"
    by (rule opds_reachable.act [where act = "ActPushLocal 0 I32"])
      (simp_all add: one_local_def opds_register_locals_def opds_default_def push_local_slots_def checked_mul_def checked_add_def
        required_cells_for_ty_def push_local_def replace_first_def push_temp_offset_def Let_def)
  then show ?thesis unfolding local_and_constant_def
    by (rule opds_reachable.act [where act = "ActPushImmediate I32 (from_bits64 7)"])
      (simp_all add: one_local_def opds_register_locals_def opds_default_def push_local_slots_def checked_mul_def checked_add_def
        required_cells_for_ty_def push_local_def replace_first_def push_temp_offset_def push_immediate_def Let_def)
qed


text \<open>
  C13: preserving a local variable before it is set. The operands that stand for it are yielded from the
  top to the bottom of the stack, each with its own temporary cells, and become temporaries in these
  cells; the other operands, the cells in use and the registers stay as they are. Afterwards no operand
  stands for the variable.
\<close>

theorem preserve_locals_effect:
  assumes "opds_wf R s" "unat i < length (os_local_heads s)"
  shows "\<exists>s'. preserve_locals s i = Some (map (yielded (is_local_in_any_reg (os_regs s) i)) (rev (filter (\<lambda>x. local_of x = Some i) (opds_view s))), s')
    \<and> opds_wf R s' \<and> opds_view s' = preserve_view i (opds_view s) \<and> same_frame s s'
    \<and> (\<forall>x. x \<in> set (opds_view s') \<longrightarrow> local_of x \<noteq> Some i)"
proof -
  have "\<forall>x. x \<in> set (preserve_view i (opds_view s)) \<longrightarrow> local_of x \<noteq> Some i" by (auto simp: preserve_view_def as_temp_def)
  then show ?thesis using preserve_locals_collects [OF assms] by metis
qed

theorem preserve_locals_effect_witness:
  "\<exists>s'. preserve_locals local_and_constant 0 = Some ([\<lparr>lo_temp_slots = 1, lo_ty = I32, lo_local_index = 0, lo_in_reg = False\<rparr>], s')
    \<and> opds_view s' = [StackTemp 1 I32 False, StackImmediate 2 I32 (from_bits64 7)]"
proof -
  have "unat (0 :: u32) < length (os_local_heads local_and_constant)" by (simp add: local_and_constant_eq)
  from preserve_locals_effect [OF opds_reachable_wf [OF local_and_constant_reachable] this] show ?thesis
    by (auto simp: local_and_constant_eq opds_view_def preserve_view_def as_temp_def yielded_def is_local_in_any_reg_def is_local_in_reg_def regs_default_def)
qed

lemma all_temp_no_local: "x \<in> set (all_temp v) \<Longrightarrow> local_of x = None"
  by (auto simp: all_temp_def as_temp_def split: if_splits)

lemma count_locals_0: "count_locals v = 0 \<longleftrightarrow> (\<forall>x. x \<in> set v \<longrightarrow> local_of x = None)"
  by (auto simp: count_locals_def filter_empty_conv)

lemma count_take_all_temp: "count_locals (take m (all_temp v)) = 0"
  unfolding count_locals_0 by (blast dest: in_set_takeD all_temp_no_local)

text \<open>
  C12: preserving all local variables before a block of code whose parameters are the top-most \<open>skip\<close>
  operands. The operands below a position become temporaries, and are yielded from top to bottom; the
  position is the one that has exactly \<open>skip\<close> operands of local variables above it, or the bottom if
  there are not so many. So the operands below the parameters are all preserved only if the parameters are
  all operands of local variables, or if there are no others below; otherwise an operand below the
  parameters still stands for its local variable inside the block.
\<close>

theorem preserve_all_locals_effect:
  assumes wf: "opds_wf R s" and skip: "skip \<le> opds_height s"
  shows "\<exists>k s'. preserve_all_locals s skip = Some (yielded_all (os_regs s) (take k (opds_view s)), s')
    \<and> opds_view s' = all_temp (take k (opds_view s)) @ drop k (opds_view s)
    \<and> count_locals (drop k (opds_view s)) = min skip (count_locals (opds_view s)) \<and> opds_wf R s' \<and> same_frame s s'
    \<and> (count_locals (take (opds_height s - skip) (opds_view s')) = 0 \<longleftrightarrow>
        count_locals (drop (opds_height s - skip) (opds_view s)) = skip \<or> count_locals (take (opds_height s - skip) (opds_view s)) = 0)"
proof -
  let ?v = "opds_view s" and ?m = "opds_height s - skip"
  from preserve_all_collects [OF wf, of skip] obtain k s' where k: "k \<le> length ?v" "count_locals (drop k ?v) = min skip (count_locals ?v)"
    "preserve_all_locals s skip = Some (yielded_all (os_regs s) (take k ?v), s')" "opds_wf R s'"
    "opds_view s' = all_temp (take k ?v) @ drop k ?v" "same_frame s s'" by blast
  have len: "length ?v = opds_height s" by (simp add: opds_view_nth opds_height_def)
  have rest: "count_locals (take ?m (opds_view s')) = count_locals (take (?m - k) (drop k ?v))"
    using k(1) count_take_all_temp [of ?m "take k ?v"] by (simp add: k(5) min_def) (simp add: all_temp_def min_def)
  have split: "count_locals ?v = count_locals (take n ?v) + count_locals (drop n ?v)" for n
    using count_locals_simps(3) [of "take n ?v" "drop n ?v"] by simp
  have le: "count_locals xs \<le> length xs" for xs :: "'a word stack_operand list" by (simp add: count_locals_def)
  have "count_locals (take (?m - k) (drop k ?v)) = 0 \<longleftrightarrow> count_locals (drop ?m ?v) = skip \<or> count_locals (take ?m ?v) = 0"
  proof (cases "k \<le> ?m")
    case True
    have "drop k ?v = take (?m - k) (drop k ?v) @ drop ?m ?v" using True by (metis append_take_drop_id drop_drop le_add_diff_inverse2)
    then have "count_locals (drop k ?v) = count_locals (take (?m - k) (drop k ?v)) + count_locals (drop ?m ?v)"
      by (metis count_locals_simps(3))
    moreover have "count_locals (drop ?m ?v) \<le> skip" using le [of "drop ?m ?v"] len skip by simp
    moreover have "count_locals (take (?m - k) (drop k ?v)) \<le> count_locals (take ?m ?v)"
      using calculation(1) split [of k] split [of ?m] by linarith
    ultimately show ?thesis using k(2) split [of ?m] by (auto simp: min_def split: if_splits)
  next
    case False
    have "count_locals (drop k ?v) < skip" using le [of "drop k ?v"] len skip False k(1) by (simp add: not_le)
    then have "count_locals (drop k ?v) = count_locals ?v" using k(2) by linarith
    then have "count_locals (take k ?v) = 0" using split [of k] by linarith
    moreover have "take ?m ?v = take ?m (take k ?v)" using False by (simp add: min_def)
    then have "set (take ?m ?v) \<subseteq> set (take k ?v)" using set_take_subset by metis
    ultimately have "count_locals (take ?m ?v) = 0" by (auto simp: count_locals_0)
    then show ?thesis using False by simp
  qed
  then show ?thesis using k rest by (intro exI [of _ k] exI [of _ s']) simp
qed

theorem preserve_all_locals_effect_witness:
  "\<exists>k s'. preserve_all_locals local_and_constant 1 = Some (yielded_all regs_default (take k (opds_view local_and_constant)), s')
    \<and> count_locals (take 1 (opds_view s')) \<noteq> 0"
proof -
  have "(1 :: nat) \<le> opds_height local_and_constant" by (simp add: local_and_constant_eq opds_height_def)
  from preserve_all_locals_effect [OF opds_reachable_wf [OF local_and_constant_reachable] this] show ?thesis
    by (auto simp: local_and_constant_eq opds_height_def opds_view_def)
qed

text \<open>
  C14: registering the parameters and local variables of a function. Registration succeeds exactly if
  there are at most 30000 variables and their cells fit below \<open>2 ^ 16\<close>; it never panics, and never fails with
  \<open>TooManyLocalVariables\<close>. Then every variable has the type of its declaration, other indices panic, the cells of a variable
  begin behind the ones of the variables before it, and all of them are below the first temporary cell.
\<close>

theorem locals_registered:
  "case register_all regs (func_locals_default :: 'w::len word func_locals) of
     (Ok _, f) \<Rightarrow> length (declared_tys regs) \<le> LOCAL_VARIABLES_MAX \<and> cells_of_tys (declared_tys regs) < 2 ^ 16
       \<and> opds_wf R (fl_stack f) \<and> unat (os_temp_offset (fl_stack f)) = cells_of_tys (declared_tys regs)
       \<and> (\<forall>i. locals_ty (fl_locals f) i = get_opt (declared_tys regs) (unat i))
       \<and> (\<forall>i. unat i < length (declared_tys regs) \<longrightarrow>
            local_to_slot R (fl_layout f) i = Ok (slot_from_u16 R (of_nat (cells_of_tys (take (unat i) (declared_tys regs)))))
            \<and> (\<forall>j. unat i < j \<and> j \<le> length (declared_tys regs) \<longrightarrow>
                cells_of_tys (take (unat i) (declared_tys regs)) + unat (required_cells_for_ty (declared_tys regs ! unat i))
                  \<le> cells_of_tys (take j (declared_tys regs))))
   | (Err e, _) \<Rightarrow> (e = TooManyFunctionParams \<and> LOCAL_VARIABLES_MAX < length (declared_tys regs))
       \<or> (e = AllocatedTooManySlots \<and> 2 ^ 16 \<le> cells_of_tys (declared_tys regs))
   | (Panic, _) \<Rightarrow> False"
proof -
  let ?tys = "declared_tys regs"
  obtain r f where run: "register_all regs (func_locals_default :: 'w word func_locals) = (r, f)" by fastforce
  note inv = register_all_inv [OF func_locals_inv_default [of R], of regs, unfolded run, simplified]
  show ?thesis
  proof (cases r)
    case (Ok x)
    then have f: "func_locals_inv R ?tys f" using inv by simp
    then have l: "locals_inv (fl_locals f) ?tys" and y: "layout_inv (fl_layout f) ?tys" by (simp_all add: func_locals_inv_def)
    have "unat (min_temp_offset (fl_layout f)) < 2 ^ LENGTH(16)" by (rule unsigned_less)
    then have "cells_of_tys ?tys < 2 ^ 16" "length ?tys \<le> LOCAL_VARIABLES_MAX" using l y by (simp_all add: layout_inv_def locals_inv_def)
    moreover have "opds_wf R (fl_stack f)" "unat (os_temp_offset (fl_stack f)) = cells_of_tys ?tys"
      using f by (auto simp: func_locals_inv_def opds_wf_def)
    ultimately show ?thesis
      using locals_ty_lookup [OF l] local_to_slot_cells [OF y, of _ R] cells_of_take_less [of _ _ ?tys] by (auto simp: run Ok)
  qed (use inv in \<open>simp_all add: run\<close>)
qed

theorem locals_registered_witness:
  "case register_all [(2, I64), (1, V128), (1, I32)] (func_locals_default :: u16 func_locals) of
     (Ok _, f) \<Rightarrow> locals_ty (fl_locals f) 2 = Some V128 \<and> local_to_slot slot16 (fl_layout f) 3 = Ok 4
   | (Err e, _) \<Rightarrow> False
   | (Panic, _) \<Rightarrow> False"
proof -
  let ?regs = "[(2, I64), (1, V128), (1, I32)] :: (u32 \<times> val_type) list"
  have tys: "declared_tys ?regs = [I64, I64, V128, I32]" by (simp add: declared_tys_def) (simp add: numeral_2_eq_2)
  obtain r f where run: "register_all ?regs (func_locals_default :: u16 func_locals) = (r, f)" by fastforce
  note reg = locals_registered [of ?regs slot16, unfolded run tys]
  show ?thesis
  proof (cases r)
    case (Ok x)
    with reg have "\<forall>i. locals_ty (fl_locals f) i = get_opt [I64, I64, V128, I32] (unat i)"
      "unat (3 :: u32) < length [I64, I64, V128, I32] \<longrightarrow> local_to_slot slot16 (fl_layout f) 3
        = Ok (slot_from_u16 slot16 (of_nat (cells_of_tys (take (unat (3 :: u32)) [I64, I64, V128, I32]))))" by auto
    then show ?thesis unfolding run Ok by (simp add: get_opt_def slot16_def required_cells_for_ty_def)
  qed (use reg in \<open>simp_all add: run LOCAL_VARIABLES_MAX_def required_cells_for_ty_def\<close>)
qed

end
