(* ===== verification/Spec2Isabelle.thy ===== *)
theory Spec2Isabelle
  imports Memory_Access Exec_Run Operand_Links
begin

text \<open>
  A verification development of the WebAssembly interpreter \<open>wasmi\<close>.

  \<^bold>\<open>The program.\<close> \<open>wasmi\<close> is a workspace of crates. \<open>crates/core\<close> holds the runtime entities that do not
  depend on an engine: integer and float instructions, linear memories, tables, fuel, resource
  limiters and traps. \<open>crates/collections\<close> holds arenas and maps, \<open>crates/ir\<close> the bytecode: stack
  slots, spans of slots, operators and their encoding. \<open>crates/wasmi\<close> is the engine: module parsing,
  a translator from Wasm to the bytecode, an executor that runs the bytecode on a stack of cells
  and a stack of frames, the store that owns all entities in arenas, instances and the linker. A
  running instruction handler reads and writes cells of the current frame through slots, asks the
  stack for frames of called functions, and calls the operations of memories and tables, which in
  turn ask the limiter of the store and charge fuel.

  \<^bold>\<open>The theories.\<close>
  \<^item> \<open>Prelude\<close>: machine integers of Rust (checked, saturating, converting operations, shifts),
    outcomes (\<open>Ok\<close>, \<open>Err\<close> and \<open>Panic\<close>), slices, growth of a \<open>Vec\<close>, copies inside a list.
  \<^item> \<open>Fuel\<close> (\<open>core/src/fuel.rs\<close>): costs, the provider of costs, the counter. Charges are accounted
    exactly; the cost of bulk operations in closed form.
  \<^item> \<open>Limits\<close> (\<open>core/src/limiter.rs\<close>, \<open>wasmi/src/limits.rs\<close>): the limiter interface as a record of methods
    over a limiter state \<open>'l\<close>, the default limiter \<open>StoreLimits\<close> and its builder.
  \<^item> \<open>Memory_Type\<close> (\<open>core/src/memory/ty.rs\<close>, \<open>core/src/index_ty.rs\<close>): memory types, the builder's
    validation, which decides well-formedness, and import subtyping as inclusion of sizes.
  \<^item> \<open>Byte_Buffer\<close>, \<open>Linear_Memory\<close> (\<open>core/src/memory\<close>): the buffer with its invariant, memories with
    creation, growth under a limiter and fuel, reading and writing.
  \<^item> \<open>Memory_Access\<close> (\<open>core/src/memory/access.rs\<close>, \<open>core/src/wasm.rs\<close>): loads and stores of every width.
  \<^item> \<open>Ref_Table\<close> (\<open>core/src/table\<close>): table types, element segments, growth, \<open>get\<close>, \<open>set\<close>, \<open>init\<close>, \<open>copy\<close>,
    \<open>fill\<close>.
  \<^item> \<open>Traps\<close> (\<open>core/src/trap.rs\<close>) and \<open>Wasm_Integers\<close> (\<open>core/src/value.rs\<close>, \<open>core/src/wasm.rs\<close>,
    \<open>core/src/shift_amount.rs\<close>): trap codes and all integer instructions, related to arithmetic on
    integers.
  \<^item> \<open>Arena\<close> (\<open>collections/src/arena\<close>, \<open>collections/src/head_vec.rs\<close>): arenas over every key type,
    deduplicating arenas, component vectors and head vectors with their abstractions.
  \<^item> \<open>Slots\<close> (\<open>ir/src/index.rs\<close>, \<open>ir/src/span.rs\<close>): slots in both representations, spans and iterators.
  \<^item> \<open>Exec_Stack\<close> (\<open>wasmi/src/engine/executor/handler/state.rs\<close>, \<open>executor/inout.rs\<close>,
    \<open>engine/limits/stack.rs\<close>): value stack, call stack and the operations that set up and remove the
    frames of Wasm calls, tail calls, host calls and host tail calls. The call stack refines a list of
    activations.
  \<^item> \<open>Values\<close> (\<open>wasmi/src/value.rs\<close>, \<open>reftype.rs\<close>, \<open>store/id.rs\<close>, \<open>executor/handler/cell.rs\<close>,
    \<open>core/src/raw.rs\<close>): values of the embedder, their raw form and their cells on the value stack, with
    round trips and the check of the owning store.
  \<^item> \<open>Copy_Span\<close> (\<open>executor/handler/utils.rs\<close>): copies of spans of slots inside a frame, which end and
    move the cells whatever the overlap.
  \<^item> \<open>Func_Entry\<close> and \<open>Code_Map\<close> (\<open>wasmi/src/engine/code_map\<close>): the entry of a function with its states,
    lazy compilation by any number of threads as interleaved steps, and the append-only bucketed
    collection of entries with the views that executions hold.
  \<^item> \<open>Ir_Codec\<close> (\<open>ir/src/encode.rs\<close>, \<open>decode/mod.rs\<close>, \<open>primitive.rs\<close>): the encodings of the operands of
    bytecode operators and their decoders.
  \<^item> \<open>Op_Encoder\<close> and \<open>Branch_Offsets\<close> (\<open>wasmi/src/engine/translator/func/encoder.rs\<close>, \<open>labels.rs\<close>): the
    encoder of the translator with labels, staged operators, branches and fuel of blocks; an invariant
    of all sequences of calls, and the final pass over the branch offsets.
  \<^item> \<open>Func_Locals\<close>, \<open>Operand_Stack\<close> and \<open>Operand_Links\<close> (\<open>wasmi/src/engine/translator/func/locals.rs\<close>, \<open>layout.rs\<close>,
    \<open>stack\<close>): types and cells of the local variables of a function, and the operand stack of the
    translator with its linked lists of local operands and its registers; the invariant of all sequences
    of operations, and the effect of preserving local variables on the plain list of operands.
  \<^item> \<open>Store\<close> (\<open>wasmi/src/store\<close>, \<open>instance/mod.rs\<close>, \<open>func/mod.rs\<close>, \<open>memory/data.rs\<close>, \<open>core/src/global.rs\<close>):
    the arenas of entities, handles and their resolution, globals, data segments, function and
    instance entities.
  \<^item> \<open>Func_Type\<close> (\<open>core/src/func_type.rs\<close>, \<open>wasmi/src/func/ty.rs\<close>, \<open>engine/func_types.rs\<close>): function types, checks of
    values against them, and the registry whose keys decide the equality of signatures.
  \<^item> \<open>Exec_Args\<close> (\<open>executor/handler/args.rs\<close>, \<open>state.rs\<close>, \<open>utils.rs\<close>, \<open>dispatch/mod.rs\<close>): the arguments and the
    state of running handlers, breaks, instruction pointers, operands, entities of the instance and the
    cached default memory.
  \<^item> \<open>Exec_Branch\<close> (\<open>executor/handler/exec.rs\<close>, \<open>translator/func/mod.rs\<close>): branches and branch tables from
    their encoding to the label they reach when they run.
  \<^item> \<open>Exec_Bulk\<close> (\<open>executor/handler/exec.rs\<close>): the handlers of memories, tables, segments and globals. The
    bulk operations on memories refine one write that happens completely or not at all.
  \<^item> \<open>Exec_Calls\<close> (\<open>executor/handler/utils.rs\<close>, \<open>args.rs\<close>, \<open>exec.rs\<close>, \<open>store/pruned.rs\<close>): calls, tail calls and
    returns between Wasm and host functions, with lazy compilation. The invariant of a running
    execution ties the current instance to the activation and the cached memory to the instance.
  \<^item> \<open>Exec_Run\<close> (\<open>executor/handler/dispatch\<close>, \<open>func.rs\<close>, \<open>executor/mod.rs\<close>, \<open>engine/resumable.rs\<close>, \<open>func/mod.rs\<close>): the
    dispatch loop as a partial function that is equivalent to chains of handler steps, calls of Wasm and
    host functions by the embedder, and resumption after an error of a host function or without fuel.

  \<^bold>\<open>How the model corresponds to the code.\<close> A struct is a \<open>record\<close>, an enum a \<open>datatype\<close>, an integer of
  \<open>w\<close> bits a \<open>w word\<close>; the target is a 64 bit platform. An operation that takes \<open>&mut self\<close> returns its
  result and the new state, with the result first; the state on an error is the state the code leaves
  behind. \<open>Result\<close> is \<open>Ok\<close> and \<open>Err\<close>; a panic (also an \<open>unreachable_unchecked!\<close> that is reached) is
  \<open>Panic\<close>. Debug assertions are not part of the model. Compile time features are boolean arguments
  (\<open>memory64\<close> addressing) or a choice of representation (16 or 32 bit slots). The system allocator is
  a parameter that grants or refuses a number of bytes; the methods of a user supplied limiter are
  the fields of a record. Contents of memory that the code exposes without initializing it is a
  parameter. Code that is not part of the sources is a parameter too: the translator of a function
  (\<open>compile_env\<close>), host functions and the call hook (\<open>call_env\<close>), which may change the store and the code
  map in any way, the table of operator handlers and their addresses, and the generated operators, which are lists of
  encoded fields. A handler is an action on the state of the execution: it continues, breaks with a reason, panics,
  diverges (a compilation that never ends) or leaves what Rust defines (\<open>Undefined\<close>). All definitions are executable. Loops are over lists or have a structural measure, so no fuel is
  needed, except \<open>span_collect\<close> and \<open>iter_collect\<close>, which drain an iterator and get the number of steps,
  shown to be enough; the loops that may run forever (copies of spans, waiting for a compilation) are
  partial functions, shown to return; a program may run forever, and then the dispatch loop is \<open>None\<close>.

  \<^bold>\<open>Interfaces.\<close> \<open>lawful_key\<close> (a conversion between keys and indices, for the four key types),
  \<open>slot_laws\<close> (a slot representation, for both), \<open>activation_stack\<close> (call, tail call and return on
  activations, for the call stack), \<open>codec\<close>, \<open>codec_pair\<close> and \<open>codec_conv\<close> (an encoding of fixed width, for
  every operand type), \<open>store_part\<close> (an arena inside the store, for the seven kinds of entities) state
  what a component relies on; client lemmas are proved once in the locale.

  \<^bold>\<open>Not modelled.\<close> Floating point and vector instructions, the operator type (generated by a build
  script), the handlers of single instructions, the translator except its encoder, its branch tables, its locals and its operand stack,
  the linker and instantiation,
  the module parser (a driver of the external crate \<open>wasmparser\<close>), the tracing JIT (a client of an
  external framework), C bindings and the applications.

  \<^bold>\<open>Order of extension.\<close> The handlers of single instructions; the control stack of the translator;
  instantiation.
\<close>

end
